(* ===== verification/Kernel_Prelude.thy ===== *)
theory Kernel_Prelude
  imports Main "HOL-Library.Word"
begin

text \<open>
  Shared vocabulary of the development: the machine integer types, the ways a
  kernel operation can fail to return, byte-addressed memory, and the generic
  lemmas and automation the component theories use.

  An operation of the kernel that can stop the machine returns a value of
  \<open>'a outcome\<close>: \<open>Inr\<close> of its result, or \<open>Inl\<close> of the reason it never returns.
  \<open>ASSERT\<close> models the macro of \<^verbatim>\<open>kernel/debug.h\<close> (and \<open>assert\<close> of
  \<^verbatim>\<open>lib/user/assert.h\<close>), which spins forever when its condition is false.
\<close>

unbundle bit_operations_syntax

named_theorems outcome_simps \<open>how results flow through the outcome type\<close>
named_theorems mem_simps \<open>loads and stores of byte memory\<close>

type_synonym u8 = "8 word"
type_synonym u16 = "16 word"
type_synonym u32 = "32 word"

subsection \<open>Outcomes\<close>

datatype trap =
    AssertFail   \<comment> \<open>a false \<open>ASSERT\<close> / \<open>assert\<close>: \<open>panic_spin\<close> never returns\<close>
  | Panic        \<comment> \<open>an explicit \<open>PANIC\<close>\<close>
  | BadAccess    \<comment> \<open>an access to memory that is not mapped, or outside an object\<close>
  | DivError     \<comment> \<open>a division by zero\<close>
  | Spins        \<comment> \<open>a loop whose condition never becomes false\<close>
  | Blocks       \<comment> \<open>the caller gives up the processor before the call is complete\<close>

type_synonym 'a outcome = "trap + 'a"

definition andThen :: "'a outcome \<Rightarrow> ('a \<Rightarrow> 'b outcome) \<Rightarrow> 'b outcome" where
  "andThen m f = (case m of Inl t \<Rightarrow> Inl t | Inr a \<Rightarrow> f a)"

definition ASSERT :: "bool \<Rightarrow> 'a outcome \<Rightarrow> 'a outcome" where
  "ASSERT c m = (if c then m else Inl AssertFail)"

subsection \<open>Byte memory\<close>

text \<open>
  A memory maps addresses to bytes; an address that is not mapped faults. The
  address space has 4 GiB, so a pointer that runs past its end faults as well,
  which is why every scan of a string ends.
\<close>

type_synonym mem = "nat \<Rightarrow> u8 option"

abbreviation addr_limit :: nat where
  "addr_limit \<equiv> 4294967296"

definition load :: "mem \<Rightarrow> nat \<Rightarrow> u8 outcome" where
  "load m a = (if a < addr_limit
     then (case m a of Some b \<Rightarrow> Inr b | None \<Rightarrow> Inl BadAccess) else Inl BadAccess)"

definition store :: "mem \<Rightarrow> nat \<Rightarrow> u8 \<Rightarrow> mem outcome" where
  "store m a v = (if a < addr_limit
     then (case m a of Some _ \<Rightarrow> Inr (m(a \<mapsto> v)) | None \<Rightarrow> Inl BadAccess) else Inl BadAccess)"

text \<open>The bytes of a string literal of the source.\<close>

definition bytes :: "string \<Rightarrow> u8 list" where
  "bytes s = map of_char s"

text \<open>
  Specification vocabulary: the \<open>n\<close> addresses from \<open>p\<close> on; a region that is
  mapped; a region that holds given bytes; a C string (its bytes are not 0 and
  a 0 byte follows them).
\<close>

definition region :: "nat \<Rightarrow> nat \<Rightarrow> nat set" where
  "region p n = {p..<p + n}"

definition mapped :: "mem \<Rightarrow> nat \<Rightarrow> nat \<Rightarrow> bool" where
  "mapped m p n \<longleftrightarrow> p + n \<le> addr_limit \<and> (\<forall>i<n. m (p + i) \<noteq> None)"

definition holds :: "mem \<Rightarrow> nat \<Rightarrow> u8 list \<Rightarrow> bool" where
  "holds m p bs \<longleftrightarrow> p + length bs \<le> addr_limit \<and> (\<forall>i<length bs. m (p + i) = Some (bs ! i))"

definition cstr :: "mem \<Rightarrow> nat \<Rightarrow> u8 list \<Rightarrow> bool" where
  "cstr m p s \<longleftrightarrow> 0 \<notin> set s \<and> holds m p (s @ [0])"

text \<open>Writing a list of bytes at an address, as a specification of the copy loops.\<close>

definition put_bytes :: "mem \<Rightarrow> nat \<Rightarrow> u8 list \<Rightarrow> mem" where
  "put_bytes m p bs = (\<lambda>a. if p \<le> a \<and> a < p + length bs then Some (bs ! (a - p)) else m a)"

subsection \<open>Lemmas on outcomes\<close>

lemma andThen_simps [simp, outcome_simps]:
  "andThen (Inr a) f = f a"
  "andThen (Inl t) f = Inl t"
  by (simp_all add: andThen_def)

lemma andThen_cong [fundef_cong]:
  "m = m' \<Longrightarrow> (\<And>a. m' = Inr a \<Longrightarrow> f a = g a) \<Longrightarrow> andThen m f = andThen m' g"
  by (auto simp: andThen_def split: sum.splits)

lemma ASSERT_cong [fundef_cong]:
  "c = c' \<Longrightarrow> (c' \<Longrightarrow> m = m') \<Longrightarrow> ASSERT c m = ASSERT c' m'"
  by (simp add: ASSERT_def)

lemma andThen_eq_Inr [outcome_simps]:
  "andThen m f = Inr b \<longleftrightarrow> (\<exists>a. m = Inr a \<and> f a = Inr b)"
  by (cases m) auto

lemma andThen_eq_Inl [outcome_simps]:
  "andThen m f = Inl t \<longleftrightarrow> m = Inl t \<or> (\<exists>a. m = Inr a \<and> f a = Inl t)"
  by (cases m) auto

lemma ASSERT_simps [simp, outcome_simps]:
  "ASSERT True m = m"
  "ASSERT False m = Inl AssertFail"
  by (simp_all add: ASSERT_def)

lemma ASSERT_eq_Inr [outcome_simps]: "ASSERT c m = Inr a \<longleftrightarrow> c \<and> m = Inr a"
  by (simp add: ASSERT_def)

lemma andThen_assoc: "andThen (andThen m f) g = andThen m (\<lambda>a. andThen (f a) g)"
  by (cases m) auto

subsection \<open>Lemmas on memory\<close>

lemma load_Inr [mem_simps]: "load m a = Inr b \<longleftrightarrow> a < addr_limit \<and> m a = Some b"
  by (auto simp: load_def split: option.splits)

lemma load_in_range: "load m a = Inr b \<Longrightarrow> a < addr_limit"
  by (simp add: load_Inr)

lemma store_Inr [mem_simps]:
  "store m a v = Inr m' \<longleftrightarrow> a < addr_limit \<and> m a \<noteq> None \<and> m' = m(a \<mapsto> v)"
  by (auto simp: store_def split: option.splits)

lemma store_ok: "a < addr_limit \<Longrightarrow> m a \<noteq> None \<Longrightarrow> store m a v = Inr (m(a \<mapsto> v))"
  by (auto simp: store_def)

lemma holds_load: "holds m p bs \<Longrightarrow> i < length bs \<Longrightarrow> load m (p + i) = Inr (bs ! i)"
  by (simp add: holds_def load_def)

lemma holds_Nil [simp]: "holds m p [] \<longleftrightarrow> p \<le> addr_limit"
  by (simp add: holds_def)

lemma holds_Cons:
  "holds m p (b # bs) \<longleftrightarrow> p < addr_limit \<and> m p = Some b \<and> holds m (Suc p) bs"
  by (auto simp: holds_def All_less_Suc2)

lemma holds_append:
  "holds m p (xs @ ys) \<longleftrightarrow> holds m p xs \<and> holds m (p + length xs) ys"
  by (induction xs arbitrary: p) (auto simp: holds_Cons, simp_all add: holds_def)

lemma cstr_Nil [mem_simps]: "cstr m p [] \<longleftrightarrow> load m p = Inr 0"
  by (auto simp: cstr_def holds_Cons load_Inr)

lemma cstr_Cons [mem_simps]:
  "cstr m p (c # s) \<longleftrightarrow> c \<noteq> 0 \<and> load m p = Inr c \<and> cstr m (Suc p) s"
  by (auto simp: cstr_def holds_Cons load_Inr)

lemma holds_cong:
  "(\<And>a. a \<in> region p (length bs) \<Longrightarrow> m' a = m a) \<Longrightarrow> holds m' p bs \<longleftrightarrow> holds m p bs"
  by (auto simp: holds_def region_def)

lemma cstr_cong:
  "(\<And>a. a \<in> region p (Suc (length s)) \<Longrightarrow> m' a = m a) \<Longrightarrow> cstr m' p s \<longleftrightarrow> cstr m p s"
  using holds_cong [of p "s @ [0]" m' m] by (simp add: cstr_def)

lemma mapped_0 [simp]: "mapped m p 0 \<longleftrightarrow> p \<le> addr_limit"
  by (simp add: mapped_def)

lemma mapped_Suc:
  "mapped m p (Suc n) \<longleftrightarrow> p < addr_limit \<and> m p \<noteq> None \<and> mapped m (Suc p) n"
  by (auto simp: mapped_def All_less_Suc2)

lemma mapped_upd: "mapped m p n \<Longrightarrow> mapped (m(a \<mapsto> v)) p n"
  by (auto simp: mapped_def)

lemma mapped_le: "mapped m p n \<Longrightarrow> k \<le> n \<Longrightarrow> mapped m p k"
  by (auto simp: mapped_def)

lemma mapped_add: "mapped m p (a + b) \<longleftrightarrow> mapped m p a \<and> mapped m (p + a) b"
  by (induction a arbitrary: p) (auto simp: mapped_Suc, simp_all add: mapped_def)

lemma holds_mapped: "holds m p bs \<Longrightarrow> mapped m p (length bs)"
  by (auto simp: holds_def mapped_def)

lemma region_Suc: "region p (Suc n) = insert p (region (Suc p) n)"
  by (auto simp: region_def)

lemma region_0 [simp]: "region p 0 = {}"
  by (simp add: region_def)

lemma put_bytes_Nil [simp]: "put_bytes m p [] = m"
  by (rule ext) (auto simp: put_bytes_def)

lemma put_bytes_Cons: "put_bytes m p (b # bs) = put_bytes (m(p \<mapsto> b)) (Suc p) bs"
  by (rule ext) (auto simp: put_bytes_def nth_Cons')

lemma put_bytes_append:
  "put_bytes m p (xs @ ys) = put_bytes (put_bytes m p xs) (p + length xs) ys"
  by (induction xs arbitrary: m p) (simp_all add: put_bytes_Cons)

lemma put_bytes_other: "a \<notin> region p (length bs) \<Longrightarrow> put_bytes m p bs a = m a"
  by (auto simp: put_bytes_def region_def)

lemma holds_put_bytes: "p + length bs \<le> addr_limit \<Longrightarrow> holds (put_bytes m p bs) p bs"
  by (auto simp: holds_def put_bytes_def)

lemma mapped_put_bytes: "mapped m p n \<Longrightarrow> mapped (put_bytes m q bs) p n"
  by (auto simp: mapped_def put_bytes_def)

lemma cstr_put_bytes:
  "0 \<notin> set s \<Longrightarrow> p + length s < addr_limit \<Longrightarrow> cstr (put_bytes m p (s @ [0])) p s"
  using holds_put_bytes [of p "s @ [0]" m] by (simp add: cstr_def)

subsection \<open>Signed and unsigned bytes\<close>

lemma mod256_cases: 
  assumes "0 \<le> x" "x < 256" shows "(x + 128) mod 256 - 128 = (if x < 128 then x else x - (256::int))"
proof (cases "x < 128")
  case True
  then show ?thesis using assms by simp
next
  case False
  have "(x + 128) mod 256 = ((x - 128) + 256) mod 256" by (simp add: add.commute)
  also have "\<dots> = (x - 128) mod 256" by (rule mod_add_self2)
  also have "\<dots> = x - 128" using False assms by simp
  finally show ?thesis using False by simp
qed
lemma sint8: "sint (c::8 word) = (if uint c < 128 then uint c else uint c - 256)"
proof -
  have "sint (word_of_int (uint c) :: 8 word) = (uint c + 128) mod 256 - 128"
    by (subst int_word_sint) simp
  also have "\<dots> = (if uint c < 128 then uint c else uint c - 256)"
    using uint_lt2p[of c] by (intro mod256_cases) simp_all
  finally show ?thesis by (simp only: word_of_int_uint)
qed
lemma signed_eq_unsigned_cases:
  "0 \<le> y \<Longrightarrow> x < 256 \<Longrightarrow> (if x < 128 then x else x - 256) = y \<longleftrightarrow> x = y \<and> x < (128::int)"
  by auto

lemma sint_eq_uint8: "sint (c::8 word) = uint (ch::8 word) \<longleftrightarrow> c = ch \<and> uint c < 128"
  unfolding sint8 word_uint_eq_iff
  using uint_lt2p [of c] by (intro signed_eq_unsigned_cases) simp_all

end
