(* ===== verification/Intr.thy ===== *)
theory Intr
  imports Kernel_Prelude
begin

text \<open>
  Interrupt control and the interrupt descriptor table of \<^verbatim>\<open>kernel/interrupt.c\<close>, and
  the descriptors of \<^verbatim>\<open>userprog/tss.c\<close>. The processor's flags register is the state
  of \<open>intr_enable\<close>, \<open>intr_disable\<close> and \<open>intr_set_status\<close>; every record of kernel
  state extends it. The table of entry points is built by the assembler
  (\<^verbatim>\<open>kernel/kernel.S\<close>) and is a parameter.
\<close>

record cpu =
  eflags :: u32

datatype intr_status = INTR_OFF | INTR_ON

definition EFLAGS_IF :: u32 where
  "EFLAGS_IF = 0x200"

definition intr_get_status :: "'a cpu_scheme \<Rightarrow> intr_status" where
  "intr_get_status s = (if EFLAGS_IF AND eflags s \<noteq> 0 then INTR_ON else INTR_OFF)"

definition intr_enable :: "'a cpu_scheme \<Rightarrow> intr_status \<times> 'a cpu_scheme" where
  "intr_enable s = (if INTR_ON = intr_get_status s then (INTR_ON, s)
     else (INTR_OFF, s\<lparr>eflags := eflags s OR EFLAGS_IF\<rparr>))"

definition intr_disable :: "'a cpu_scheme \<Rightarrow> intr_status \<times> 'a cpu_scheme" where
  "intr_disable s = (if INTR_ON = intr_get_status s
     then (INTR_ON, s\<lparr>eflags := eflags s AND NOT EFLAGS_IF\<rparr>) else (INTR_OFF, s))"

definition intr_set_status :: "intr_status \<Rightarrow> 'a cpu_scheme \<Rightarrow> intr_status \<times> 'a cpu_scheme" where
  "intr_set_status status s = (if status = INTR_ON then intr_enable s else intr_disable s)"

subsection \<open>Descriptors\<close>

record gate_desc =
  func_offset_low_word :: u16
  selector :: u16
  dcount :: u8
  attribute :: u8
  func_offset_high_word :: u16

definition SELECTOR_K_CODE :: u16 where
  "SELECTOR_K_CODE = push_bit 3 1 + push_bit 2 0 + 0"

definition IDT_DESC_ATTR_DPL0 :: u8 where
  "IDT_DESC_ATTR_DPL0 = push_bit 7 1 + push_bit 5 0 + 0xE"

definition IDT_DESC_ATTR_DPL3 :: u8 where
  "IDT_DESC_ATTR_DPL3 = push_bit 7 1 + push_bit 5 3 + 0xE"

definition make_idt_desc :: "u8 \<Rightarrow> u32 \<Rightarrow> gate_desc" where
  "make_idt_desc attr f = \<lparr>
     func_offset_low_word = ucast (f AND 0x0000FFFF),
     selector = SELECTOR_K_CODE,
     dcount = 0,
     attribute = attr,
     func_offset_high_word = ucast (drop_bit 16 (f AND 0xFFFF0000))\<rparr>"

definition IDT_DESC_CNT :: nat where
  "IDT_DESC_CNT = 0x81"

definition idt_desc_init :: "(nat \<Rightarrow> u32) \<Rightarrow> u32 \<Rightarrow> gate_desc list" where
  "idt_desc_init intr_entry_table syscall_handler =
     (let lastindex = IDT_DESC_CNT - 1;
          idt = map (\<lambda>i. make_idt_desc IDT_DESC_ATTR_DPL0 (intr_entry_table i)) [0..<IDT_DESC_CNT]
      in idt[lastindex := make_idt_desc IDT_DESC_ATTR_DPL3 syscall_handler])"

text \<open>
  \<open>exception_init\<close> points every vector at \<open>general_intr_handler\<close> and fills the table of
  names; \<open>register_handler\<close> replaces one entry. A handler is its address. The default handler
  returns for the two spurious vectors and otherwise reports the exception and never returns.
\<close>

definition intr_names :: "string list" where
  "intr_names =
    [''#DE Divide Error'', ''#DB Debug Exception'', ''NMI Interrupt'', ''#BP Breakpoint Exception'',
     ''#OF Overflow Exception'', ''#BR BOUND Range Exceeded Exception'',
     ''#UD Invalid Opcode Exception'', ''#NM Device Not Available Exception'',
     ''#DF Double Fault Exception'', ''Coprocessor Segment Overrun'', ''#TS Invalid TSS Exception'',
     ''#NP Segment Not Present'', ''#SS Stack Fault Exception'', ''#GP General Protection Exception'',
     ''#PF Page-Fault Exception'', ''unknown'', ''#MF x87 FPU Floating-Point Error'',
     ''#AC Alignment Check Exception'', ''#MC Machine-Check Exception'',
     ''#XF SIMD Floating-Point Exception'']"

definition exception_init :: "u32 \<Rightarrow> u32 list \<times> string list" where
  "exception_init general_intr_handler =
     (replicate IDT_DESC_CNT general_intr_handler,
      intr_names @ replicate (IDT_DESC_CNT - length intr_names) ''unknown'')"

definition general_intr_handler :: "u8 \<Rightarrow> unit outcome" where
  "general_intr_handler vec_nr = (if vec_nr = 0x27 \<or> vec_nr = 0x2f then Inr () else Inl Spins)"

text \<open>The bytes \<open>pic_init\<close> sends to the two interrupt controllers, in order.\<close>

definition pic_init :: "(u16 \<times> u8) list" where
  "pic_init =
    [(0x20, 0x11), (0x21, 0x20), (0x21, 0x04), (0x21, 0x01),
     (0xa0, 0x11), (0xa1, 0x28), (0xa1, 0x02), (0xa1, 0x01),
     (0x21, 0xf8), (0xa1, 0xbf)]"

definition register_handler :: "u32 list \<Rightarrow> u8 \<Rightarrow> u32 \<Rightarrow> u32 list outcome" where
  "register_handler idt_table vector_no f =
     (if unat vector_no < length idt_table then Inr (idt_table[unat vector_no := f]) else Inl BadAccess)"

record gdt_desc =
  limit_low_word :: u16
  base_low_word :: u16
  base_mid_byte :: u8
  attr_low_byte :: u8
  limit_high_attr_high :: u8
  base_high_byte :: u8

definition make_gdt_desc :: "u32 \<Rightarrow> u32 \<Rightarrow> u8 \<Rightarrow> u8 \<Rightarrow> gdt_desc" where
  "make_gdt_desc desc_base limit attr_low attr_high = \<lparr>
     limit_low_word = ucast (limit AND 0x0000ffff),
     base_low_word = ucast (desc_base AND 0x0000ffff),
     base_mid_byte = ucast (drop_bit 16 (desc_base AND 0x00ff0000)),
     attr_low_byte = attr_low,
     limit_high_attr_high = ucast (drop_bit 16 (limit AND 0x000f0000) + ucast attr_high),
     base_high_byte = ucast (drop_bit 24 desc_base)\<rparr>"

subsection \<open>Properties\<close>

text \<open>The address the processor takes from a gate and from a segment descriptor.\<close>

definition gate_target :: "gate_desc \<Rightarrow> u32" where
  "gate_target g = push_bit 16 (ucast (func_offset_high_word g)) OR ucast (func_offset_low_word g)"

definition desc_base :: "gdt_desc \<Rightarrow> u32" where
  "desc_base d = push_bit 24 (ucast (base_high_byte d)) OR push_bit 16 (ucast (base_mid_byte d))
     OR ucast (base_low_word d)"

lemma if_bit: "EFLAGS_IF AND x \<noteq> 0 \<longleftrightarrow> bit x 9"
proof -
  have "EFLAGS_IF AND x = x AND 2 ^ 9" by (simp add: EFLAGS_IF_def and.commute)
  then show ?thesis by (simp only: and_exp_eq_0_iff_not_bit) simp
qed

lemma EFLAGS_IF_bit: "bit EFLAGS_IF n \<longleftrightarrow> n = 9"
proof -
  have "bit EFLAGS_IF n \<longleftrightarrow> bit (push_bit 9 1 :: u32) n" by (simp add: EFLAGS_IF_def)
  also have "\<dots> \<longleftrightarrow> n = 9" by (auto simp: bit_push_bit_iff bit_1_iff simp del: push_bit_of_1)
  finally show ?thesis .
qed

lemma status_on: "intr_get_status s = INTR_ON \<longleftrightarrow> bit (eflags s) 9"
  by (simp add: intr_get_status_def if_bit)

lemma status_disable [simp]: "intr_get_status (snd (intr_disable s)) = INTR_OFF"
  by (auto simp: intr_disable_def intr_get_status_def if_bit bit_and_iff bit_not_iff EFLAGS_IF_bit)

lemma status_enable [simp]: "intr_get_status (snd (intr_enable s)) = INTR_ON"
  by (auto simp: intr_enable_def intr_get_status_def if_bit bit_or_iff EFLAGS_IF_bit)

text \<open>A critical section that starts with \<open>intr_disable\<close> ends by restoring the flags.\<close>

lemma eflags_restore:
  "bit x 9 \<Longrightarrow> (x AND NOT EFLAGS_IF) OR EFLAGS_IF = x"
  by (rule bit_eqI) (auto simp: bit_simps EFLAGS_IF_bit)

lemma intr_disable_cases:
  obtains (on) "intr_disable s = (INTR_ON, s\<lparr>eflags := eflags s AND NOT EFLAGS_IF\<rparr>)" "bit (eflags s) 9"
  | (off) "intr_disable s = (INTR_OFF, s)" "\<not> bit (eflags s) 9"
  by (cases "bit (eflags s) 9") (auto simp: intr_disable_def status_on [symmetric])

lemma set_status_restores:
  "intr_disable s = (old, t) \<Longrightarrow> intr_set_status old t = (INTR_OFF, s)"
  by (cases s rule: intr_disable_cases)
    (auto simp: intr_set_status_def intr_enable_def status_on eflags_restore intr_disable_def
      intr_get_status_def if_bit bit_and_iff bit_not_iff EFLAGS_IF_bit)

text \<open>
  The shape of every critical section: the flags are dropped, some other part of the state
  is changed, the flags come back.
\<close>

lemma critical_section:
  assumes "intr_disable s = (old, t)" and "eflags u = eflags t"
  shows "snd (intr_set_status old u) = u\<lparr>eflags := eflags s\<rparr>"
  using assms by (cases s rule: intr_disable_cases)
    (auto simp: intr_set_status_def intr_enable_def status_on eflags_restore intr_disable_def
      intr_get_status_def if_bit bit_and_iff bit_not_iff EFLAGS_IF_bit)

lemma bit_low_mask:
  "bit (65535 :: int) n \<longleftrightarrow> n < 16"
  "bit (255 :: int) n \<longleftrightarrow> n < 8"
proof -
  have "bit (65535 :: int) n \<longleftrightarrow> bit (mask 16 :: int) n" by (simp add: mask_eq_exp_minus_1)
  then show "bit (65535 :: int) n \<longleftrightarrow> n < 16" by (simp only: bit_mask_iff) simp
  have "bit (255 :: int) n \<longleftrightarrow> bit (mask 8 :: int) n" by (simp add: mask_eq_exp_minus_1)
  then show "bit (255 :: int) n \<longleftrightarrow> n < 8" by (simp only: bit_mask_iff) simp
qed

lemma make_idt_desc_target: "gate_target (make_idt_desc attr f) = f"
  by (rule bit_eqI) (auto simp: gate_target_def make_idt_desc_def bit_simps bit_low_mask not_less)

lemma make_gdt_desc_base: "desc_base (make_gdt_desc b limit attr_low attr_high) = b"
proof (rule bit_eqI)
  fix n
  assume "possible_bit TYPE(32 word) n"
  then have "n < 32" by simp
  then show "bit (desc_base (make_gdt_desc b limit attr_low attr_high)) n \<longleftrightarrow> bit b n"
    by (cases "24 \<le> n") (auto simp: desc_base_def make_gdt_desc_def bit_simps bit_low_mask not_less)
qed

lemma idt_desc_init_nth:
  assumes "i < IDT_DESC_CNT"
  shows "idt_desc_init entry sys ! i =
    (if i = 0x80 then make_idt_desc IDT_DESC_ATTR_DPL3 sys else make_idt_desc IDT_DESC_ATTR_DPL0 (entry i))"
  using assms by (auto simp: idt_desc_init_def IDT_DESC_CNT_def Let_def simp del: upt_Suc)

end
