(* ===== verification/Linked_List.thy ===== *)
theory Linked_List
  imports Intr
begin

text \<open>
  The intrusive doubly linked list of \<^verbatim>\<open>lib/kernel/list.c\<close>, on a heap of list nodes.
  A node is addressed by a number, with \<open>NULL\<close> as 0; a \<open>struct list\<close> at address \<open>l\<close> has
  its \<open>head\<close> node at \<open>l\<close> and its \<open>tail\<close> node at \<open>l + 8\<close>. Every operation is translated
  assignment by assignment, with the pointers it follows read again where the code reads
  them again, so that aliasing is part of the model.

  The operations are related to lists of addresses by \<open>dll\<close>, and to a whole family of
  disjoint lists by \<open>lists_rep\<close>. The locale \<open>list_store\<close> states what the scheduler and the
  semaphores rely on, and is interpreted on the operations of this theory.
\<close>

section \<open>Nodes and assignments\<close>

record list_elem =
  prev :: nat
  "next" :: nat

record kheap = cpu +
  elems :: "nat \<Rightarrow> list_elem option"

definition list_tail :: "nat \<Rightarrow> nat" where
  "list_tail plist = plist + 8"

definition get_node :: "'a kheap_scheme \<Rightarrow> nat \<Rightarrow> list_elem outcome" where
  "get_node s a = (case elems s a of Some e \<Rightarrow> Inr e | None \<Rightarrow> Inl BadAccess)"

definition set_prev :: "nat \<Rightarrow> nat \<Rightarrow> 'a kheap_scheme \<Rightarrow> 'a kheap_scheme outcome" where
  "set_prev a v s = andThen (get_node s a) (\<lambda>e. Inr (s\<lparr>elems := (elems s)(a \<mapsto> e\<lparr>prev := v\<rparr>)\<rparr>))"

definition set_next :: "nat \<Rightarrow> nat \<Rightarrow> 'a kheap_scheme \<Rightarrow> 'a kheap_scheme outcome" where
  "set_next a v s = andThen (get_node s a) (\<lambda>e. Inr (s\<lparr>elems := (elems s)(a \<mapsto> e\<lparr>next := v\<rparr>)\<rparr>))"

section \<open>The operations\<close>

definition list_init :: "nat \<Rightarrow> 'a kheap_scheme \<Rightarrow> 'a kheap_scheme outcome" where
  "list_init plist s =
     andThen (set_prev plist 0 s) (\<lambda>s.
     andThen (set_next plist (list_tail plist) s) (\<lambda>s.
     andThen (set_prev (list_tail plist) plist s) (\<lambda>s.
     set_next (list_tail plist) 0 s)))"

definition list_insert_before :: "nat \<Rightarrow> nat \<Rightarrow> 'a kheap_scheme \<Rightarrow> 'a kheap_scheme outcome" where
  "list_insert_before before elem s =
     (let (old_status, s) = intr_disable s in
      andThen (get_node s before) (\<lambda>b.
      andThen (set_next (prev b) elem s) (\<lambda>s.
      andThen (get_node s before) (\<lambda>b.
      andThen (set_prev elem (prev b) s) (\<lambda>s.
      andThen (set_next elem before s) (\<lambda>s.
      andThen (set_prev before elem s) (\<lambda>s.
      Inr (snd (intr_set_status old_status s)))))))))"

definition list_push :: "nat \<Rightarrow> nat \<Rightarrow> 'a kheap_scheme \<Rightarrow> 'a kheap_scheme outcome" where
  "list_push plist elem s =
     andThen (get_node s plist) (\<lambda>hd. list_insert_before (next hd) elem s)"

definition list_append :: "nat \<Rightarrow> nat \<Rightarrow> 'a kheap_scheme \<Rightarrow> 'a kheap_scheme outcome" where
  "list_append plist elem s = list_insert_before (list_tail plist) elem s"

definition list_remove :: "nat \<Rightarrow> 'a kheap_scheme \<Rightarrow> 'a kheap_scheme outcome" where
  "list_remove pelem s =
     (let (old_status, s) = intr_disable s in
      andThen (get_node s pelem) (\<lambda>e.
      andThen (set_next (prev e) (next e) s) (\<lambda>s.
      andThen (get_node s pelem) (\<lambda>e.
      andThen (set_prev (next e) (prev e) s) (\<lambda>s.
      Inr (snd (intr_set_status old_status s)))))))"

definition list_pop :: "nat \<Rightarrow> 'a kheap_scheme \<Rightarrow> (nat \<times> 'a kheap_scheme) outcome" where
  "list_pop plist s =
     andThen (get_node s plist) (\<lambda>hd. let elem = next hd in
     andThen (list_remove elem s) (\<lambda>s. Inr (elem, s)))"

definition list_empty :: "nat \<Rightarrow> 'a kheap_scheme \<Rightarrow> bool outcome" where
  "list_empty plist s =
     andThen (get_node s plist) (\<lambda>hd. Inr (next hd = list_tail plist))"

text \<open>
  The walks follow \<open>next\<close> until the tail. On a corrupt list they may never return: the
  loops are partial functions with value \<open>None\<close> there, and \<open>run_walk\<close> gives such a call
  the outcome \<open>Spins\<close>.
\<close>

definition run_walk :: "'a outcome option \<Rightarrow> 'a outcome" where
  "run_walk r = (case r of Some x \<Rightarrow> x | None \<Rightarrow> Inl Spins)"

partial_function (option) elem_find_loop ::
  "nat \<Rightarrow> nat \<Rightarrow> 'a kheap_scheme \<Rightarrow> nat \<Rightarrow> bool outcome option" where
  "elem_find_loop tail_p obj_elem s elem =
     (if elem = tail_p then Some (Inr False)
      else if elem = obj_elem then Some (Inr True)
      else (case elems s elem of None \<Rightarrow> Some (Inl BadAccess)
            | Some e \<Rightarrow> elem_find_loop tail_p obj_elem s (next e)))"

definition elem_find :: "nat \<Rightarrow> nat \<Rightarrow> 'a kheap_scheme \<Rightarrow> bool outcome" where
  "elem_find plist obj_elem s =
     andThen (get_node s plist) (\<lambda>hd.
     run_walk (elem_find_loop (list_tail plist) obj_elem s (next hd)))"

text \<open>The callback of a traversal may change the state, as \<open>init_adopt_a_child\<close> does.\<close>

partial_function (option) traversal_loop ::
  "nat \<Rightarrow> (nat \<Rightarrow> int \<Rightarrow> 'a kheap_scheme \<Rightarrow> (bool \<times> 'a kheap_scheme) outcome) \<Rightarrow> int
    \<Rightarrow> 'a kheap_scheme \<Rightarrow> nat \<Rightarrow> (nat \<times> 'a kheap_scheme) outcome option" where
  "traversal_loop tail_p func arg s elem =
     (if elem = tail_p then Some (Inr (0, s))
      else (case func elem arg s of
              Inl t \<Rightarrow> Some (Inl t)
            | Inr r \<Rightarrow>
                if fst r then Some (Inr (elem, snd r))
                else (case elems (snd r) elem of None \<Rightarrow> Some (Inl BadAccess)
                      | Some e \<Rightarrow> traversal_loop tail_p func arg (snd r) (next e))))"

definition list_traversal ::
  "nat \<Rightarrow> (nat \<Rightarrow> int \<Rightarrow> 'a kheap_scheme \<Rightarrow> (bool \<times> 'a kheap_scheme) outcome) \<Rightarrow> int
    \<Rightarrow> 'a kheap_scheme \<Rightarrow> (nat \<times> 'a kheap_scheme) outcome" where
  "list_traversal plist func arg s =
     andThen (get_node s plist) (\<lambda>hd.
     andThen (list_empty plist s) (\<lambda>emp.
     if emp then Inr (0, s)
     else run_walk (traversal_loop (list_tail plist) func arg s (next hd))))"

partial_function (option) list_len_loop ::
  "nat \<Rightarrow> 'a kheap_scheme \<Rightarrow> nat \<Rightarrow> u32 \<Rightarrow> u32 outcome option" where
  "list_len_loop tail_p s elem length' =
     (if elem = tail_p then Some (Inr length')
      else (case elems s elem of None \<Rightarrow> Some (Inl BadAccess)
            | Some e \<Rightarrow> list_len_loop tail_p s (next e) (length' + 1)))"

definition list_len :: "nat \<Rightarrow> 'a kheap_scheme \<Rightarrow> u32 outcome" where
  "list_len plist s =
     andThen (get_node s plist) (\<lambda>hd.
     run_walk (list_len_loop (list_tail plist) s (next hd) 0))"

section \<open>A list on the heap\<close>

definition nxt :: "(nat \<Rightarrow> list_elem option) \<Rightarrow> nat \<Rightarrow> nat option" where
  "nxt h a = map_option next (h a)"

definition prv :: "(nat \<Rightarrow> list_elem option) \<Rightarrow> nat \<Rightarrow> nat option" where
  "prv h a = map_option prev (h a)"

definition link :: "(nat \<Rightarrow> list_elem option) \<Rightarrow> nat \<Rightarrow> nat \<Rightarrow> bool" where
  "link h a b \<longleftrightarrow> nxt h a = Some b \<and> prv h b = Some a"

definition nodes :: "nat \<Rightarrow> nat list \<Rightarrow> nat list" where
  "nodes l xs = l # xs @ [list_tail l]"

definition dll :: "(nat \<Rightarrow> list_elem option) \<Rightarrow> nat \<Rightarrow> nat list \<Rightarrow> bool" where
  "dll h l xs \<longleftrightarrow> distinct (nodes l xs) \<and> successively (link h) (nodes l xs)"

lemma get_node_Some [simp]: "elems s a = Some e \<Longrightarrow> get_node s a = Inr e"
  by (simp add: get_node_def)

lemma critical_eq:
  assumes "intr_disable s = (old, t)"
  shows "snd (intr_set_status old (t\<lparr>elems := h\<rparr>)) = s\<lparr>elems := h\<rparr>"
proof -
  have "t\<lparr>eflags := eflags s\<rparr> = s"
    using assms by (cases s rule: intr_disable_cases) auto
  then have "t\<lparr>elems := h, eflags := eflags s\<rparr> = s\<lparr>elems := h\<rparr>"
    by (metis kheap.update_convs(1) cpu.update_convs(1) kheap.surjective)
  then show ?thesis using critical_section [OF assms, of "t\<lparr>elems := h\<rparr>"] by simp
qed

lemma disable_elems: "intr_disable s = (old, t) \<Longrightarrow> elems t = elems s"
  by (cases s rule: intr_disable_cases) auto

lemma insert_before_heap:
  assumes "elems s before = Some b" "elems s (prev b) = Some p" "elems s elem = Some e"
    and "distinct [prev b, elem, before]"
  shows "list_insert_before before elem s = Inr (s\<lparr>elems := (elems s)
    (prev b \<mapsto> p\<lparr>next := elem\<rparr>, elem \<mapsto> e\<lparr>prev := prev b, next := before\<rparr>, before \<mapsto> b\<lparr>prev := elem\<rparr>)\<rparr>)"
proof -
  obtain old t where d: "intr_disable s = (old, t)" by fastforce
  show ?thesis
    using assms critical_eq [OF d] disable_elems [OF d]
    by (simp add: list_insert_before_def d set_next_def set_prev_def get_node_def outcome_simps)
qed

lemma remove_heap:
  assumes "elems s e = Some n" "elems s (prev n) = Some p" "elems s (next n) = Some q"
    and "distinct [prev n, e, next n]"
  shows "list_remove e s = Inr (s\<lparr>elems := (elems s)
    (prev n \<mapsto> p\<lparr>next := next n\<rparr>, next n \<mapsto> q\<lparr>prev := prev n\<rparr>)\<rparr>)"
proof -
  obtain old t where d: "intr_disable s = (old, t)" by fastforce
  show ?thesis
    using assms critical_eq [OF d] disable_elems [OF d]
    by (simp add: list_remove_def d set_next_def set_prev_def get_node_def outcome_simps)
qed

lemma chain_cong:
  assumes "successively (link h) ns"
    and "\<And>u. u \<in> set (butlast ns) \<Longrightarrow> nxt h' u = nxt h u"
    and "\<And>v. v \<in> set (tl ns) \<Longrightarrow> prv h' v = prv h v"
  shows "successively (link h') ns"
  using assms
proof (induction ns rule: induct_list012)
  case (3 a b ns)
  then have "successively (link h') (b # ns)" by (simp split: if_splits)
  with 3 show ?case by (auto simp: link_def split: if_splits)
qed auto

lemma chain_append:
  "successively (link h) (xs @ a # ys) \<longleftrightarrow>
     successively (link h) (xs @ [a]) \<and> successively (link h) (a # ys)"
  by (induction xs rule: induct_list012) (auto simp: successively_Cons)

lemma chain_in_heap:
  assumes "successively (link h) ns" "2 \<le> length ns" "a \<in> set ns"
  shows "h a \<noteq> None"
proof -
  obtain us vs where ns: "ns = us @ a # vs" using assms(3) by (metis split_list)
  show ?thesis
  proof (cases vs)
    case (Cons b ws)
    then show ?thesis using assms(1) by (auto simp: ns successively_append_iff link_def nxt_def)
  next
    case Nil
    then obtain u us' where "us = us' @ [u]" using assms(2) ns by (cases us rule: rev_cases) auto
    then show ?thesis using assms(1) Nil by (auto simp: ns successively_append_iff link_def prv_def)
  qed
qed

lemma chain_insert:
  assumes "successively (link h) (as @ p # b # bs)" "distinct (as @ p # b # bs)"
    and "x \<notin> set (as @ p # b # bs)" and "h p = Some np" and "h b = Some nb"
    and h': "h' = h(p \<mapsto> np\<lparr>next := x\<rparr>, x \<mapsto> nx\<lparr>prev := p, next := b\<rparr>, b \<mapsto> nb\<lparr>prev := x\<rparr>)"
  shows "successively (link h') (as @ p # x # b # bs)"
proof -
  from assms(1) have c: "successively (link h) (as @ [p])" "successively (link h) (b # bs)"
    by (auto simp: successively_append_iff successively_Cons)
  have "successively (link h') (as @ [p])"
    by (rule chain_cong [OF c(1)]) (use assms in \<open>auto simp: nxt_def prv_def tl_append split: list.splits\<close>)
  moreover have "successively (link h') (b # bs)"
    by (rule chain_cong [OF c(2)])
      (use assms in \<open>auto simp: nxt_def prv_def dest!: in_set_butlastD split: if_splits\<close>)
  moreover have "link h' p x" "link h' x b"
    using assms by (auto simp: link_def nxt_def prv_def)
  ultimately show ?thesis by (subst chain_append) simp
qed

lemma chain_delete:
  assumes "successively (link h) (as @ p # x # b # bs)" "distinct (as @ p # x # b # bs)"
    and "h p = Some np" and "h b = Some nb"
    and h': "h' = h(p \<mapsto> np\<lparr>next := b\<rparr>, b \<mapsto> nb\<lparr>prev := p\<rparr>)"
  shows "successively (link h') (as @ p # b # bs)"
proof -
  from assms(1) have c: "successively (link h) (as @ [p])" "successively (link h) (b # bs)"
    by (auto simp: successively_append_iff successively_Cons)
  have "successively (link h') (as @ [p])"
    by (rule chain_cong [OF c(1)]) (use assms in \<open>auto simp: nxt_def prv_def tl_append split: list.splits\<close>)
  moreover have "successively (link h') (b # bs)"
    by (rule chain_cong [OF c(2)])
      (use assms in \<open>auto simp: nxt_def prv_def dest!: in_set_butlastD split: if_splits\<close>)
  moreover have "link h' p b"
    using assms by (auto simp: link_def nxt_def prv_def)
  ultimately show ?thesis by (subst chain_append) simp
qed

lemma nodes_split:
  obtains as p b bs where "nodes l (xs @ ys) = as @ p # b # bs"
    and "\<And>x. nodes l (xs @ x # ys) = as @ p # x # b # bs"
    and "as @ [p] = l # xs" and "b # bs = ys @ [list_tail l]"
proof -
  obtain as p where 1: "l # xs = as @ [p]" by (metis list.distinct(1) rev_exhaust)
  obtain b bs where 2: "ys @ [list_tail l] = b # bs" by (cases ys) auto
  have "nodes l (xs @ ys) = (l # xs) @ (ys @ [list_tail l])"
    and "\<And>x. nodes l (xs @ x # ys) = (l # xs) @ x # (ys @ [list_tail l])" by (simp_all add: nodes_def)
  then have "nodes l (xs @ ys) = as @ p # b # bs" "\<And>x. nodes l (xs @ x # ys) = as @ p # x # b # bs"
    by (simp_all only: 1 2) simp_all
  with 1 2 that show thesis by metis
qed

lemma dll_in_heap: "dll h l xs \<Longrightarrow> a \<in> set (nodes l xs) \<Longrightarrow> \<exists>e. h a = Some e"
  using chain_in_heap [of h "nodes l xs" a] by (auto simp: dll_def nodes_def)

lemma dll_linked:
  assumes "dll h l zs" "nodes l zs = as @ p # b # bs" "h b = Some n"
  shows "prev n = p"
  using assms by (auto simp: dll_def successively_append_iff successively_Cons link_def prv_def)

lemma dll_next:
  assumes "dll h l zs" "nodes l zs = as @ p # b # bs" "h p = Some n"
  shows "next n = b"
  using assms by (auto simp: dll_def successively_append_iff successively_Cons link_def nxt_def)

text \<open>What an operation on one list may change: only the nodes of that list.\<close>

definition local_update ::
  "nat list \<Rightarrow> (nat \<Rightarrow> list_elem option) \<Rightarrow> (nat \<Rightarrow> list_elem option) \<Rightarrow> bool" where
  "local_update ns h h' \<longleftrightarrow> (\<forall>a. a \<notin> set ns \<longrightarrow> h' a = h a) \<and> dom h' = dom h"

lemma dll_insert:
  assumes d: "dll (elems s) l (xs @ ys)" and e: "elems s x = Some e" and x: "x \<notin> set (nodes l (xs @ ys))"
  shows "\<exists>h'. list_insert_before (hd (ys @ [list_tail l])) x s = Inr (s\<lparr>elems := h'\<rparr>)
    \<and> dll h' l (xs @ x # ys) \<and> local_update (nodes l (xs @ x # ys)) (elems s) h'"
proof -
  obtain as p b bs where n: "nodes l (xs @ ys) = as @ p # b # bs" "nodes l (xs @ x # ys) = as @ p # x # b # bs"
    "b # bs = ys @ [list_tail l]" by (metis nodes_split)
  have b: "hd (ys @ [list_tail l]) = b" using n(3) by (metis list.sel(1))
  obtain nb np where h: "elems s b = Some nb" "elems s p = Some np"
    using dll_in_heap [OF d, of b] dll_in_heap [OF d, of p] by (auto simp: n(1))
  have pb: "prev nb = p" by (rule dll_linked [OF d n(1) h(1)])
  define h' where "h' = (elems s)(p \<mapsto> np\<lparr>next := x\<rparr>, x \<mapsto> e\<lparr>prev := p, next := b\<rparr>, b \<mapsto> nb\<lparr>prev := x\<rparr>)"
  have dis: "distinct (as @ p # b # bs)" and ch: "successively (link (elems s)) (as @ p # b # bs)"
    using d by (simp_all add: dll_def n(1,2))
  have "list_insert_before b x s = Inr (s\<lparr>elems := h'\<rparr>)"
    using insert_before_heap [OF h(1) _ e, of np] h pb dis x by (auto simp: h'_def n(1,2))
  moreover have "dll h' l (xs @ x # ys)"
    using chain_insert [OF ch dis _ h(2,1) h'_def] x dis by (auto simp: dll_def n(1,2))
  moreover have "local_update (nodes l (xs @ x # ys)) (elems s) h'"
    using h e by (auto simp: local_update_def h'_def n(1,2))
  ultimately show ?thesis by (auto simp: b)
qed

lemma dll_remove:
  assumes d: "dll (elems s) l (xs @ x # ys)"
  shows "\<exists>h'. list_remove x s = Inr (s\<lparr>elems := h'\<rparr>)
    \<and> dll h' l (xs @ ys) \<and> local_update (nodes l (xs @ x # ys)) (elems s) h'"
proof -
  obtain as p b bs where n: "nodes l (xs @ ys) = as @ p # b # bs" "nodes l (xs @ x # ys) = as @ p # x # b # bs"
    by (metis nodes_split)
  then have n': "nodes l (xs @ x # ys) = (as @ [p]) @ x # b # bs" by simp
  obtain nb np nx where h: "elems s b = Some nb" "elems s p = Some np" "elems s x = Some nx"
    using dll_in_heap [OF d, of b] dll_in_heap [OF d, of p] dll_in_heap [OF d, of x] by (auto simp: n)
  have px: "prev nx = p" "next nx = b"
    using dll_linked [OF d n(2) h(3)] dll_next [OF d n' h(3)] by simp_all
  define h' where "h' = (elems s)(p \<mapsto> np\<lparr>next := b\<rparr>, b \<mapsto> nb\<lparr>prev := p\<rparr>)"
  have dis: "distinct (as @ p # x # b # bs)" and ch: "successively (link (elems s)) (as @ p # x # b # bs)"
    using d by (simp_all add: dll_def n)
  have "list_remove x s = Inr (s\<lparr>elems := h'\<rparr>)"
    using remove_heap [OF h(3), of np nb] h px dis by (auto simp: h'_def)
  moreover have "dll h' l (xs @ ys)"
    using chain_delete [OF ch dis h(2,1) h'_def] dis by (auto simp: dll_def n)
  moreover have "local_update (nodes l (xs @ x # ys)) (elems s) h'"
    using h by (auto simp: local_update_def h'_def n)
  ultimately show ?thesis by auto
qed

lemma dll_head:
  assumes "dll h l xs"
  shows "\<exists>n. h l = Some n \<and> next n = hd (xs @ [list_tail l])"
proof -
  obtain n where n: "h l = Some n" using dll_in_heap [OF assms, of l] by (auto simp: nodes_def)
  have "nodes l xs = [] @ l # hd (xs @ [list_tail l]) # tl (xs @ [list_tail l])"
    by (cases xs) (simp_all add: nodes_def)
  from dll_next [OF assms this n] n show ?thesis by blast
qed

lemma dll_init:
  assumes "elems s l = Some a" "elems s (list_tail l) = Some b"
  shows "\<exists>h'. list_init l s = Inr (s\<lparr>elems := h'\<rparr>) \<and> dll h' l []
    \<and> local_update (nodes l []) (elems s) h'"
proof -
  let ?h = "(elems s)(l \<mapsto> a\<lparr>prev := 0, next := list_tail l\<rparr>, list_tail l \<mapsto> b\<lparr>prev := l, next := 0\<rparr>)"
  have "list_init l s = Inr (s\<lparr>elems := ?h\<rparr>)"
    using assms by (auto simp: list_init_def set_prev_def set_next_def get_node_def outcome_simps list_tail_def)
  moreover have "dll ?h l []" "local_update (nodes l []) (elems s) ?h"
    using assms by (auto simp: local_update_def dll_def nodes_def link_def nxt_def prv_def list_tail_def)
  ultimately show ?thesis by blast
qed

section \<open>A family of disjoint lists\<close>

text \<open>
  \<open>L\<close> maps the address of each \<open>struct list\<close> to the addresses of its elements. A node that
  is in none of them is free to be inserted.
\<close>

definition lists_rep :: "'a kheap_scheme \<Rightarrow> (nat \<rightharpoonup> nat list) \<Rightarrow> bool" where
  "lists_rep s L \<longleftrightarrow> elems s 0 = None \<and> (\<forall>l xs. L l = Some xs \<longrightarrow> dll (elems s) l xs)
    \<and> (\<forall>l l' xs xs'. L l = Some xs \<longrightarrow> L l' = Some xs' \<longrightarrow> l \<noteq> l'
         \<longrightarrow> set (nodes l xs) \<inter> set (nodes l' xs') = {})"

definition detached :: "'a kheap_scheme \<Rightarrow> (nat \<rightharpoonup> nat list) \<Rightarrow> nat \<Rightarrow> bool" where
  "detached s L x \<longleftrightarrow> elems s x \<noteq> None \<and> (\<forall>l xs. L l = Some xs \<longrightarrow> x \<notin> set (nodes l xs))"

lemma dll_frame:
  assumes "dll h l xs" "\<And>a. a \<in> set (nodes l xs) \<Longrightarrow> h' a = h a"
  shows "dll h' l xs"
proof -
  have "successively (link h') (nodes l xs)"
    by (rule chain_cong [of h]) (use assms in \<open>auto simp: dll_def nodes_def nxt_def prv_def
      butlast_append split: if_splits\<close>)
  then show ?thesis using assms(1) by (simp add: dll_def)
qed

lemma lists_repD:
  assumes "lists_rep s L"
  shows "elems s 0 = None" "L l = Some xs \<Longrightarrow> dll (elems s) l xs"
    "L l = Some xs \<Longrightarrow> L l' = Some xs' \<Longrightarrow> l \<noteq> l' \<Longrightarrow> set (nodes l xs) \<inter> set (nodes l' xs') = {}"
  using assms by (simp_all add: lists_rep_def)

lemma lists_rep_cong: "elems s = elems t \<Longrightarrow> lists_rep s L \<longleftrightarrow> lists_rep t L"
  by (simp add: lists_rep_def)

lemma detached_cong: "elems s = elems t \<Longrightarrow> detached s L x \<longleftrightarrow> detached t L x"
  by (simp add: detached_def)

lemma detached_not_in: "detached s L x \<Longrightarrow> L l = Some xs \<Longrightarrow> x \<notin> set (nodes l xs)"
  by (simp add: detached_def)

lemma lists_rep_update:
  assumes r: "lists_rep s L" and l: "L l = Some xs" and d: "dll h' l xs'"
    and u: "local_update ns (elems s) h'"
    and ns: "set ns \<subseteq> set (nodes l xs) \<union> X" and xs': "set (nodes l xs') \<subseteq> set (nodes l xs) \<union> X"
    and X: "\<And>x. x \<in> X \<Longrightarrow> detached s L x"
  shows "lists_rep (s\<lparr>elems := h'\<rparr>) (L(l \<mapsto> xs'))"
proof -
  have out: "set (nodes k ys) \<inter> (set (nodes l xs) \<union> X) = {}" if "L k = Some ys" "k \<noteq> l" for k ys
    using lists_repD(3) [OF r that(1) l that(2)] X detached_not_in [where L = L and l = k and xs = ys] that by blast
  have "dll h' k ys" if "L k = Some ys" "k \<noteq> l" for k ys
    using lists_repD(2) [OF r that(1)] out [OF that] ns u
    by (auto intro: dll_frame simp: local_update_def)
  moreover have "h' 0 = None" using lists_repD(1) [OF r] u by (auto simp: local_update_def domIff)
  moreover have "set (nodes k ys) \<inter> set (nodes l xs') = {}" if "L k = Some ys" "k \<noteq> l" for k ys
    using out [OF that] xs' by blast
  ultimately show ?thesis
    using d lists_repD(3) [OF r] by (auto simp: lists_rep_def Int_commute)
qed

text \<open>Two states that agree up to the links of the nodes.\<close>

definition same_but_links :: "'a kheap_scheme \<Rightarrow> 'a kheap_scheme \<Rightarrow> bool" where
  "same_but_links s t \<longleftrightarrow> (\<exists>h. t = s\<lparr>elems := h\<rparr> \<and> dom h = dom (elems s))"

lemma same_but_links_refl: "same_but_links s s"
  unfolding same_but_links_def by (rule exI [of _ "elems s"]) simp

lemma same_but_links_trans:
  "same_but_links s t \<Longrightarrow> same_but_links t u \<Longrightarrow> same_but_links s u"
  by (auto simp: same_but_links_def)

lemma same_but_links_update: "local_update ns (elems s) h \<Longrightarrow> same_but_links s (s\<lparr>elems := h\<rparr>)"
  by (auto simp: same_but_links_def local_update_def)

lemma same_but_links_elems: "same_but_links s t \<Longrightarrow> elems t a = None \<longleftrightarrow> elems s a = None"
  unfolding same_but_links_def by (metis domIff kheap.select_convs(1) kheap.surjective kheap.update_convs(1))

lemma detached_keeps:
  assumes "detached s L y" "same_but_links s t" "L l = Some xs" "y \<notin> set xs'"
  shows "detached t (L(l \<mapsto> xs')) y"
  using assms by (auto simp: detached_def same_but_links_elems [of s t] nodes_def split: if_splits)

lemma detached_removed:
  assumes "lists_rep s L" "L l = Some (xs @ x # ys)" "same_but_links s t"
  shows "detached t (L(l \<mapsto> xs @ ys)) x"
proof -
  have d: "dll (elems s) l (xs @ x # ys)" by (rule lists_repD(2) [OF assms(1,2)])
  then have "elems s x \<noteq> None" using dll_in_heap [OF d, of x] by (auto simp: nodes_def)
  then have "elems t x \<noteq> None" by (simp add: same_but_links_elems [OF assms(3)])
  moreover have "x \<notin> set (nodes l (xs @ ys))" using d by (auto simp: dll_def nodes_def)
  moreover have "x \<notin> set (nodes k zs)" if "L k = Some zs" "k \<noteq> l" for k zs
    using lists_repD(3) [OF assms(1,2) that(1)] that(2) by (auto simp: nodes_def)
  ultimately show ?thesis by (simp add: detached_def)
qed

lemma insert_rep:
  assumes r: "lists_rep s L" and l: "L l = Some (xs @ ys)" and x: "detached s L x"
  shows "\<exists>t. list_insert_before (hd (ys @ [list_tail l])) x s = Inr t
    \<and> lists_rep t (L(l \<mapsto> xs @ x # ys)) \<and> same_but_links s t"
proof -
  obtain e where e: "elems s x = Some e" using x by (auto simp: detached_def)
  obtain h' where h': "list_insert_before (hd (ys @ [list_tail l])) x s = Inr (s\<lparr>elems := h'\<rparr>)"
    "dll h' l (xs @ x # ys)" "local_update (nodes l (xs @ x # ys)) (elems s) h'"
    using dll_insert [OF lists_repD(2) [OF r l] e detached_not_in [OF x l]] by blast
  have "lists_rep (s\<lparr>elems := h'\<rparr>) (L(l \<mapsto> xs @ x # ys))"
    by (rule lists_rep_update [OF r l h'(2,3), of "{x}"]) (auto simp: nodes_def x)
  then show ?thesis using h' same_but_links_update by blast
qed

lemma remove_rep:
  assumes r: "lists_rep s L" and l: "L l = Some (xs @ x # ys)"
  shows "\<exists>t. list_remove x s = Inr t \<and> lists_rep t (L(l \<mapsto> xs @ ys))
    \<and> detached t (L(l \<mapsto> xs @ ys)) x \<and> same_but_links s t"
proof -
  obtain h' where h': "list_remove x s = Inr (s\<lparr>elems := h'\<rparr>)"
    "dll h' l (xs @ ys)" "local_update (nodes l (xs @ x # ys)) (elems s) h'"
    using dll_remove [OF lists_repD(2) [OF r l]] by blast
  have "lists_rep (s\<lparr>elems := h'\<rparr>) (L(l \<mapsto> xs @ ys))"
    by (rule lists_rep_update [OF r l h'(2,3), of "{}"]) (auto simp: nodes_def)
  then show ?thesis using h' same_but_links_update detached_removed [OF r l] by blast
qed

section \<open>Walks\<close>

text \<open>Walking down a well-formed list visits exactly its elements, and ends.\<close>

lemma dll_step:
  assumes "dll h l (xs @ y # ys)"
  shows "y \<noteq> list_tail l" "\<exists>n. h y = Some n \<and> next n = hd (ys @ [list_tail l])"
proof -
  show "y \<noteq> list_tail l" using assms by (auto simp: dll_def nodes_def)
  obtain n where n: "h y = Some n" using dll_in_heap [OF assms, of y] by (auto simp: nodes_def)
  have "nodes l (xs @ y # ys) = (l # xs) @ y # hd (ys @ [list_tail l]) # tl (ys @ [list_tail l])"
    by (cases ys) (simp_all add: nodes_def)
  from dll_next [OF assms this n] n show "\<exists>n. h y = Some n \<and> next n = hd (ys @ [list_tail l])" by blast
qed

lemma elem_find_loop_dll:
  assumes "dll (elems s) l (xs @ ys)"
  shows "elem_find_loop (list_tail l) x s (hd (ys @ [list_tail l])) = Some (Inr (x \<in> set ys))"
  using assms
proof (induction ys arbitrary: xs)
  case (Cons y ys)
  then show ?case
    using dll_step [OF Cons.prems] Cons.IH [of "xs @ [y]"] by (subst elem_find_loop.simps) auto
qed (simp add: elem_find_loop.simps)

lemma elem_find_rep:
  assumes "lists_rep s L" "L l = Some xs"
  shows "elem_find l x s = Inr (x \<in> set xs)"
proof -
  note d = lists_repD(2) [OF assms]
  show ?thesis using dll_head [OF d] elem_find_loop_dll [of s l "[]" xs] d
    by (auto simp: elem_find_def run_walk_def outcome_simps)
qed

lemma list_empty_rep:
  assumes "lists_rep s L" "L l = Some xs"
  shows "list_empty l s = Inr (xs = [])"
proof -
  note d = lists_repD(2) [OF assms]
  show ?thesis
  proof (cases xs)
    case (Cons y ys)
    then have "y \<noteq> list_tail l" using d by (auto simp: dll_def nodes_def)
    then show ?thesis using dll_head [OF d] Cons by (auto simp: list_empty_def outcome_simps)
  qed (use dll_head [OF d] in \<open>auto simp: list_empty_def outcome_simps\<close>)
qed

lemma list_len_loop_dll:
  assumes "dll (elems s) l (xs @ ys)"
  shows "list_len_loop (list_tail l) s (hd (ys @ [list_tail l])) n = Some (Inr (n + of_nat (length ys)))"
  using assms
proof (induction ys arbitrary: xs n)
  case (Cons y ys)
  then show ?case
    using dll_step [OF Cons.prems] Cons.IH [of "xs @ [y]"] by (subst list_len_loop.simps) (auto simp: algebra_simps)
qed (simp add: list_len_loop.simps)

lemma list_len_rep:
  assumes "lists_rep s L" "L l = Some xs"
  shows "list_len l s = Inr (of_nat (length xs))"
proof -
  note d = lists_repD(2) [OF assms]
  show ?thesis using dll_head [OF d] list_len_loop_dll [of s l "[]" xs 0] d
    by (auto simp: list_len_def run_walk_def outcome_simps)
qed

text \<open>The specification of a traversal: the callback runs on the elements in order until it holds.\<close>

fun traverse :: "(nat \<Rightarrow> 's \<Rightarrow> bool \<times> 's) \<Rightarrow> nat list \<Rightarrow> 's \<Rightarrow> nat \<times> 's" where
  "traverse f [] s = (0, s)"
| "traverse f (x # xs) s = (if fst (f x s) then (x, snd (f x s)) else traverse f xs (snd (f x s)))"

lemma traversal_loop_dll:
  assumes "dll (elems s) l (xs @ ys)"
    and "\<And>e s. func e arg s = Inr (f e s)" and "\<And>e s. elems (snd (f e s)) = elems s"
  shows "traversal_loop (list_tail l) func arg s (hd (ys @ [list_tail l])) = Some (Inr (traverse f ys s))"
  using assms(1)
proof (induction ys arbitrary: xs s)
  case (Cons y ys)
  let ?s = "snd (f y s)"
  have "dll (elems ?s) l ((xs @ [y]) @ ys)" using Cons.prems by (simp add: assms(3))
  then show ?case
    using dll_step [OF Cons.prems] Cons.IH [of ?s "xs @ [y]"]
    by (subst traversal_loop.simps) (auto simp: assms(2,3))
qed (simp add: traversal_loop.simps)

lemma list_traversal_rep:
  assumes "lists_rep s L" "L l = Some xs"
    and "\<And>e s. func e arg s = Inr (f e s)" and "\<And>e s. elems (snd (f e s)) = elems s"
  shows "list_traversal l func arg s = Inr (traverse f xs s)"
proof -
  note d = lists_repD(2) [OF assms(1,2)]
  show ?thesis using dll_head [OF d] traversal_loop_dll [of s l "[]" xs func arg f] d assms(3,4)
      list_empty_rep [OF assms(1,2)]
    by (auto simp: list_traversal_def run_walk_def outcome_simps)
qed

lemma traverse_pure:
  assumes "\<And>e s. f e s = (P e, s)"
  shows "traverse f xs s = ((case find P xs of None \<Rightarrow> 0 | Some x \<Rightarrow> x), s)"
  by (induction xs) (simp_all add: assms)

section \<open>The interface of a list store\<close>

locale list_store =
  fixes rep :: "'s \<Rightarrow> (nat \<rightharpoonup> nat list) \<Rightarrow> bool"
    and loose :: "'s \<Rightarrow> (nat \<rightharpoonup> nat list) \<Rightarrow> nat \<Rightarrow> bool"
    and keeps :: "'s \<Rightarrow> 's \<Rightarrow> bool"
    and app push :: "nat \<Rightarrow> nat \<Rightarrow> 's \<Rightarrow> 's outcome"
    and pop :: "nat \<Rightarrow> 's \<Rightarrow> (nat \<times> 's) outcome"
    and remove :: "nat \<Rightarrow> 's \<Rightarrow> 's outcome"
    and empty :: "nat \<Rightarrow> 's \<Rightarrow> bool outcome"
    and member :: "nat \<Rightarrow> nat \<Rightarrow> 's \<Rightarrow> bool outcome"
  assumes keeps_refl: "keeps s s"
    and keeps_trans: "keeps s t \<Longrightarrow> keeps t u \<Longrightarrow> keeps s u"
    and loose_keeps: "loose s L y \<Longrightarrow> keeps s t \<Longrightarrow> L l = Some xs \<Longrightarrow> y \<notin> set xs' \<Longrightarrow> loose t (L(l \<mapsto> xs')) y"
    and rep_distinct: "rep s L \<Longrightarrow> L l = Some xs \<Longrightarrow> distinct xs"
    and rep_disjoint: "rep s L \<Longrightarrow> L l = Some xs \<Longrightarrow> L l' = Some ys \<Longrightarrow> l \<noteq> l' \<Longrightarrow> set xs \<inter> set ys = {}"
    and app: "rep s L \<Longrightarrow> L l = Some xs \<Longrightarrow> loose s L x \<Longrightarrow>
      \<exists>t. app l x s = Inr t \<and> rep t (L(l \<mapsto> xs @ [x])) \<and> keeps s t"
    and push: "rep s L \<Longrightarrow> L l = Some xs \<Longrightarrow> loose s L x \<Longrightarrow>
      \<exists>t. push l x s = Inr t \<and> rep t (L(l \<mapsto> x # xs)) \<and> keeps s t"
    and pop: "rep s L \<Longrightarrow> L l = Some (x # xs) \<Longrightarrow>
      \<exists>t. pop l s = Inr (x, t) \<and> rep t (L(l \<mapsto> xs)) \<and> loose t (L(l \<mapsto> xs)) x \<and> keeps s t"
    and remove: "rep s L \<Longrightarrow> L l = Some (xs @ x # ys) \<Longrightarrow>
      \<exists>t. remove x s = Inr t \<and> rep t (L(l \<mapsto> xs @ ys)) \<and> loose t (L(l \<mapsto> xs @ ys)) x \<and> keeps s t"
    and empty: "rep s L \<Longrightarrow> L l = Some xs \<Longrightarrow> empty l s = Inr (xs = [])"
    and member: "rep s L \<Longrightarrow> L l = Some xs \<Longrightarrow> member l x s = Inr (x \<in> set xs)"
begin

text \<open>Moving the first element of one list to the end of another.\<close>

lemma pop_then_app:
  assumes "rep s L" "L l = Some (x # xs)" "L l' = Some ys" "l \<noteq> l'"
  shows "\<exists>t. andThen (pop l s) (\<lambda>(x, s). app l' x s) = Inr t
    \<and> rep t (L(l \<mapsto> xs, l' \<mapsto> ys @ [x])) \<and> keeps s t"
proof -
  obtain t where t: "pop l s = Inr (x, t)" "rep t (L(l \<mapsto> xs))" "loose t (L(l \<mapsto> xs)) x" "keeps s t"
    using pop [OF assms(1,2)] by blast
  have "(L(l \<mapsto> xs)) l' = Some ys" using assms(3,4) by simp
  from app [OF t(2) this t(3)] t(1,4) show ?thesis by (auto simp: outcome_simps intro: keeps_trans)
qed

text \<open>A list used with \<open>app\<close> and \<open>pop\<close> is a first-in first-out queue.\<close>

fun app_all :: "nat \<Rightarrow> nat list \<Rightarrow> 's \<Rightarrow> 's outcome" where
  "app_all l [] s = Inr s"
| "app_all l (x # xs) s = andThen (app l x s) (app_all l xs)"

fun pop_n :: "nat \<Rightarrow> nat \<Rightarrow> 's \<Rightarrow> (nat list \<times> 's) outcome" where
  "pop_n l 0 s = Inr ([], s)"
| "pop_n l (Suc n) s = andThen (pop l s) (\<lambda>(x, s). andThen (pop_n l n s) (\<lambda>(xs, s). Inr (x # xs, s)))"

lemma app_all_rep:
  assumes "rep s L" "L l = Some xs" "distinct ys" "\<And>y. y \<in> set ys \<Longrightarrow> loose s L y \<and> y \<notin> set xs"
  shows "\<exists>t. app_all l ys s = Inr t \<and> rep t (L(l \<mapsto> xs @ ys)) \<and> keeps s t"
  using assms
proof (induction ys arbitrary: s L xs)
  case (Cons y ys)
  obtain t where t: "app l y s = Inr t" "rep t (L(l \<mapsto> xs @ [y]))" "keeps s t"
    using app [OF Cons.prems(1,2), of y] Cons.prems(4) by auto
  have "loose t (L(l \<mapsto> xs @ [y])) z" if "z \<in> set ys" for z
    by (rule loose_keeps [of s L z t l xs]) (use that t(3) Cons.prems in auto)
  then obtain u where u: "app_all l ys t = Inr u" "rep u (L(l \<mapsto> xs @ y # ys))" "keeps t u"
    using Cons.IH [OF t(2) fun_upd_same] Cons.prems(3,4) by (auto simp del: fun_upd_apply)
  then have "app_all l (y # ys) s = Inr u \<and> rep u (L(l \<mapsto> xs @ y # ys)) \<and> keeps s u"
    using t keeps_trans by (auto simp: outcome_simps)
  then show ?case by blast
qed (auto simp: keeps_refl fun_upd_idem)

lemma pop_n_rep:
  assumes "rep s L" "L l = Some (ys @ zs)"
  shows "\<exists>t. pop_n l (length ys) s = Inr (ys, t) \<and> rep t (L(l \<mapsto> zs)) \<and> keeps s t"
  using assms
proof (induction ys arbitrary: s L)
  case (Cons y ys)
  obtain t where t: "pop l s = Inr (y, t)" "rep t (L(l \<mapsto> ys @ zs))" "keeps s t"
    using pop [OF Cons.prems(1), of l y "ys @ zs"] Cons.prems(2) by auto
  obtain u where u: "pop_n l (length ys) t = Inr (ys, u)" "rep u (L(l \<mapsto> zs))" "keeps t u"
    using Cons.IH [OF t(2) fun_upd_same] by (metis fun_upd_upd)
  then have "pop_n l (length (y # ys)) s = Inr (y # ys, u) \<and> rep u (L(l \<mapsto> zs)) \<and> keeps s u"
    using t keeps_trans by (auto simp: outcome_simps)
  then show ?case by blast
qed (auto simp: keeps_refl fun_upd_idem)

end

lemma dll_distinct: "dll h l xs \<Longrightarrow> distinct xs"
  by (simp add: dll_def nodes_def)

lemma list_append_rep:
  assumes "lists_rep s L" "L l = Some xs" "detached s L x"
  shows "\<exists>t. list_append l x s = Inr t \<and> lists_rep t (L(l \<mapsto> xs @ [x])) \<and> same_but_links s t"
  using insert_rep [of s L l xs "[]" x] assms by (simp add: list_append_def)

lemma list_push_rep:
  assumes "lists_rep s L" "L l = Some xs" "detached s L x"
  shows "\<exists>t. list_push l x s = Inr t \<and> lists_rep t (L(l \<mapsto> x # xs)) \<and> same_but_links s t"
  using insert_rep [of s L l "[]" xs x] assms dll_head [OF lists_repD(2) [OF assms(1,2)]]
  by (auto simp: list_push_def outcome_simps)

lemma list_pop_rep:
  assumes "lists_rep s L" "L l = Some (x # xs)"
  shows "\<exists>t. list_pop l s = Inr (x, t) \<and> lists_rep t (L(l \<mapsto> xs)) \<and> detached t (L(l \<mapsto> xs)) x \<and> same_but_links s t"
  using remove_rep [of s L l "[]" x xs] assms dll_head [OF lists_repD(2) [OF assms(1,2)]]
  by (auto simp: list_pop_def outcome_simps Let_def)

interpretation ls: list_store lists_rep detached same_but_links
    list_append list_push list_pop list_remove list_empty elem_find
proof unfold_locales
  show "lists_rep s L \<Longrightarrow> L l = Some xs \<Longrightarrow> L l' = Some ys \<Longrightarrow> l \<noteq> l' \<Longrightarrow> set xs \<inter> set ys = {}"
    for s :: "'a kheap_scheme" and L l l' xs ys
    using lists_repD(3) [of s L l xs l' ys] by (auto simp: nodes_def)
qed (auto intro: same_but_links_trans detached_keeps dll_distinct lists_repD(2) remove_rep list_append_rep
  list_push_rep list_pop_rep list_empty_rep elem_find_rep same_but_links_refl)

end
