(* ===== verification/Paging.thy ===== *)
theory Paging
  imports Linked_List
begin

text \<open>
  Page tables, as the code of \<^verbatim>\<open>kernel/memory.c\<close> sees them. Physical memory is a map from
  word addresses to 32-bit words; the processor translates a virtual address through the
  page directory \<open>cr3\<close> points at. The kernel reaches its own tables only by virtual
  addresses, through the last entry of the page directory, which points at the directory
  itself: \<open>pte_ptr\<close> and \<open>pde_ptr\<close> compute those addresses, and the lemmas show that they
  denote the page table entry and the page directory entry that the processor uses.
\<close>

section \<open>Translation by the processor\<close>

definition PDE_IDX :: "u32 \<Rightarrow> u32" where
  "PDE_IDX addr = drop_bit 22 (addr AND 0xffc00000)"

definition PTE_IDX :: "u32 \<Rightarrow> u32" where
  "PTE_IDX addr = drop_bit 12 (addr AND 0x003ff000)"

record paging = kheap +
  pm :: "u32 \<Rightarrow> u32"
  cr3 :: u32

definition frame :: "u32 \<Rightarrow> u32" where
  "frame x = x AND 0xfffff000"

definition pde_addr :: "'a paging_scheme \<Rightarrow> u32 \<Rightarrow> u32" where
  "pde_addr s va = frame (cr3 s) + 4 * PDE_IDX va"

definition pte_addr :: "'a paging_scheme \<Rightarrow> u32 \<Rightarrow> u32" where
  "pte_addr s va = frame (pm s (pde_addr s va)) + 4 * PTE_IDX va"

definition translate :: "'a paging_scheme \<Rightarrow> u32 \<Rightarrow> u32 option" where
  "translate s va =
     (if pm s (pde_addr s va) AND 1 = 0 then None
      else if pm s (pte_addr s va) AND 1 = 0 then None
      else Some (frame (pm s (pte_addr s va)) + (va AND 0x00000fff)))"

text \<open>Reading and writing a word at a virtual address.\<close>

definition vload :: "'a paging_scheme \<Rightarrow> u32 \<Rightarrow> u32 outcome" where
  "vload s va = (case translate s va of Some pa \<Rightarrow> Inr (pm s pa) | None \<Rightarrow> Inl BadAccess)"

definition vstore :: "u32 \<Rightarrow> u32 \<Rightarrow> 'a paging_scheme \<Rightarrow> 'a paging_scheme outcome" where
  "vstore va v s = (case translate s va of
     Some pa \<Rightarrow> Inr (s\<lparr>pm := (pm s)(pa := v)\<rparr>) | None \<Rightarrow> Inl BadAccess)"

section \<open>The kernel's access to the tables\<close>

definition pte_ptr :: "u32 \<Rightarrow> u32" where
  "pte_ptr vaddr = 0xffc00000 + drop_bit 10 (vaddr AND 0xffc00000) + PTE_IDX vaddr * 4"

definition pde_ptr :: "u32 \<Rightarrow> u32" where
  "pde_ptr vaddr = 0xfffff000 + PDE_IDX vaddr * 4"

definition addr_v2p :: "u32 \<Rightarrow> 'a paging_scheme \<Rightarrow> u32 outcome" where
  "addr_v2p vaddr s =
     andThen (vload s (pte_ptr vaddr)) (\<lambda>pte.
     Inr ((pte AND 0xfffff000) + (vaddr AND 0x00000fff)))"

definition page_table_pte_remove :: "u32 \<Rightarrow> 'a paging_scheme \<Rightarrow> 'a paging_scheme outcome" where
  "page_table_pte_remove vaddr s =
     andThen (vload s (pte_ptr vaddr)) (\<lambda>pte. vstore (pte_ptr vaddr) (pte AND NOT 1) s)"

section \<open>The last directory entry maps the tables\<close>

definition self_mapped :: "'a paging_scheme \<Rightarrow> bool" where
  "self_mapped s \<longleftrightarrow> frame (pm s (frame (cr3 s) + 0xffc)) = frame (cr3 s)
     \<and> pm s (frame (cr3 s) + 0xffc) AND 1 \<noteq> 0"

lemma masks:
  "(0xffc00000 :: u32) = push_bit 22 (mask 10)" "(0x003ff000 :: u32) = push_bit 12 (mask 10)"
  "(0xfffff000 :: u32) = push_bit 12 (mask 20)" "(0x00000fff :: u32) = mask 12"
  by (simp_all add: mask_eq_exp_minus_1 push_bit_eq_mult)

lemma mult4: "(4 :: u32) * x = push_bit 2 x" "x * 4 = push_bit 2 (x :: u32)"
  by (simp_all add: push_bit_eq_mult)

lemma PDE_IDX_bit: "bit (PDE_IDX a) n \<longleftrightarrow> n < 10 \<and> bit a (n + 22)"
  unfolding PDE_IDX_def masks by (auto simp: bit_simps add.commute dest: bit_imp_le_length)

lemma PTE_IDX_bit: "bit (PTE_IDX a) n \<longleftrightarrow> n < 10 \<and> bit a (n + 12)"
  unfolding PTE_IDX_def masks by (auto simp: bit_simps add.commute dest: bit_imp_le_length)

lemma frame_bit: "bit (frame a) n \<longleftrightarrow> 12 \<le> n \<and> bit a n"
  unfolding frame_def masks by (auto simp: bit_simps dest: bit_imp_le_length)

lemma plus_or: "(\<And>n. \<not> bit a n \<or> \<not> bit b n) \<Longrightarrow> a + b = a OR (b :: u32)"
  by (rule disjunctive_add)

lemma plus_or3:
  assumes "\<And>n. \<not> bit a n \<or> \<not> bit b n" "\<And>n. \<not> bit a n \<or> \<not> bit c n" "\<And>n. \<not> bit b n \<or> \<not> bit c n"
  shows "a + b + c = a OR b OR (c :: u32)"
proof -
  have "a + b = a OR b" using assms(1) by (rule plus_or)
  moreover have "(a OR b) + c = (a OR b) OR c"
    by (rule plus_or) (use assms(2,3) in \<open>auto simp: bit_or_iff\<close>)
  ultimately show ?thesis by (simp add: or.assoc)
qed

lemma high_bits:
  "bit (0xffc00000 :: u32) n \<longleftrightarrow> 22 \<le> n \<and> n < 32" "bit (0xfffff000 :: u32) n \<longleftrightarrow> 12 \<le> n \<and> n < 32"
  unfolding masks by (auto simp: bit_simps)

lemma idx4_bit:
  "bit (4 * PDE_IDX a) n \<longleftrightarrow> 2 \<le> n \<and> n < 12 \<and> bit a (n + 20)"
  "bit (4 * PTE_IDX a) n \<longleftrightarrow> 2 \<le> n \<and> n < 12 \<and> bit a (n + 10)"
  unfolding mult4 by (auto simp: bit_simps PDE_IDX_bit PTE_IDX_bit add.commute)

lemma pte_ptr_bit:
  "bit (pte_ptr v) n \<longleftrightarrow> n < 32 \<and> (22 \<le> n \<or> 12 \<le> n \<and> bit v (n + 10) \<or> 2 \<le> n \<and> n < 12 \<and> bit v (n + 10))"
proof -
  have 2: "bit (drop_bit 10 (v AND 0xffc00000)) n \<longleftrightarrow> 12 \<le> n \<and> n < 22 \<and> bit v (n + 10)" for n
    unfolding masks by (auto simp: bit_simps add.commute dest: bit_imp_le_length)
  have "pte_ptr v = 0xffc00000 OR drop_bit 10 (v AND 0xffc00000) OR 4 * PTE_IDX v"
    unfolding pte_ptr_def mult.commute [of _ "4 :: u32"]
    by (rule plus_or3; simp only: high_bits 2 idx4_bit; linarith)
  then show ?thesis by (simp only: bit_or_iff high_bits 2 idx4_bit) auto
qed

lemma pde_ptr_bit:
  "bit (pde_ptr v) n \<longleftrightarrow> n < 32 \<and> (12 \<le> n \<or> 2 \<le> n \<and> n < 12 \<and> bit v (n + 20))"
proof -
  have "pde_ptr v = 0xfffff000 OR 4 * PDE_IDX v"
    unfolding pde_ptr_def mult.commute [of _ "4 :: u32"]
    by (rule plus_or; simp only: high_bits idx4_bit; linarith)
  then show ?thesis by (simp only: bit_or_iff high_bits idx4_bit) auto
qed

lemma low12_bit: "bit (a AND 0x00000fff :: u32) n \<longleftrightarrow> n < 12 \<and> bit a n"
  unfolding masks by (auto simp: bit_simps dest: bit_imp_le_length)

lemma mask10: "(1023 :: u32) = mask 10"
  by (simp add: mask_eq_exp_minus_1)

lemma PDE_IDX_ptr: "PDE_IDX (pte_ptr v) = 1023" "PDE_IDX (pde_ptr v) = 1023"
  unfolding mask10 by (rule bit_eqI, auto simp: PDE_IDX_bit pte_ptr_bit pde_ptr_bit bit_mask_iff)+

lemma PTE_IDX_ptr: "PTE_IDX (pte_ptr v) = PDE_IDX v" "PTE_IDX (pde_ptr v) = 1023"
  unfolding mask10
  by (rule bit_eqI, auto simp: PDE_IDX_bit PTE_IDX_bit pte_ptr_bit pde_ptr_bit bit_mask_iff add.commute)+

lemma low12_ptr:
  "pte_ptr v AND 0x00000fff = 4 * PTE_IDX v" "pde_ptr v AND 0x00000fff = 4 * PDE_IDX v"
  by (rule bit_eqI; simp add: low12_bit idx4_bit pte_ptr_bit pde_ptr_bit; auto)+

text \<open>The recursive entry: what the two pointers denote.\<close>

lemma self_pde:
  assumes "self_mapped s" "PDE_IDX v = 1023"
  shows "pde_addr s v = frame (cr3 s) + 0xffc" "pte_addr s v = frame (cr3 s) + 4 * PTE_IDX v"
  using assms by (simp_all add: pde_addr_def pte_addr_def self_mapped_def)

lemma translate_pde_ptr:
  assumes "self_mapped s"
  shows "translate s (pde_ptr v) = Some (pde_addr s v)"
  using assms self_pde [OF assms PDE_IDX_ptr(2)]
  by (simp add: translate_def PTE_IDX_ptr low12_ptr) (simp add: self_mapped_def pde_addr_def)

lemma translate_pte_ptr:
  assumes "self_mapped s"
  shows "translate s (pte_ptr v) =
    (if pm s (pde_addr s v) AND 1 = 0 then None else Some (pte_addr s v))"
  using assms self_pde [OF assms PDE_IDX_ptr(1)]
  by (simp add: translate_def PTE_IDX_ptr low12_ptr) (simp add: self_mapped_def pde_addr_def pte_addr_def)

section \<open>Changing one entry\<close>

lemma frame_frame [simp]: "frame (frame a) = frame a"
  by (simp add: frame_def and.assoc)

lemma frame_idx: "frame (frame a + 4 * PDE_IDX v) = frame a" "frame (frame a + 4 * PTE_IDX v) = frame a"
proof -
  have "frame a + 4 * PDE_IDX v = frame a OR 4 * PDE_IDX v" "frame a + 4 * PTE_IDX v = frame a OR 4 * PTE_IDX v"
    by (rule plus_or; simp only: frame_bit idx4_bit; linarith)+
  then show "frame (frame a + 4 * PDE_IDX v) = frame a" "frame (frame a + 4 * PTE_IDX v) = frame a"
    by (auto intro!: bit_eqI simp only: frame_bit bit_or_iff idx4_bit)
qed

lemma frame_addr [simp]:
  "frame (pde_addr s v) = frame (cr3 s)" "frame (pte_addr s v) = frame (pm s (pde_addr s v))"
  by (simp_all add: pde_addr_def pte_addr_def frame_idx)

text \<open>
  A page table entry outside the directory page can be changed without changing which
  entries the processor reads.
\<close>

definition set_word :: "u32 \<Rightarrow> u32 \<Rightarrow> 'a paging_scheme \<Rightarrow> 'a paging_scheme" where
  "set_word a x s = s\<lparr>pm := (pm s)(a := x)\<rparr>"

lemma set_word_pde:
  assumes "frame a \<noteq> frame (cr3 s)"
  shows "pde_addr (set_word a x s) w = pde_addr s w"
    "pm (set_word a x s) (pde_addr s w) = pm s (pde_addr s w)"
    "pte_addr (set_word a x s) w = pte_addr s w"
    "self_mapped (set_word a x s) \<longleftrightarrow> self_mapped s"
proof -
  have d: "pde_addr s w \<noteq> a" for w using assms frame_addr(1) [of s w] by metis
  then show 1: "pm (set_word a x s) (pde_addr s w) = pm s (pde_addr s w)"
    by (simp add: set_word_def)
  show 2: "pde_addr (set_word a x s) w = pde_addr s w" by (simp add: set_word_def pde_addr_def)
  show "pte_addr (set_word a x s) w = pte_addr s w" by (simp add: pte_addr_def 1 2)
  have "PDE_IDX 0xffffffff = 1023" by (simp add: PDE_IDX_def)
  then have "pde_addr s 0xffffffff = frame (cr3 s) + 0xffc" by (simp add: pde_addr_def)
  then show "self_mapped (set_word a x s) \<longleftrightarrow> self_mapped s"
    using d [of "0xffffffff"] by (simp add: self_mapped_def set_word_def)
qed

lemma translate_set_pte:
  assumes "frame (pm s (pde_addr s v)) \<noteq> frame (cr3 s)"
  shows "translate (set_word (pte_addr s v) x s) w =
    (if pm s (pde_addr s w) AND 1 \<noteq> 0 \<and> pte_addr s w = pte_addr s v
     then if x AND 1 = 0 then None else Some (frame x + (w AND 0x00000fff))
     else translate s w)"
proof -
  have "frame (pte_addr s v) \<noteq> frame (cr3 s)" using assms by simp
  note p = set_word_pde [OF this]
  show ?thesis unfolding translate_def p by (auto simp: set_word_def)
qed

lemma pte_remove_eq:
  assumes "self_mapped s" "pm s (pde_addr s v) AND 1 \<noteq> 0"
  shows "page_table_pte_remove v s = Inr (set_word (pte_addr s v) (pm s (pte_addr s v) AND NOT 1) s)"
  using assms by (simp add: page_table_pte_remove_def vload_def vstore_def translate_pte_ptr set_word_def)

lemma addr_v2p_translate:
  assumes "self_mapped s" "translate s v = Some p"
  shows "addr_v2p v s = Inr p"
proof -
  have "pm s (pde_addr s v) AND 1 \<noteq> 0" "p = frame (pm s (pte_addr s v)) + (v AND 0x00000fff)"
    using assms(2) by (auto simp: translate_def split: if_splits)
  then show ?thesis using assms(1)
    by (simp add: addr_v2p_def vload_def translate_pte_ptr) (simp add: frame_def)
qed

text \<open>
  C29. Where the last directory entry points at the directory itself, \<open>addr_v2p\<close> returns for
  every mapped virtual address the physical address the processor translates it to.
\<close>

theorem addr_v2p_correct:
  assumes "self_mapped s" "translate s v = Some p"
  shows "addr_v2p v s = Inr p"
  using assms by (rule addr_v2p_translate)


text \<open>A directory at \<open>0x1000\<close> with one page table at \<open>0x2000\<close> that maps address 0 to frame \<open>0x5000\<close>.\<close>

definition small_tables :: paging where
  "small_tables = \<lparr>eflags = 0, elems = (\<lambda>_. None),
     pm = (\<lambda>a. if a = 0x1ffc then 0x1007 else if a = 0x1000 then 0x2007 else if a = 0x2000 then 0x5007 else 0),
     cr3 = 0x1000\<rparr>"

lemmas small_tables_eval = small_tables_def self_mapped_def frame_def translate_def pde_addr_def
  pte_addr_def PDE_IDX_def PTE_IDX_def

theorem addr_v2p_correct_witness: "addr_v2p 0x123 small_tables = Inr 0x5123"
  by (rule addr_v2p_correct) (simp_all add: small_tables_eval)


end
