(* ===== verification/Bitmap.thy ===== *)
theory Bitmap
  imports Kernel_Prelude
begin

text \<open>
  The bitmaps of \<^verbatim>\<open>lib/kernel/bitmap.c\<close>, which record the allocated pages, process
  ids, inodes and disk blocks. \<open>bits\<close> is a pointer, so its model gives every byte
  from that address on: \<open>bitmap_scan\<close> reads the byte just past the end when the
  map is full, and tests the first bit past the end when it looks for a run.

  The interface \<open>bit_allocator\<close> states what the allocators of the kernel rely on;
  its interpretation \<open>bm\<close> discharges it for this code.
\<close>

record bitmap =
  btmp_bytes_len :: nat
  bits :: "nat \<Rightarrow> u8"

definition bitmap_init :: "bitmap \<Rightarrow> bitmap" where
  "bitmap_init btmp = btmp\<lparr>bits := (\<lambda>i. if i < btmp_bytes_len btmp then 0 else bits btmp i)\<rparr>"

definition bitmap_scan_test :: "bitmap \<Rightarrow> nat \<Rightarrow> bool" where
  "bitmap_scan_test btmp bit_idx =
     (let byte_idx = bit_idx div 8; bit_odd = bit_idx mod 8
      in bits btmp byte_idx AND push_bit bit_odd 1 \<noteq> 0)"

text \<open>The first loop of \<open>bitmap_scan\<close>: skip the bytes that are 0xff.\<close>

function skip_full_bytes :: "bitmap \<Rightarrow> nat \<Rightarrow> nat" where
  "skip_full_bytes btmp idx_byte =
     (if bits btmp idx_byte = 0xff \<and> idx_byte < btmp_bytes_len btmp
      then skip_full_bytes btmp (Suc idx_byte) else idx_byte)"
  by pat_completeness auto
termination
  by (relation "measure (\<lambda>(b, i). btmp_bytes_len b - i)") auto

lemma mask_in_byte: "(2 :: u8) ^ i AND b \<noteq> 0 \<Longrightarrow> i < 8"
proof (rule ccontr)
  assume nz: "(2 :: u8) ^ i AND b \<noteq> 0" and "\<not> i < 8"
  then have "(2 :: u8) ^ i = 0" by simp
  with nz show False by (simp only: and.left_neutral and_zero_eq zero_and_eq)
qed

text \<open>The second loop: the first 0 bit of that byte. The mask is cut to 8 bits.\<close>

function skip_set_bits :: "u8 \<Rightarrow> nat \<Rightarrow> nat" where
  "skip_set_bits byte idx_bit =
     (if push_bit idx_bit 1 AND byte \<noteq> 0 then skip_set_bits byte (Suc idx_bit) else idx_bit)"
  by pat_completeness auto
termination
  by (relation "measure (\<lambda>(b, i). 8 - i)") (auto dest!: mask_in_byte)

text \<open>The last loop: count consecutive free bits from \<open>next_bit\<close> on, for \<open>bit_left\<close> bits.\<close>

fun scan_run :: "bitmap \<Rightarrow> nat \<Rightarrow> nat \<Rightarrow> nat \<Rightarrow> nat \<Rightarrow> int" where
  "scan_run btmp cnt 0 next_bit count = -1"
| "scan_run btmp cnt (Suc bit_left) next_bit count =
     (let count = (if \<not> bitmap_scan_test btmp next_bit then Suc count else 0)
      in if count = cnt then int next_bit - int cnt + 1
         else scan_run btmp cnt bit_left (Suc next_bit) count)"

definition bitmap_scan :: "bitmap \<Rightarrow> nat \<Rightarrow> int outcome" where
  "bitmap_scan btmp cnt =
     (let idx_byte = skip_full_bytes btmp 0
      in ASSERT (idx_byte < btmp_bytes_len btmp)
        (if idx_byte = btmp_bytes_len btmp then Inr (-1)
         else let idx_bit = skip_set_bits (bits btmp idx_byte) 0;
                  bit_idx_start = idx_byte * 8 + idx_bit
              in if cnt = 1 then Inr (int bit_idx_start)
                 else Inr (scan_run btmp cnt (btmp_bytes_len btmp * 8 - bit_idx_start)
                             (bit_idx_start + 1) 1)))"

definition bitmap_set :: "bitmap \<Rightarrow> nat \<Rightarrow> int \<Rightarrow> bitmap outcome" where
  "bitmap_set btmp bit_idx v = ASSERT (v = 0 \<or> v = 1)
     (let byte_idx = bit_idx div 8; bit_odd = bit_idx mod 8
      in if v \<noteq> 0
         then Inr (btmp\<lparr>bits := (bits btmp)(byte_idx := bits btmp byte_idx OR push_bit bit_odd 1)\<rparr>)
         else Inr (btmp\<lparr>bits := (bits btmp)(byte_idx := bits btmp byte_idx AND NOT (push_bit bit_odd 1))\<rparr>))"

declare skip_full_bytes.simps [simp del] skip_set_bits.simps [simp del]

subsection \<open>Bits of a map\<close>

text \<open>The capacity of a map in bits, and the set of its allocated bits.\<close>

definition bm_cap :: "bitmap \<Rightarrow> nat" where
  "bm_cap btmp = 8 * btmp_bytes_len btmp"

definition bm_used :: "bitmap \<Rightarrow> nat set" where
  "bm_used btmp = {i. i < bm_cap btmp \<and> bitmap_scan_test btmp i}"

lemma mask_test: "(x :: u8) AND 2 ^ i \<noteq> 0 \<longleftrightarrow> bit x i"
  by (simp add: and_exp_eq_0_iff_not_bit)

lemma test_bit: "bitmap_scan_test btmp i \<longleftrightarrow> bit (bits btmp (i div 8)) (i mod 8)"
  by (simp add: bitmap_scan_test_def mask_test)

lemma bitmap_init_test: "i < bm_cap btmp \<Longrightarrow> \<not> bitmap_scan_test (bitmap_init btmp) i"
  by (simp add: test_bit bitmap_init_def bm_cap_def less_mult_imp_div_less mult.commute)

lemma bitmap_init_len [simp]: "btmp_bytes_len (bitmap_init btmp) = btmp_bytes_len btmp"
  by (simp add: bitmap_init_def)

lemma idx_split: "i = j \<longleftrightarrow> i div 8 = j div 8 \<and> i mod 8 = j mod (8::nat)"
  by (metis div_mult_mod_eq)

lemma bitmap_set_test:
  assumes "bitmap_set btmp i v = Inr btmp'"
  shows "bitmap_scan_test btmp' j = (if j = i then v = 1 else bitmap_scan_test btmp j)"
    and "btmp_bytes_len btmp' = btmp_bytes_len btmp"
  using assms idx_split [of j i]
  by (auto simp: bitmap_set_def test_bit outcome_simps Let_def bit_or_iff bit_and_iff bit_not_iff
      bit_exp_iff split: if_splits)

lemma bitmap_set_ok: "v = 0 \<or> v = 1 \<Longrightarrow> \<exists>btmp'. bitmap_set btmp i v = Inr btmp'"
  by (auto simp: bitmap_set_def Let_def)

subsection \<open>Scanning\<close>

text \<open>\<open>n\<close> free bits from \<open>s\<close> on.\<close>

definition free_run :: "bitmap \<Rightarrow> nat \<Rightarrow> nat \<Rightarrow> bool" where
  "free_run btmp s n \<longleftrightarrow> (\<forall>k<n. \<not> bitmap_scan_test btmp (s + k))"

lemma bit_0xff: "bit (0xff :: u8) n \<longleftrightarrow> n < 8"
proof -
  have "(0xff :: u8) = -1" by simp
  then show ?thesis by (simp only: bit_minus_1_iff possible_bit_word) simp
qed

lemma byte_has_free_bit: "b \<noteq> (0xff :: u8) \<longleftrightarrow> (\<exists>n<8. \<not> bit b n)"
proof -
  have ff: "(0xff :: u8) = -1" by simp
  show ?thesis unfolding ff by (auto simp: bit_eq_iff [of b])
qed

lemma skip_full_bytes_spec:
  "i \<le> btmp_bytes_len b \<Longrightarrow>
     skip_full_bytes b i \<le> btmp_bytes_len b \<and>
     (\<forall>k. i \<le> k \<and> k < skip_full_bytes b i \<longrightarrow> bits b k = 0xff) \<and>
     (skip_full_bytes b i < btmp_bytes_len b \<longrightarrow> bits b (skip_full_bytes b i) \<noteq> 0xff)"
proof (induction b i rule: skip_full_bytes.induct)
  case (1 b i)
  show ?case
  proof (cases "bits b i = 0xff \<and> i < btmp_bytes_len b")
    case True
    with "1.IH" have IH: "skip_full_bytes b (Suc i) \<le> btmp_bytes_len b"
      "\<forall>k. Suc i \<le> k \<and> k < skip_full_bytes b (Suc i) \<longrightarrow> bits b k = 0xff"
      "skip_full_bytes b (Suc i) < btmp_bytes_len b \<longrightarrow> bits b (skip_full_bytes b (Suc i)) \<noteq> 0xff"
      by auto
    have "bits b k = 0xff" if "i \<le> k" "k < skip_full_bytes b (Suc i)" for k
      using that IH(2) True by (cases "k = i") auto
    with IH True show ?thesis
      by (subst (1 2 3 4) skip_full_bytes.simps) simp
  next
    case False
    with "1.prems" show ?thesis
      by (subst (1 2 3 4) skip_full_bytes.simps) auto
  qed
qed

lemma skip_set_bits_spec:
  "i \<le> n \<Longrightarrow> \<not> bit b n \<Longrightarrow>
     skip_set_bits b i \<le> n \<and> \<not> bit b (skip_set_bits b i) \<and>
     (\<forall>k. i \<le> k \<and> k < skip_set_bits b i \<longrightarrow> bit b k)"
proof (induction b i rule: skip_set_bits.induct)
  case (1 b i)
  have guard: "push_bit i 1 AND b \<noteq> 0 \<longleftrightarrow> bit b i"
    using mask_test [of b i] by (simp add: and.commute)
  show ?case
  proof (cases "bit b i")
    case True
    with "1.prems" have "Suc i \<le> n" by (metis le_eq_less_or_eq Suc_leI)
    with "1.IH" "1.prems" True guard
    have IH: "skip_set_bits b (Suc i) \<le> n" "\<not> bit b (skip_set_bits b (Suc i))"
      "\<forall>k. Suc i \<le> k \<and> k < skip_set_bits b (Suc i) \<longrightarrow> bit b k" by auto
    have "bit b k" if "i \<le> k" "k < skip_set_bits b (Suc i)" for k
      using that IH(3) True by (cases "k = i") auto
    with IH True guard show ?thesis
      by (subst (1 2 3) skip_set_bits.simps) simp
  next
    case False
    with "1.prems" guard show ?thesis
      by (subst (1 2 3) skip_set_bits.simps) auto
  qed
qed

text \<open>The first two loops find the first free bit, or there is none.\<close>

lemma first_free_bit:
  fixes b defines "i \<equiv> skip_full_bytes b 0"
  defines "p \<equiv> i * 8 + skip_set_bits (bits b i) 0"
  assumes "i < btmp_bytes_len b"
  shows "p < bm_cap b" and "\<not> bitmap_scan_test b p" and "\<forall>j<p. bitmap_scan_test b j"
proof -
  have full: "\<forall>k<i. bits b k = 0xff" and "bits b i \<noteq> 0xff"
    using skip_full_bytes_spec [of 0 b] assms by auto
  then obtain n where n: "n < 8" "\<not> bit (bits b i) n" by (auto simp: byte_has_free_bit)
  let ?o = "skip_set_bits (bits b i) 0"
  have o: "?o < 8" "\<not> bit (bits b i) ?o" "\<forall>k<?o. bit (bits b i) k"
    using skip_set_bits_spec [of 0 n "bits b i"] n by auto
  have dm: "p div 8 = i" "p mod 8 = ?o" using o(1) by (auto simp: p_def)
  show "p < bm_cap b" using o(1) assms by (simp add: bm_cap_def p_def)
  show "\<not> bitmap_scan_test b p" using o(2) by (simp add: test_bit dm)
  show "\<forall>j<p. bitmap_scan_test b j"
  proof (intro allI impI)
    fix j assume "j < p"
    then have "j div 8 \<le> i" using dm div_le_mono [of j p 8] by simp
    moreover have "j mod 8 < ?o" if "j div 8 = i"
      using \<open>j < p\<close> that dm div_mult_mod_eq [of j 8] div_mult_mod_eq [of p 8] by linarith
    ultimately show "bitmap_scan_test b j" using full o(3) bit_0xff [of "j mod 8"]
      by (cases "j div 8 = i") (simp_all add: test_bit)
  qed
qed

lemma no_free_bit:
  assumes "\<not> skip_full_bytes b 0 < btmp_bytes_len b" "j < bm_cap b"
  shows "bitmap_scan_test b j"
proof -
  have "j div 8 < skip_full_bytes b 0"
    using assms by (simp add: bm_cap_def less_mult_imp_div_less mult.commute)
  then have "bits b (j div 8) = 0xff" using skip_full_bytes_spec [of 0 b] by auto
  then show ?thesis using bit_0xff [of "j mod 8"] by (simp add: test_bit)
qed

lemma bitmap_scan_full:
  "bitmap_scan b cnt = Inl t \<longleftrightarrow> t = AssertFail \<and> (\<forall>j<bm_cap b. bitmap_scan_test b j)"
proof (cases "skip_full_bytes b 0 < btmp_bytes_len b")
  case True
  then show ?thesis using first_free_bit [of b] by (auto simp: bitmap_scan_def Let_def)
next
  case False
  then show ?thesis using no_free_bit [of b] by (auto simp: bitmap_scan_def Let_def)
qed

lemma bitmap_scan_one:
  assumes "bitmap_scan b 1 = Inr r"
  shows "\<exists>i. r = int i \<and> i < bm_cap b \<and> \<not> bitmap_scan_test b i \<and> (\<forall>j<i. bitmap_scan_test b j)"
  using assms first_free_bit [of b]
  by (intro exI [of _ "skip_full_bytes b 0 * 8 + skip_set_bits (bits b (skip_full_bytes b 0)) 0"])
    (auto simp: bitmap_scan_def Let_def ASSERT_eq_Inr split: if_splits)


text \<open>The last loop finds the first run of \<open>cnt\<close> free bits among those it looks at.\<close>

lemma free_run_Suc: "free_run b s (Suc n) \<longleftrightarrow> free_run b s n \<and> \<not> bitmap_scan_test b (s + n)"
  by (auto simp: free_run_def less_Suc_eq)

lemma free_runD: "free_run b s n \<Longrightarrow> s \<le> j \<Longrightarrow> j < s + n \<Longrightarrow> \<not> bitmap_scan_test b j"
  by (auto simp: free_run_def dest: spec [of _ "j - s"])

lemma scan_run_spec:
  assumes "2 \<le> cnt" "count < cnt" "count \<le> next_bit"
    and "free_run b (next_bit - count) count"
    and "next_bit - count = 0 \<or> bitmap_scan_test b (next_bit - count - 1)"
    and "\<forall>p. p + cnt \<le> next_bit \<longrightarrow> \<not> free_run b p cnt"
  shows "(scan_run b cnt bit_left next_bit count = -1 \<and>
            (\<forall>p. p + cnt \<le> next_bit + bit_left \<longrightarrow> \<not> free_run b p cnt)) \<or>
         (\<exists>p. scan_run b cnt bit_left next_bit count = int p \<and> p + cnt \<le> next_bit + bit_left \<and>
            free_run b p cnt \<and> (\<forall>q<p. \<not> free_run b q cnt))"
  using assms(2-)
proof (induction bit_left arbitrary: next_bit count)
  case 0
  then show ?case by simp
next
  case (Suc bit_left)
  show ?case
  proof (cases "bitmap_scan_test b next_bit")
    case True
    have none: "\<not> free_run b p cnt" if "p + cnt \<le> Suc next_bit" for p
      using that Suc.prems(5) True free_runD [of b p cnt next_bit] \<open>2 \<le> cnt\<close>
      by (cases "p + cnt = Suc next_bit") auto
    have "scan_run b cnt (Suc bit_left) next_bit count = scan_run b cnt bit_left (Suc next_bit) 0"
      using True \<open>2 \<le> cnt\<close> by simp
    with Suc.IH [of 0 "Suc next_bit"] True none \<open>2 \<le> cnt\<close> show ?thesis
      by (simp del: scan_run.simps add: free_run_def [of _ _ 0])
  next
    case False
    have run: "free_run b (next_bit - count) (Suc count)"
      using Suc.prems(2,3) False by (simp add: free_run_Suc)
    show ?thesis
    proof (cases "Suc count = cnt")
      case True
      have "\<not> free_run b q cnt" if "q < next_bit - count" for q
        using that Suc.prems(2,5) True by auto
      moreover have "int next_bit - int cnt + 1 = int (next_bit - count)"
        using Suc.prems(2) True by simp
      ultimately show ?thesis
        using run False True Suc.prems(2) by (intro disjI2 exI [of _ "next_bit - count"]) auto
    next
      case neq: False
      have none: "\<not> free_run b p cnt" if "p + cnt \<le> Suc next_bit" for p
      proof (cases "p + cnt = Suc next_bit")
        case True
        then have "p \<le> next_bit - count - 1" "next_bit - count - 1 < p + cnt" "next_bit - count \<noteq> 0"
          using Suc.prems(1,2) neq by auto
        then show ?thesis using Suc.prems(4) free_runD [of b p cnt "next_bit - count - 1"] by auto
      qed (use that Suc.prems(5) in auto)
      have "scan_run b cnt (Suc bit_left) next_bit count =
          scan_run b cnt bit_left (Suc next_bit) (Suc count)"
        using False neq by simp
      with Suc.IH [of "Suc count" "Suc next_bit"] Suc.prems(1,2,4) run none neq show ?thesis
        by (simp del: scan_run.simps)
    qed
  qed
qed

lemma bitmap_scan_many:
  assumes "2 \<le> cnt" "bitmap_scan b cnt = Inr r"
  shows "(r = -1 \<and> (\<forall>p. p + cnt \<le> bm_cap b + 1 \<longrightarrow> \<not> free_run b p cnt)) \<or>
         (\<exists>p. r = int p \<and> p + cnt \<le> bm_cap b + 1 \<and> free_run b p cnt \<and>
            (\<forall>q<p. \<not> free_run b q cnt))"
proof -
  define i where "i = skip_full_bytes b 0"
  define f where "f = i * 8 + skip_set_bits (bits b i) 0"
  have lt: "i < btmp_bytes_len b"
    using assms by (auto simp: bitmap_scan_def i_def Let_def ASSERT_eq_Inr)
  then have first: "f < bm_cap b" "\<not> bitmap_scan_test b f" "\<forall>j<f. bitmap_scan_test b j"
    using first_free_bit [of b] by (simp_all add: i_def f_def)
  have r: "r = scan_run b cnt (bm_cap b - f) (f + 1) 1"
    using assms lt by (simp add: bitmap_scan_def i_def f_def Let_def bm_cap_def mult.commute)
  have prev: "f = 0 \<or> bitmap_scan_test b (f - 1)" using first(3) by (cases f) auto
  have "\<not> free_run b p cnt" if "p + cnt \<le> f + 1" for p
    using that first(3) assms(1) free_runD [of b p cnt p] by auto
  then have "(r = -1 \<and> (\<forall>p. p + cnt \<le> f + 1 + (bm_cap b - f) \<longrightarrow> \<not> free_run b p cnt)) \<or>
         (\<exists>p. r = int p \<and> p + cnt \<le> f + 1 + (bm_cap b - f) \<and> free_run b p cnt \<and>
            (\<forall>q<p. \<not> free_run b q cnt))"
    unfolding r using first(1,2) prev assms(1)
    by (intro scan_run_spec) (auto simp: free_run_def)
  then show ?thesis using first(1) by simp
qed

subsection \<open>The allocator interface\<close>

text \<open>
  What palloc, vaddr_get, allocate_pid, inode_bitmap_alloc and block_bitmap_alloc
  rely on: a scan for one bit gives the lowest free one, it stops the kernel when
  there is none, and a set changes that bit only.
\<close>

locale bit_allocator =
  fixes test :: "'b \<Rightarrow> nat \<Rightarrow> bool"
    and scan :: "'b \<Rightarrow> nat \<Rightarrow> int outcome"
    and setb :: "'b \<Rightarrow> nat \<Rightarrow> int \<Rightarrow> 'b outcome"
    and cap :: "'b \<Rightarrow> nat"
    and used :: "'b \<Rightarrow> nat set"
  assumes used_eq: "used b = {i. i < cap b \<and> test b i}"
    and scan_one: "scan b 1 = Inr r \<Longrightarrow> \<exists>i. r = int i \<and> i < cap b \<and> \<not> test b i \<and> (\<forall>j<i. test b j)"
    and scan_stops: "scan b n = Inl t \<longleftrightarrow> t = AssertFail \<and> (\<forall>j<cap b. test b j)"
    and setb_ok: "v = 0 \<or> v = 1 \<Longrightarrow> \<exists>b'. setb b i v = Inr b'"
    and setb_test: "setb b i v = Inr b' \<Longrightarrow> test b' j = (if j = i then v = 1 else test b j)"
    and setb_cap: "setb b i v = Inr b' \<Longrightarrow> cap b' = cap b"
begin

lemma used_bound: "i \<in> used b \<Longrightarrow> i < cap b"
  by (simp add: used_eq)

lemma finite_used: "finite (used b)"
  by (simp add: used_eq)

lemma scan_cases:
  obtains (full) "used b = {..<cap b}" "scan b 1 = Inl AssertFail"
  | (free) i where "scan b 1 = Inr (int i)" "i < cap b" "i \<notin> used b" "\<forall>j<i. j \<in> used b"
proof (cases "scan b 1")
  case (Inl t)
  then show ?thesis using full scan_stops [of b 1 t] by (auto simp: used_eq)
next
  case (Inr r)
  from scan_one [OF this] obtain i where "r = int i" "i < cap b" "\<not> test b i" "\<forall>j<i. test b j"
    by auto
  then show ?thesis using free [of i] Inr by (auto simp: used_eq)
qed

lemma scan_not_minus_one: "scan b 1 \<noteq> Inr (-1)"
  by (cases rule: scan_cases [of b]) auto

lemma setb_used:
  assumes "setb b i v = Inr b'" "i < cap b"
  shows "used b' = (if v = 1 then insert i (used b) else used b - {i})"
  using setb_test [OF assms(1)] setb_cap [OF assms(1)] assms(2) by (auto simp: used_eq)

lemma alloc_fresh:
  assumes "scan b 1 = Inr r"
  shows "\<exists>i b'. r = int i \<and> setb b i 1 = Inr b' \<and> i < cap b \<and> i \<notin> used b \<and>
    used b' = insert i (used b) \<and> cap b' = cap b"
proof -
  from scan_one [OF assms] obtain i where i: "r = int i" "i < cap b" "\<not> test b i" by auto
  obtain b' where b': "setb b i 1 = Inr b'" using setb_ok [of 1 b i] by auto
  show ?thesis
    using i b' setb_used [OF b' i(2)] setb_cap [OF b'] by (intro exI [of _ i] exI [of _ b']) (simp add: used_eq)
qed

lemma alloc_card:
  assumes "scan b 1 = Inr (int i)" "setb b i 1 = Inr b'"
  shows "card (used b') = Suc (card (used b))"
  using alloc_fresh [OF assms(1)] assms(2) finite_used [of b] by auto

lemma alloc_then_free:
  assumes "scan b 1 = Inr (int i)" "setb b i 1 = Inr b'" "setb b' i 0 = Inr b''"
  shows "used b'' = used b"
proof -
  have "i < cap b" "i \<notin> used b" using scan_one [OF assms(1)] by (auto simp: used_eq)
  then show ?thesis
    using setb_used [OF assms(2)] setb_used [OF assms(3)] setb_cap [OF assms(2)] by auto
qed

end

interpretation bm: bit_allocator bitmap_scan_test bitmap_scan bitmap_set bm_cap bm_used
proof
  fix b :: bitmap and i j n :: nat and v r :: int and t b'
  show "bm_used b = {i. i < bm_cap b \<and> bitmap_scan_test b i}" by (rule bm_used_def)
  show "bitmap_scan b 1 = Inr r \<Longrightarrow>
    \<exists>i. r = int i \<and> i < bm_cap b \<and> \<not> bitmap_scan_test b i \<and> (\<forall>j<i. bitmap_scan_test b j)"
    by (rule bitmap_scan_one)
  show "bitmap_scan b n = Inl t \<longleftrightarrow> t = AssertFail \<and> (\<forall>j<bm_cap b. bitmap_scan_test b j)"
    by (rule bitmap_scan_full)
  show "v = 0 \<or> v = 1 \<Longrightarrow> \<exists>b'. bitmap_set b i v = Inr b'" by (rule bitmap_set_ok)
  show "bitmap_set b i v = Inr b' \<Longrightarrow>
    bitmap_scan_test b' j = (if j = i then v = 1 else bitmap_scan_test b j)"
    by (rule bitmap_set_test)
  show "bitmap_set b i v = Inr b' \<Longrightarrow> bm_cap b' = bm_cap b"
    by (simp add: bm_cap_def bitmap_set_test(2))
qed

lemma bm_used_init: "bm_used (bitmap_init b) = {}"
  using bitmap_init_test [of _ b] by (auto simp: bm_used_def bm_cap_def)

end
