(* ===== verification/Thread.thy ===== *)
theory Thread
  imports Paging Bitmap
begin

text \<open>
  Threads and the scheduler: \<^verbatim>\<open>thread/thread.c\<close>, \<^verbatim>\<open>thread/switch.S\<close> and the address
  space switch of \<^verbatim>\<open>userprog/process.c\<close>. A control block is named by its page address; its
  two list nodes lie at the offsets of \<open>general_tag\<close> and \<open>all_list_tag\<close> in
  \<open>struct task_struct\<close>, in the heap of list nodes. The running thread is the page the stack
  pointer is in, as in \<open>running_thread\<close>.

  A call that gives up the processor ends at \<open>switch_to\<close>: its result is the state in which the
  next thread continues. What the caller does when it is scheduled again, restoring its
  interrupt flag, is a separate definition.

  The scheduler refines an abstract one on lists of threads; the abstract scheduler carries
  the invariants.
\<close>

section \<open>Control blocks\<close>

datatype task_status =
  TASK_RUNNING | TASK_READY | TASK_BLOCKED | TASK_WAITING | TASK_HANGING | TASK_DIED

record virtual_addr =
  vaddr_bitmap :: bitmap
  vaddr_start :: u32

record task_struct =
  self_kstack :: u32
  pid :: u16
  status :: task_status
  tname :: "u8 list"
  priority :: u8
  ticks :: u8
  elapsed_ticks :: u32
  pgdir :: u32
  userprog_vaddr :: virtual_addr
  fd_table :: "u32 list"
  cwd_inode_nr :: u32
  parent_pid :: u16
  exit_status :: u8
  stack_magic :: u32

record sched = paging +
  tcb :: "nat \<Rightarrow> task_struct option"
  esp :: u32
  main_thread :: nat
  idle_thread :: nat
  thread_ready_list :: nat
  thread_all_list :: nat
  thread_tag :: nat
  tss_esp0 :: u32

definition general_tag :: "nat \<Rightarrow> nat" where
  "general_tag pthread = pthread + 36"

definition all_list_tag :: "nat \<Rightarrow> nat" where
  "all_list_tag pthread = pthread + 44"

definition entry_of_general :: "nat \<Rightarrow> nat" where
  "entry_of_general elem = elem - 36"

definition entry_of_all :: "nat \<Rightarrow> nat" where
  "entry_of_all elem = elem - 44"

definition get_task :: "nat \<Rightarrow> 'a sched_scheme \<Rightarrow> task_struct outcome" where
  "get_task p s = (case tcb s p of Some t \<Rightarrow> Inr t | None \<Rightarrow> Inl BadAccess)"

definition set_task :: "nat \<Rightarrow> (task_struct \<Rightarrow> task_struct) \<Rightarrow> 'a sched_scheme \<Rightarrow> 'a sched_scheme outcome" where
  "set_task p f s = andThen (get_task p s) (\<lambda>t. Inr (s\<lparr>tcb := (tcb s)(p \<mapsto> f t)\<rparr>))"

definition running_thread :: "'a sched_scheme \<Rightarrow> nat" where
  "running_thread s = unat (esp s AND 0xfffff000)"

section \<open>Switching\<close>

definition page_dir_activate :: "nat \<Rightarrow> 'a sched_scheme \<Rightarrow> 'a sched_scheme outcome" where
  "page_dir_activate p_thread s =
     andThen (get_task p_thread s) (\<lambda>t.
     andThen (if pgdir t \<noteq> 0 then addr_v2p (pgdir t) s else Inr 0x100000) (\<lambda>pagedir_phy_addr.
     Inr (s\<lparr>cr3 := pagedir_phy_addr\<rparr>)))"

definition update_tss_esp :: "nat \<Rightarrow> 'a sched_scheme \<Rightarrow> 'a sched_scheme" where
  "update_tss_esp pthread s = s\<lparr>tss_esp0 := of_nat pthread + 4096\<rparr>"

definition process_activate :: "nat \<Rightarrow> 'a sched_scheme \<Rightarrow> 'a sched_scheme outcome" where
  "process_activate p_thread s = ASSERT (p_thread \<noteq> 0)
     (andThen (page_dir_activate p_thread s) (\<lambda>s.
      andThen (get_task p_thread s) (\<lambda>t.
      Inr (if pgdir t \<noteq> 0 then update_tss_esp p_thread s else s))))"

text \<open>
  \<open>switch_to\<close> saves the stack pointer in the control block of \<open>cur\<close> and loads that of
  \<open>next\<close>; the callee-saved registers go through the same two stacks.
\<close>

definition switch_to :: "nat \<Rightarrow> nat \<Rightarrow> 'a sched_scheme \<Rightarrow> 'a sched_scheme outcome" where
  "switch_to cur next_p s =
     andThen (set_task cur (\<lambda>t. t\<lparr>self_kstack := esp s\<rparr>) s) (\<lambda>s.
     andThen (get_task next_p s) (\<lambda>t. Inr (s\<lparr>esp := self_kstack t\<rparr>)))"

section \<open>The scheduler\<close>

definition thread_unblock :: "nat \<Rightarrow> 'a sched_scheme \<Rightarrow> 'a sched_scheme outcome" where
  "thread_unblock pthread s =
     (let (old_status, s) = intr_disable s in
      andThen (get_task pthread s) (\<lambda>t.
      ASSERT (status t = TASK_BLOCKED \<or> status t = TASK_WAITING \<or> status t = TASK_HANGING)
     (andThen
       (if status t \<noteq> TASK_READY then
          andThen (elem_find (thread_ready_list s) (general_tag pthread) s) (\<lambda>found. ASSERT (\<not> found)
         (andThen (elem_find (thread_ready_list s) (general_tag pthread) s) (\<lambda>found. if found then Inl Panic else
          andThen (list_push (thread_ready_list s) (general_tag pthread) s) (\<lambda>s.
          set_task pthread (\<lambda>t. t\<lparr>status := TASK_READY\<rparr>) s))))
        else Inr s) (\<lambda>s.
      Inr (snd (intr_set_status old_status s))))))"

definition schedule :: "'a sched_scheme \<Rightarrow> 'a sched_scheme outcome" where
  "schedule s = ASSERT (intr_get_status s = INTR_OFF)
     (let cur = running_thread s in
      andThen (get_task cur s) (\<lambda>t.
      andThen
        (if status t = TASK_RUNNING then
           andThen (elem_find (thread_ready_list s) (general_tag cur) s) (\<lambda>found. ASSERT (\<not> found)
          (andThen (list_append (thread_ready_list s) (general_tag cur) s) (\<lambda>s.
           set_task cur (\<lambda>t. t\<lparr>ticks := priority t, status := TASK_READY\<rparr>) s)))
         else Inr s) (\<lambda>s.
      andThen (list_empty (thread_ready_list s) s) (\<lambda>none.
      andThen (if none then thread_unblock (idle_thread s) s else Inr s) (\<lambda>s.
      andThen (list_empty (thread_ready_list s) s) (\<lambda>none. ASSERT (\<not> none)
     (let s = s\<lparr>thread_tag := 0\<rparr> in
      andThen (list_pop (thread_ready_list s) s) (\<lambda>(tag, s).
      let s = s\<lparr>thread_tag := tag\<rparr>; next_p = entry_of_general tag in
      andThen (set_task next_p (\<lambda>t. t\<lparr>status := TASK_RUNNING\<rparr>) s) (\<lambda>s.
      andThen (process_activate next_p s) (\<lambda>s.
      switch_to cur next_p s))))))))))"

text \<open>
  \<open>thread_block\<close> and \<open>thread_yield\<close> return the interrupt status the caller had, which it
  restores with \<open>resume_switch\<close> when it is scheduled again.
\<close>

definition thread_block :: "task_status \<Rightarrow> 'a sched_scheme \<Rightarrow> (intr_status \<times> 'a sched_scheme) outcome" where
  "thread_block stat s =
     ASSERT (stat = TASK_BLOCKED \<or> stat = TASK_WAITING \<or> stat = TASK_HANGING)
    (let (old_status, s) = intr_disable s in
     andThen (set_task (running_thread s) (\<lambda>t. t\<lparr>status := stat\<rparr>) s) (\<lambda>s.
     andThen (schedule s) (\<lambda>s.
     Inr (old_status, s))))"

definition thread_yield :: "'a sched_scheme \<Rightarrow> (intr_status \<times> 'a sched_scheme) outcome" where
  "thread_yield s =
     (let cur = running_thread s;
          (old_status, s) = intr_disable s in
      andThen (elem_find (thread_ready_list s) (general_tag cur) s) (\<lambda>found. ASSERT (\<not> found)
     (andThen (list_append (thread_ready_list s) (general_tag cur) s) (\<lambda>s.
      andThen (set_task cur (\<lambda>t. t\<lparr>status := TASK_READY\<rparr>) s) (\<lambda>s.
      andThen (schedule s) (\<lambda>s.
      Inr (old_status, s)))))))"

definition resume_switch :: "intr_status \<Rightarrow> 'a sched_scheme \<Rightarrow> 'a sched_scheme" where
  "resume_switch old_status s = snd (intr_set_status old_status s)"

section \<open>Looking up a thread\<close>

definition pid_check :: "nat \<Rightarrow> int \<Rightarrow> 'a sched_scheme \<Rightarrow> (bool \<times> 'a sched_scheme) outcome" where
  "pid_check pelem p s = andThen (get_task (entry_of_all pelem) s) (\<lambda>t. Inr (sint (pid t) = p, s))"

definition pid2thread :: "int \<Rightarrow> 'a sched_scheme \<Rightarrow> nat outcome" where
  "pid2thread p s =
     andThen (list_traversal (thread_all_list s) pid_check p s) (\<lambda>(pelem, s).
     Inr (if pelem = 0 then 0 else entry_of_all pelem))"

section \<open>The abstract scheduler\<close>

record asched =
  aready :: "nat list"
  astatus :: "nat \<Rightarrow> task_status option"
  acur :: nat
  aidle :: nat

definition aunblock :: "nat \<Rightarrow> asched \<Rightarrow> asched" where
  "aunblock p a = a\<lparr>aready := p # aready a, astatus := (astatus a)(p \<mapsto> TASK_READY)\<rparr>"

definition arequeue :: "asched \<Rightarrow> asched" where
  "arequeue a = (if astatus a (acur a) = Some TASK_RUNNING
     then a\<lparr>aready := aready a @ [acur a], astatus := (astatus a)(acur a \<mapsto> TASK_READY)\<rparr> else a)"

definition awake_idle :: "asched \<Rightarrow> asched" where
  "awake_idle a = (if aready a = [] then aunblock (aidle a) a else a)"

definition apick :: "asched \<Rightarrow> asched" where
  "apick a = a\<lparr>acur := hd (aready a), aready := tl (aready a),
     astatus := (astatus a)(hd (aready a) \<mapsto> TASK_RUNNING)\<rparr>"

definition aschedule :: "asched \<Rightarrow> asched" where
  "aschedule a = apick (awake_idle (arequeue a))"

section \<open>Refinement\<close>

text \<open>
  What the concrete state must satisfy besides representing the abstract one: every stack
  pointer of a thread that is not running points into the page of its control block, and
  every page directory can be activated from every address space in use.
\<close>

definition stacks_ok :: "'a sched_scheme \<Rightarrow> bool" where
  "stacks_ok s \<longleftrightarrow> (\<forall>p t. tcb s p = Some t \<longrightarrow> p \<noteq> running_thread s \<longrightarrow> unat (self_kstack t AND 0xfffff000) = p)"

definition valid_cr3 :: "(nat \<Rightarrow> u32) \<Rightarrow> 'a sched_scheme \<Rightarrow> u32 \<Rightarrow> bool" where
  "valid_cr3 ph s r \<longleftrightarrow> r = 0x100000 \<or> (\<exists>q u. tcb s q = Some u \<and> pgdir u \<noteq> 0 \<and> r = ph q)"

definition dirs_ok :: "(nat \<Rightarrow> u32) \<Rightarrow> 'a sched_scheme \<Rightarrow> bool" where
  "dirs_ok ph s \<longleftrightarrow> valid_cr3 ph s (cr3 s) \<and>
     (\<forall>r p t. valid_cr3 ph s r \<longrightarrow> tcb s p = Some t \<longrightarrow> pgdir t \<noteq> 0 \<longrightarrow>
        addr_v2p (pgdir t) (s\<lparr>cr3 := r\<rparr>) = Inr (ph p))"

definition sim :: "(nat \<Rightarrow> u32) \<Rightarrow> 'a sched_scheme \<Rightarrow> (nat \<rightharpoonup> nat list) \<Rightarrow> asched \<Rightarrow> bool" where
  "sim ph s L a \<longleftrightarrow> lists_rep s L \<and> L (thread_ready_list s) = Some (map general_tag (aready a))
     \<and> (\<forall>p. astatus a p = map_option status (tcb s p)) \<and> tcb s 0 = None
     \<and> running_thread s = acur a \<and> idle_thread s = aidle a \<and> stacks_ok s \<and> dirs_ok ph s"

text \<open>The tag of a thread that is in no list.\<close>

definition free_tag :: "'a sched_scheme \<Rightarrow> (nat \<rightharpoonup> nat list) \<Rightarrow> nat \<Rightarrow> bool" where
  "free_tag s L p \<longleftrightarrow> detached s L (general_tag p)"

lemma general_tag_inj [simp]: "general_tag p = general_tag q \<longleftrightarrow> p = q"
  by (simp add: general_tag_def)

lemma entry_of_general [simp]: "entry_of_general (general_tag p) = p"
  by (simp add: entry_of_general_def general_tag_def)

lemma entry_of_all [simp]: "entry_of_all (all_list_tag p) = p"
  by (simp add: entry_of_all_def all_list_tag_def)

lemma set_task_eq: "tcb s p = Some t \<Longrightarrow> set_task p f s = Inr (s\<lparr>tcb := (tcb s)(p \<mapsto> f t)\<rparr>)"
  by (simp add: set_task_def get_task_def)

lemma addr_v2p_cong: "pm s = pm t \<Longrightarrow> cr3 s = cr3 t \<Longrightarrow> addr_v2p v s = addr_v2p v t"
  by (simp add: addr_v2p_def vload_def translate_def pte_addr_def pde_addr_def)

text \<open>Updates the scheduler makes to a state that keep \<open>stacks_ok\<close> and \<open>dirs_ok\<close>.\<close>

definition same_memory :: "'a sched_scheme \<Rightarrow> 'a sched_scheme \<Rightarrow> bool" where
  "same_memory s s' \<longleftrightarrow> pm s' = pm s \<and> cr3 s' = cr3 s \<and> esp s' = esp s
     \<and> idle_thread s' = idle_thread s \<and> thread_ready_list s' = thread_ready_list s
     \<and> (\<forall>p. map_option pgdir (tcb s' p) = map_option pgdir (tcb s p)
          \<and> map_option self_kstack (tcb s' p) = map_option self_kstack (tcb s p))"

lemma same_memory_tcb:
  assumes "same_memory s s'" "tcb s' p = Some t'"
  shows "\<exists>t. tcb s p = Some t \<and> pgdir t = pgdir t' \<and> self_kstack t = self_kstack t'"
proof -
  have "map_option pgdir (tcb s p) = Some (pgdir t')" "map_option self_kstack (tcb s p) = Some (self_kstack t')"
    using assms unfolding same_memory_def by (metis option.map(2))+
  then show ?thesis by auto
qed

lemma same_memory_sym: "same_memory s s' \<Longrightarrow> same_memory s' s"
  by (simp add: same_memory_def)

lemma same_memory_valid: "same_memory s s' \<Longrightarrow> valid_cr3 ph s' r \<longleftrightarrow> valid_cr3 ph s r"
  unfolding valid_cr3_def using same_memory_tcb [of s s'] same_memory_tcb [of s' s] same_memory_sym [of s s']
  by metis

lemma same_memory_ok:
  assumes "same_memory s s'"
  shows "stacks_ok s \<Longrightarrow> stacks_ok s'" "dirs_ok ph s \<Longrightarrow> dirs_ok ph s'" "running_thread s' = running_thread s"
proof -
  show r: "running_thread s' = running_thread s" using assms by (simp add: same_memory_def running_thread_def)
  show "stacks_ok s'" if "stacks_ok s"
    using that same_memory_tcb [OF assms] unfolding stacks_ok_def r by metis
  have "addr_v2p v (s'\<lparr>cr3 := c\<rparr>) = addr_v2p v (s\<lparr>cr3 := c\<rparr>)" for v c
    using assms by (intro addr_v2p_cong) (simp_all add: same_memory_def)
  moreover have "cr3 s' = cr3 s" using assms by (simp add: same_memory_def)
  ultimately show "dirs_ok ph s'" if "dirs_ok ph s"
    using that same_memory_tcb [OF assms] unfolding dirs_ok_def same_memory_valid [OF assms] by metis
qed

lemma simD:
  assumes "sim ph s L a"
  shows "lists_rep s L" "L (thread_ready_list s) = Some (map general_tag (aready a))"
    "astatus a p = map_option status (tcb s p)" "tcb s 0 = None" "running_thread s = acur a"
    "idle_thread s = aidle a" "stacks_ok s" "dirs_ok ph s"
  using assms by (simp_all add: sim_def)

text \<open>A list operation on the ready list followed by a status change.\<close>

lemma sim_update:
  assumes sim: "sim ph s L a" and t: "same_but_links s t" "lists_rep t L'"
    and L': "L' (thread_ready_list s) = Some (map general_tag rs)"
    and x: "tcb s p = Some x" and y: "y = f x" "pgdir y = pgdir x" "self_kstack y = self_kstack x"
  shows "set_task p f t = Inr (t\<lparr>tcb := (tcb t)(p \<mapsto> y)\<rparr>)"
    and "sim ph (t\<lparr>tcb := (tcb t)(p \<mapsto> y)\<rparr>) L' (a\<lparr>aready := rs, astatus := (astatus a)(p \<mapsto> status y)\<rparr>)"
proof -
  obtain h where h: "t = s\<lparr>elems := h\<rparr>" using t(1) by (auto simp: same_but_links_def)
  let ?u = "t\<lparr>tcb := (tcb t)(p \<mapsto> y)\<rparr>"
  show "set_task p f t = Inr ?u" using x y(1) by (simp add: h set_task_eq)
  have m: "same_memory s ?u" using x y by (auto simp: same_memory_def h)
  have "p \<noteq> 0" using x simD(4) [OF sim] by (metis option.distinct(1))
  moreover have "lists_rep ?u L'" using t(2) lists_rep_cong [of ?u t] by simp
  ultimately show "sim ph ?u L' (a\<lparr>aready := rs, astatus := (astatus a)(p \<mapsto> status y)\<rparr>)"
    using simD [OF sim] L' x same_memory_ok [OF m] by (auto simp: sim_def h)
qed

lemma general_tag_mem: "general_tag p \<in> set (map general_tag xs) \<longleftrightarrow> p \<in> set xs"
  by auto

lemma free_tag_not_ready:
  assumes "sim ph s L a" "free_tag s L p"
  shows "p \<notin> set (aready a)"
  using detached_not_in [OF assms(2) [unfolded free_tag_def] simD(2) [OF assms(1)]]
  by (auto simp: nodes_def)

text \<open>The nodes that exist and the part of the state beyond the scheduler's fields stay as they are.\<close>

definition same_ext :: "'a sched_scheme \<Rightarrow> 'a sched_scheme \<Rightarrow> bool" where
  "same_ext s u \<longleftrightarrow> dom (elems u) = dom (elems s) \<and> sched.more u = sched.more s"

lemma same_ext_trans: "same_ext s t \<Longrightarrow> same_ext t u \<Longrightarrow> same_ext s u"
  by (simp add: same_ext_def)

lemma requeue_sim:
  assumes sim: "sim ph s L a" and t: "tcb s (acur a) = Some t" and f: "free_tag s L (acur a)"
  shows "\<exists>u. andThen (elem_find (thread_ready_list s) (general_tag (acur a)) s) (\<lambda>found. ASSERT (\<not> found)
          (andThen (list_append (thread_ready_list s) (general_tag (acur a)) s) (\<lambda>s.
           set_task (acur a) (\<lambda>t. t\<lparr>ticks := priority t, status := TASK_READY\<rparr>) s))) = Inr u
      \<and> sim ph u (L(thread_ready_list s \<mapsto> map general_tag (aready a @ [acur a])))
            (a\<lparr>aready := aready a @ [acur a], astatus := (astatus a)(acur a \<mapsto> TASK_READY)\<rparr>)
      \<and> eflags u = eflags s \<and> thread_ready_list u = thread_ready_list s \<and> same_ext s u"
proof -
  note d = simD [OF sim]
  have "elem_find (thread_ready_list s) (general_tag (acur a)) s = Inr False"
    using elem_find_rep [OF d(1,2)] free_tag_not_ready [OF sim f] by auto
  moreover obtain v where v: "list_append (thread_ready_list s) (general_tag (acur a)) s = Inr v"
    "lists_rep v (L(thread_ready_list s \<mapsto> map general_tag (aready a @ [acur a])))" "same_but_links s v"
    using list_append_rep [OF d(1,2)] f by (auto simp: free_tag_def)
  moreover obtain h where h: "v = s\<lparr>elems := h\<rparr>" "dom h = dom (elems s)"
    using v(3) by (auto simp: same_but_links_def)
  ultimately show ?thesis
    using sim_update [OF sim v(3,2), of "aready a @ [acur a]" "acur a" t "t\<lparr>ticks := priority t, status := TASK_READY\<rparr>"
      "\<lambda>t. t\<lparr>ticks := priority t, status := TASK_READY\<rparr>"] t
    by (simp add: h same_ext_def)
qed

lemma sim_eflags: "sim ph (s\<lparr>eflags := e\<rparr>) L a \<longleftrightarrow> sim ph s L a"
proof -
  have m: "same_memory s (s\<lparr>eflags := e\<rparr>)" by (simp add: same_memory_def)
  show ?thesis
    using same_memory_ok [OF m] same_memory_ok [OF same_memory_sym [OF m]] lists_rep_cong [of "s\<lparr>eflags := e\<rparr>" s L]
    by (auto simp: sim_def)
qed

lemma free_tag_cong: "elems s = elems t \<Longrightarrow> free_tag s L p \<longleftrightarrow> free_tag t L p"
  by (simp add: free_tag_def detached_cong [of s t])

lemma intr_disable_form: "\<exists>old e. intr_disable s = (old, s\<lparr>eflags := e\<rparr>)"
proof (cases s rule: intr_disable_cases)
  case off
  then have "intr_disable s = (INTR_OFF, s\<lparr>eflags := eflags s\<rparr>)" by simp
  then show ?thesis by blast
qed blast

lemma unblock_sim:
  assumes sim: "sim ph s L a" and t: "tcb s p = Some t" and f: "free_tag s L p"
    and st: "status t \<in> {TASK_BLOCKED, TASK_WAITING, TASK_HANGING}"
  shows "\<exists>u. thread_unblock p s = Inr u
      \<and> sim ph u (L(thread_ready_list s \<mapsto> map general_tag (p # aready a))) (aunblock p a)
      \<and> eflags u = eflags s \<and> thread_ready_list u = thread_ready_list s
      \<and> same_ext s u"
proof -
  obtain old e where i: "intr_disable s = (old, s\<lparr>eflags := e\<rparr>)" using intr_disable_form by blast
  let ?s = "s\<lparr>eflags := e\<rparr>" and ?L = "L(thread_ready_list s \<mapsto> map general_tag (p # aready a))"
  have sim': "sim ph ?s L a" using sim by (simp add: sim_eflags)
  have f': "free_tag ?s L p" using f free_tag_cong [of ?s s] by simp
  note d = simD [OF sim']
  have e: "elem_find (thread_ready_list ?s) (general_tag p) ?s = Inr False"
    using elem_find_rep [OF d(1,2)] free_tag_not_ready [OF sim' f'] by auto
  obtain v where v: "list_push (thread_ready_list ?s) (general_tag p) ?s = Inr v" "lists_rep v ?L" "same_but_links ?s v"
    using list_push_rep [OF d(1,2)] f' by (auto simp: free_tag_def)
  let ?y = "t\<lparr>status := TASK_READY\<rparr>" let ?u = "v\<lparr>tcb := (tcb v)(p \<mapsto> ?y)\<rparr>"
  have "set_task p (\<lambda>t. t\<lparr>status := TASK_READY\<rparr>) v = Inr ?u"
    and u: "sim ph ?u ?L (aunblock p a)"
    using sim_update [OF sim' v(3,2), of "p # aready a" p t ?y "\<lambda>t. t\<lparr>status := TASK_READY\<rparr>"] t
    by (simp_all add: aunblock_def)
  then have "thread_unblock p s = Inr (snd (intr_set_status old ?u))"
    using i t st e v(1) by (auto simp: thread_unblock_def get_task_def)
  moreover have "snd (intr_set_status old ?u) = ?u\<lparr>eflags := eflags s\<rparr>"
    using v(3) by (intro critical_section [OF i]) (auto simp: same_but_links_def)
  moreover have "sim ph (?u\<lparr>eflags := eflags s\<rparr>) ?L (aunblock p a)" using u by (simp only: sim_eflags)
  moreover obtain h where "v = ?s\<lparr>elems := h\<rparr>" "dom h = dom (elems s)"
    using v(3) by (auto simp: same_but_links_def)
  ultimately show ?thesis by (intro exI [of _ "?u\<lparr>eflags := eflags s\<rparr>"]) (simp add: same_ext_def)
qed

lemma activate_ok:
  assumes "dirs_ok ph s" "tcb s p = Some t" "p \<noteq> 0"
  shows "\<exists>c e. process_activate p s = Inr (s\<lparr>cr3 := c, tss_esp0 := e\<rparr>) \<and> valid_cr3 ph s c"
proof (cases "pgdir t = 0")
  case True
  then have "process_activate p s = Inr (s\<lparr>cr3 := 0x100000, tss_esp0 := tss_esp0 s\<rparr>)"
    using assms by (simp add: process_activate_def page_dir_activate_def get_task_def)
  moreover have "valid_cr3 ph s 0x100000" by (simp add: valid_cr3_def)
  ultimately show ?thesis by blast
next
  case False
  have "addr_v2p (pgdir t) (s\<lparr>cr3 := cr3 s\<rparr>) = Inr (ph p)"
    using assms False unfolding dirs_ok_def by metis
  then have "process_activate p s = Inr (s\<lparr>cr3 := ph p, tss_esp0 := of_nat p + 4096\<rparr>)"
    using assms False by (simp add: process_activate_def page_dir_activate_def get_task_def update_tss_esp_def)
  then show ?thesis using assms(2) False by (auto simp: valid_cr3_def)
qed

lemma switch_ok:
  assumes "tcb s c = Some t" "tcb s p = Some t'"
  shows "switch_to c p s = Inr (s\<lparr>tcb := (tcb s)(c \<mapsto> t\<lparr>self_kstack := esp s\<rparr>),
    esp := if p = c then esp s else self_kstack t'\<rparr>)"
  using assms by (simp add: switch_to_def set_task_def get_task_def)

lemma dirs_ok_cong:
  assumes "dirs_ok ph s" "pm s' = pm s" "valid_cr3 ph s (cr3 s')"
    and t: "\<And>p. map_option pgdir (tcb s' p) = map_option pgdir (tcb s p)"
  shows "dirs_ok ph s'"
proof -
  have eq: "\<exists>t. tcb s p = Some t \<and> pgdir t = pgdir t'" if "tcb s' p = Some t'" for p t'
    using t [of p] that by (cases "tcb s p") auto
  have eq': "\<exists>t. tcb s' p = Some t \<and> pgdir t = pgdir t'" if "tcb s p = Some t'" for p t'
    using t [of p] that by (cases "tcb s' p") auto
  have v: "valid_cr3 ph s' r \<longleftrightarrow> valid_cr3 ph s r" for r
    unfolding valid_cr3_def using eq eq' by metis
  have "addr_v2p a (s'\<lparr>cr3 := c\<rparr>) = addr_v2p a (s\<lparr>cr3 := c\<rparr>)" for a c
    using assms(2) by (intro addr_v2p_cong) simp_all
  then show ?thesis using assms(1,3) eq unfolding dirs_ok_def v by metis
qed

text \<open>The end of \<open>schedule\<close>: the first ready thread gets the processor.\<close>

lemma pick_sim:
  assumes sim: "sim ph s L a" and r: "aready a = p # rs"
    and t: "tcb s (acur a) = Some t" and t': "tcb s p = Some t'"
  shows "\<exists>u. andThen (list_pop (thread_ready_list s) (s\<lparr>thread_tag := 0\<rparr>)) (\<lambda>(tag, s).
      let s = s\<lparr>thread_tag := tag\<rparr>; next_p = entry_of_general tag in
      andThen (set_task next_p (\<lambda>t. t\<lparr>status := TASK_RUNNING\<rparr>) s) (\<lambda>s.
      andThen (process_activate next_p s) (\<lambda>s.
      switch_to (acur a) next_p s))) = Inr u
    \<and> sim ph u (L(thread_ready_list s \<mapsto> map general_tag rs)) (apick a)
    \<and> free_tag u (L(thread_ready_list s \<mapsto> map general_tag rs)) p
    \<and> eflags u = eflags s \<and> thread_ready_list u = thread_ready_list s \<and> same_ext s u"
proof -
  let ?s = "s\<lparr>thread_tag := 0\<rparr>" and ?L = "L(thread_ready_list s \<mapsto> map general_tag rs)"
  note d = simD [OF sim]
  have L: "lists_rep ?s L" using d(1) lists_rep_cong [of ?s s] by simp
  obtain v where v: "list_pop (thread_ready_list s) ?s = Inr (general_tag p, v)" "lists_rep v ?L"
    "detached v ?L (general_tag p)" "same_but_links ?s v"
    using list_pop_rep [OF L, of "thread_ready_list s" "general_tag p" "map general_tag rs"] d(2) r by auto
  obtain h where h: "v = ?s\<lparr>elems := h\<rparr>" and dh: "dom h = dom (elems s)"
    using v(4) by (auto simp: same_but_links_def)
  define t1 where "t1 = t'\<lparr>status := TASK_RUNNING\<rparr>"
  define w where "w = v\<lparr>thread_tag := general_tag p, tcb := (tcb v)(p \<mapsto> t1)\<rparr>"
  have p0: "p \<noteq> 0" "acur a \<noteq> 0" using t t' d(4) by (metis option.distinct(1))+
  have pg: "map_option pgdir (tcb w q) = map_option pgdir (tcb s q)" for q
    using t' by (simp add: w_def h t1_def)
  have "dirs_ok ph w"
    by (rule dirs_ok_cong [OF d(8)]) (use d(8) pg in \<open>auto simp: w_def h dirs_ok_def\<close>)
  then obtain c e where act: "process_activate p w = Inr (w\<lparr>cr3 := c, tss_esp0 := e\<rparr>)" "valid_cr3 ph w c"
    using activate_ok [of ph w p t1] p0 by (auto simp: w_def)
  define tc where "tc = (if acur a = p then t1 else t)"
  define u where "u = w\<lparr>cr3 := c, tss_esp0 := e, tcb := (tcb w)(acur a \<mapsto> tc\<lparr>self_kstack := esp s\<rparr>),
    esp := if p = acur a then esp s else self_kstack t'\<rparr>"
  have sw: "switch_to (acur a) p (w\<lparr>cr3 := c, tss_esp0 := e\<rparr>) = Inr u"
    using switch_ok [of "w\<lparr>cr3 := c, tss_esp0 := e\<rparr>" "acur a" tc p t1] t t'
    by (auto simp: u_def w_def h tc_def t1_def)
  have run: "running_thread u = p"
    using d(5,7) t' by (auto simp: u_def running_thread_def stacks_ok_def)
  have "stacks_ok u"
    using d(5,7) t unfolding stacks_ok_def run
    by (auto simp: u_def w_def h tc_def t1_def running_thread_def split: if_splits)
  moreover have "dirs_ok ph u"
    by (rule dirs_ok_cong [OF \<open>dirs_ok ph w\<close>]) (use act(2) t in \<open>auto simp: u_def w_def h tc_def t1_def\<close>)
  moreover have "lists_rep u ?L" "free_tag u ?L p"
    using v(2,3) lists_rep_cong [of u v] detached_cong [of u v] by (simp_all add: u_def w_def free_tag_def)
  moreover have "astatus (apick a) q = map_option status (tcb u q)" for q
    using d(3) [of q] t t' r by (auto simp: apick_def u_def w_def h tc_def t1_def)
  moreover have "tcb u 0 = None" using d(4) p0 t by (auto simp: u_def w_def h)
  ultimately have "sim ph u ?L (apick a)"
    using run d(6) r by (auto simp: sim_def apick_def u_def w_def h)
  moreover have "set_task p (\<lambda>t. t\<lparr>status := TASK_RUNNING\<rparr>) (v\<lparr>thread_tag := general_tag p\<rparr>) = Inr w"
    using t' by (simp add: set_task_eq h w_def t1_def)
  ultimately show ?thesis
    using v(1) act(1) sw \<open>free_tag u ?L p\<close> dh by (simp add: Let_def) (simp add: u_def w_def h same_ext_def)
qed

text \<open>
  When \<open>schedule\<close> can be called: the caller is a thread, with its tag in no list if it is
  still running; ready threads exist; the idle thread is blocked whenever it would be needed.
\<close>

definition schedulable :: "'a sched_scheme \<Rightarrow> (nat \<rightharpoonup> nat list) \<Rightarrow> asched \<Rightarrow> bool" where
  "schedulable s L a \<longleftrightarrow> astatus a (acur a) \<noteq> None
     \<and> (astatus a (acur a) = Some TASK_RUNNING \<longrightarrow> free_tag s L (acur a))
     \<and> (\<forall>p\<in>set (aready a). astatus a p \<noteq> None)
     \<and> (aready a = [] \<longrightarrow> astatus a (acur a) \<noteq> Some TASK_RUNNING \<longrightarrow>
          astatus a (aidle a) = Some TASK_BLOCKED \<and> free_tag s L (aidle a))"

lemma schedule_requeue:
  assumes sim: "sim ph s L a" and ok: "schedulable s L a" and t: "tcb s (acur a) = Some t"
  shows "\<exists>u. (if status t = TASK_RUNNING then
           andThen (elem_find (thread_ready_list s) (general_tag (acur a)) s) (\<lambda>found. ASSERT (\<not> found)
          (andThen (list_append (thread_ready_list s) (general_tag (acur a)) s) (\<lambda>s.
           set_task (acur a) (\<lambda>t. t\<lparr>ticks := priority t, status := TASK_READY\<rparr>) s)))
         else Inr s) = Inr u
    \<and> sim ph u (L(thread_ready_list s \<mapsto> map general_tag (aready (arequeue a)))) (arequeue a)
    \<and> eflags u = eflags s \<and> thread_ready_list u = thread_ready_list s \<and> same_ext s u
    \<and> (aready (arequeue a) = [] \<longrightarrow> u = s)"
proof (cases "status t = TASK_RUNNING")
  case True
  then have a: "astatus a (acur a) = Some TASK_RUNNING" using simD(3) [OF sim] t by simp
  then have "free_tag s L (acur a)" using ok by (simp add: schedulable_def)
  from requeue_sim [OF sim t this] a True show ?thesis by (auto simp: arequeue_def)
next
  case False
  then have a: "arequeue a = a" using simD(3) [OF sim] t by (simp add: arequeue_def)
  have "L(thread_ready_list s \<mapsto> map general_tag (aready a)) = L"
    using simD(2) [OF sim] by (simp add: fun_upd_idem)
  then show ?thesis using False sim by (simp add: a same_ext_def)
qed

lemma schedule_idle:
  assumes sim: "sim ph s L a" and i: "aready a = [] \<Longrightarrow> astatus a (aidle a) = Some TASK_BLOCKED \<and> free_tag s L (aidle a)"
  shows "\<exists>u. andThen (list_empty (thread_ready_list s) s)
        (\<lambda>none. if none then thread_unblock (idle_thread s) s else Inr s) = Inr u
    \<and> sim ph u (L(thread_ready_list s \<mapsto> map general_tag (aready (awake_idle a)))) (awake_idle a)
    \<and> eflags u = eflags s \<and> thread_ready_list u = thread_ready_list s \<and> same_ext s u"
proof (cases "aready a = []")
  case True
  with i have "astatus a (aidle a) = Some TASK_BLOCKED" and f: "free_tag s L (aidle a)" by auto
  then obtain t where t: "tcb s (aidle a) = Some t" "status t = TASK_BLOCKED" using simD(3) [OF sim] by auto
  from unblock_sim [OF sim t(1) f] t(2) True
  show ?thesis using list_empty_rep [OF simD(1,2) [OF sim]] simD(6) [OF sim]
    by (auto simp: awake_idle_def aunblock_def)
next
  case False
  have "L(thread_ready_list s \<mapsto> map general_tag (aready a)) = L"
    using simD(2) [OF sim] by (simp add: fun_upd_idem)
  then show ?thesis using False sim list_empty_rep [OF simD(1,2) [OF sim]] by (simp add: awake_idle_def same_ext_def)
qed

lemma schedule_refines_aschedule:
  assumes sim: "sim ph s L a" and ok: "schedulable s L a" and off: "intr_get_status s = INTR_OFF"
  shows "\<exists>u. schedule s = Inr u
    \<and> sim ph u (L(thread_ready_list s \<mapsto> map general_tag (aready (aschedule a)))) (aschedule a)
    \<and> free_tag u (L(thread_ready_list s \<mapsto> map general_tag (aready (aschedule a)))) (acur (aschedule a))
    \<and> eflags u = eflags s \<and> thread_ready_list u = thread_ready_list s \<and> same_ext s u"
proof -
  let ?r = "thread_ready_list s" and ?a1 = "arequeue a" and ?a2 = "awake_idle (arequeue a)"
  obtain t where t: "tcb s (acur a) = Some t" using ok simD(3) [OF sim] by (auto simp: schedulable_def)
  obtain u1 where u1: "(if status t = TASK_RUNNING then
           andThen (elem_find ?r (general_tag (acur a)) s) (\<lambda>found. ASSERT (\<not> found)
          (andThen (list_append ?r (general_tag (acur a)) s) (\<lambda>s.
           set_task (acur a) (\<lambda>t. t\<lparr>ticks := priority t, status := TASK_READY\<rparr>) s)))
         else Inr s) = Inr u1"
    and s1: "sim ph u1 (L(?r \<mapsto> map general_tag (aready ?a1))) ?a1"
    "eflags u1 = eflags s" "thread_ready_list u1 = ?r" "aready ?a1 = [] \<Longrightarrow> u1 = s" "same_ext s u1"
    using schedule_requeue [OF sim ok t] by blast
  have idle: "astatus ?a1 (aidle ?a1) = Some TASK_BLOCKED \<and>
      free_tag u1 (L(?r \<mapsto> map general_tag (aready ?a1))) (aidle ?a1)" if "aready ?a1 = []"
    using that ok s1(4) [OF that] simD(2) [OF sim]
    by (auto simp: arequeue_def schedulable_def fun_upd_idem split: if_splits)
  obtain u2 where u2: "andThen (list_empty ?r u1)
        (\<lambda>none. if none then thread_unblock (idle_thread u1) u1 else Inr u1) = Inr u2"
    and s2: "sim ph u2 (L(?r \<mapsto> map general_tag (aready ?a2))) ?a2"
    "eflags u2 = eflags s" "thread_ready_list u2 = ?r" "same_ext s u2"
    using schedule_idle [OF s1(1) idle] same_ext_trans [OF s1(5)] unfolding s1(2,3) fun_upd_upd by blast
  obtain p rs where r: "aready ?a2 = p # rs" by (cases "aready ?a2") (auto simp: awake_idle_def aunblock_def split: if_splits)
  have cur: "acur ?a2 = acur a" by (simp add: awake_idle_def aunblock_def arequeue_def)
  have all: "\<forall>q\<in>set (aready ?a2). astatus ?a2 q \<noteq> None" "astatus ?a2 (acur a) \<noteq> None"
    using ok by (auto simp: schedulable_def awake_idle_def aunblock_def arequeue_def split: if_splits)
  then have "astatus ?a2 p \<noteq> None" using r by auto
  with all(2) obtain t1 t2 where tt: "tcb u2 (acur ?a2) = Some t1" "tcb u2 p = Some t2"
    using simD(3) [OF s2(1)] cur by auto
  obtain u where u: "andThen (list_pop (thread_ready_list u2) (u2\<lparr>thread_tag := 0\<rparr>)) (\<lambda>(tag, s).
      let s = s\<lparr>thread_tag := tag\<rparr>; next_p = entry_of_general tag in
      andThen (set_task next_p (\<lambda>t. t\<lparr>status := TASK_RUNNING\<rparr>) s) (\<lambda>s.
      andThen (process_activate next_p s) (\<lambda>s.
      switch_to (acur a) next_p s))) = Inr u"
    and s3: "sim ph u (L(?r \<mapsto> map general_tag rs)) (apick ?a2)" "free_tag u (L(?r \<mapsto> map general_tag rs)) p"
    "eflags u = eflags s" "thread_ready_list u = ?r" "same_ext s u"
    using pick_sim [OF s2(1) r tt] same_ext_trans [OF s2(4)] unfolding cur s2(2,3) fun_upd_upd by blast
  obtain none where n: "list_empty ?r u1 = Inr none"
    "(if none then thread_unblock (idle_thread u1) u1 else Inr u1) = Inr u2"
    using u2 by (auto simp: andThen_eq_Inr)
  have e: "list_empty ?r u2 = Inr False" using list_empty_rep [OF simD(1,2) [OF s2(1)]] s2(3) r by simp
  have g: "get_task (acur a) s = Inr t" by (simp add: get_task_def t)
  have "schedule s = Inr u"
    using u unfolding schedule_def Let_def simD(5) [OF sim] g andThen_simps u1 s1(3) n s2(3) e
    by (simp add: off s2(3))
  then show ?thesis using s3 r by (simp add: aschedule_def) (simp add: apick_def)
qed

section \<open>The invariant of the scheduler\<close>

text \<open>
  While thread code runs: the ready list holds each ready thread once, exactly one thread is
  running, and the idle thread is running, ready, or blocked outside every list.
\<close>

definition awf :: "asched \<Rightarrow> bool" where
  "awf a \<longleftrightarrow> distinct (aready a) \<and> (\<forall>p. p \<in> set (aready a) \<longleftrightarrow> astatus a p = Some TASK_READY)
     \<and> (\<forall>p. astatus a p = Some TASK_RUNNING \<longleftrightarrow> p = acur a)
     \<and> astatus a (aidle a) \<in> {Some TASK_RUNNING, Some TASK_READY, Some TASK_BLOCKED}"

definition sched_inv :: "(nat \<Rightarrow> u32) \<Rightarrow> 'a sched_scheme \<Rightarrow> (nat \<rightharpoonup> nat list) \<Rightarrow> asched \<Rightarrow> bool" where
  "sched_inv ph s L a \<longleftrightarrow> sim ph s L a \<and> awf a \<and> free_tag s L (acur a)
     \<and> (astatus a (aidle a) = Some TASK_BLOCKED \<longrightarrow> free_tag s L (aidle a))"

definition sleeping :: "task_status \<Rightarrow> bool" where
  "sleeping st \<longleftrightarrow> st = TASK_BLOCKED \<or> st = TASK_WAITING \<or> st = TASK_HANGING"

definition ablock :: "task_status \<Rightarrow> asched \<Rightarrow> asched" where
  "ablock st a = aschedule (a\<lparr>astatus := (astatus a)(acur a \<mapsto> st)\<rparr>)"

definition ayield :: "asched \<Rightarrow> asched" where
  "ayield a = aschedule (a\<lparr>aready := aready a @ [acur a], astatus := (astatus a)(acur a \<mapsto> TASK_READY)\<rparr>)"

text \<open>The state of the abstract scheduler once the caller has been put aside.\<close>

definition parked :: "asched \<Rightarrow> bool" where
  "parked a \<longleftrightarrow> distinct (aready a) \<and> (\<forall>p. p \<in> set (aready a) \<longleftrightarrow> astatus a p = Some TASK_READY)
     \<and> (\<forall>p. astatus a p \<noteq> Some TASK_RUNNING)
     \<and> astatus a (aidle a) \<in> {Some TASK_READY, Some TASK_BLOCKED}"

lemma pick_parked:
  assumes "parked a"
  shows "awf (apick (awake_idle a))"
proof -
  obtain p rs where r: "aready (awake_idle a) = p # rs"
    by (cases "aready (awake_idle a)") (auto simp: awake_idle_def aunblock_def split: if_splits)
  have "parked (awake_idle a)" using assms by (auto simp: parked_def awake_idle_def aunblock_def)
  then show ?thesis using r unfolding parked_def awf_def apick_def by (auto split: if_splits)
qed

lemma awf_cur: "awf a \<Longrightarrow> astatus a (acur a) = Some TASK_RUNNING"
  by (simp add: awf_def)

lemma awf_cur_not_ready: "awf a \<Longrightarrow> acur a \<notin> set (aready a) \<and> astatus a (acur a) \<noteq> Some TASK_READY"
proof -
  assume w: "awf a"
  then have "astatus a (acur a) \<noteq> Some TASK_READY" using awf_cur [OF w] by simp
  then show ?thesis using w by (simp add: awf_def)
qed

lemma arequeue_parked: "awf a \<Longrightarrow> parked (arequeue a)"
  using awf_cur_not_ready [of a] by (auto simp: awf_def parked_def arequeue_def)

lemma parked_requeue: "parked a \<Longrightarrow> arequeue a = a"
  by (simp add: parked_def arequeue_def)

lemma block_parked:
  assumes "awf a" "sleeping st" "acur a = aidle a \<Longrightarrow> st = TASK_BLOCKED"
  shows "parked (a\<lparr>astatus := (astatus a)(acur a \<mapsto> st)\<rparr>)"
  using assms awf_cur_not_ready [OF assms(1)] by (auto simp: awf_def parked_def sleeping_def)

lemma yield_parked:
  assumes "awf a"
  shows "parked (a\<lparr>aready := aready a @ [acur a], astatus := (astatus a)(acur a \<mapsto> TASK_READY)\<rparr>)"
  using assms awf_cur_not_ready [OF assms] by (auto simp: awf_def parked_def)

lemma awf_ops:
  assumes "awf a"
  shows "awf (aschedule a)" "sleeping st \<Longrightarrow> (acur a = aidle a \<Longrightarrow> st = TASK_BLOCKED) \<Longrightarrow> awf (ablock st a)"
    "awf (ayield a)" "astatus a p = Some st \<Longrightarrow> sleeping st \<Longrightarrow> awf (aunblock p a)"
proof -
  show "awf (aschedule a)" unfolding aschedule_def by (intro pick_parked arequeue_parked assms)
  show "awf (ablock st a)" if "sleeping st" "acur a = aidle a \<Longrightarrow> st = TASK_BLOCKED"
    using block_parked [OF assms that] by (simp add: ablock_def aschedule_def parked_requeue pick_parked)
  show "awf (ayield a)"
    using yield_parked [OF assms] by (simp add: ayield_def aschedule_def parked_requeue pick_parked)
  show "awf (aunblock p a)" if "astatus a p = Some st" "sleeping st"
  proof -
    have "p \<noteq> acur a" using awf_cur [OF assms] that by (auto simp: sleeping_def)
    then show ?thesis using assms that by (auto simp: awf_def aunblock_def sleeping_def)
  qed
qed

lemma free_tag_kept:
  assumes "same_ext s u" "free_tag s L p" "L r = Some xs" "p \<notin> set rs"
  shows "free_tag u (L(r \<mapsto> map general_tag rs)) p"
proof -
  have "elems u (general_tag p) \<noteq> None" using assms(1,2) unfolding same_ext_def free_tag_def detached_def by (metis domIff)
  then show ?thesis using assms by (auto simp: free_tag_def detached_def nodes_def)
qed

lemma aschedule_idle:
  assumes "astatus (aschedule a) (aidle (aschedule a)) = Some TASK_BLOCKED"
  shows "astatus a (aidle a) = Some TASK_BLOCKED" "aidle (aschedule a) = aidle a"
  using assms by (auto simp: aschedule_def apick_def awake_idle_def aunblock_def arequeue_def split: if_splits)

lemma aschedule_aidle [simp]: "aidle (aschedule a) = aidle a"
  by (simp add: aschedule_def apick_def awake_idle_def aunblock_def arequeue_def)

text \<open>\<open>schedule\<close> from any state in which the caller has been dealt with.\<close>

lemma schedule_inv:
  assumes sim: "sim ph s L a" and off: "intr_get_status s = INTR_OFF" and pk: "parked (arequeue a)"
    and cur: "astatus a (acur a) \<noteq> None" "astatus a (acur a) = Some TASK_RUNNING \<Longrightarrow> free_tag s L (acur a)"
    and idle: "astatus a (aidle a) = Some TASK_BLOCKED \<Longrightarrow> free_tag s L (aidle a)"
  shows "\<exists>u. schedule s = Inr u \<and> eflags u = eflags s \<and> thread_ready_list u = thread_ready_list s \<and> same_ext s u
    \<and> sched_inv ph u (L(thread_ready_list s \<mapsto> map general_tag (aready (aschedule a)))) (aschedule a)"
proof -
  have "astatus a p \<noteq> None" if "p \<in> set (aready a)" for p
  proof -
    have "p \<in> set (aready (arequeue a))" using that by (simp add: arequeue_def)
    then have "astatus (arequeue a) p = Some TASK_READY" using pk by (simp add: parked_def)
    then show ?thesis using cur(1) by (auto simp: arequeue_def split: if_splits)
  qed
  moreover have "astatus a (aidle a) = Some TASK_BLOCKED"
    if "aready a = []" "astatus a (acur a) \<noteq> Some TASK_RUNNING"
    using that pk by (auto simp: parked_def arequeue_def)
  ultimately have "schedulable s L a" using cur idle by (auto simp: schedulable_def)
  from schedule_refines_aschedule [OF sim this off]
  obtain u where u: "schedule s = Inr u" "eflags u = eflags s" "thread_ready_list u = thread_ready_list s"
    "sim ph u (L(thread_ready_list s \<mapsto> map general_tag (aready (aschedule a)))) (aschedule a)"
    "free_tag u (L(thread_ready_list s \<mapsto> map general_tag (aready (aschedule a)))) (acur (aschedule a))"
    "same_ext s u" by blast
  have wf: "awf (aschedule a)" unfolding aschedule_def by (rule pick_parked [OF pk])
  have "free_tag u (L(thread_ready_list s \<mapsto> map general_tag (aready (aschedule a)))) (aidle a)"
    if b: "astatus (aschedule a) (aidle a) = Some TASK_BLOCKED"
  proof -
    have "aidle a \<notin> set (aready (aschedule a))" using wf b by (simp add: awf_def)
    moreover have "free_tag s L (aidle a)" using aschedule_idle(1) [of a] b idle by simp
    ultimately show ?thesis using u(6) simD(2) [OF sim] by (intro free_tag_kept)
  qed
  then show ?thesis using u wf by (auto simp: sched_inv_def)
qed

lemma sched_invD:
  assumes "sched_inv ph s L a"
  shows "sim ph s L a" "awf a" "free_tag s L (acur a)"
    "astatus a (aidle a) = Some TASK_BLOCKED \<Longrightarrow> free_tag s L (aidle a)"
  using assms by (simp_all add: sched_inv_def)

lemma intr_disable_status: "fst (intr_disable s) = intr_get_status s"
  by (cases s rule: intr_disable_cases) (auto simp: status_on [symmetric] intr_get_status_def split: if_splits)

lemma intr_get_status_cong: "eflags s = eflags t \<Longrightarrow> intr_get_status s = intr_get_status t"
  by (simp add: intr_get_status_def)

lemma block_inv:
  assumes sim: "sim ph s L a" and wf: "awf a" and st: "sleeping st"
    and idle: "acur a = aidle a \<Longrightarrow> st = TASK_BLOCKED \<and> free_tag s L (aidle a)"
      "astatus a (aidle a) = Some TASK_BLOCKED \<Longrightarrow> free_tag s L (aidle a)"
  shows "\<exists>u. thread_block st s = Inr (intr_get_status s, u) \<and> thread_ready_list u = thread_ready_list s
    \<and> sched_inv ph u (L(thread_ready_list s \<mapsto> map general_tag (aready (ablock st a)))) (ablock st a)
    \<and> intr_get_status u = INTR_OFF \<and> same_ext s u"
proof -
  obtain old e where i: "intr_disable s = (old, s\<lparr>eflags := e\<rparr>)" using intr_disable_form by blast
  let ?s = "s\<lparr>eflags := e\<rparr>"
  have off: "intr_get_status ?s = INTR_OFF" "old = intr_get_status s"
    using status_disable [of s] intr_disable_status [of s] by (simp_all add: i)
  have sim': "sim ph ?s L a" using sim by (simp add: sim_eflags)
  obtain t where t: "tcb ?s (acur a) = Some t" using simD(3) [OF sim'] awf_cur [OF wf] by force
  define y where "y = t\<lparr>status := st\<rparr>"
  define v where "v = ?s\<lparr>tcb := (tcb ?s)(acur a \<mapsto> y)\<rparr>"
  let ?a = "a\<lparr>astatus := (astatus a)(acur a \<mapsto> st)\<rparr>"
  have v: "set_task (acur a) (\<lambda>t. t\<lparr>status := st\<rparr>) ?s = Inr v" "sim ph v L ?a"
    using sim_update [OF sim' same_but_links_refl simD(1,2) [OF sim'] t, of y "\<lambda>t. t\<lparr>status := st\<rparr>"]
    by (simp_all add: y_def v_def)
  have ft: "free_tag v L p \<longleftrightarrow> free_tag s L p" for p by (rule free_tag_cong) (simp add: v_def)
  have pk: "parked ?a" using block_parked [OF wf st] idle(1) by blast
  have offv: "intr_get_status v = INTR_OFF" using intr_get_status_cong [of v ?s] off(1) by (simp add: v_def)
  have pk': "parked (arequeue ?a)" using pk by (simp add: parked_requeue)
  have c1: "astatus ?a (acur ?a) \<noteq> None" "astatus ?a (acur ?a) = Some TASK_RUNNING \<Longrightarrow> free_tag v L (acur ?a)"
    using st by (auto simp: sleeping_def)
  have i1: "astatus ?a (aidle ?a) = Some TASK_BLOCKED \<Longrightarrow> free_tag v L (aidle ?a)"
    using idle ft by (cases "acur a = aidle a") auto
  obtain u where u: "schedule v = Inr u" "eflags u = eflags v" "thread_ready_list u = thread_ready_list s"
    "sched_inv ph u (L(thread_ready_list s \<mapsto> map general_tag (aready (aschedule ?a)))) (aschedule ?a)" "same_ext s u"
    using schedule_inv [OF v(2) offv pk' c1 i1] by (auto simp: v_def same_ext_def)
  have "thread_block st s = Inr (intr_get_status s, u)"
    using st v(1) simD(5) [OF sim'] off(2) u(1) by (simp add: thread_block_def i sleeping_def)
  then show ?thesis using u(2-5) offv intr_get_status_cong [of u v] by (simp add: ablock_def)
qed

lemma yield_inv:
  assumes inv: "sched_inv ph s L a"
  shows "\<exists>u. thread_yield s = Inr (intr_get_status s, u) \<and> thread_ready_list u = thread_ready_list s
    \<and> sched_inv ph u (L(thread_ready_list s \<mapsto> map general_tag (aready (ayield a)))) (ayield a)"
proof -
  obtain old e where i: "intr_disable s = (old, s\<lparr>eflags := e\<rparr>)" using intr_disable_form by blast
  let ?s = "s\<lparr>eflags := e\<rparr>" and ?r = "thread_ready_list s"
  let ?L = "L(?r \<mapsto> map general_tag (aready a @ [acur a]))"
  note wf = sched_invD(2) [OF inv]
  have off: "intr_get_status ?s = INTR_OFF" "old = intr_get_status s"
    using status_disable [of s] intr_disable_status [of s] by (simp_all add: i)
  have sim': "sim ph ?s L a" using sched_invD(1) [OF inv] by (simp add: sim_eflags)
  have f: "free_tag ?s L (acur a)" using sched_invD(3) [OF inv] free_tag_cong [of ?s s] by simp
  obtain t where t: "tcb ?s (acur a) = Some t" using simD(3) [OF sim'] awf_cur [OF wf] by force
  have e: "elem_find ?r (general_tag (acur a)) ?s = Inr False"
    using elem_find_rep [OF simD(1,2) [OF sim']] free_tag_not_ready [OF sim' f] by auto
  obtain w where w: "list_append ?r (general_tag (acur a)) ?s = Inr w" "lists_rep w ?L" "same_but_links ?s w"
    using list_append_rep [OF simD(1,2) [OF sim']] f by (auto simp: free_tag_def)
  obtain h where h: "w = ?s\<lparr>elems := h\<rparr>" "dom h = dom (elems s)" using w(3) by (auto simp: same_but_links_def)
  define y where "y = t\<lparr>status := TASK_READY\<rparr>"
  define v where "v = w\<lparr>tcb := (tcb w)(acur a \<mapsto> y)\<rparr>"
  let ?a = "a\<lparr>aready := aready a @ [acur a], astatus := (astatus a)(acur a \<mapsto> TASK_READY)\<rparr>"
  have v: "set_task (acur a) (\<lambda>t. t\<lparr>status := TASK_READY\<rparr>) w = Inr v" "sim ph v ?L ?a"
    using sim_update [OF sim' w(3,2) _ t, of "aready a @ [acur a]" y "\<lambda>t. t\<lparr>status := TASK_READY\<rparr>"]
    by (simp_all add: y_def v_def)
  have pk: "parked (arequeue ?a)" using yield_parked [OF wf] by (simp add: parked_requeue)
  have offv: "intr_get_status v = INTR_OFF" using intr_get_status_cong [of v ?s] off(1) by (simp add: v_def h)
  have i1: "astatus ?a (aidle ?a) = Some TASK_BLOCKED \<Longrightarrow> free_tag v ?L (aidle ?a)"
    using sched_invD(4) [OF inv] wf free_tag_kept [of s v L "aidle a" ?r _ "aready a @ [acur a]"]
      simD(2) [OF sim'] h by (auto simp: awf_def v_def same_ext_def split: if_splits)
  obtain u where u: "schedule v = Inr u" "thread_ready_list u = ?r"
    "sched_inv ph u (?L(?r \<mapsto> map general_tag (aready (aschedule ?a)))) (aschedule ?a)"
    using schedule_inv [OF v(2) offv pk _ _ i1] by (auto simp: v_def h)
  then show ?thesis
    using simD(5) [OF sched_invD(1) [OF inv]] e w(1) v(1) off(2) by (simp add: thread_yield_def i ayield_def)
qed

lemma unblock_inv:
  assumes inv: "sched_inv ph s L a" and p: "astatus a p = Some st" "sleeping st" and f: "free_tag s L p"
  shows "\<exists>u. thread_unblock p s = Inr u \<and> eflags u = eflags s \<and> thread_ready_list u = thread_ready_list s \<and> same_ext s u
    \<and> sched_inv ph u (L(thread_ready_list s \<mapsto> map general_tag (p # aready a))) (aunblock p a)"
proof -
  note sim = sched_invD(1) [OF inv] and wf = sched_invD(2) [OF inv]
  obtain t where t: "tcb s p = Some t" "status t \<in> {TASK_BLOCKED, TASK_WAITING, TASK_HANGING}"
    using p simD(3) [OF sim] by (auto simp: sleeping_def)
  obtain u where u: "thread_unblock p s = Inr u"
    "sim ph u (L(thread_ready_list s \<mapsto> map general_tag (p # aready a))) (aunblock p a)"
    "eflags u = eflags s" "thread_ready_list u = thread_ready_list s" "same_ext s u"
    using unblock_sim [OF sim t(1) f t(2)] by blast
  have kept: "free_tag u (L(thread_ready_list s \<mapsto> map general_tag (p # aready a))) q"
    if "free_tag s L q" "q \<notin> set (p # aready a)" for q
    using free_tag_kept [OF u(5) that(1) simD(2) [OF sim] that(2)] .
  have pc: "p \<noteq> acur a" using awf_cur [OF wf] p by (auto simp: sleeping_def)
  have "free_tag u (L(thread_ready_list s \<mapsto> map general_tag (p # aready a))) (acur a)"
    using kept [OF sched_invD(3) [OF inv]] awf_cur_not_ready [OF wf] pc by simp
  moreover have "free_tag u (L(thread_ready_list s \<mapsto> map general_tag (p # aready a))) (aidle a)"
    if "astatus (aunblock p a) (aidle a) = Some TASK_BLOCKED"
    using that kept [OF sched_invD(4) [OF inv]] wf by (auto simp: aunblock_def awf_def split: if_splits)
  moreover have "awf (aunblock p a)" by (rule awf_ops(4) [OF wf p])
  ultimately show ?thesis using u by (auto simp: sched_inv_def) (simp_all add: aunblock_def)
qed

lemma schedule_next:
  assumes "sched_inv ph s L a" "intr_get_status s = INTR_OFF"
  shows "\<exists>u. schedule s = Inr u \<and> running_thread u = hd (aready a @ [acur a])
    \<and> sched_inv ph u (L(thread_ready_list s \<mapsto> map general_tag (tl (aready a @ [acur a])))) (aschedule a)"
proof -
  note wf = sched_invD(2) [OF assms(1)]
  have *: "aready (aschedule a) = tl (aready a @ [acur a])" "acur (aschedule a) = hd (aready a @ [acur a])"
    using awf_cur [OF wf] by (simp_all add: aschedule_def apick_def awake_idle_def arequeue_def)
  obtain u where u: "schedule s = Inr u"
    "sched_inv ph u (L(thread_ready_list s \<mapsto> map general_tag (aready (aschedule a)))) (aschedule a)"
    using schedule_inv [OF sched_invD(1) [OF assms(1)] assms(2) arequeue_parked [OF wf]]
      awf_cur [OF wf] sched_invD(3,4) [OF assms(1)] by auto
  then show ?thesis using simD(5) [OF sched_invD(1) [OF u(2)]] by (simp add: *)
qed

text \<open>
  C1. \<open>schedule\<close>, called with interrupts off in a state that satisfies the scheduler's
  invariant, never fails an assertion or faults: it switches to the first thread of the ready
  list (to the caller itself if the list is empty), and the invariant holds again.
\<close>

theorem schedule_correct:
  assumes "sched_inv ph s L a" "intr_get_status s = INTR_OFF"
  shows "\<exists>u. schedule s = Inr u \<and> running_thread u = hd (aready a @ [acur a])
    \<and> sched_inv ph u (L(thread_ready_list s \<mapsto> map general_tag (tl (aready a @ [acur a])))) (aschedule a)"
  using assms by (rule schedule_next)

text \<open>
  C2. \<open>thread_block\<close> puts the caller aside with the given status and hands the processor to the
  first ready thread, or to the idle thread if there is none; the invariant holds in the state
  the next thread continues in, with interrupts off, and the caller gets back the interrupt
  status to restore.
\<close>

theorem thread_block_correct:
  assumes "sched_inv ph s L a" "sleeping st" "acur a = aidle a \<Longrightarrow> st = TASK_BLOCKED"
  shows "\<exists>u. thread_block st s = Inr (intr_get_status s, u) \<and> intr_get_status u = INTR_OFF
    \<and> running_thread u = (if aready a = [] then aidle a else hd (aready a))
    \<and> sched_inv ph u (L(thread_ready_list s \<mapsto> map general_tag (tl (aready a)))) (ablock st a)"
proof -
  note wf = sched_invD(2) [OF assms(1)]
  have *: "aready (ablock st a) = tl (aready a)" "acur (ablock st a) = (if aready a = [] then aidle a else hd (aready a))"
    using assms(2) by (auto simp: ablock_def aschedule_def apick_def awake_idle_def aunblock_def arequeue_def sleeping_def)
  have i: "st = TASK_BLOCKED \<and> free_tag s L (aidle a)" if "acur a = aidle a"
    using assms(3) [OF that] sched_invD(3) [OF assms(1)] that by simp
  obtain u where u: "thread_block st s = Inr (intr_get_status s, u)" "intr_get_status u = INTR_OFF"
    "sched_inv ph u (L(thread_ready_list s \<mapsto> map general_tag (aready (ablock st a)))) (ablock st a)"
    using block_inv [OF sched_invD(1) [OF assms(1)] wf assms(2) i sched_invD(4) [OF assms(1)]] by blast
  then show ?thesis using simD(5) [OF sched_invD(1) [OF u(3)]] by (simp add: *)
qed

text \<open>
  C16. \<open>thread_unblock\<close> of a sleeping thread whose tag is in no list puts it first in the ready
  list and keeps the invariant and the interrupt flag.
\<close>

theorem thread_unblock_correct:
  assumes "sched_inv ph s L a" "astatus a p = Some st" "sleeping st" "free_tag s L p"
  shows "\<exists>u. thread_unblock p s = Inr u \<and> eflags u = eflags s
    \<and> sched_inv ph u (L(thread_ready_list s \<mapsto> map general_tag (p # aready a))) (aunblock p a)"
  using unblock_inv [OF assms] by blast

text \<open>
  \<open>thread_yield\<close> puts the caller last in the ready list, switches to the first thread of that
  list and keeps the invariant.
\<close>

theorem thread_yield_correct:
  assumes "sched_inv ph s L a"
  shows "\<exists>u. thread_yield s = Inr (intr_get_status s, u) \<and> running_thread u = hd (aready a @ [acur a])
    \<and> sched_inv ph u (L(thread_ready_list s \<mapsto> map general_tag (tl (aready a @ [acur a])))) (ayield a)"
proof -
  have *: "aready (ayield a) = tl (aready a @ [acur a])" "acur (ayield a) = hd (aready a @ [acur a])"
    by (simp_all add: ayield_def aschedule_def apick_def awake_idle_def arequeue_def)
  obtain u where u: "thread_yield s = Inr (intr_get_status s, u)"
    "sched_inv ph u (L(thread_ready_list s \<mapsto> map general_tag (aready (ayield a)))) (ayield a)"
    using yield_inv [OF assms] by blast
  then show ?thesis using simD(5) [OF sched_invD(1) [OF u(2)]] by (simp add: *)
qed

section \<open>Round robin\<close>

fun schedule_n :: "nat \<Rightarrow> 'a sched_scheme \<Rightarrow> 'a sched_scheme outcome" where
  "schedule_n 0 s = Inr s"
| "schedule_n (Suc n) s = andThen (schedule s) (schedule_n n)"

lemma aschedule_rotate:
  "awf a \<Longrightarrow> acur (aschedule a) # aready (aschedule a) = rotate1 (acur a # aready a)"
  using awf_cur [of a] by (cases "aready a") (simp_all add: aschedule_def apick_def awake_idle_def arequeue_def)

lemma schedule_n_rotate:
  assumes "sched_inv ph s L a" "intr_get_status s = INTR_OFF"
  shows "\<exists>u L' a'. schedule_n n s = Inr u \<and> sched_inv ph u L' a' \<and> intr_get_status u = INTR_OFF
    \<and> acur a' # aready a' = rotate n (acur a # aready a)"
  using assms
proof (induction n arbitrary: s L a)
  case 0
  then show ?case by (simp, blast)
next
  case (Suc n)
  note inv = Suc.prems(1) and wf = sched_invD(2) [OF Suc.prems(1)]
  obtain u L' where u: "schedule s = Inr u" "eflags u = eflags s" "sched_inv ph u L' (aschedule a)"
    using schedule_inv [OF sched_invD(1) [OF inv] Suc.prems(2) arequeue_parked [OF wf]]
      awf_cur [OF wf] sched_invD(3,4) [OF inv] by auto
  have "intr_get_status u = INTR_OFF" using Suc.prems(2) intr_get_status_cong [OF u(2)] by simp
  from Suc.IH [OF u(3) this] u(1) show ?case
    by (simp add: aschedule_rotate [OF wf] rotate_rotate [symmetric] rotate1_rotate_swap [symmetric] del: rotate1.simps)
qed

text \<open>
  C17. Scheduling is round robin: if the running thread only ever uses up its time slice, the
  thread at position \<open>i\<close> of the ready list gets the processor at the \<open>i + 1\<close>-st call of
  \<open>schedule\<close>, and none of these calls fails.
\<close>

theorem schedule_round_robin:
  assumes "sched_inv ph s L a" "intr_get_status s = INTR_OFF" "i < length (aready a)"
  shows "\<exists>u. schedule_n (Suc i) s = Inr u \<and> running_thread u = aready a ! i"
proof -
  obtain u L' a' where u: "schedule_n (Suc i) s = Inr u" "sched_inv ph u L' a'"
    "acur a' # aready a' = rotate (Suc i) (acur a # aready a)"
    using schedule_n_rotate [OF assms(1,2), of "Suc i"] by blast
  have "acur a' = hd (rotate (Suc i) (acur a # aready a))" using u(3) by (metis list.sel(1))
  also have "\<dots> = aready a ! i" using assms(3) by (subst hd_rotate_conv_nth) simp_all
  finally show ?thesis using u(1) simD(5) [OF sched_invD(1) [OF u(2)]] by auto
qed

section \<open>A state with three threads\<close>

text \<open>
  The main thread at \<open>0x1000\<close> runs, the idle thread at \<open>0x2000\<close> is ready, a third thread at
  \<open>0x3000\<close> is blocked; the ready list is at address 100.
\<close>

definition demo_task :: "task_status \<Rightarrow> u32 \<Rightarrow> task_struct" where
  "demo_task st sp = \<lparr>self_kstack = sp, pid = 1, status = st, tname = [], priority = 31, ticks = 31,
     elapsed_ticks = 0, pgdir = 0, userprog_vaddr = \<lparr>vaddr_bitmap = \<lparr>btmp_bytes_len = 0, bits = (\<lambda>_. 0)\<rparr>,
     vaddr_start = 0\<rparr>, fd_table = [], cwd_inode_nr = 0, parent_pid = - 1,
     exit_status = 0, stack_magic = 0x19870916\<rparr>"

definition demo_sched :: sched where
  "demo_sched = \<lparr>eflags = 0,
     elems = [100 \<mapsto> \<lparr>prev = 0, next = 8228\<rparr>, 108 \<mapsto> \<lparr>prev = 8228, next = 0\<rparr>,
       8228 \<mapsto> \<lparr>prev = 100, next = 108\<rparr>, 4132 \<mapsto> \<lparr>prev = 0, next = 0\<rparr>,
       12324 \<mapsto> \<lparr>prev = 0, next = 0\<rparr>],
     pm = (\<lambda>_. 0), cr3 = 0x100000,
     tcb = [4096 \<mapsto> demo_task TASK_RUNNING 0x1f00, 8192 \<mapsto> demo_task TASK_READY 0x2f00,
       12288 \<mapsto> demo_task TASK_BLOCKED 0x3f00],
     esp = 0x1f00, main_thread = 4096, idle_thread = 8192, thread_ready_list = 100, thread_all_list = 200,
     thread_tag = 0, tss_esp0 = 0\<rparr>"

definition demo_asched :: asched where
  "demo_asched = \<lparr>aready = [8192], astatus = [4096 \<mapsto> TASK_RUNNING, 8192 \<mapsto> TASK_READY,
     12288 \<mapsto> TASK_BLOCKED], acur = 4096, aidle = 8192\<rparr>"

lemmas demo_simps = demo_sched_def demo_asched_def demo_task_def

lemma demo_lists: "lists_rep demo_sched [100 \<mapsto> [8228]]"
  by (auto simp: lists_rep_def dll_def nodes_def list_tail_def link_def nxt_def prv_def demo_simps split: if_splits)

lemma demo_inv: "sched_inv (\<lambda>_. 0) demo_sched [100 \<mapsto> [8228]] demo_asched"
proof -
  have "sim (\<lambda>_. 0) demo_sched [100 \<mapsto> [8228]] demo_asched"
    using demo_lists
    by (auto simp: sim_def demo_simps general_tag_def running_thread_def stacks_ok_def dirs_ok_def valid_cr3_def
      split: if_splits)
  moreover have "free_tag demo_sched [100 \<mapsto> [8228]] (acur demo_asched)"
    by (auto simp: free_tag_def detached_def nodes_def list_tail_def general_tag_def demo_simps split: if_splits)
  ultimately show ?thesis
    by (auto simp: sched_inv_def awf_def demo_asched_def)
qed

lemma demo_off: "intr_get_status demo_sched = INTR_OFF"
  by (simp add: intr_get_status_def demo_simps)

theorem schedule_correct_witness:
  "\<exists>u. schedule demo_sched = Inr u \<and> running_thread u = 8192"
  using schedule_correct [OF demo_inv demo_off] by (auto simp: demo_asched_def)

theorem thread_block_correct_witness:
  "\<exists>u. thread_block TASK_WAITING demo_sched = Inr (INTR_OFF, u) \<and> running_thread u = 8192"
  using thread_block_correct [OF demo_inv, of TASK_WAITING] demo_off by (auto simp: demo_asched_def sleeping_def)

theorem thread_unblock_correct_witness:
  "\<exists>u. thread_unblock 12288 demo_sched = Inr u \<and> eflags u = 0
    \<and> sched_inv (\<lambda>_. 0) u [100 \<mapsto> [12324, 8228]] (aunblock 12288 demo_asched)"
proof -
  have "free_tag demo_sched [100 \<mapsto> [8228]] 12288"
    by (auto simp: free_tag_def detached_def nodes_def list_tail_def general_tag_def demo_simps split: if_splits)
  then show ?thesis
    using thread_unblock_correct [OF demo_inv, of 12288 TASK_BLOCKED]
    by (simp add: demo_simps sleeping_def general_tag_def)
qed

theorem thread_yield_correct_witness:
  "\<exists>u. thread_yield demo_sched = Inr (INTR_OFF, u) \<and> running_thread u = 8192"
  using thread_yield_correct [OF demo_inv] demo_off by (auto simp: demo_asched_def)

theorem schedule_round_robin_witness:
  "\<exists>u. schedule_n (Suc 0) demo_sched = Inr u \<and> running_thread u = 8192"
  using schedule_round_robin [OF demo_inv demo_off, of 0] by (simp add: demo_asched_def)

end
