(* ===== verification/Sync.thy ===== *)
theory Sync
  imports Thread
begin

text \<open>
  Semaphores and locks: \<^verbatim>\<open>thread/sync.c\<close>. A semaphore is named by its address, with its
  \<open>waiters\<close> list four bytes on; a lock by its address, with its semaphore four bytes on.

  A down operation that finds the value 0 queues the caller and blocks it: the call ends in the
  state of the next thread (\<open>Switched\<close>, with the interrupt status to restore), and
  \<open>sema_resume\<close> continues the loop when the caller runs again.

  The second half is a step relation of a preemptible system of threads that use one lock, with
  timer interrupts between any two actions, and its invariant: mutual exclusion, and that no
  assertion of the lock code fails.
\<close>

section \<open>Semaphores\<close>

record sync = sched +
  sema_value :: "nat \<Rightarrow> u8"
  lock_holder :: "nat \<Rightarrow> nat"
  holder_repeat_nr :: "nat \<Rightarrow> u32"

datatype 's progress = Done 's | Switched intr_status 's

definition waiters :: "nat \<Rightarrow> nat" where
  "waiters psema = psema + 4"

definition set_value :: "nat \<Rightarrow> u8 \<Rightarrow> 'a sync_scheme \<Rightarrow> 'a sync_scheme" where
  "set_value psema v s = s\<lparr>sema_value := (sema_value s)(psema := v)\<rparr>"

definition sema_init :: "nat \<Rightarrow> u8 \<Rightarrow> 'a sync_scheme \<Rightarrow> 'a sync_scheme outcome" where
  "sema_init psema v s = list_init (waiters psema) (set_value psema v s)"

text \<open>The body of the loop of \<open>sema_down\<close>, up to the switch to another thread.\<close>

definition sema_wait :: "nat \<Rightarrow> 'a sync_scheme \<Rightarrow> 'a sync_scheme outcome" where
  "sema_wait psema s =
     andThen (elem_find (waiters psema) (general_tag (running_thread s)) s) (\<lambda>found. ASSERT (\<not> found)
    (andThen (elem_find (waiters psema) (general_tag (running_thread s)) s) (\<lambda>found. if found then Inl Panic else
     andThen (list_append (waiters psema) (general_tag (running_thread s)) s) (\<lambda>s.
     andThen (thread_block TASK_BLOCKED s) (\<lambda>(_, s). Inr s)))))"

text \<open>The test of the loop and what follows it, with interrupts off.\<close>

definition sema_enter :: "intr_status \<Rightarrow> nat \<Rightarrow> 'a sync_scheme \<Rightarrow> 'a sync_scheme progress outcome" where
  "sema_enter old_status psema s =
     (if sema_value s psema = 0
      then andThen (sema_wait psema s) (\<lambda>s. Inr (Switched old_status s))
      else let s = set_value psema (sema_value s psema - 1) s in
        ASSERT (sema_value s psema = 0) (Inr (Done (snd (intr_set_status old_status s)))))"

definition sema_down :: "nat \<Rightarrow> 'a sync_scheme \<Rightarrow> 'a sync_scheme progress outcome" where
  "sema_down psema s = (let (old_status, s) = intr_disable s in sema_enter old_status psema s)"

definition sema_resume :: "intr_status \<Rightarrow> nat \<Rightarrow> 'a sync_scheme \<Rightarrow> 'a sync_scheme progress outcome" where
  "sema_resume old_status psema s = sema_enter old_status psema (resume_switch INTR_OFF s)"

definition sema_up :: "nat \<Rightarrow> 'a sync_scheme \<Rightarrow> 'a sync_scheme outcome" where
  "sema_up psema s =
     (let (old_status, s) = intr_disable s in
      ASSERT (sema_value s psema = 0)
     (andThen (list_empty (waiters psema) s) (\<lambda>none.
      andThen (if \<not> none then
                 andThen (list_pop (waiters psema) s) (\<lambda>(tag, s). thread_unblock (entry_of_general tag) s)
               else Inr s) (\<lambda>s.
      let s = set_value psema (sema_value s psema + 1) s in
      ASSERT (sema_value s psema = 1) (Inr (snd (intr_set_status old_status s)))))))"

section \<open>Locks\<close>

definition lock_sema :: "nat \<Rightarrow> nat" where
  "lock_sema plock = plock + 4"

definition set_holder :: "nat \<Rightarrow> nat \<Rightarrow> 'a sync_scheme \<Rightarrow> 'a sync_scheme" where
  "set_holder plock p s = s\<lparr>lock_holder := (lock_holder s)(plock := p)\<rparr>"

definition set_repeat :: "nat \<Rightarrow> u32 \<Rightarrow> 'a sync_scheme \<Rightarrow> 'a sync_scheme" where
  "set_repeat plock n s = s\<lparr>holder_repeat_nr := (holder_repeat_nr s)(plock := n)\<rparr>"

definition lock_init :: "nat \<Rightarrow> 'a sync_scheme \<Rightarrow> 'a sync_scheme outcome" where
  "lock_init plock s = sema_init (lock_sema plock) 1 (set_repeat plock 0 (set_holder plock 0 s))"

text \<open>What \<open>lock_acquire\<close> does once the semaphore is down.\<close>

definition lock_take :: "nat \<Rightarrow> 'a sync_scheme \<Rightarrow> 'a sync_scheme outcome" where
  "lock_take plock s =
     (let s = set_holder plock (running_thread s) s in
      ASSERT (holder_repeat_nr s plock = 0) (Inr (set_repeat plock 1 s)))"

definition after_down :: "nat \<Rightarrow> 'a sync_scheme progress \<Rightarrow> 'a sync_scheme progress outcome" where
  "after_down plock r = (case r of
     Switched old_status s \<Rightarrow> Inr (Switched old_status s)
   | Done s \<Rightarrow> andThen (lock_take plock s) (\<lambda>s. Inr (Done s)))"

definition lock_acquire :: "nat \<Rightarrow> 'a sync_scheme \<Rightarrow> 'a sync_scheme progress outcome" where
  "lock_acquire plock s =
     (if lock_holder s plock \<noteq> running_thread s
      then andThen (sema_down (lock_sema plock) s) (after_down plock)
      else Inr (Done (set_repeat plock (holder_repeat_nr s plock + 1) s)))"

definition lock_resume :: "intr_status \<Rightarrow> nat \<Rightarrow> 'a sync_scheme \<Rightarrow> 'a sync_scheme progress outcome" where
  "lock_resume old_status plock s = andThen (sema_resume old_status (lock_sema plock) s) (after_down plock)"

definition lock_release :: "nat \<Rightarrow> 'a sync_scheme \<Rightarrow> 'a sync_scheme outcome" where
  "lock_release plock s =
     ASSERT (lock_holder s plock = running_thread s)
     (if holder_repeat_nr s plock > 1
      then Inr (set_repeat plock (holder_repeat_nr s plock - 1) s)
      else ASSERT (holder_repeat_nr s plock = 1)
        (sema_up (lock_sema plock) (set_repeat plock 0 (set_holder plock 0 s))))"

text \<open>For callers that are modelled without interleaving: the call that does not have to wait.\<close>

definition acquire_now :: "nat \<Rightarrow> 'a sync_scheme \<Rightarrow> 'a sync_scheme outcome" where
  "acquire_now plock s = andThen (lock_acquire plock s) (\<lambda>r.
     case r of Done s \<Rightarrow> Inr s | Switched _ _ \<Rightarrow> Inl Blocks)"

section \<open>Threads that share a lock\<close>

text \<open>
  Where a thread is in its use of the lock. \<open>Waiting\<close> is inside \<open>sema_down\<close>, blocked or just
  woken; \<open>Took\<close> has the semaphore but has not recorded itself as holder; \<open>Named\<close> has; \<open>Crit n\<close> is
  in the critical section having acquired the lock \<open>n\<close> times; \<open>Left\<close> and \<open>Cleared\<close> are between the
  assignments of \<open>lock_release\<close>.
\<close>

datatype pc = Out | Trying | Waiting intr_status | Took | Named | Crit nat | Left | Cleared

datatype action = Acquire | Release

fun exec :: "nat \<Rightarrow> action \<Rightarrow> pc \<Rightarrow> 'a sync_scheme \<Rightarrow> (pc \<times> 'a sync_scheme) outcome" where
  "exec l act Out s = (if lock_holder s l \<noteq> running_thread s then Inr (Trying, s)
     else Inr (Crit 1, set_repeat l (holder_repeat_nr s l + 1) s))"
| "exec l act Trying s = andThen (sema_down (lock_sema l) s) (\<lambda>r. case r of
     Done s \<Rightarrow> Inr (Took, s) | Switched old s \<Rightarrow> Inr (Waiting old, s))"
| "exec l act (Waiting old) s = andThen (sema_resume old (lock_sema l) s) (\<lambda>r. case r of
     Done s \<Rightarrow> Inr (Took, s) | Switched old s \<Rightarrow> Inr (Waiting old, s))"
| "exec l act Took s = Inr (Named, set_holder l (running_thread s) s)"
| "exec l act Named s = ASSERT (holder_repeat_nr s l = 0) (Inr (Crit 1, set_repeat l 1 s))"
| "exec l Acquire (Crit n) s = (if lock_holder s l \<noteq> running_thread s then Inr (Trying, s)
     else Inr (Crit (Suc n), set_repeat l (holder_repeat_nr s l + 1) s))"
| "exec l Release (Crit n) s = ASSERT (lock_holder s l = running_thread s)
     (if holder_repeat_nr s l > 1 then Inr (Crit (n - 1), set_repeat l (holder_repeat_nr s l - 1) s)
      else ASSERT (holder_repeat_nr s l = 1) (Inr (Left, set_holder l 0 s)))"
| "exec l act Left s = Inr (Cleared, set_repeat l 0 s)"
| "exec l act Cleared s = andThen (sema_up (lock_sema l) s) (\<lambda>s. Inr (Out, s))"

inductive sys_step :: "nat \<Rightarrow> (nat \<Rightarrow> pc) \<times> 'a sync_scheme \<Rightarrow> (nat \<Rightarrow> pc) \<times> 'a sync_scheme \<Rightarrow> bool" for l where
  act: "p = running_thread s \<Longrightarrow> p \<noteq> idle_thread s \<Longrightarrow> intr_get_status s = INTR_ON \<Longrightarrow>
    (\<forall>n. pcs p = Crit n \<longrightarrow> n < 2 ^ 32 - 1) \<Longrightarrow>
    exec l c (pcs p) s = Inr (pc', s') \<Longrightarrow> sys_step l (pcs, s) (pcs(p := pc'), s')"
| wake: "p = running_thread s \<Longrightarrow> pcs p = Waiting old \<Longrightarrow>
    exec l c (pcs p) s = Inr (pc', s') \<Longrightarrow> sys_step l (pcs, s) (pcs(p := pc'), s')"
| tick: "intr_get_status s = INTR_ON \<Longrightarrow> schedule (snd (intr_disable s)) = Inr s' \<Longrightarrow>
    sys_step l (pcs, s) (pcs, s')"
| iret: "(\<forall>old. pcs (running_thread s) \<noteq> Waiting old) \<Longrightarrow> sys_step l (pcs, s) (pcs, snd (intr_enable s))"
| idle: "running_thread s = idle_thread s \<Longrightarrow> thread_block TASK_BLOCKED s = Inr (old, s') \<Longrightarrow>
    sys_step l (pcs, s) (pcs, s')"

section \<open>Lists other than the ready list\<close>

lemma sched_inv_cong:
  fixes s t :: "'a sched_scheme"
  assumes "elems t = elems s" "pm t = pm s" "cr3 t = cr3 s" "tcb t = tcb s" "esp t = esp s"
    "idle_thread t = idle_thread s" "thread_ready_list t = thread_ready_list s"
  shows "sched_inv ph t L a \<longleftrightarrow> sched_inv ph s L a"
proof -
  have m: "same_memory s t" using assms by (simp add: same_memory_def)
  have "sim ph t L a \<longleftrightarrow> sim ph s L a"
    using same_memory_ok [OF m] same_memory_ok [OF same_memory_sym [OF m]] lists_rep_cong [OF assms(1)] assms
    by (auto simp: sim_def)
  then show ?thesis using free_tag_cong [OF assms(1)] by (simp add: sched_inv_def)
qed

lemma sim_other_list:
  assumes sim: "sim ph s L a" and t: "same_but_links s t" "lists_rep t (L(w \<mapsto> ys))" and w: "w \<noteq> thread_ready_list s"
  shows "sim ph t (L(w \<mapsto> ys)) a"
proof -
  obtain h where h: "t = s\<lparr>elems := h\<rparr>" using t(1) by (auto simp: same_but_links_def)
  have m: "same_memory s t" by (simp add: same_memory_def h)
  show ?thesis using simD [OF sim] same_memory_ok [OF m] t(2) w by (auto simp: sim_def h)
qed

lemma free_tag_other_list:
  assumes "free_tag s L p" "same_but_links s t" "L w = Some xs" "general_tag p \<notin> set ys"
  shows "free_tag t (L(w \<mapsto> ys)) p"
  using detached_keeps [of s L "general_tag p" t w xs ys] assms by (simp add: free_tag_def)

lemma sched_inv_other_list:
  assumes inv: "sched_inv ph s L a" and t: "same_but_links s t" "lists_rep t (L(w \<mapsto> ys))"
    and w: "w \<noteq> thread_ready_list s" "L w = Some xs" and ys: "set ys \<subseteq> set xs"
  shows "sched_inv ph t (L(w \<mapsto> ys)) a"
proof -
  have "general_tag p \<notin> set ys" if "free_tag s L p" for p
    using detached_not_in [OF that [unfolded free_tag_def] w(2)] ys by (auto simp: nodes_def)
  then show ?thesis
    using inv free_tag_other_list [where L = L and w = w and xs = xs and ys = ys, OF _ t(1) w(2)]
      sim_other_list [OF _ t w(1)] by (auto simp: sched_inv_def)
qed

text \<open>The scheduler's fields and the lock's fields do not interfere.\<close>

lemma lock_updates_inv [simp]:
  "sched_inv ph (set_value q v s) L a \<longleftrightarrow> sched_inv ph s L a"
  "sched_inv ph (set_holder q p s) L a \<longleftrightarrow> sched_inv ph s L a"
  "sched_inv ph (set_repeat q n s) L a \<longleftrightarrow> sched_inv ph s L a"
  "sched_inv ph (s\<lparr>eflags := e\<rparr>) L a \<longleftrightarrow> sched_inv ph s L a"
  by (intro sched_inv_cong; simp add: set_value_def set_holder_def set_repeat_def)+

lemma set_simps [simp]:
  "thread_ready_list (set_value q v s) = thread_ready_list s" "thread_ready_list (set_holder q p s) = thread_ready_list s"
  "thread_ready_list (set_repeat q n s) = thread_ready_list s"
  "esp (set_value q v s) = esp s" "esp (set_holder q p s) = esp s" "esp (set_repeat q n s) = esp s"
  "sema_value (set_value q v s) = (sema_value s)(q := v)" "sema_value (set_holder q p s) = sema_value s"
  "sema_value (set_repeat q n s) = sema_value s"
  "lock_holder (set_value q v s) = lock_holder s" "lock_holder (set_holder q p s) = (lock_holder s)(q := p)"
  "lock_holder (set_repeat q n s) = lock_holder s"
  "holder_repeat_nr (set_value q v s) = holder_repeat_nr s" "holder_repeat_nr (set_holder q p s) = holder_repeat_nr s"
  "holder_repeat_nr (set_repeat q n s) = (holder_repeat_nr s)(q := n)"
  by (simp_all add: set_value_def set_holder_def set_repeat_def)

lemma same_ext_lock:
  assumes "same_ext s u"
  shows "sema_value u = sema_value s" "lock_holder u = lock_holder s" "holder_repeat_nr u = holder_repeat_nr s"
  using assms by (cases s, cases u, simp add: same_ext_def)+

lemma ablock_keeps:
  assumes "awf a" "astatus a p = Some TASK_BLOCKED \<or> p = acur a" "p \<noteq> aidle a"
  shows "astatus (ablock TASK_BLOCKED a) p = Some TASK_BLOCKED"
proof -
  have "p \<notin> set (aready a)" using assms awf_cur_not_ready [OF assms(1)] by (auto simp: awf_def)
  then have "p \<noteq> hd (aready a)" if "aready a \<noteq> []" using that by (metis hd_in_set)
  then show ?thesis
    using assms(2,3) by (auto simp: ablock_def aschedule_def apick_def awake_idle_def aunblock_def arequeue_def)
qed

lemma aschedule_keeps:
  assumes "awf a" "astatus a p = Some TASK_BLOCKED" "p \<noteq> aidle a"
  shows "astatus (aschedule a) p = Some TASK_BLOCKED"
proof -
  have p: "p \<notin> set (aready a)" using assms by (auto simp: awf_def)
  have c: "p \<noteq> acur a" using assms(2) awf_cur [OF assms(1)] by auto
  with p have "p \<noteq> hd (aready a @ [acur a])" by (cases "aready a") auto
  then show ?thesis
    using assms(2,3) c awf_cur [OF assms(1)] by (auto simp: aschedule_def apick_def awake_idle_def arequeue_def)
qed

lemma ablock_aidle [simp]: "aidle (ablock st a) = aidle a"
  by (simp add: ablock_def)

text \<open>Waiting on a semaphore: the caller joins the waiters and the next thread runs.\<close>

lemma sema_wait_inv:
  assumes inv: "sched_inv ph s L a" and w: "L (waiters q) = Some (map general_tag W)" "waiters q \<noteq> thread_ready_list s"
    and idle: "acur a \<noteq> aidle a"
  shows "\<exists>u L'. sema_wait q s = Inr u \<and> sched_inv ph u L' (ablock TASK_BLOCKED a)
    \<and> L' (waiters q) = Some (map general_tag (W @ [acur a])) \<and> thread_ready_list u = thread_ready_list s
    \<and> intr_get_status u = INTR_OFF \<and> same_ext s u"
proof -
  let ?L = "L(waiters q \<mapsto> map general_tag (W @ [acur a]))"
  note sim = sched_invD(1) [OF inv] and f = sched_invD(3) [OF inv]
  have r: "running_thread s = acur a" by (rule simD(5) [OF sim])
  have "general_tag (acur a) \<notin> set (map general_tag W)"
    using detached_not_in [OF f [unfolded free_tag_def] w(1)] by (auto simp: nodes_def)
  then have e: "elem_find (waiters q) (general_tag (acur a)) s = Inr False"
    using elem_find_rep [OF simD(1) [OF sim] w(1)] by simp
  obtain v where v: "list_append (waiters q) (general_tag (acur a)) s = Inr v" "lists_rep v ?L" "same_but_links s v"
    using list_append_rep [OF simD(1) [OF sim] w(1) f [unfolded free_tag_def]] by auto
  obtain h where h: "v = s\<lparr>elems := h\<rparr>" "dom h = dom (elems s)" using v(3) by (auto simp: same_but_links_def)
  have sim': "sim ph v ?L a" by (rule sim_other_list [OF sim v(3,2) w(2)])
  have i: "free_tag v ?L (aidle a)" if b: "astatus a (aidle a) = Some TASK_BLOCKED"
  proof (rule free_tag_other_list [OF sched_invD(4) [OF inv b] v(3) w(1)])
    have "general_tag (aidle a) \<notin> set (map general_tag W)"
      using detached_not_in [OF sched_invD(4) [OF inv b, unfolded free_tag_def] w(1)] by (auto simp: nodes_def)
    then show "general_tag (aidle a) \<notin> set (map general_tag (W @ [acur a]))" using idle by auto
  qed
  obtain u where u: "thread_block TASK_BLOCKED v = Inr (intr_get_status v, u)" "thread_ready_list u = thread_ready_list v"
    "sched_inv ph u (?L(thread_ready_list v \<mapsto> map general_tag (aready (ablock TASK_BLOCKED a)))) (ablock TASK_BLOCKED a)"
    "intr_get_status u = INTR_OFF" "same_ext v u"
    using block_inv [OF sim' sched_invD(2) [OF inv], of TASK_BLOCKED] i idle by (auto simp: sleeping_def)
  have "same_ext s u" using u(5) h by (simp add: same_ext_def)
  moreover have "sema_wait q s = Inr u" using e v(1) u(1) by (simp add: sema_wait_def r)
  ultimately show ?thesis using u(2-4) w(2)
    by (intro exI [of _ u] exI [of _ "?L(thread_ready_list v \<mapsto> map general_tag (aready (ablock TASK_BLOCKED a)))"])
      (auto simp: h)
qed

text \<open>Waking the first waiter, if there is one.\<close>

lemma wake_first:
  assumes inv: "sched_inv ph s L a" and w: "L (waiters q) = Some (map general_tag W)" "waiters q \<noteq> thread_ready_list s"
    and b: "\<And>p. p \<in> set W \<Longrightarrow> astatus a p = Some TASK_BLOCKED"
  shows "\<exists>u L' a' W'. andThen (list_empty (waiters q) s) (\<lambda>none. if \<not> none then
       andThen (list_pop (waiters q) s) (\<lambda>(tag, s). thread_unblock (entry_of_general tag) s) else Inr s) = Inr u
    \<and> sched_inv ph u L' a' \<and> L' (waiters q) = Some (map general_tag W') \<and> thread_ready_list u = thread_ready_list s
    \<and> eflags u = eflags s \<and> same_ext s u \<and> set W' \<subseteq> set W \<and> (\<forall>p\<in>set W'. astatus a' p = Some TASK_BLOCKED)
    \<and> acur a' = acur a \<and> aidle a' = aidle a"
proof (cases W)
  case Nil
  then have "list_empty (waiters q) s = Inr True" using list_empty_rep [OF simD(1) [OF sched_invD(1) [OF inv]] w(1)] by simp
  then show ?thesis using inv w Nil by (intro exI [of _ s] exI [of _ L] exI [of _ a] exI [of _ "[]"]) (simp add: same_ext_def)
next
  case (Cons p W')
  note rep = simD(1) [OF sched_invD(1) [OF inv]]
  let ?L = "L(waiters q \<mapsto> map general_tag W')"
  have "list_empty (waiters q) s = Inr False" using list_empty_rep [OF rep w(1)] Cons by simp
  moreover obtain v where v: "list_pop (waiters q) s = Inr (general_tag p, v)" "lists_rep v ?L"
    "detached v ?L (general_tag p)" "same_but_links s v"
    using list_pop_rep [OF rep, of "waiters q" "general_tag p" "map general_tag W'"] w(1) Cons by auto
  obtain h where h: "v = s\<lparr>elems := h\<rparr>" "dom h = dom (elems s)" using v(4) by (auto simp: same_but_links_def)
  have inv': "sched_inv ph v ?L a"
    by (rule sched_inv_other_list [OF inv v(4,2) w(2,1)]) (use Cons in auto)
  have "distinct (p # W')" using ls.rep_distinct [OF rep w(1)] Cons by (auto simp: distinct_map)
  moreover obtain u where u: "thread_unblock p v = Inr u" "eflags u = eflags v" "thread_ready_list u = thread_ready_list v"
    "same_ext v u" "sched_inv ph u (?L(thread_ready_list v \<mapsto> map general_tag (p # aready a))) (aunblock p a)"
    using unblock_inv [OF inv', of p TASK_BLOCKED] b Cons v(3) by (auto simp: sleeping_def free_tag_def)
  ultimately show ?thesis
    using v(1) w(2) b Cons h
    by (intro exI [of _ u] exI [of _ "?L(thread_ready_list v \<mapsto> map general_tag (p # aready a))"]
        exI [of _ "aunblock p a"] exI [of _ W']) (auto simp: aunblock_def same_ext_def)
qed

lemma sema_up_inv:
  assumes inv: "sched_inv ph s L a" and w: "L (waiters q) = Some (map general_tag W)" "waiters q \<noteq> thread_ready_list s"
    and b: "\<And>p. p \<in> set W \<Longrightarrow> astatus a p = Some TASK_BLOCKED" and v0: "sema_value s q = 0"
  shows "\<exists>u L' a' W'. sema_up q s = Inr u
    \<and> sched_inv ph u L' a' \<and> L' (waiters q) = Some (map general_tag W') \<and> thread_ready_list u = thread_ready_list s
    \<and> eflags u = eflags s \<and> set W' \<subseteq> set W \<and> (\<forall>p\<in>set W'. astatus a' p = Some TASK_BLOCKED)
    \<and> acur a' = acur a \<and> aidle a' = aidle a \<and> sema_value u = (sema_value s)(q := 1)
    \<and> lock_holder u = lock_holder s \<and> holder_repeat_nr u = holder_repeat_nr s"
proof -
  obtain old e where i: "intr_disable s = (old, s\<lparr>eflags := e\<rparr>)" using intr_disable_form by blast
  let ?s = "s\<lparr>eflags := e\<rparr>"
  have inv': "sched_inv ph ?s L a" using inv by simp
  have w': "waiters q \<noteq> thread_ready_list ?s" using w(2) by simp
  obtain u L' a' W' where u: "andThen (list_empty (waiters q) ?s) (\<lambda>none. if \<not> none then
       andThen (list_pop (waiters q) ?s) (\<lambda>(tag, s). thread_unblock (entry_of_general tag) s) else Inr ?s) = Inr u"
    "sched_inv ph u L' a'" "L' (waiters q) = Some (map general_tag W')" "thread_ready_list u = thread_ready_list ?s"
    "eflags u = eflags ?s" "same_ext ?s u" "set W' \<subseteq> set W" "\<forall>p\<in>set W'. astatus a' p = Some TASK_BLOCKED"
    "acur a' = acur a" "aidle a' = aidle a"
    using wake_first [OF inv' w(1) w' b] by blast
  obtain none where n: "list_empty (waiters q) ?s = Inr none" "(if \<not> none then
       andThen (list_pop (waiters q) ?s) (\<lambda>(tag, s). thread_unblock (entry_of_general tag) s) else Inr ?s) = Inr u"
    using u(1) by (auto simp: andThen_eq_Inr)
  have x: "sema_value u = sema_value s" "lock_holder u = lock_holder s" "holder_repeat_nr u = holder_repeat_nr s"
    using same_ext_lock [OF u(6)] by simp_all
  let ?v = "set_value q 1 u"
  have "sema_up q s = Inr (snd (intr_set_status old ?v))"
    using i v0 n by (simp add: sema_up_def x set_value_def split del: if_split)
  moreover have "snd (intr_set_status old ?v) = ?v\<lparr>eflags := eflags s\<rparr>"
    using u(5) by (intro critical_section [OF i]) (simp add: set_value_def)
  ultimately show ?thesis using u x
    by (intro exI [of _ "?v\<lparr>eflags := eflags s\<rparr>"] exI [of _ L'] exI [of _ a'] exI [of _ W']) simp
qed

section \<open>The invariant of the lock\<close>

definition owns :: "pc \<Rightarrow> bool" where
  "owns x \<longleftrightarrow> (case x of Took \<Rightarrow> True | Named \<Rightarrow> True | Crit _ \<Rightarrow> True | Left \<Rightarrow> True | Cleared \<Rightarrow> True | _ \<Rightarrow> False)"

definition named :: "pc \<Rightarrow> bool" where
  "named x \<longleftrightarrow> (case x of Named \<Rightarrow> True | Crit _ \<Rightarrow> True | _ \<Rightarrow> False)"

definition counted :: "pc \<Rightarrow> bool" where
  "counted x \<longleftrightarrow> (case x of Crit _ \<Rightarrow> True | Left \<Rightarrow> True | _ \<Rightarrow> False)"

text \<open>
  One thread at most owns the lock, the semaphore is 0 exactly when one does, and the fields
  \<open>holder\<close> and \<open>holder_repeat_nr\<close> say who and how often.
\<close>

definition lock_ok :: "nat \<Rightarrow> (nat \<Rightarrow> pc) \<Rightarrow> u8 \<Rightarrow> nat \<Rightarrow> u32 \<Rightarrow> bool" where
  "lock_ok l pcs v h n \<longleftrightarrow> (\<forall>p q. owns (pcs p) \<longrightarrow> owns (pcs q) \<longrightarrow> p = q)
     \<and> v = (if \<exists>p. owns (pcs p) then 0 else 1)
     \<and> (\<forall>p. named (pcs p) \<longrightarrow> h = p) \<and> (h \<noteq> 0 \<longrightarrow> named (pcs h))
     \<and> (\<forall>p k. pcs p = Crit k \<longrightarrow> n = of_nat k \<and> 0 < k \<and> k < 2 ^ 32)
     \<and> ((\<forall>p. \<not> counted (pcs p)) \<longrightarrow> n = 0)"

definition queue_ok :: "(nat \<Rightarrow> u32) \<Rightarrow> nat \<Rightarrow> (nat \<Rightarrow> pc) \<Rightarrow> 'a sync_scheme \<Rightarrow> bool" where
  "queue_ok ph l pcs s \<longleftrightarrow> (\<exists>L a W. sched_inv ph s L a
     \<and> L (waiters (lock_sema l)) = Some (map general_tag W) \<and> waiters (lock_sema l) \<noteq> thread_ready_list s
     \<and> (\<forall>p\<in>set W. astatus a p = Some TASK_BLOCKED \<and> pcs p = Waiting INTR_ON) \<and> pcs (aidle a) = Out)"

definition lock_inv :: "(nat \<Rightarrow> u32) \<Rightarrow> nat \<Rightarrow> (nat \<Rightarrow> pc) \<times> 'a sync_scheme \<Rightarrow> bool" where
  "lock_inv ph l x \<longleftrightarrow> (case x of (pcs, s) \<Rightarrow>
     queue_ok ph l pcs s
     \<and> lock_ok l pcs (sema_value s (lock_sema l)) (lock_holder s l) (holder_repeat_nr s l)
     \<and> (\<forall>p old. pcs p = Waiting old \<longrightarrow> old = INTR_ON)
     \<and> (\<forall>old. pcs (running_thread s) = Waiting old \<longrightarrow> intr_get_status s = INTR_OFF))"

lemma owns_simps [simp]: "owns Took" "owns Named" "owns (Crit n)" "owns Left" "owns Cleared"
  "\<not> owns Out" "\<not> owns Trying" "\<not> owns (Waiting old)"
  by (simp_all add: owns_def)

lemma named_simps [simp]: "named Named" "named (Crit n)" "\<not> named Took" "\<not> named Left" "\<not> named Cleared"
  "\<not> named Out" "\<not> named Trying" "\<not> named (Waiting old)"
  by (simp_all add: named_def)

lemma counted_simps [simp]: "counted (Crit n)" "counted Left" "\<not> counted Named" "\<not> counted Took" "\<not> counted Cleared"
  "\<not> counted Out" "\<not> counted Trying" "\<not> counted (Waiting old)"
  by (simp_all add: counted_def)

lemma named_owns: "named x \<Longrightarrow> owns x" and counted_owns: "counted x \<Longrightarrow> owns x"
  by (cases x; simp)+

text \<open>How the steps of one thread move the lock's fields.\<close>

lemma lock_ok_idle_move:
  assumes "lock_ok l pcs v h n" "\<not> owns (pcs p)" "\<not> owns x"
  shows "lock_ok l (pcs(p := x)) v h n"
proof -
  have "\<not> named (pcs p)" "\<not> counted (pcs p)" "\<not> named x" "\<not> counted x" "x \<noteq> Crit k" "pcs p \<noteq> Crit k" for k
    using assms named_owns counted_owns owns_simps(3) by metis+
  moreover from this have "owns ((pcs(p := x)) q) \<longleftrightarrow> owns (pcs q)" "named ((pcs(p := x)) q) \<longleftrightarrow> named (pcs q)"
    "counted ((pcs(p := x)) q) \<longleftrightarrow> counted (pcs q)" "(pcs(p := x)) q = Crit k \<longleftrightarrow> pcs q = Crit k" for q k
    using assms(2,3) by auto
  ultimately show ?thesis using assms(1) by (simp only: lock_ok_def) simp
qed

lemma lock_ok_take:
  assumes "lock_ok l pcs v h n" "v \<noteq> 0"
  shows "v = 1" "lock_ok l (pcs(p := Took)) 0 h n"
proof -
  have o: "\<not> owns (pcs q)" for q using assms by (auto simp: lock_ok_def split: if_splits)
  then have "\<not> named (pcs q)" "\<not> counted (pcs q)" "pcs q \<noteq> Crit k" for q k
    using named_owns counted_owns owns_simps(3) by metis+
  with o assms show "v = 1" "lock_ok l (pcs(p := Took)) 0 h n" by (auto simp: lock_ok_def)
qed

lemma lock_ok_owner:
  assumes "lock_ok l pcs v h n" "owns (pcs p)"
  shows "v = 0" "q \<noteq> p \<Longrightarrow> \<not> owns (pcs q)" "q \<noteq> p \<Longrightarrow> \<not> named (pcs q)" "q \<noteq> p \<Longrightarrow> \<not> counted (pcs q)"
    "q \<noteq> p \<Longrightarrow> pcs q \<noteq> Crit k"
proof -
  show "v = 0" using assms by (auto simp: lock_ok_def)
  show o: "q \<noteq> p \<Longrightarrow> \<not> owns (pcs q)" for q using assms by (auto simp: lock_ok_def)
  show "q \<noteq> p \<Longrightarrow> \<not> named (pcs q)" "q \<noteq> p \<Longrightarrow> \<not> counted (pcs q)" "q \<noteq> p \<Longrightarrow> pcs q \<noteq> Crit k"
    using o named_owns counted_owns owns_simps(3) by metis+
qed

lemma lock_ok_own_move:
  assumes "lock_ok l pcs v h n" "owns (pcs p)" "owns x"
    and "if named x then h' = p else h' = 0" "\<And>k. x = Crit k \<Longrightarrow> n' = of_nat k \<and> 0 < k \<and> k < 2 ^ 32"
    "\<not> counted x \<Longrightarrow> n' = 0"
  shows "lock_ok l (pcs(p := x)) 0 h' n'"
  using lock_ok_owner [OF assms(1,2)] assms(3-6) unfolding lock_ok_def by (auto split: if_splits)

lemma lock_ok_fields:
  assumes "lock_ok l pcs v h n" "owns (pcs p)"
  shows "named (pcs p) \<Longrightarrow> h = p" "\<not> named (pcs p) \<Longrightarrow> h = 0" "\<not> counted (pcs p) \<Longrightarrow> n = 0"
    "pcs p = Crit k \<Longrightarrow> n = of_nat k \<and> 0 < k \<and> k < 2 ^ 32"
proof -
  note o = lock_ok_owner [OF assms]
  show "named (pcs p) \<Longrightarrow> h = p" "pcs p = Crit k \<Longrightarrow> n = of_nat k \<and> 0 < k \<and> k < 2 ^ 32"
    using assms(1) by (auto simp: lock_ok_def)
  show "h = 0" if "\<not> named (pcs p)"
  proof (rule ccontr)
    assume "h \<noteq> 0"
    then have "named (pcs h)" using assms(1) by (simp add: lock_ok_def)
    then show False using that o(3) by (cases "h = p") auto
  qed
  show "n = 0" if "\<not> counted (pcs p)"
  proof -
    have "\<not> counted (pcs q)" for q using that o(4) by (cases "q = p") auto
    then show ?thesis using assms(1) by (simp add: lock_ok_def)
  qed
qed

lemma lock_ok_release:
  assumes "lock_ok l pcs v h n" "pcs p = Cleared"
  shows "lock_ok l (pcs(p := Out)) 1 h n"
proof -
  have "owns (pcs p)" using assms(2) by simp
  note o = lock_ok_owner [OF assms(1) this] and f = lock_ok_fields [OF assms(1) this]
  show ?thesis using o f(2,3) assms(2) unfolding lock_ok_def by auto
qed

lemma lock_invD:
  assumes "lock_inv ph l (pcs, s)"
  shows "queue_ok ph l pcs s" "lock_ok l pcs (sema_value s (lock_sema l)) (lock_holder s l) (holder_repeat_nr s l)"
    "pcs p = Waiting old \<Longrightarrow> old = INTR_ON" "pcs (running_thread s) = Waiting old \<Longrightarrow> intr_get_status s = INTR_OFF"
  using assms by (auto simp: lock_inv_def)

text \<open>A step that only touches the lock's fields and the position of a thread that is not waiting.\<close>

lemma queue_ok_move:
  assumes q: "queue_ok ph l pcs s" and p: "\<And>old. pcs p \<noteq> Waiting old" "p \<noteq> idle_thread s"
    and t: "\<And>L a. sched_inv ph s L a \<Longrightarrow> sched_inv ph t L a" "thread_ready_list t = thread_ready_list s"
  shows "queue_ok ph l (pcs(p := x)) t"
proof -
  obtain L a W where w: "sched_inv ph s L a" "L (waiters (lock_sema l)) = Some (map general_tag W)"
    "waiters (lock_sema l) \<noteq> thread_ready_list s"
    "\<forall>p\<in>set W. astatus a p = Some TASK_BLOCKED \<and> pcs p = Waiting INTR_ON" "pcs (aidle a) = Out"
    using q unfolding queue_ok_def by blast
  have "p \<notin> set W" "p \<noteq> aidle a" using w(4) p simD(6) [OF sched_invD(1) [OF w(1)]] by auto
  then show ?thesis using w t unfolding queue_ok_def by (metis fun_upd_other)
qed

section \<open>Every step keeps the invariant\<close>

lemma light_step:
  assumes inv: "lock_inv ph l (pcs, s)" and p: "p = running_thread s" "\<And>old. pcs p \<noteq> Waiting old" "p \<noteq> idle_thread s"
    and t: "\<And>L a. sched_inv ph s L a \<Longrightarrow> sched_inv ph t L a" "thread_ready_list t = thread_ready_list s" "esp t = esp s"
    and x: "\<And>old. x \<noteq> Waiting old"
      "lock_ok l (pcs(p := x)) (sema_value t (lock_sema l)) (lock_holder t l) (holder_repeat_nr t l)"
  shows "lock_inv ph l (pcs(p := x), t)"
proof -
  have "running_thread t = p" using p(1) t(3) by (simp add: running_thread_def)
  then show ?thesis
    using queue_ok_move [OF lock_invD(1) [OF inv] p(2,3) t(1,2)] lock_invD(3) [OF inv] x
    by (auto simp: lock_inv_def)
qed

definition enter_outcome :: "'a sync_scheme progress \<Rightarrow> (pc \<times> 'a sync_scheme) outcome" where
  "enter_outcome r = (case r of Done s \<Rightarrow> Inr (Took, s) | Switched old s \<Rightarrow> Inr (Waiting old, s))"

lemma enter_blocked:
  assumes q: "queue_ok ph l pcs s" and p: "p = running_thread s" "p \<noteq> idle_thread s" "\<not> owns (pcs p)"
    and lk: "lock_ok l pcs (sema_value s (lock_sema l)) (lock_holder s l) (holder_repeat_nr s l)"
    and wt: "\<forall>p old. pcs p = Waiting old \<longrightarrow> old = INTR_ON"
  shows "\<exists>u. sema_wait (lock_sema l) s = Inr u \<and> lock_inv ph l (pcs(p := Waiting INTR_ON), u)"
proof -
  obtain L a W where w: "sched_inv ph s L a" "L (waiters (lock_sema l)) = Some (map general_tag W)"
    "waiters (lock_sema l) \<noteq> thread_ready_list s"
    "\<And>p. p \<in> set W \<Longrightarrow> astatus a p = Some TASK_BLOCKED \<and> pcs p = Waiting INTR_ON" "pcs (aidle a) = Out"
    using q unfolding queue_ok_def by blast
  note sim = sched_invD(1) [OF w(1)] and wf = sched_invD(2) [OF w(1)]
  have pa: "p = acur a" "p \<noteq> aidle a" using p(1,2) simD(5,6) [OF sim] by simp_all
  obtain u L' where u: "sema_wait (lock_sema l) s = Inr u" "sched_inv ph u L' (ablock TASK_BLOCKED a)"
    "L' (waiters (lock_sema l)) = Some (map general_tag (W @ [acur a]))" "thread_ready_list u = thread_ready_list s"
    "intr_get_status u = INTR_OFF" "same_ext s u"
    using sema_wait_inv [OF w(1-3)] pa by blast
  have bl: "astatus (ablock TASK_BLOCKED a) r = Some TASK_BLOCKED \<and> (pcs(p := Waiting INTR_ON)) r = Waiting INTR_ON"
    if "r \<in> set (W @ [acur a])" for r
  proof -
    have "r \<noteq> aidle a" using that w(4,5) pa by (cases "r = p") fastforce+
    then show ?thesis using that w(4) [of r] pa ablock_keeps [OF wf, of r] by auto
  qed
  have "queue_ok ph l (pcs(p := Waiting INTR_ON)) u"
    unfolding queue_ok_def
    by (rule exI [of _ L'], rule exI [of _ "ablock TASK_BLOCKED a"], rule exI [of _ "W @ [acur a]"])
      (use u w(3,5) bl pa in \<open>auto\<close>)
  moreover have "lock_ok l (pcs(p := Waiting INTR_ON)) (sema_value u (lock_sema l)) (lock_holder u l) (holder_repeat_nr u l)"
    using lock_ok_idle_move [OF lk p(3)] same_ext_lock [OF u(6)] by simp
  ultimately show ?thesis using u(1,5) wt by (auto simp: lock_inv_def)
qed

lemma set_status_on: "snd (intr_set_status INTR_ON s) = snd (intr_enable s)"
  by (simp add: intr_set_status_def)

lemma enable_form: "\<exists>e. snd (intr_enable s) = s\<lparr>eflags := e\<rparr>"
proof (cases "intr_get_status s = INTR_ON")
  case True
  then have "snd (intr_enable s) = s\<lparr>eflags := eflags s\<rparr>" by (simp add: intr_enable_def)
  then show ?thesis by blast
qed (auto simp: intr_enable_def)

lemma enter_free:
  assumes q: "queue_ok ph l pcs s" and p: "p = running_thread s" "p \<noteq> idle_thread s" "\<not> owns (pcs p)"
    and lk: "lock_ok l pcs (sema_value s (lock_sema l)) (lock_holder s l) (holder_repeat_nr s l)"
    and wt: "\<forall>p old. pcs p = Waiting old \<longrightarrow> old = INTR_ON" and v: "sema_value s (lock_sema l) \<noteq> 0"
  shows "\<exists>u. sema_enter INTR_ON (lock_sema l) s = Inr (Done u) \<and> lock_inv ph l (pcs(p := Took), u)"
proof -
  obtain L a W where w: "sched_inv ph s L a" "L (waiters (lock_sema l)) = Some (map general_tag W)"
    "waiters (lock_sema l) \<noteq> thread_ready_list s"
    "\<And>p. p \<in> set W \<Longrightarrow> astatus a p = Some TASK_BLOCKED \<and> pcs p = Waiting INTR_ON" "pcs (aidle a) = Out"
    using q unfolding queue_ok_def by blast
  have pa: "p = acur a" "p \<noteq> aidle a" using p(1,2) simD(5,6) [OF sched_invD(1) [OF w(1)]] by simp_all
  then have pW: "p \<notin> set W" using w(4) [of p] awf_cur [OF sched_invD(2) [OF w(1)]] by auto
  obtain e where e: "snd (intr_set_status INTR_ON (set_value (lock_sema l) 0 s)) = (set_value (lock_sema l) 0 s)\<lparr>eflags := e\<rparr>"
    using enable_form unfolding set_status_on by blast
  let ?u = "(set_value (lock_sema l) 0 s)\<lparr>eflags := e\<rparr>"
  have "sema_enter INTR_ON (lock_sema l) s = Inr (Done ?u)"
    using v lock_ok_take(1) [OF lk v] e by (simp add: sema_enter_def)
  moreover have "queue_ok ph l (pcs(p := Took)) ?u"
    unfolding queue_ok_def
    by (rule exI [of _ L], rule exI [of _ a], rule exI [of _ W]) (use w pW pa in \<open>auto\<close>)
  moreover have "lock_ok l (pcs(p := Took)) (sema_value ?u (lock_sema l)) (lock_holder ?u l) (holder_repeat_nr ?u l)"
    using lock_ok_take(2) [OF lk v] by simp
  moreover have "running_thread ?u = p" using p(1) by (simp add: running_thread_def)
  ultimately show ?thesis using wt by (auto simp: lock_inv_def)
qed

lemma enter_step:
  assumes "queue_ok ph l pcs s" "p = running_thread s" "p \<noteq> idle_thread s" "\<not> owns (pcs p)"
    "lock_ok l pcs (sema_value s (lock_sema l)) (lock_holder s l) (holder_repeat_nr s l)"
    "\<forall>p old. pcs p = Waiting old \<longrightarrow> old = INTR_ON"
  shows "\<exists>x u. andThen (sema_enter INTR_ON (lock_sema l) s) enter_outcome = Inr (x, u) \<and> lock_inv ph l (pcs(p := x), u)"
proof (cases "sema_value s (lock_sema l) = 0")
  case True
  obtain u where "sema_wait (lock_sema l) s = Inr u" "lock_inv ph l (pcs(p := Waiting INTR_ON), u)"
    using enter_blocked [OF assms] by blast
  then show ?thesis using True by (intro exI [of _ "Waiting INTR_ON"] exI [of _ u]) (simp add: sema_enter_def enter_outcome_def)
next
  case False
  obtain u where "sema_enter INTR_ON (lock_sema l) s = Inr (Done u)" "lock_inv ph l (pcs(p := Took), u)"
    using enter_free [OF assms False] by blast
  then show ?thesis by (intro exI [of _ Took] exI [of _ u]) (simp add: enter_outcome_def)
qed

lemma intr_disable_on: "intr_get_status s = INTR_ON \<Longrightarrow> \<exists>e. intr_disable s = (INTR_ON, s\<lparr>eflags := e\<rparr>)"
  by (auto simp: intr_disable_def)

lemma resume_off: "intr_get_status s = INTR_OFF \<Longrightarrow> resume_switch INTR_OFF s = s"
  by (simp add: resume_switch_def intr_set_status_def intr_disable_def)

lemma exec_enter:
  "exec l c Trying s = andThen (sema_down (lock_sema l) s) enter_outcome"
  "exec l c (Waiting old) s = andThen (sema_resume old (lock_sema l) s) enter_outcome"
  by (simp_all add: enter_outcome_def [abs_def])

lemma queue_ok_eflags: "queue_ok ph l pcs (s\<lparr>eflags := e\<rparr>) \<longleftrightarrow> queue_ok ph l pcs s"
  by (simp add: queue_ok_def)

lemma running_eflags [simp]: "running_thread (s\<lparr>eflags := e\<rparr>) = running_thread s"
  by (simp add: running_thread_def)

lemma down_step:
  assumes inv: "lock_inv ph l (pcs, s)" and p: "p = running_thread s" "p \<noteq> idle_thread s" "pcs p = Trying"
    and on: "intr_get_status s = INTR_ON"
  shows "\<exists>x u. exec l c (pcs p) s = Inr (x, u) \<and> lock_inv ph l (pcs(p := x), u)"
proof -
  obtain e where e: "intr_disable s = (INTR_ON, s\<lparr>eflags := e\<rparr>)" using intr_disable_on [OF on] by blast
  have "\<exists>x u. andThen (sema_enter INTR_ON (lock_sema l) (s\<lparr>eflags := e\<rparr>)) enter_outcome = Inr (x, u)
      \<and> lock_inv ph l (pcs(p := x), u)"
    by (rule enter_step) (use lock_invD [OF inv] p in \<open>auto simp: queue_ok_eflags\<close>)
  then show ?thesis by (simp only: p(3) exec_enter) (simp add: sema_down_def e)
qed

lemma wake_step:
  assumes inv: "lock_inv ph l (pcs, s)" and p: "p = running_thread s" "pcs p = Waiting old"
  shows "\<exists>x u. exec l c (pcs p) s = Inr (x, u) \<and> lock_inv ph l (pcs(p := x), u)"
proof -
  have off: "intr_get_status s = INTR_OFF" "old = INTR_ON" using lock_invD(3,4) [OF inv] p by auto
  have "p \<noteq> idle_thread s"
    using lock_invD(1) [OF inv] p(2) unfolding queue_ok_def by (auto dest!: sched_invD(1) simD(6))
  then have "\<exists>x u. andThen (sema_enter INTR_ON (lock_sema l) s) enter_outcome = Inr (x, u)
      \<and> lock_inv ph l (pcs(p := x), u)"
    by (intro enter_step) (use lock_invD [OF inv] p in auto)
  then show ?thesis by (simp only: p(2) exec_enter) (simp add: sema_resume_def resume_off [OF off(1)] off(2))
qed

lemma running_pos: "queue_ok ph l pcs s \<Longrightarrow> running_thread s \<noteq> 0"
proof -
  assume "queue_ok ph l pcs s"
  then obtain L a where i: "sched_inv ph s L a" unfolding queue_ok_def by blast
  note sim = sched_invD(1) [OF i]
  have "tcb s (acur a) \<noteq> None" using awf_cur [OF sched_invD(2) [OF i]] simD(3) [OF sim, of "acur a"] by auto
  then show ?thesis using simD(4,5) [OF sim] by metis
qed

lemma up_step:
  assumes inv: "lock_inv ph l (pcs, s)" and p: "p = running_thread s" "p \<noteq> idle_thread s" "pcs p = Cleared"
  shows "\<exists>x u. exec l c (pcs p) s = Inr (x, u) \<and> lock_inv ph l (pcs(p := x), u)"
proof -
  note lk = lock_invD(2) [OF inv]
  obtain L a W where w: "sched_inv ph s L a" "L (waiters (lock_sema l)) = Some (map general_tag W)"
    "waiters (lock_sema l) \<noteq> thread_ready_list s"
    "\<And>p. p \<in> set W \<Longrightarrow> astatus a p = Some TASK_BLOCKED \<and> pcs p = Waiting INTR_ON" "pcs (aidle a) = Out"
    using lock_invD(1) [OF inv] unfolding queue_ok_def by blast
  have v0: "sema_value s (lock_sema l) = 0" using lock_ok_owner(1) [OF lk, of p] p(3) by simp
  obtain u L' a' W' where u: "sema_up (lock_sema l) s = Inr u" "sched_inv ph u L' a'"
    "L' (waiters (lock_sema l)) = Some (map general_tag W')" "thread_ready_list u = thread_ready_list s"
    "set W' \<subseteq> set W" "\<forall>p\<in>set W'. astatus a' p = Some TASK_BLOCKED" "acur a' = acur a" "aidle a' = aidle a"
    "sema_value u = (sema_value s)(lock_sema l := 1)" "lock_holder u = lock_holder s" "holder_repeat_nr u = holder_repeat_nr s"
    using sema_up_inv [OF w(1-3) _ v0] w(4) by blast
  have "p \<notin> set W" "p \<noteq> aidle a" using w(4) [of p] w(5) p(3) by auto
  then have "queue_ok ph l (pcs(p := Out)) u"
    unfolding queue_ok_def
    by (intro exI [of _ L'] exI [of _ a'] exI [of _ W']) (use u w in auto)
  moreover have "lock_ok l (pcs(p := Out)) (sema_value u (lock_sema l)) (lock_holder u l) (holder_repeat_nr u l)"
    using lock_ok_release [OF lk p(3)] by (simp add: u(9-11))
  moreover have "running_thread u = p"
    using simD(5) [OF sched_invD(1) [OF u(2)]] simD(5) [OF sched_invD(1) [OF w(1)]] u(7) p(1) by simp
  ultimately show ?thesis using u(1) p(3) lock_invD(3) [OF inv] by (auto simp: lock_inv_def)
qed

lemma of_nat_gt_1: "k < 2 ^ 32 \<Longrightarrow> (1 :: u32) < of_nat k \<longleftrightarrow> 1 < k"
  by (simp add: word_less_nat_alt unat_of_nat)

lemma crit_step:
  assumes inv: "lock_inv ph l (pcs, s)" and p: "p = running_thread s" "p \<noteq> idle_thread s"
    and nw: "\<And>old. pcs p \<noteq> Waiting old" and n: "pcs p = Crit n" "n < 2 ^ 32 - 1"
  shows "\<exists>x u. exec l c (pcs p) s = Inr (x, u) \<and> lock_inv ph l (pcs(p := x), u)"
proof -
  note lk = lock_invD(2) [OF inv]
  have o: "owns (pcs p)" using n by simp
  note f = lock_ok_fields [OF lk o] and m = lock_ok_own_move [OF lk o] and v = lock_ok_owner(1) [OF lk o]
  have h: "lock_holder s l = p" "holder_repeat_nr s l = of_nat n" "0 < n" using f(1) f(4) [OF n(1)] n by simp_all
  have r: "running_thread s = p" using p(1) by simp
  have light: "lock_inv ph l (pcs(p := x), t)"
    if "\<And>L a. sched_inv ph s L a \<Longrightarrow> sched_inv ph t L a" "thread_ready_list t = thread_ready_list s" "esp t = esp s"
      "\<And>old. x \<noteq> Waiting old" "lock_ok l (pcs(p := x)) (sema_value t (lock_sema l)) (lock_holder t l) (holder_repeat_nr t l)"
    for x t using light_step [OF inv p(1) nw p(2) that] .
  show ?thesis
  proof (cases c)
    case Acquire
    have "lock_inv ph l (pcs(p := Crit (Suc n)), set_repeat l (of_nat n + 1) s)"
      by (rule light) (use m [of "Crit (Suc n)" p "of_nat n + 1"] n h v in \<open>auto simp: add.commute\<close>)
    then show ?thesis using Acquire n h r by simp
  next
    case Release
    show ?thesis
    proof (cases "1 < n")
      case True
      have "of_nat n - (1 :: u32) = of_nat (n - 1)" using True by simp
      then have "lock_inv ph l (pcs(p := Crit (n - 1)), set_repeat l (of_nat n - 1) s)"
        using True n by (intro light) (use m [of "Crit (n - 1)" p "of_nat n - 1"] n h v in auto)
      then show ?thesis using Release n h r True of_nat_gt_1 [of n] by simp
    next
      case False
      then have "n = 1" using h by simp
      then have "lock_inv ph l (pcs(p := Left), set_holder l 0 s)"
        by (intro light) (use m [of Left 0 1] n h v in auto)
      then show ?thesis using Release n h r \<open>n = 1\<close> by simp
    qed
  qed
qed

lemma act_step:
  assumes inv: "lock_inv ph l (pcs, s)" and p: "p = running_thread s" "p \<noteq> idle_thread s"
    and on: "intr_get_status s = INTR_ON" and bound: "\<And>n. pcs p = Crit n \<Longrightarrow> n < 2 ^ 32 - 1"
  shows "\<exists>x u. exec l c (pcs p) s = Inr (x, u) \<and> lock_inv ph l (pcs(p := x), u)"
proof -
  note lk = lock_invD(2) [OF inv]
  have p0: "p \<noteq> 0" using running_pos [OF lock_invD(1) [OF inv]] p(1) by simp
  have nw: "pcs p \<noteq> Waiting old" for old using lock_invD(4) [OF inv] on p(1) by force
  have light: "lock_inv ph l (pcs(p := x), t)"
    if "\<And>L a. sched_inv ph s L a \<Longrightarrow> sched_inv ph t L a" "thread_ready_list t = thread_ready_list s" "esp t = esp s"
      "\<And>old. x \<noteq> Waiting old" "lock_ok l (pcs(p := x)) (sema_value t (lock_sema l)) (lock_holder t l) (holder_repeat_nr t l)"
    for x t using light_step [OF inv p(1) nw p(2) that] .
  show ?thesis
  proof (cases "pcs p")
    case Out
    have "\<not> (lock_holder s l = running_thread s)" using lk Out p(1) p0 by (auto simp: lock_ok_def)
    then show ?thesis using Out light [of s Trying] lock_ok_idle_move [OF lk, of p Trying] by auto
  next
    case Trying
    then show ?thesis using down_step [OF inv p _ on] by blast
  next
    case Took
    have o: "owns (pcs p)" using Took by simp
    note f = lock_ok_fields [OF lk o] and m = lock_ok_own_move [OF lk o]
    show ?thesis using Took light [of "set_holder l p s" Named] m [of Named p 0] f lock_ok_owner(1) [OF lk o] p(1) by simp
  next
    case (Crit n)
    then show ?thesis using crit_step [OF inv p nw] bound by blast
  next
    case Left
    have o: "owns (pcs p)" using Left by simp
    note f = lock_ok_fields [OF lk o] and m = lock_ok_own_move [OF lk o]
    show ?thesis using Left light [of "set_repeat l 0 s" Cleared] m [of Cleared 0 0] f lock_ok_owner(1) [OF lk o] by simp
  next
    case Named
    have o: "owns (pcs p)" using Named by simp
    note f = lock_ok_fields [OF lk o] and m = lock_ok_own_move [OF lk o]
    show ?thesis using Named light [of "set_repeat l 1 s" "Crit 1"] m [of "Crit 1" p 1] f lock_ok_owner(1) [OF lk o] by simp
  next
    case Cleared
    then show ?thesis using up_step [OF inv p] by blast
  qed (use nw in auto)
qed

text \<open>A switch by the scheduler leaves the waiters of the lock where they are.\<close>

lemma switch_queue:
  assumes q: "L (waiters (lock_sema l)) = Some (map general_tag W)" "waiters (lock_sema l) \<noteq> thread_ready_list s"
    and b: "\<forall>p\<in>set W. astatus a p = Some TASK_BLOCKED \<and> pcs p = Waiting INTR_ON" "pcs (aidle a) = Out"
    and u: "sched_inv ph u (L(thread_ready_list s \<mapsto> rs)) a'" "thread_ready_list u = thread_ready_list s" "aidle a' = aidle a"
    and k: "\<And>p. astatus a p = Some TASK_BLOCKED \<Longrightarrow> p \<noteq> aidle a \<Longrightarrow> astatus a' p = Some TASK_BLOCKED"
  shows "queue_ok ph l pcs u"
proof -
  have "astatus a' p = Some TASK_BLOCKED" if "p \<in> set W" for p
    using that b k [of p] by (cases "p = aidle a") auto
  then show ?thesis unfolding queue_ok_def
    by (intro exI [of _ "L(thread_ready_list s \<mapsto> rs)"] exI [of _ a'] exI [of _ W]) (use q b u in auto)
qed

lemma tick_step:
  assumes inv: "lock_inv ph l (pcs, s)"
  shows "\<exists>u. schedule (snd (intr_disable s)) = Inr u \<and> lock_inv ph l (pcs, u)"
proof -
  obtain L a W where w: "sched_inv ph s L a" "L (waiters (lock_sema l)) = Some (map general_tag W)"
    "waiters (lock_sema l) \<noteq> thread_ready_list s"
    "\<forall>p\<in>set W. astatus a p = Some TASK_BLOCKED \<and> pcs p = Waiting INTR_ON" "pcs (aidle a) = Out"
    using lock_invD(1) [OF inv] unfolding queue_ok_def by blast
  obtain old e where i: "intr_disable s = (old, s\<lparr>eflags := e\<rparr>)" using intr_disable_form by blast
  let ?s = "s\<lparr>eflags := e\<rparr>"
  have off: "intr_get_status ?s = INTR_OFF" using status_disable [of s] by (simp add: i)
  have inv': "sched_inv ph ?s L a" using w(1) by simp
  note wf = sched_invD(2) [OF w(1)]
  obtain u where u: "schedule ?s = Inr u" "eflags u = eflags ?s" "thread_ready_list u = thread_ready_list s" "same_ext ?s u"
    "sched_inv ph u (L(thread_ready_list s \<mapsto> map general_tag (aready (aschedule a)))) (aschedule a)"
    using schedule_inv [OF sched_invD(1) [OF inv'] off arequeue_parked [OF wf]]
      awf_cur [OF wf] sched_invD(3,4) [OF inv'] by auto
  have "queue_ok ph l pcs u"
    by (rule switch_queue [OF w(2-5) u(5,3)]) (use aschedule_keeps [OF wf] in auto)
  moreover have "intr_get_status u = INTR_OFF" using off intr_get_status_cong [OF u(2)] by simp
  ultimately show ?thesis using u(1) lock_invD(2,3) [OF inv] same_ext_lock [OF u(4)] by (auto simp: i lock_inv_def)
qed

lemma idle_step:
  assumes inv: "lock_inv ph l (pcs, s)" and idle: "running_thread s = idle_thread s"
  shows "\<exists>old u. thread_block TASK_BLOCKED s = Inr (old, u) \<and> lock_inv ph l (pcs, u)"
proof -
  obtain L a W where w: "sched_inv ph s L a" "L (waiters (lock_sema l)) = Some (map general_tag W)"
    "waiters (lock_sema l) \<noteq> thread_ready_list s"
    "\<forall>p\<in>set W. astatus a p = Some TASK_BLOCKED \<and> pcs p = Waiting INTR_ON" "pcs (aidle a) = Out"
    using lock_invD(1) [OF inv] unfolding queue_ok_def by blast
  note sim = sched_invD(1) [OF w(1)] and wf = sched_invD(2) [OF w(1)]
  have ai: "acur a = aidle a" using simD(5,6) [OF sim] idle by simp
  obtain u where u: "thread_block TASK_BLOCKED s = Inr (intr_get_status s, u)" "thread_ready_list u = thread_ready_list s"
    "sched_inv ph u (L(thread_ready_list s \<mapsto> map general_tag (aready (ablock TASK_BLOCKED a)))) (ablock TASK_BLOCKED a)"
    "intr_get_status u = INTR_OFF" "same_ext s u"
    using block_inv [OF sim wf, of TASK_BLOCKED] sched_invD(3) [OF w(1)] ai by (auto simp: sleeping_def)
  have "queue_ok ph l pcs u"
    by (rule switch_queue [OF w(2-5) u(3,2)]) (use ablock_keeps [OF wf] in auto)
  then show ?thesis using u(1,4) lock_invD(2,3) [OF inv] same_ext_lock [OF u(5)] by (auto simp: lock_inv_def)
qed

lemma iret_step:
  assumes inv: "lock_inv ph l (pcs, s)" and nw: "\<forall>old. pcs (running_thread s) \<noteq> Waiting old"
  shows "lock_inv ph l (pcs, snd (intr_enable s))"
proof -
  obtain e where "snd (intr_enable s) = s\<lparr>eflags := e\<rparr>" using enable_form by blast
  then show ?thesis using inv nw by (simp add: lock_inv_def queue_ok_eflags)
qed

lemma sys_step_inv:
  assumes "sys_step l x y" "lock_inv ph l x"
  shows "lock_inv ph l y"
  using assms
proof cases
  case (act p s pcs c pc' s')
  then show ?thesis using act_step [of ph l pcs s p c] assms(2) by auto
next
  case (wake p s pcs old c pc' s')
  then show ?thesis using wake_step [of ph l pcs s p old c] assms(2) by auto
next
  case (tick s s' pcs)
  then show ?thesis using tick_step [of ph l pcs s] assms(2) by auto
next
  case (iret pcs s)
  then show ?thesis using iret_step [of ph l pcs s] assms(2) by auto
next
  case (idle s old s' pcs)
  then show ?thesis using idle_step [of ph l pcs s] assms(2) by auto
qed

lemma reachable_inv: "(sys_step l)\<^sup>*\<^sup>* x y \<Longrightarrow> lock_inv ph l x \<Longrightarrow> lock_inv ph l y"
  by (induction rule: rtranclp_induct) (auto intro: sys_step_inv)

section \<open>A fresh lock\<close>

definition fresh_lock :: "(nat \<Rightarrow> u32) \<Rightarrow> nat \<Rightarrow> 'a sync_scheme \<Rightarrow> bool" where
  "fresh_lock ph l s \<longleftrightarrow> (\<exists>L a. sched_inv ph s L a \<and> L (waiters (lock_sema l)) = Some []
     \<and> waiters (lock_sema l) \<noteq> thread_ready_list s)
     \<and> sema_value s (lock_sema l) = 1 \<and> lock_holder s l = 0 \<and> holder_repeat_nr s l = 0"

lemma fresh_lock_inv: "fresh_lock ph l s \<Longrightarrow> lock_inv ph l (\<lambda>_. Out, s)"
proof -
  assume f: "fresh_lock ph l s"
  then have "queue_ok ph l (\<lambda>_. Out) s"
    unfolding fresh_lock_def queue_ok_def by (metis empty_iff list.set(1) list.simps(8))
  then show ?thesis using f by (auto simp: lock_inv_def lock_ok_def fresh_lock_def)
qed

lemma lists_rep_new:
  assumes r: "lists_rep s L" and l: "L l = None" and d: "dll h l []" "local_update (nodes l []) (elems s) h"
    and x: "detached s L l" "detached s L (list_tail l)"
  shows "lists_rep (s\<lparr>elems := h\<rparr>) (L(l \<mapsto> []))"
proof -
  have out: "set (nodes k ys) \<inter> set (nodes l []) = {}" if "L k = Some ys" for k ys
    using detached_not_in [OF x(1) that] detached_not_in [OF x(2) that] by (simp add: nodes_def)
  have "dll h k ys" if "L k = Some ys" for k ys
    using lists_repD(2) [OF r that] out [OF that] d(2) by (auto intro: dll_frame simp: local_update_def)
  moreover have "h 0 = None" using lists_repD(1) [OF r] d(2) unfolding local_update_def by (metis domIff)
  ultimately show ?thesis using d(1) lists_repD(3) [OF r] out l by (auto simp: lists_rep_def Int_commute)
qed

text \<open>
  \<open>lock_init\<close> on a lock whose two list nodes are in no list makes a free lock with no waiters,
  and keeps the scheduler's invariant.
\<close>

theorem lock_init_fresh:
  assumes inv: "sched_inv ph s L a" and w: "w = waiters (lock_sema l)" "L w = None" "w \<noteq> thread_ready_list s"
    and x: "detached s L w" "detached s L (list_tail w)" "general_tag (acur a) \<notin> {w, list_tail w}"
      "general_tag (aidle a) \<notin> {w, list_tail w}"
  shows "\<exists>u. lock_init l s = Inr u \<and> fresh_lock ph l u"
proof -
  let ?s = "set_value (lock_sema l) 1 (set_repeat l 0 (set_holder l 0 s))"
  have inv': "sched_inv ph ?s L a" using inv by simp
  have e: "elems ?s = elems s" by (simp add: set_value_def set_repeat_def set_holder_def)
  have x': "detached ?s L w" "detached ?s L (list_tail w)" using x(1,2) detached_cong [OF e] by simp_all
  obtain n1 n2 where n: "elems ?s w = Some n1" "elems ?s (list_tail w) = Some n2"
    using x' by (auto simp: detached_def)
  obtain h where h: "list_init w ?s = Inr (?s\<lparr>elems := h\<rparr>)" "dll h w []" "local_update (nodes w []) (elems ?s) h"
    using dll_init [OF n] by blast
  let ?u = "?s\<lparr>elems := h\<rparr>"
  have rep: "lists_rep ?u (L(w \<mapsto> []))"
    by (rule lists_rep_new [OF simD(1) [OF sched_invD(1) [OF inv']] w(2) h(2,3) x'])
  have sl: "same_but_links ?s ?u" by (rule same_but_links_update [OF h(3)])
  have ft: "free_tag ?u (L(w \<mapsto> [])) p" if "free_tag ?s L p" "general_tag p \<notin> {w, list_tail w}" for p
    using that same_but_links_elems [OF sl] by (auto simp: free_tag_def detached_def nodes_def)
  have "sched_inv ph ?u (L(w \<mapsto> [])) a"
    using inv' sim_other_list [OF sched_invD(1) [OF inv'] sl rep] w(3) ft x(3,4) by (auto simp: sched_inv_def)
  then have "fresh_lock ph l ?u" using w by (auto simp: fresh_lock_def)
  moreover have "lock_init l s = Inr ?u" using h(1) w(1) by (simp add: lock_init_def sema_init_def)
  ultimately show ?thesis by blast
qed

text \<open>
  C3. Mutual exclusion: in every state the preemptible system can reach from a fresh lock, by any
  interleaving of the threads' actions with timer interrupts, at most one thread is in the
  critical section.
\<close>

theorem lock_mutual_exclusion:
  assumes "fresh_lock ph l s0" "(sys_step l)\<^sup>*\<^sup>* (\<lambda>_. Out, s0) (pcs, s)"
  shows "\<exists>q. {p. \<exists>n. pcs p = Crit n} \<subseteq> {q}"
proof -
  have "lock_ok l pcs (sema_value s (lock_sema l)) (lock_holder s l) (holder_repeat_nr s l)"
    using reachable_inv [OF assms(2) fresh_lock_inv [OF assms(1)]] by (simp add: lock_inv_def)
  then have "p = q" if "pcs p = Crit m" "pcs q = Crit n" for p q m n
    using that unfolding lock_ok_def by (metis owns_simps(3))
  then show ?thesis by (cases "\<exists>p n. pcs p = Crit n") blast+
qed


text \<open>
  The actions of \<open>exec\<close>, run without interruption, are \<open>lock_acquire\<close> and \<open>lock_release\<close>.
\<close>

lemma acquire_by_steps:
  "lock_holder s l \<noteq> running_thread s \<Longrightarrow>
   lock_acquire l s = andThen (exec l c Trying s) (\<lambda>(x, s). case x of
     Waiting old \<Rightarrow> Inr (Switched old s)
   | _ \<Rightarrow> andThen (exec l c x s) (\<lambda>(x, s). andThen (exec l c x s) (\<lambda>(x, s). Inr (Done s))))"
  by (cases "sema_down (lock_sema l) s")
    (auto simp: lock_acquire_def after_down_def lock_take_def Let_def ASSERT_def split: progress.splits)

lemma release_by_steps:
  "holder_repeat_nr s l \<le> 1 \<Longrightarrow>
   lock_release l s = andThen (exec l Release (Crit n) s) (\<lambda>(x, s).
     andThen (exec l Release x s) (\<lambda>(x, s). andThen (exec l Release x s) (\<lambda>(x, s). Inr s)))"
  by (cases "sema_up (lock_sema l) (set_repeat l 0 (set_holder l 0 s))")
    (auto simp: lock_release_def ASSERT_def not_less [symmetric])

section \<open>Use without contention\<close>

definition locked :: "nat \<Rightarrow> 'a sync_scheme \<Rightarrow> 'a sync_scheme" where
  "locked l s = set_repeat l 1 (set_holder l (running_thread s) (set_value (lock_sema l) 0 s))"

definition unlocked :: "nat \<Rightarrow> 'a sync_scheme \<Rightarrow> 'a sync_scheme" where
  "unlocked l s = set_value (lock_sema l) 1 (set_repeat l 0 (set_holder l 0 s))"

definition lock_free :: "nat \<Rightarrow> 'a sync_scheme \<Rightarrow> bool" where
  "lock_free l s \<longleftrightarrow> sema_value s (lock_sema l) = 1 \<and> lock_holder s l = 0 \<and> holder_repeat_nr s l = 0
     \<and> list_empty (waiters (lock_sema l)) s = Inr True"

lemma sema_down_free:
  assumes "sema_value s q = 1"
  shows "sema_down q s = Inr (Done (set_value q 0 s))"
proof -
  obtain old e where i: "intr_disable s = (old, s\<lparr>eflags := e\<rparr>)" using intr_disable_form by blast
  let ?u = "set_value q 0 (s\<lparr>eflags := e\<rparr>)"
  have "snd (intr_set_status old ?u) = ?u\<lparr>eflags := eflags s\<rparr>"
    by (rule critical_section [OF i]) (simp add: set_value_def)
  also have "\<dots> = set_value q 0 s" by (simp add: set_value_def)
  finally show ?thesis using assms by (simp add: sema_down_def i sema_enter_def set_value_def)
qed

lemma list_empty_cong: "elems s = elems t \<Longrightarrow> list_empty l s = list_empty l t"
  by (simp add: list_empty_def get_node_def)

lemma sema_up_alone:
  assumes "sema_value s q = 0" "list_empty (waiters q) s = Inr True"
  shows "sema_up q s = Inr (set_value q 1 s)"
proof -
  obtain old e where i: "intr_disable s = (old, s\<lparr>eflags := e\<rparr>)" using intr_disable_form by blast
  let ?u = "set_value q 1 (s\<lparr>eflags := e\<rparr>)"
  have "snd (intr_set_status old ?u) = ?u\<lparr>eflags := eflags s\<rparr>"
    by (rule critical_section [OF i]) (simp add: set_value_def)
  also have "\<dots> = set_value q 1 s" by (simp add: set_value_def)
  finally show ?thesis using assms list_empty_cong [of "s\<lparr>eflags := e\<rparr>" s]
    by (simp add: sema_up_def i set_value_def)
qed

lemma running_set [simp]:
  "running_thread (set_value q v s) = running_thread s" "running_thread (set_holder q p s) = running_thread s"
  "running_thread (set_repeat q n s) = running_thread s"
  by (simp_all add: running_thread_def)

lemma acquire_now_free:
  assumes "lock_free l s" "running_thread s \<noteq> 0"
  shows "acquire_now l s = Inr (locked l s)"
  using assms sema_down_free [of s "lock_sema l"]
  by (simp add: acquire_now_def lock_acquire_def after_down_def lock_take_def lock_free_def locked_def)

lemma lock_release_alone:
  assumes "lock_holder s l = running_thread s" "holder_repeat_nr s l = 1" "sema_value s (lock_sema l) = 0"
    and "list_empty (waiters (lock_sema l)) s = Inr True"
  shows "lock_release l s = Inr (unlocked l s)"
proof -
  let ?s = "set_repeat l 0 (set_holder l 0 s)"
  have "elems ?s = elems s" by (simp add: set_repeat_def set_holder_def)
  then show ?thesis
    using assms sema_up_alone [of ?s "lock_sema l"] list_empty_cong [of ?s s]
    by (simp add: lock_release_def unlocked_def)
qed

fun nest :: "nat \<Rightarrow> nat \<Rightarrow> 'a sync_scheme \<Rightarrow> 'a sync_scheme outcome" where
  "nest l 0 s = Inr s"
| "nest l (Suc n) s = andThen (acquire_now l s) (\<lambda>s. andThen (nest l n s) (lock_release l))"

lemma nest_held:
  assumes "lock_holder s l = running_thread s" "0 < unat (holder_repeat_nr s l)"
    and "unat (holder_repeat_nr s l) + n < 2 ^ 32"
  shows "nest l n s = Inr s"
  using assms
proof (induction n arbitrary: s)
  case (Suc n)
  let ?r = "holder_repeat_nr s l" and ?s = "set_repeat l (holder_repeat_nr s l + 1) s"
  have u: "unat (?r + 1) = unat ?r + 1" using Suc.prems(3) by (subst unat_add_lem [THEN iffD1]) simp_all
  have "nest l n ?s = Inr ?s" by (rule Suc.IH) (use Suc.prems u in simp_all)
  moreover have "lock_release l ?s = Inr s"
  proof -
    have "?r + 1 > 1" using u Suc.prems(2) by (simp add: word_less_nat_alt)
    moreover have "set_repeat l ?r ?s = s" by (simp add: set_repeat_def)
    ultimately show ?thesis using Suc.prems(1) by (simp add: lock_release_def)
  qed
  ultimately show ?case using Suc.prems(1) by (simp add: acquire_now_def lock_acquire_def)
qed simp

text \<open>
  A thread that takes a free lock, takes it again any number of times up to the width of the
  counter and releases it as often leaves the lock and the rest of the state as they were.
\<close>

theorem lock_nesting:
  assumes "lock_free l s" "running_thread s \<noteq> 0" "n < 2 ^ 32 - 1"
  shows "nest l (Suc n) s = Inr s"
proof -
  have "nest l n (locked l s) = Inr (locked l s)"
    by (rule nest_held) (use assms(3) in \<open>simp_all add: locked_def\<close>)
  moreover have "list_empty (waiters (lock_sema l)) (locked l s) = Inr True"
    using assms(1) list_empty_cong [of "locked l s" s]
    by (simp add: lock_free_def locked_def set_value_def set_holder_def set_repeat_def)
  then have "lock_release l (locked l s) = Inr (unlocked l (locked l s))"
    by (intro lock_release_alone) (simp_all add: locked_def)
  moreover have "unlocked l (locked l s) = s"
    using assms(1) by (simp add: unlocked_def locked_def lock_free_def set_value_def set_holder_def set_repeat_def fun_upd_idem)
  ultimately show ?thesis using acquire_now_free [OF assms(1,2)] by simp
qed

section \<open>A concrete run\<close>

text \<open>The three threads of \<^const>\<open>demo_sched\<close>, interrupts on, with the list nodes of a lock at address 300.\<close>

definition demo_nodes :: "nat \<Rightarrow> list_elem option" where
  "demo_nodes = (elems demo_sched)(308 \<mapsto> \<lparr>prev = 0, next = 316\<rparr>, 316 \<mapsto> \<lparr>prev = 308, next = 0\<rparr>)"

definition demo_sync :: sync where
  "demo_sync = \<lparr>eflags = 0x200, elems = demo_nodes, pm = (\<lambda>_. 0), cr3 = 0x100000, tcb = tcb demo_sched,
     esp = 0x1f00, main_thread = 4096, idle_thread = 8192, thread_ready_list = 100, thread_all_list = 200,
     thread_tag = 0, tss_esp0 = 0, sema_value = (\<lambda>_. 1), lock_holder = (\<lambda>_. 0), holder_repeat_nr = (\<lambda>_. 0)\<rparr>"

lemma demo_sync_inv:
  "sched_inv (\<lambda>_. 0) demo_sync [100 \<mapsto> [8228], 308 \<mapsto> []] demo_asched"
proof -
  have "lists_rep demo_sync [100 \<mapsto> [8228], 308 \<mapsto> []]"
    by (auto simp: lists_rep_def dll_def nodes_def list_tail_def link_def nxt_def prv_def demo_sync_def demo_nodes_def
      demo_sched_def split: if_splits)
  then have "sim (\<lambda>_. 0) demo_sync [100 \<mapsto> [8228], 308 \<mapsto> []] demo_asched"
    by (auto simp: sim_def demo_sync_def demo_simps general_tag_def running_thread_def stacks_ok_def dirs_ok_def
      valid_cr3_def split: if_splits)
  moreover have "free_tag demo_sync [100 \<mapsto> [8228], 308 \<mapsto> []] (acur demo_asched)"
    by (auto simp: free_tag_def detached_def nodes_def list_tail_def general_tag_def demo_sync_def demo_nodes_def
      demo_simps split: if_splits)
  ultimately show ?thesis by (auto simp: sched_inv_def awf_def demo_asched_def)
qed

lemma demo_fresh: "fresh_lock (\<lambda>_. 0) 300 demo_sync"
proof -
  have "waiters (lock_sema 300) = 308" "thread_ready_list demo_sync = 100"
    by (simp_all add: waiters_def lock_sema_def demo_sync_def)
  then show ?thesis using demo_sync_inv
    by (auto simp: fresh_lock_def demo_sync_def intro!: exI [of _ "[100 \<mapsto> [8228], 308 \<mapsto> []]"])
qed

definition demo_took :: sync where
  "demo_took = set_value 304 0 demo_sync"

definition demo_crit :: sync where
  "demo_crit = set_repeat 300 1 (set_holder 300 4096 demo_took)"

lemma demo_took_eq: "demo_took = demo_sync\<lparr>sema_value := (\<lambda>_. 1)(304 := 0)\<rparr>"
  by (simp add: demo_took_def set_value_def demo_sync_def)

lemma demo_running: "running_thread demo_sync = 4096" "intr_get_status demo_sync = INTR_ON" "idle_thread demo_sync = 8192"
  by (simp_all add: running_thread_def intr_get_status_def demo_sync_def EFLAGS_IF_def)

lemma demo_down: "sema_down 304 demo_sync = Inr (Done demo_took)"
  by (simp add: sema_down_def sema_enter_def demo_took_eq demo_sync_def intr_disable_def intr_set_status_def
    intr_enable_def intr_get_status_def EFLAGS_IF_def set_value_def Let_def)

lemma demo_step:
  assumes "exec 300 Acquire (pcs 4096) s = Inr (x, t)" "running_thread s = 4096" "idle_thread s = 8192"
    "intr_get_status s = INTR_ON" "\<And>n. pcs 4096 \<noteq> Crit n"
  shows "sys_step 300 (pcs, s) (pcs(4096 := x), t)"
  using sys_step.act [of 4096 s pcs 300 Acquire x t] assms by simp

lemma demo_run: "(sys_step 300)\<^sup>*\<^sup>* (\<lambda>_. Out, demo_sync) ((\<lambda>_. Out)(4096 := Crit 1), demo_crit)"
proof -
  let ?p = "\<lambda>x. (\<lambda>_. Out)(4096 := x)"
  note r = demo_running
  have f: "running_thread (set_value q v s) = running_thread s" "running_thread (set_holder q p s) = running_thread s"
    "intr_get_status (set_value q v s) = intr_get_status s" "intr_get_status (set_holder q p s) = intr_get_status s"
    "idle_thread (set_value q v s) = idle_thread s" "idle_thread (set_holder q p s) = idle_thread s" for q v p and s :: sync
    by (simp_all add: running_thread_def intr_get_status_def set_value_def set_holder_def)
  have "sys_step 300 (\<lambda>_. Out, demo_sync) (?p Trying, demo_sync)"
    by (rule demo_step [of "\<lambda>_. Out", simplified]) (use r in \<open>simp_all add: demo_sync_def\<close>)
  moreover have "sys_step 300 (?p Trying, demo_sync) (?p Took, demo_took)"
    using demo_step [of "?p Trying" demo_sync Took demo_took] r demo_down by (simp add: lock_sema_def)
  moreover have "sys_step 300 (?p Took, demo_took) (?p Named, set_holder 300 4096 demo_took)"
    using demo_step [of "?p Took" demo_took Named] r by (simp add: demo_took_def f)
  moreover have "sys_step 300 (?p Named, set_holder 300 4096 demo_took) (?p (Crit 1), demo_crit)"
    using demo_step [of "?p Named" "set_holder 300 4096 demo_took" "Crit 1" demo_crit] r
    by (simp add: demo_took_def demo_crit_def f, simp add: demo_sync_def)
  ultimately show ?thesis by (meson converse_rtranclp_into_rtranclp r_into_rtranclp)
qed

theorem lock_mutual_exclusion_witness:
  "\<exists>q. {p. \<exists>n. ((\<lambda>_. Out)(4096 := Crit 1)) p = Crit n} \<subseteq> {q :: nat}"
  by (rule lock_mutual_exclusion [OF demo_fresh demo_run])


theorem lock_nesting_witness: "nest 300 (Suc 3) demo_sync = Inr demo_sync"
  by (rule lock_nesting) (simp_all add: lock_free_def running_thread_def list_empty_def get_node_def waiters_def lock_sema_def
    list_tail_def demo_sync_def demo_nodes_def)

lemma demo_sync_inv0: "sched_inv (\<lambda>_. 0) demo_sync [100 \<mapsto> [8228]] demo_asched"
proof -
  have "lists_rep demo_sync [100 \<mapsto> [8228]]"
    by (auto simp: lists_rep_def dll_def nodes_def list_tail_def link_def nxt_def prv_def demo_sync_def demo_nodes_def
      demo_sched_def split: if_splits)
  then have "sim (\<lambda>_. 0) demo_sync [100 \<mapsto> [8228]] demo_asched"
    using simD [OF sched_invD(1) [OF demo_sync_inv]] by (auto simp: sim_def demo_sync_def demo_asched_def general_tag_def)
  moreover have "free_tag demo_sync [100 \<mapsto> [8228]] (acur demo_asched)"
    using sched_invD(3) [OF demo_sync_inv]
    by (auto simp: free_tag_def detached_def demo_asched_def split: if_splits)
  ultimately show ?thesis using sched_invD(2) [OF demo_sync_inv] by (auto simp: sched_inv_def demo_asched_def)
qed

theorem lock_init_fresh_witness: "\<exists>u. lock_init 300 demo_sync = Inr u \<and> fresh_lock (\<lambda>_. 0) 300 u"
  by (rule lock_init_fresh [OF demo_sync_inv0 refl])
    (auto simp: waiters_def lock_sema_def list_tail_def detached_def nodes_def general_tag_def demo_asched_def
      demo_sync_def demo_nodes_def split: if_splits)

end
