(* ===== verification/Ioqueue.thy ===== *)
theory Ioqueue
  imports Sync
begin

text \<open>
  The ring buffer of \<^verbatim>\<open>device/ioqueue.c\<close>, used for the keyboard and for pipes. The buffer is
  related to the sequence of bytes in it (\<open>contents\<close>). A read of an empty queue and a write
  to a full one put the caller to sleep: the call ends in the state of the next thread, and the
  \<open>_resume\<close> operations continue the loop when the caller is woken.
\<close>

section \<open>Operations\<close>

abbreviation bufsize :: nat where
  "bufsize \<equiv> 2048"

record ioqueue =
  producer :: nat
  consumer :: nat
  buf :: "u8 list"
  head :: nat
  tail :: nat

record io = sync +
  ioqs :: "nat \<Rightarrow> ioqueue option"
  ram :: mem

datatype side = Producer | Consumer

datatype ('r, 's) io_result = Finished 'r 's | Asleep 's

definition get_ioq :: "nat \<Rightarrow> 'a io_scheme \<Rightarrow> ioqueue outcome" where
  "get_ioq q s = (case ioqs s q of Some i \<Rightarrow> Inr i | None \<Rightarrow> Inl BadAccess)"

definition set_ioq :: "nat \<Rightarrow> (ioqueue \<Rightarrow> ioqueue) \<Rightarrow> 'a io_scheme \<Rightarrow> 'a io_scheme outcome" where
  "set_ioq q f s = andThen (get_ioq q s) (\<lambda>i. Inr (s\<lparr>ioqs := (ioqs s)(q \<mapsto> f i)\<rparr>))"

definition ioqueue_init :: "nat \<Rightarrow> 'a io_scheme \<Rightarrow> 'a io_scheme outcome" where
  "ioqueue_init ioq s =
     andThen (lock_init ioq s) (\<lambda>s.
     set_ioq ioq (\<lambda>i. i\<lparr>consumer := 0, producer := 0, tail := 0, head := 0\<rparr>) s)"

definition next_pos :: "nat \<Rightarrow> nat" where
  "next_pos pos = (pos + 1) mod bufsize"

definition ioq_full :: "nat \<Rightarrow> 'a io_scheme \<Rightarrow> bool outcome" where
  "ioq_full ioq s = ASSERT (intr_get_status s = INTR_OFF)
     (andThen (get_ioq ioq s) (\<lambda>i. Inr (next_pos (head i) = tail i)))"

definition ioq_empty :: "nat \<Rightarrow> 'a io_scheme \<Rightarrow> bool outcome" where
  "ioq_empty ioq s = ASSERT (intr_get_status s = INTR_OFF)
     (andThen (get_ioq ioq s) (\<lambda>i. Inr (head i = tail i)))"

fun waiter :: "side \<Rightarrow> ioqueue \<Rightarrow> nat" where
  "waiter Producer i = producer i"
| "waiter Consumer i = consumer i"

fun set_waiter :: "side \<Rightarrow> nat \<Rightarrow> ioqueue \<Rightarrow> ioqueue" where
  "set_waiter Producer p i = i\<lparr>producer := p\<rparr>"
| "set_waiter Consumer p i = i\<lparr>consumer := p\<rparr>"

definition ioq_wait :: "side \<Rightarrow> nat \<Rightarrow> 'a io_scheme \<Rightarrow> (intr_status \<times> 'a io_scheme) outcome" where
  "ioq_wait sd ioq s =
     andThen (get_ioq ioq s) (\<lambda>i. ASSERT (waiter sd i = 0)
    (andThen (set_ioq ioq (set_waiter sd (running_thread s)) s) (thread_block TASK_BLOCKED)))"

definition wakeup :: "side \<Rightarrow> nat \<Rightarrow> 'a io_scheme \<Rightarrow> 'a io_scheme outcome" where
  "wakeup sd ioq s =
     andThen (get_ioq ioq s) (\<lambda>i. ASSERT (waiter sd i \<noteq> 0)
    (andThen (thread_unblock (waiter sd i) s) (set_ioq ioq (set_waiter sd 0))))"

text \<open>What follows the loop of \<open>ioq_getchar\<close> and of \<open>ioq_putchar\<close>.\<close>

definition ioq_take :: "nat \<Rightarrow> 'a io_scheme \<Rightarrow> (u8 \<times> 'a io_scheme) outcome" where
  "ioq_take ioq s =
     andThen (get_ioq ioq s) (\<lambda>i.
     if tail i < length (buf i) then
       let byte = buf i ! tail i in
       andThen (set_ioq ioq (\<lambda>i. i\<lparr>tail := next_pos (tail i)\<rparr>) s) (\<lambda>s.
       andThen (if producer i \<noteq> 0 then wakeup Producer ioq s else Inr s) (\<lambda>s.
       Inr (byte, s)))
     else Inl BadAccess)"

definition ioq_add :: "nat \<Rightarrow> u8 \<Rightarrow> 'a io_scheme \<Rightarrow> 'a io_scheme outcome" where
  "ioq_add ioq byte s =
     andThen (get_ioq ioq s) (\<lambda>i.
     if head i < length (buf i) then
       andThen (set_ioq ioq (\<lambda>i. i\<lparr>buf := (buf i)[head i := byte], head := next_pos (head i)\<rparr>) s) (\<lambda>s.
       if consumer i \<noteq> 0 then wakeup Consumer ioq s else Inr s)
     else Inl BadAccess)"

definition ioq_get_loop :: "nat \<Rightarrow> 'a io_scheme \<Rightarrow> (u8, 'a io_scheme) io_result outcome" where
  "ioq_get_loop ioq s =
     andThen (ioq_empty ioq s) (\<lambda>empty.
     if empty then
       andThen (acquire_now ioq s) (\<lambda>s.
       andThen (ioq_wait Consumer ioq s) (\<lambda>(_, s). Inr (Asleep s)))
     else andThen (ioq_take ioq s) (\<lambda>(byte, s). Inr (Finished byte s)))"

definition ioq_getchar :: "nat \<Rightarrow> 'a io_scheme \<Rightarrow> (u8, 'a io_scheme) io_result outcome" where
  "ioq_getchar ioq s = ASSERT (intr_get_status s = INTR_OFF) (ioq_get_loop ioq s)"

definition ioq_getchar_resume :: "nat \<Rightarrow> 'a io_scheme \<Rightarrow> (u8, 'a io_scheme) io_result outcome" where
  "ioq_getchar_resume ioq s =
     andThen (lock_release ioq (resume_switch INTR_OFF s)) (ioq_get_loop ioq)"

definition ioq_put_loop :: "nat \<Rightarrow> u8 \<Rightarrow> 'a io_scheme \<Rightarrow> (unit, 'a io_scheme) io_result outcome" where
  "ioq_put_loop ioq byte s =
     andThen (ioq_full ioq s) (\<lambda>full.
     if full then
       andThen (acquire_now ioq s) (\<lambda>s.
       andThen (ioq_wait Producer ioq s) (\<lambda>(_, s). Inr (Asleep s)))
     else andThen (ioq_add ioq byte s) (\<lambda>s. Inr (Finished () s)))"

definition ioq_putchar :: "nat \<Rightarrow> u8 \<Rightarrow> 'a io_scheme \<Rightarrow> (unit, 'a io_scheme) io_result outcome" where
  "ioq_putchar ioq byte s = ASSERT (intr_get_status s = INTR_OFF) (ioq_put_loop ioq byte s)"

definition ioq_putchar_resume :: "nat \<Rightarrow> u8 \<Rightarrow> 'a io_scheme \<Rightarrow> (unit, 'a io_scheme) io_result outcome" where
  "ioq_putchar_resume ioq byte s =
     andThen (lock_release ioq (resume_switch INTR_OFF s)) (ioq_put_loop ioq byte)"

definition ioq_length :: "nat \<Rightarrow> 'a io_scheme \<Rightarrow> nat outcome" where
  "ioq_length ioq s =
     andThen (get_ioq ioq s) (\<lambda>i.
     Inr (if head i \<ge> tail i then head i - tail i else bufsize - (tail i - head i)))"

section \<open>The bytes in the buffer\<close>

definition ioq_wf :: "ioqueue \<Rightarrow> bool" where
  "ioq_wf i \<longleftrightarrow> length (buf i) = bufsize \<and> head i < bufsize \<and> tail i < bufsize"

definition used :: "ioqueue \<Rightarrow> nat" where
  "used i = (head i + bufsize - tail i) mod bufsize"

definition contents :: "ioqueue \<Rightarrow> u8 list" where
  "contents i = map (\<lambda>k. buf i ! ((tail i + k) mod bufsize)) [0..<used i]"

lemma length_contents [simp]: "length (contents i) = used i"
  by (simp add: contents_def)

lemma ioq_used_bound: "used i < bufsize"
  by (simp add: used_def)

lemma used_cases: "ioq_wf i \<Longrightarrow> used i = (if tail i \<le> head i then head i - tail i else head i + bufsize - tail i)"
proof (cases "tail i \<le> head i")
  case True
  assume "ioq_wf i"
  have "head i + bufsize - tail i = (head i - tail i) + bufsize" using True by simp
  then have "used i = ((head i - tail i) + bufsize) mod bufsize" by (simp only: used_def)
  also have "\<dots> = (head i - tail i) mod bufsize" by (rule mod_add_self2)
  also have "\<dots> = head i - tail i" using \<open>ioq_wf i\<close> by (intro mod_less) (auto simp: ioq_wf_def)
  finally show ?thesis using True by simp
qed (simp add: used_def ioq_wf_def)

lemma contents_Nil: "ioq_wf i \<Longrightarrow> contents i = [] \<longleftrightarrow> head i = tail i"
  by (auto simp: contents_def used_cases ioq_wf_def split: if_splits)

lemma next_pos_lt: "next_pos p < bufsize"
  by (simp add: next_pos_def)

lemma next_pos_cases: "p < bufsize \<Longrightarrow> next_pos p = (if p = bufsize - 1 then 0 else p + 1)"
  by (auto simp: next_pos_def)

lemma full_iff: "ioq_wf i \<Longrightarrow> next_pos (head i) = tail i \<longleftrightarrow> used i = bufsize - 1"
  by (auto simp: ioq_wf_def used_cases next_pos_cases split: if_splits)

lemma pos_mod: "t < bufsize \<Longrightarrow> k < bufsize \<Longrightarrow> (t + k) mod bufsize = (if t + k < bufsize then t + k else t + k - bufsize)"
  by (simp add: mod_if)

lemma put_contents:
  assumes wf: "ioq_wf i" and room: "used i < bufsize - 1"
    and j: "j = i\<lparr>buf := (buf i)[head i := b], head := next_pos (head i)\<rparr>"
  shows "ioq_wf j" "used j = Suc (used i)" "contents j = contents i @ [b]"
proof -
  show wfj: "ioq_wf j" using wf by (simp add: j ioq_wf_def next_pos_lt)
  show u: "used j = Suc (used i)"
    using used_cases [OF wf] used_cases [OF wfj] room wf
    by (auto simp: j next_pos_cases ioq_wf_def split: if_splits)
  have e: "(tail i + used i) mod bufsize = head i"
    using used_cases [OF wf] wf by (auto simp: pos_mod ioq_used_bound ioq_wf_def split: if_splits)
  have ne: "(tail i + k) mod bufsize \<noteq> head i" if "k < used i" for k
    using that used_cases [OF wf] wf ioq_used_bound [of i] by (auto simp: pos_mod ioq_wf_def split: if_splits)
  have "contents j = map (\<lambda>k. buf j ! ((tail i + k) mod bufsize)) [0..<used i] @ [buf j ! head i]"
    using e by (simp add: contents_def u) (simp add: j)
  also have "\<dots> = map (\<lambda>k. buf i ! ((tail i + k) mod bufsize)) [0..<used i] @ [b]"
  proof -
    have "buf j ! ((tail i + k) mod bufsize) = buf i ! ((tail i + k) mod bufsize)" if "k < used i" for k
      using ne [OF that] by (simp add: j)
    moreover have "buf j ! head i = b" using wf by (simp add: j ioq_wf_def)
    ultimately show ?thesis by simp
  qed
  finally show "contents j = contents i @ [b]" by (simp add: contents_def)
qed

lemma get_contents:
  assumes wf: "ioq_wf i" and some: "head i \<noteq> tail i" and j: "j = i\<lparr>tail := next_pos (tail i)\<rparr>"
  shows "ioq_wf j" "contents i = buf i ! tail i # contents j"
proof -
  show wfj: "ioq_wf j" using wf by (simp add: j ioq_wf_def next_pos_lt)
  have u: "used i = Suc (used j)"
    using used_cases [OF wf] used_cases [OF wfj] some wf
    by (auto simp: j next_pos_cases ioq_wf_def split: if_splits)
  have "(next_pos (tail i) + k) mod bufsize = (tail i + Suc k) mod bufsize" for k
    by (simp add: next_pos_def mod_add_left_eq)
  then have "contents j = map (\<lambda>k. buf i ! ((tail i + Suc k) mod bufsize)) [0..<used j]"
    by (simp add: contents_def j)
  moreover have "[0..<used i] = 0 # map Suc [0..<used j]" unfolding u by (simp add: upt_conv_Cons map_Suc_upt del: upt_Suc)
  ultimately show "contents i = buf i ! tail i # contents j"
    using wf by (simp add: contents_def ioq_wf_def o_def)
qed

section \<open>Reading and writing without waiting\<close>

lemma get_ioq_Some: "ioqs s q = Some i \<Longrightarrow> get_ioq q s = Inr i"
  by (simp add: get_ioq_def)

lemma set_ioq_Some: "ioqs s q = Some i \<Longrightarrow> set_ioq q f s = Inr (s\<lparr>ioqs := (ioqs s)(q \<mapsto> f i)\<rparr>)"
  by (simp add: set_ioq_def get_ioq_Some)

lemma putchar_free:
  assumes "ioqs s q = Some i" "ioq_wf i" "used i < bufsize - 1" "consumer i = 0" "intr_get_status s = INTR_OFF"
  shows "ioq_putchar q b s = Inr (Finished () (s\<lparr>ioqs := (ioqs s)(q \<mapsto>
    i\<lparr>buf := (buf i)[head i := b], head := next_pos (head i)\<rparr>)\<rparr>))"
  using assms full_iff [OF assms(2)]
  by (simp add: ioq_putchar_def ioq_put_loop_def ioq_full_def get_ioq_Some ioq_add_def set_ioq_Some)
    (simp add: ioq_wf_def)

lemma getchar_some:
  assumes "ioqs s q = Some i" "ioq_wf i" "head i \<noteq> tail i" "producer i = 0" "intr_get_status s = INTR_OFF"
  shows "ioq_getchar q s = Inr (Finished (buf i ! tail i) (s\<lparr>ioqs := (ioqs s)(q \<mapsto> i\<lparr>tail := next_pos (tail i)\<rparr>)\<rparr>))"
  using assms
  by (simp add: ioq_getchar_def ioq_get_loop_def ioq_empty_def get_ioq_Some ioq_take_def set_ioq_Some)
    (simp add: ioq_wf_def)

text \<open>A queue nobody sleeps on, with given contents, in a state with interrupts off.\<close>

definition quiet_queue :: "nat \<Rightarrow> u8 list \<Rightarrow> 'a io_scheme \<Rightarrow> bool" where
  "quiet_queue q bs s \<longleftrightarrow> intr_get_status s = INTR_OFF \<and>
     (\<exists>i. ioqs s q = Some i \<and> ioq_wf i \<and> contents i = bs \<and> producer i = 0 \<and> consumer i = 0)"

lemma quiet_put:
  assumes "quiet_queue q bs s" "length bs < bufsize - 1"
  shows "\<exists>t. ioq_putchar q b s = Inr (Finished () t) \<and> quiet_queue q (bs @ [b]) t"
proof -
  obtain i where i: "intr_get_status s = INTR_OFF" "ioqs s q = Some i" "ioq_wf i" "contents i = bs" "producer i = 0" "consumer i = 0"
    using assms(1) by (auto simp: quiet_queue_def)
  have u: "used i < bufsize - 1" using assms(2) i(4) length_contents [of i] by simp
  let ?j = "i\<lparr>buf := (buf i)[head i := b], head := next_pos (head i)\<rparr>"
  have "quiet_queue q (bs @ [b]) (s\<lparr>ioqs := (ioqs s)(q \<mapsto> ?j)\<rparr>)"
    using put_contents [OF i(3) u refl, of b] i by (simp add: quiet_queue_def intr_get_status_def)
  then show ?thesis using putchar_free [OF i(2,3) u i(6,1)] by blast
qed

lemma quiet_get:
  assumes "quiet_queue q (b # bs) s"
  shows "\<exists>t. ioq_getchar q s = Inr (Finished b t) \<and> quiet_queue q bs t"
proof -
  obtain i where i: "intr_get_status s = INTR_OFF" "ioqs s q = Some i" "ioq_wf i" "contents i = b # bs" "producer i = 0" "consumer i = 0"
    using assms by (auto simp: quiet_queue_def)
  have ne: "head i \<noteq> tail i" using contents_Nil [OF i(3)] i(4) by simp
  let ?j = "i\<lparr>tail := next_pos (tail i)\<rparr>"
  have "contents i = buf i ! tail i # contents ?j" "ioq_wf ?j" using get_contents [OF i(3) ne refl] by simp_all
  then have "b = buf i ! tail i" "quiet_queue q bs (s\<lparr>ioqs := (ioqs s)(q \<mapsto> ?j)\<rparr>)"
    using i by (simp_all add: quiet_queue_def intr_get_status_def)
  then show ?thesis using getchar_some [OF i(2,3) ne i(5,1)] by blast
qed

section \<open>A channel of bytes\<close>

text \<open>What the keyboard and the pipes rely on, and what follows from it.\<close>

locale byte_channel =
  fixes holding :: "u8 list \<Rightarrow> 's \<Rightarrow> bool"
    and put :: "u8 \<Rightarrow> 's \<Rightarrow> (unit, 's) io_result outcome"
    and get :: "'s \<Rightarrow> (u8, 's) io_result outcome"
    and capacity :: nat
  assumes put_room: "holding bs s \<Longrightarrow> length bs < capacity \<Longrightarrow> \<exists>t. put b s = Inr (Finished () t) \<and> holding (bs @ [b]) t"
    and get_first: "holding (b # bs) s \<Longrightarrow> \<exists>t. get s = Inr (Finished b t) \<and> holding bs t"
begin

fun put_all :: "u8 list \<Rightarrow> 's \<Rightarrow> (unit, 's) io_result outcome" where
  "put_all [] s = Inr (Finished () s)"
| "put_all (b # bs) s = andThen (put b s) (\<lambda>r. case r of Finished _ s \<Rightarrow> put_all bs s | Asleep s \<Rightarrow> Inr (Asleep s))"

fun get_n :: "nat \<Rightarrow> 's \<Rightarrow> (u8 list, 's) io_result outcome" where
  "get_n 0 s = Inr (Finished [] s)"
| "get_n (Suc n) s = andThen (get s) (\<lambda>r. case r of
     Finished b s \<Rightarrow> andThen (get_n n s) (\<lambda>r. case r of Finished bs s \<Rightarrow> Inr (Finished (b # bs) s) | Asleep s \<Rightarrow> Inr (Asleep s))
   | Asleep s \<Rightarrow> Inr (Asleep s))"

lemma put_all_holding:
  "holding as s \<Longrightarrow> length as + length bs \<le> capacity \<Longrightarrow>
   \<exists>t. put_all bs s = Inr (Finished () t) \<and> holding (as @ bs) t"
proof (induction bs arbitrary: as s)
  case (Cons b bs)
  obtain t where t: "put b s = Inr (Finished () t)" "holding (as @ [b]) t"
    using put_room [OF Cons.prems(1)] Cons.prems(2) by fastforce
  from Cons.IH [OF t(2)] Cons.prems(2) t(1) show ?case by simp
qed simp

lemma get_n_holding:
  "holding (as @ bs) s \<Longrightarrow> \<exists>t. get_n (length as) s = Inr (Finished as t) \<and> holding bs t"
proof (induction as arbitrary: s)
  case (Cons a as)
  obtain t where t: "get s = Inr (Finished a t)" "holding (as @ bs) t"
    using get_first [of a "as @ bs" s] Cons.prems by auto
  from Cons.IH [OF t(2)] t(1) show ?case by auto
qed simp

lemma put_get_fifo:
  assumes "holding [] s" "length bs \<le> capacity"
  shows "\<exists>t u. put_all bs s = Inr (Finished () t) \<and> get_n (length bs) t = Inr (Finished bs u) \<and> holding [] u"
proof -
  obtain t where t: "put_all bs s = Inr (Finished () t)" "holding bs t"
    using put_all_holding [OF assms(1)] assms(2) by auto
  with get_n_holding [of bs "[]" t] show ?thesis by auto
qed

end

interpretation ioq: byte_channel "quiet_queue q" "ioq_putchar q" "ioq_getchar q" "bufsize - 1" for q
  by unfold_locales (use quiet_put quiet_get in blast)+

text \<open>
  A queue is first in, first out: up to 2047 bytes written one by one to an empty queue are
  read back in the same order, no call of \<open>ioq_putchar\<close> or \<open>ioq_getchar\<close> sleeps or fails, and the
  queue is empty again.
\<close>

theorem ioqueue_fifo:
  assumes "quiet_queue q [] s" "length bs \<le> 2047"
  shows "\<exists>t u. ioq.put_all q bs s = Inr (Finished () t) \<and> ioq.get_n q (length bs) t = Inr (Finished bs u)
    \<and> quiet_queue q [] u"
  using ioq.put_get_fifo [OF assms(1)] assms(2) by simp

lemma ioq_length_contents: "ioqs s q = Some i \<Longrightarrow> ioq_wf i \<Longrightarrow> ioq_length q s = Inr (length (contents i))"
  by (auto simp: ioq_length_def get_ioq_Some used_cases ioq_wf_def)

section \<open>Sleeping and waking\<close>

lemma ioqs_inv [simp]: "sched_inv ph (s\<lparr>ioqs := x\<rparr>) L a \<longleftrightarrow> sched_inv ph s L a"
  by (intro sched_inv_cong) simp_all

lemma same_ext_ioqs: "same_ext s u \<Longrightarrow> ioqs u = ioqs s"
  by (cases s, cases u, simp add: same_ext_def)

text \<open>
  C28. \<open>ioq_putchar\<close> on a queue with room wakes the consumer that sleeps on it: the byte is added at
  the end of the contents, no consumer is recorded any more, and the woken thread is first in
  the ready list.
\<close>

theorem ioq_putchar_wakes_consumer:
  assumes inv: "sched_inv ph s L a" and off: "intr_get_status s = INTR_OFF"
    and i: "ioqs s q = Some i" "ioq_wf i" "used i < bufsize - 1" "consumer i = p" "p \<noteq> 0"
    and p: "astatus a p = Some TASK_BLOCKED" "free_tag s L p"
  shows "\<exists>t j. ioq_putchar q b s = Inr (Finished () t) \<and> ioqs t q = Some j \<and> ioq_wf j
    \<and> contents j = contents i @ [b] \<and> consumer j = 0
    \<and> sched_inv ph t (L(thread_ready_list s \<mapsto> map general_tag (p # aready a))) (aunblock p a)"
proof -
  let ?j = "i\<lparr>buf := (buf i)[head i := b], head := next_pos (head i)\<rparr>"
  let ?s = "s\<lparr>ioqs := (ioqs s)(q \<mapsto> ?j)\<rparr>"
  have "sched_inv ph ?s L a" "free_tag ?s L p" using inv p(2) free_tag_cong [of ?s s] by simp_all
  from unblock_inv [OF this(1) p(1) _ this(2)] obtain u where
    u: "thread_unblock p ?s = Inr u" "same_ext ?s u"
      "sched_inv ph u (L(thread_ready_list s \<mapsto> map general_tag (p # aready a))) (aunblock p a)"
    by (auto simp: sleeping_def)
  have q: "ioqs u q = Some ?j" using same_ext_ioqs [OF u(2)] by simp
  let ?t = "u\<lparr>ioqs := (ioqs u)(q \<mapsto> ?j\<lparr>consumer := 0\<rparr>)\<rparr>"
  have "ioq_putchar q b s = Inr (Finished () ?t)"
    using i full_iff [OF i(2)] off u(1) q
    by (simp add: ioq_putchar_def ioq_put_loop_def ioq_full_def get_ioq_Some ioq_add_def set_ioq_Some wakeup_def)
      (simp add: ioq_wf_def)
  moreover have "ioq_wf (?j\<lparr>consumer := 0\<rparr>)" "contents (?j\<lparr>consumer := 0\<rparr>) = contents i @ [b]"
    using put_contents [OF i(2,3) refl, of b] by (simp_all add: ioq_wf_def contents_def used_def)
  ultimately show ?thesis using u(3)
    by (intro exI [of _ ?t] exI [of _ "?j\<lparr>consumer := 0\<rparr>"]) (simp del: list.map)
qed

lemma locked_fields [simp]:
  "ioqs (locked q s) = ioqs s" "running_thread (locked q s) = running_thread s"
  "thread_ready_list (locked q s) = thread_ready_list s" "sched_inv ph (locked q s) L a \<longleftrightarrow> sched_inv ph s L a"
  "lock_holder (locked q s) q = running_thread s"
  by (simp_all add: locked_def set_value_def set_holder_def set_repeat_def running_thread_def)
    (simp_all add: sched_inv_cong [of "s\<lparr>sema_value := x, lock_holder := y, holder_repeat_nr := z\<rparr>" s for x y z])

text \<open>
  \<open>ioq_getchar\<close> on an empty queue takes the queue's lock, records the caller as the consumer and
  puts it to sleep: the next ready thread, or the idle thread, continues.
\<close>

theorem ioq_getchar_sleeps_on_empty:
  assumes inv: "sched_inv ph s L a" and off: "intr_get_status s = INTR_OFF"
    and i: "ioqs s q = Some i" "head i = tail i" "consumer i = 0"
    and l: "lock_free q s" and c: "acur a \<noteq> aidle a"
  shows "\<exists>t. ioq_getchar q s = Inr (Asleep t) \<and> ioqs t q = Some (i\<lparr>consumer := acur a\<rparr>)
    \<and> lock_holder t q = acur a \<and> running_thread t = (if aready a = [] then aidle a else hd (aready a))
    \<and> sched_inv ph t (L(thread_ready_list s \<mapsto> map general_tag (aready (ablock TASK_BLOCKED a)))) (ablock TASK_BLOCKED a)"
proof -
  note sim = sched_invD(1) [OF inv] and wf = sched_invD(2) [OF inv]
  have r: "running_thread s = acur a" by (rule simD(5) [OF sim])
  have r0: "running_thread s \<noteq> 0"
    using awf_cur [OF wf] simD(3) [OF sim, of "acur a"] simD(4) [OF sim] r by (metis option.distinct(1) option.map(1))
  let ?s = "(locked q s)\<lparr>ioqs := (ioqs s)(q \<mapsto> i\<lparr>consumer := acur a\<rparr>)\<rparr>"
  have inv': "sched_inv ph ?s L a" using inv by simp
  obtain u where u: "thread_block TASK_BLOCKED ?s = Inr (intr_get_status ?s, u)"
    "sched_inv ph u (L(thread_ready_list ?s \<mapsto> map general_tag (aready (ablock TASK_BLOCKED a)))) (ablock TASK_BLOCKED a)"
    "same_ext ?s u"
    using block_inv [OF sched_invD(1,2) [OF inv'], of TASK_BLOCKED] sched_invD(4) [OF inv'] c by (auto simp: sleeping_def)
  have "ioq_getchar q s = Inr (Asleep u)"
    using off i u(1) acquire_now_free [OF l r0]
    by (simp add: ioq_getchar_def ioq_get_loop_def ioq_empty_def get_ioq_Some ioq_wait_def set_ioq_Some r)
  moreover have "ioqs u q = Some (i\<lparr>consumer := acur a\<rparr>)" "lock_holder u q = acur a"
    using same_ext_ioqs [OF u(3)] same_ext_lock(2) [OF u(3)] r by simp_all
  moreover have "running_thread u = (if aready a = [] then aidle a else hd (aready a))"
    using simD(5) [OF sched_invD(1) [OF u(2)]]
    by (auto simp: ablock_def aschedule_def apick_def awake_idle_def aunblock_def arequeue_def)
  ultimately show ?thesis using u(2) by auto
qed

section \<open>A concrete queue\<close>

definition demo_queue :: "nat \<Rightarrow> ioqueue" where
  "demo_queue c = \<lparr>producer = 0, consumer = c, buf = replicate bufsize 0, head = 0, tail = 0\<rparr>"

definition demo_io :: "nat \<Rightarrow> io" where
  "demo_io c = \<lparr>eflags = 0, elems = demo_nodes, pm = (\<lambda>_. 0), cr3 = 0x100000, tcb = tcb demo_sched,
     esp = 0x1f00, main_thread = 4096, idle_thread = 8192, thread_ready_list = 100, thread_all_list = 200,
     thread_tag = 0, tss_esp0 = 0, sema_value = (\<lambda>_. 1), lock_holder = (\<lambda>_. 0), holder_repeat_nr = (\<lambda>_. 0),
     ioqs = [300 \<mapsto> demo_queue c], ram = (\<lambda>_. None)\<rparr>"

lemma demo_io_off: "intr_get_status (demo_io c) = INTR_OFF"
  by (simp add: intr_get_status_def demo_io_def)

lemma demo_io_inv: "sched_inv (\<lambda>_. 0) (demo_io c) [100 \<mapsto> [8228]] demo_asched"
proof -
  have "lists_rep (demo_io c) [100 \<mapsto> [8228]]"
    using simD(1) [OF sched_invD(1) [OF demo_sync_inv0]] by (simp add: lists_rep_def demo_io_def demo_sync_def)
  then have "sim (\<lambda>_. 0) (demo_io c) [100 \<mapsto> [8228]] demo_asched"
    by (auto simp: sim_def demo_io_def demo_simps general_tag_def running_thread_def stacks_ok_def dirs_ok_def
      valid_cr3_def split: if_splits)
  moreover have "free_tag (demo_io c) [100 \<mapsto> [8228]] (acur demo_asched)"
    using sched_invD(3) [OF demo_sync_inv0] by (simp add: free_tag_def detached_def demo_io_def demo_sync_def)
  ultimately show ?thesis using sched_invD(2) [OF demo_sync_inv0] by (auto simp: sched_inv_def demo_asched_def)
qed

lemma demo_queue_wf: "ioq_wf (demo_queue c)" "used (demo_queue c) = 0" "contents (demo_queue c) = []"
  by (simp_all add: ioq_wf_def demo_queue_def used_def contents_def)

theorem ioqueue_fifo_witness:
  "\<exists>t u. ioq.put_all 300 [104, 105] (demo_io 0) = Inr (Finished () t)
    \<and> ioq.get_n 300 2 t = Inr (Finished [104, 105] u) \<and> quiet_queue 300 [] u"
proof -
  have "quiet_queue 300 [] (demo_io 0)"
    using demo_queue_wf [of 0] demo_io_off [of 0]
    by (auto simp: quiet_queue_def demo_io_def intro!: exI [of _ "demo_queue 0"]) (simp_all add: demo_queue_def)
  then show ?thesis using ioqueue_fifo [of 300 "demo_io 0" "[104, 105]"] by (simp add: numeral_2_eq_2)
qed

theorem ioq_putchar_wakes_consumer_witness:
  "\<exists>t j. ioq_putchar 300 104 (demo_io 12288) = Inr (Finished () t) \<and> ioqs t 300 = Some j \<and> consumer j = 0
    \<and> contents j = [104]"
proof -
  have f: "free_tag (demo_io 12288) [100 \<mapsto> [8228]] 12288"
    by (auto simp: free_tag_def detached_def nodes_def list_tail_def general_tag_def demo_io_def demo_nodes_def
      demo_simps split: if_splits)
  have i: "ioqs (demo_io 12288) 300 = Some (demo_queue 12288)" "consumer (demo_queue 12288) = 12288"
    "astatus demo_asched 12288 = Some TASK_BLOCKED" by (simp_all add: demo_io_def demo_queue_def demo_asched_def)
  show ?thesis
    using ioq_putchar_wakes_consumer [OF demo_io_inv demo_io_off i(1) demo_queue_wf(1) _ i(2) _ i(3) f, of 104]
      demo_queue_wf(2,3) [of 12288] by fastforce
qed

theorem ioq_getchar_sleeps_on_empty_witness:
  "\<exists>t. ioq_getchar 300 (demo_io 0) = Inr (Asleep t) \<and> ioqs t 300 = Some (demo_queue 4096) \<and> running_thread t = 8192"
proof -
  have l: "lock_free 300 (demo_io 0)"
    by (simp add: lock_free_def list_empty_def get_node_def waiters_def lock_sema_def list_tail_def demo_io_def demo_nodes_def)
  have i: "ioqs (demo_io 0) 300 = Some (demo_queue 0)" "head (demo_queue 0) = tail (demo_queue 0)"
    "consumer (demo_queue 0) = 0" by (simp_all add: demo_io_def demo_queue_def)
  show ?thesis
    using ioq_getchar_sleeps_on_empty [OF demo_io_inv demo_io_off i l]
    by (auto simp: demo_asched_def) (auto simp: demo_queue_def)
qed

end
