(* ===== verification/Memory.thy ===== *)
theory Memory
  imports Ioqueue
begin

text \<open>
  The memory manager of \<^verbatim>\<open>kernel/memory.c\<close>: physical page pools, virtual address pools, the
  page tables that connect them, and the heap of small blocks. The state extends the kernel
  state by the two pools, the kernel's virtual address pool and the arenas; block descriptors
  and arena headers are kept by address, as the list nodes are.

  A lock is taken with \<open>acquire_now\<close>: the operations are those of a caller that finds the pool's
  lock free or holds it already, and \<open>Blocks\<close> otherwise.
\<close>

section \<open>State\<close>

abbreviation PG_SIZE :: nat where
  "PG_SIZE \<equiv> 4096"

datatype pool_flags = PF_KERNEL | PF_USER

record pool =
  pool_bitmap :: bitmap
  phy_addr_start :: u32
  pool_size :: u32

record arena =
  desc :: nat
  cnt :: u32
  large :: bool

record mem_block_desc =
  block_size :: nat
  blocks_per_arena :: nat

record kmem = io +
  kernel_pool :: pool
  user_pool :: pool
  kernel_pool_lock :: nat
  user_pool_lock :: nat
  kernel_vaddr :: virtual_addr
  k_block_descs :: nat
  descs_at :: "nat \<Rightarrow> mem_block_desc option"
  arenas :: "nat \<Rightarrow> arena option"

fun mem_pool :: "pool_flags \<Rightarrow> 'a kmem_scheme \<Rightarrow> pool" where
  "mem_pool PF_KERNEL s = kernel_pool s"
| "mem_pool PF_USER s = user_pool s"

fun set_pool :: "pool_flags \<Rightarrow> pool \<Rightarrow> 'a kmem_scheme \<Rightarrow> 'a kmem_scheme" where
  "set_pool PF_KERNEL p s = s\<lparr>kernel_pool := p\<rparr>"
| "set_pool PF_USER p s = s\<lparr>user_pool := p\<rparr>"

fun pool_lock :: "pool_flags \<Rightarrow> 'a kmem_scheme \<Rightarrow> nat" where
  "pool_lock PF_KERNEL s = kernel_pool_lock s"
| "pool_lock PF_USER s = user_pool_lock s"

section \<open>Pages\<close>

text \<open>Setting \<open>n\<close> bits from \<open>i\<close> on: the loops of \<open>vaddr_get\<close> and \<open>vaddr_remove\<close>.\<close>

fun set_bits :: "bitmap \<Rightarrow> nat \<Rightarrow> int \<Rightarrow> nat \<Rightarrow> bitmap outcome" where
  "set_bits b i v 0 = Inr b"
| "set_bits b i v (Suc n) = andThen (bitmap_set b i v) (\<lambda>b. set_bits b (Suc i) v n)"

definition vaddr_get :: "pool_flags \<Rightarrow> nat \<Rightarrow> 'a kmem_scheme \<Rightarrow> (u32 \<times> 'a kmem_scheme) outcome" where
  "vaddr_get pf pg_cnt s =
     (case pf of
       PF_KERNEL \<Rightarrow>
         andThen (bitmap_scan (vaddr_bitmap (kernel_vaddr s)) pg_cnt) (\<lambda>bit_idx_start.
         if bit_idx_start = -1 then Inr (0, s) else
         andThen (set_bits (vaddr_bitmap (kernel_vaddr s)) (nat bit_idx_start) 1 pg_cnt) (\<lambda>b.
         Inr (vaddr_start (kernel_vaddr s) + of_int bit_idx_start * 4096,
              s\<lparr>kernel_vaddr := (kernel_vaddr s)\<lparr>vaddr_bitmap := b\<rparr>\<rparr>)))
     | PF_USER \<Rightarrow>
         andThen (get_task (running_thread s) s) (\<lambda>cur.
         andThen (bitmap_scan (vaddr_bitmap (userprog_vaddr cur)) pg_cnt) (\<lambda>bit_idx_start.
         if bit_idx_start = -1 then Inr (0, s) else
         andThen (set_bits (vaddr_bitmap (userprog_vaddr cur)) (nat bit_idx_start) 1 pg_cnt) (\<lambda>b.
         let vaddr = vaddr_start (userprog_vaddr cur) + of_int bit_idx_start * 4096 in
         andThen (set_task (running_thread s)
           (\<lambda>t. t\<lparr>userprog_vaddr := (userprog_vaddr t)\<lparr>vaddr_bitmap := b\<rparr>\<rparr>) s) (\<lambda>s.
         ASSERT (vaddr < 0xc0000000 - 4096) (Inr (vaddr, s)))))))"

definition palloc :: "pool_flags \<Rightarrow> 'a kmem_scheme \<Rightarrow> (u32 \<times> 'a kmem_scheme) outcome" where
  "palloc pf s =
     (let m_pool = mem_pool pf s in
      andThen (bitmap_scan (pool_bitmap m_pool) 1) (\<lambda>bit_idx.
      if bit_idx = -1 then Inr (0, s) else
      andThen (bitmap_set (pool_bitmap m_pool) (nat bit_idx) 1) (\<lambda>b.
      Inr (of_int bit_idx * 4096 + phy_addr_start m_pool, set_pool pf (m_pool\<lparr>pool_bitmap := b\<rparr>) s))))"

text \<open>\<open>memset\<close> of the page at a page-aligned virtual address.\<close>

definition zero_frame :: "u32 \<Rightarrow> 'a kmem_scheme \<Rightarrow> 'a kmem_scheme" where
  "zero_frame f s = s\<lparr>pm := (\<lambda>a. if frame a = f then 0 else pm s a)\<rparr>"

definition zero_page :: "u32 \<Rightarrow> 'a kmem_scheme \<Rightarrow> 'a kmem_scheme outcome" where
  "zero_page va s = (case translate s va of
     Some pa \<Rightarrow> Inr (zero_frame (frame pa) s) | None \<Rightarrow> Inl BadAccess)"

definition page_table_add :: "u32 \<Rightarrow> u32 \<Rightarrow> 'a kmem_scheme \<Rightarrow> 'a kmem_scheme outcome" where
  "page_table_add vaddr page_phyaddr s =
     (let pde = pde_ptr vaddr; pte = pte_ptr vaddr in
      andThen (vload s pde) (\<lambda>pde_val.
      if pde_val AND 1 \<noteq> 0 then
        andThen (vload s pte) (\<lambda>pte_val. ASSERT (pte_val AND 1 = 0)
       (if pte_val AND 1 = 0 then vstore pte (page_phyaddr OR 4 OR 2 OR 1) s else Inl Panic))
      else
        andThen (palloc PF_KERNEL s) (\<lambda>(pde_phyaddr, s).
        andThen (vstore pde (pde_phyaddr OR 4 OR 2 OR 1) s) (\<lambda>s.
        andThen (zero_page (pte AND 0xfffff000) s) (\<lambda>s.
        andThen (vload s pte) (\<lambda>pte_val. ASSERT (pte_val AND 1 = 0)
       (vstore pte (page_phyaddr OR 4 OR 2 OR 1) s)))))))"

text \<open>The loop of \<open>malloc_page\<close>; the result says whether a frame was found for every page.\<close>

fun map_pages :: "pool_flags \<Rightarrow> u32 \<Rightarrow> nat \<Rightarrow> 'a kmem_scheme \<Rightarrow> (bool \<times> 'a kmem_scheme) outcome" where
  "map_pages pf vaddr 0 s = Inr (True, s)"
| "map_pages pf vaddr (Suc n) s =
     andThen (palloc pf s) (\<lambda>(page_phyaddr, s).
     if page_phyaddr = 0 then Inr (False, s) else
     andThen (page_table_add vaddr page_phyaddr s) (\<lambda>s.
     map_pages pf (vaddr + 4096) n s))"

definition malloc_page :: "pool_flags \<Rightarrow> nat \<Rightarrow> 'a kmem_scheme \<Rightarrow> (u32 \<times> 'a kmem_scheme) outcome" where
  "malloc_page pf pg_cnt s = ASSERT (pg_cnt > 0 \<and> pg_cnt < 3840)
     (andThen (vaddr_get pf pg_cnt s) (\<lambda>(vaddr_start, s).
      if vaddr_start = 0 then Inr (0, s) else
      andThen (map_pages pf vaddr_start pg_cnt s) (\<lambda>(ok, s).
      Inr (if ok then vaddr_start else 0, s))))"

text \<open>
  \<open>memset(vaddr, 0, n * PG_SIZE)\<close>: every page is cleared, as words of physical memory, as bytes
  and as list nodes that code may place there.
\<close>

fun zero_pages :: "u32 \<Rightarrow> nat \<Rightarrow> 'a kmem_scheme \<Rightarrow> 'a kmem_scheme outcome" where
  "zero_pages va 0 s = Inr s"
| "zero_pages va (Suc n) s = andThen (zero_page va s) (zero_pages (va + 4096) n)"

definition memset_pages :: "u32 \<Rightarrow> nat \<Rightarrow> 'a kmem_scheme \<Rightarrow> 'a kmem_scheme outcome" where
  "memset_pages va n s =
     andThen (zero_pages va n s) (\<lambda>s.
     Inr (s\<lparr>ram := (\<lambda>a. if unat va \<le> a \<and> a < unat va + n * PG_SIZE then Some 0 else ram s a),
            elems := (\<lambda>a. if unat va \<le> a \<and> a < unat va + n * PG_SIZE then Some \<lparr>prev = 0, next = 0\<rparr> else elems s a)\<rparr>))"

definition get_pages :: "pool_flags \<Rightarrow> nat \<Rightarrow> 'a kmem_scheme \<Rightarrow> (u32 \<times> 'a kmem_scheme) outcome" where
  "get_pages pf pg_cnt s =
     andThen (acquire_now (pool_lock pf s) s) (\<lambda>s.
     andThen (malloc_page pf pg_cnt s) (\<lambda>(vaddr, s).
     andThen (if vaddr \<noteq> 0 then memset_pages vaddr pg_cnt s else Inr s) (\<lambda>s.
     andThen (lock_release (pool_lock pf s) s) (\<lambda>s.
     Inr (vaddr, s)))))"

definition get_kernel_pages :: "nat \<Rightarrow> 'a kmem_scheme \<Rightarrow> (u32 \<times> 'a kmem_scheme) outcome" where
  "get_kernel_pages pg_cnt s = get_pages PF_KERNEL pg_cnt s"

definition get_user_pages :: "nat \<Rightarrow> 'a kmem_scheme \<Rightarrow> (u32 \<times> 'a kmem_scheme) outcome" where
  "get_user_pages pg_cnt s = get_pages PF_USER pg_cnt s"


definition get_a_page :: "pool_flags \<Rightarrow> u32 \<Rightarrow> 'a kmem_scheme \<Rightarrow> (u32 \<times> 'a kmem_scheme) outcome" where
  "get_a_page pf vaddr s =
     andThen (acquire_now (pool_lock pf s) s) (\<lambda>s.
     andThen (get_task (running_thread s) s) (\<lambda>cur.
     andThen
       (if pgdir cur \<noteq> 0 \<and> pf = PF_USER then
          let bit_idx = uint ((vaddr - vaddr_start (userprog_vaddr cur)) div 4096) in
          ASSERT (bit_idx \<ge> 0)
         (andThen (bitmap_set (vaddr_bitmap (userprog_vaddr cur)) (nat bit_idx) 1) (\<lambda>b.
          set_task (running_thread s) (\<lambda>t. t\<lparr>userprog_vaddr := (userprog_vaddr t)\<lparr>vaddr_bitmap := b\<rparr>\<rparr>) s))
        else if pgdir cur = 0 \<and> pf = PF_KERNEL then
          let bit_idx = uint ((vaddr - vaddr_start (kernel_vaddr s)) div 4096) in
          ASSERT (bit_idx > 0)
         (andThen (bitmap_set (vaddr_bitmap (kernel_vaddr s)) (nat bit_idx) 1) (\<lambda>b.
          Inr (s\<lparr>kernel_vaddr := (kernel_vaddr s)\<lparr>vaddr_bitmap := b\<rparr>\<rparr>)))
        else Inl Panic) (\<lambda>s.
     andThen (palloc pf s) (\<lambda>(page_phyaddr, s).
     if page_phyaddr = 0 then
       andThen (lock_release (pool_lock pf s) s) (\<lambda>s. Inr (0, s))
     else
       andThen (page_table_add vaddr page_phyaddr s) (\<lambda>s.
       andThen (lock_release (pool_lock pf s) s) (\<lambda>s. Inr (vaddr, s)))))))"

definition get_a_page_without_opvaddrbitmap ::
    "pool_flags \<Rightarrow> u32 \<Rightarrow> 'a kmem_scheme \<Rightarrow> (u32 \<times> 'a kmem_scheme) outcome" where
  "get_a_page_without_opvaddrbitmap pf vaddr s =
     andThen (acquire_now (pool_lock pf s) s) (\<lambda>s.
     andThen (palloc pf s) (\<lambda>(page_phyaddr, s).
     if page_phyaddr = 0 then
       andThen (lock_release (pool_lock pf s) s) (\<lambda>s. Inr (0, s))
     else
       andThen (page_table_add vaddr page_phyaddr s) (\<lambda>s.
       andThen (lock_release (pool_lock pf s) s) (\<lambda>s. Inr (vaddr, s)))))"

section \<open>Freeing pages\<close>

definition pfree :: "u32 \<Rightarrow> 'a kmem_scheme \<Rightarrow> 'a kmem_scheme outcome" where
  "pfree pg_phy_addr s =
     (let pf = (if pg_phy_addr \<ge> phy_addr_start (user_pool s) then PF_USER else PF_KERNEL);
          p = mem_pool pf s;
          bit_idx = unat ((pg_phy_addr - phy_addr_start p) div 4096) in
      andThen (bitmap_set (pool_bitmap p) bit_idx 0) (\<lambda>b.
      Inr (set_pool pf (p\<lparr>pool_bitmap := b\<rparr>) s)))"

definition free_a_phy_page :: "u32 \<Rightarrow> 'a kmem_scheme \<Rightarrow> 'a kmem_scheme outcome" where
  "free_a_phy_page pg_phy_addr s =
     (let pf = (if pg_phy_addr \<ge> phy_addr_start (user_pool s) then PF_USER else PF_KERNEL);
          p = mem_pool pf s;
          bit_idx = unat ((pg_phy_addr - phy_addr_start p) div 4096) in
      andThen (bitmap_set (pool_bitmap p) bit_idx 0) (\<lambda>b.
      Inr (set_pool pf (p\<lparr>pool_bitmap := b\<rparr>) s)))"

definition vaddr_remove :: "pool_flags \<Rightarrow> u32 \<Rightarrow> nat \<Rightarrow> 'a kmem_scheme \<Rightarrow> 'a kmem_scheme outcome" where
  "vaddr_remove pf vaddr pg_cnt s =
     (case pf of
       PF_KERNEL \<Rightarrow>
         let bit_idx_start = unat ((vaddr - vaddr_start (kernel_vaddr s)) div 4096) in
         andThen (set_bits (vaddr_bitmap (kernel_vaddr s)) bit_idx_start 0 pg_cnt) (\<lambda>b.
         Inr (s\<lparr>kernel_vaddr := (kernel_vaddr s)\<lparr>vaddr_bitmap := b\<rparr>\<rparr>))
     | PF_USER \<Rightarrow>
         andThen (get_task (running_thread s) s) (\<lambda>cur.
         let bit_idx_start = unat ((vaddr - vaddr_start (userprog_vaddr cur)) div 4096) in
         andThen (set_bits (vaddr_bitmap (userprog_vaddr cur)) bit_idx_start 0 pg_cnt) (\<lambda>b.
         set_task (running_thread s) (\<lambda>t. t\<lparr>userprog_vaddr := (userprog_vaddr t)\<lparr>vaddr_bitmap := b\<rparr>\<rparr>) s)))"

text \<open>The two loops of \<open>mfree_page\<close>; they differ only in the range the frame must lie in.\<close>

definition frame_in :: "pool_flags \<Rightarrow> u32 \<Rightarrow> 'a kmem_scheme \<Rightarrow> bool" where
  "frame_in pf pg_phy_addr s = (case pf of
     PF_USER \<Rightarrow> pg_phy_addr mod 4096 = 0 \<and> pg_phy_addr \<ge> phy_addr_start (user_pool s)
   | PF_KERNEL \<Rightarrow> pg_phy_addr mod 4096 = 0 \<and> pg_phy_addr \<ge> phy_addr_start (kernel_pool s)
       \<and> pg_phy_addr < phy_addr_start (user_pool s))"

fun unmap_pages :: "pool_flags \<Rightarrow> u32 \<Rightarrow> nat \<Rightarrow> 'a kmem_scheme \<Rightarrow> 'a kmem_scheme outcome" where
  "unmap_pages pf vaddr 0 s = Inr s"
| "unmap_pages pf vaddr (Suc n) s =
     andThen (addr_v2p vaddr s) (\<lambda>pg_phy_addr.
     ASSERT (frame_in pf pg_phy_addr s)
    (andThen (pfree pg_phy_addr s) (\<lambda>s.
     andThen (page_table_pte_remove vaddr s) (\<lambda>s.
     unmap_pages pf (vaddr + 4096) n s))))"

definition mfree_page :: "pool_flags \<Rightarrow> u32 \<Rightarrow> nat \<Rightarrow> 'a kmem_scheme \<Rightarrow> 'a kmem_scheme outcome" where
  "mfree_page pf vaddr pg_cnt s = ASSERT (pg_cnt \<ge> 1 \<and> vaddr mod 4096 = 0)
     (andThen (addr_v2p vaddr s) (\<lambda>pg_phy_addr.
      ASSERT (pg_phy_addr mod 4096 = 0 \<and> pg_phy_addr \<ge> 0x102000)
     (if pg_phy_addr \<ge> phy_addr_start (user_pool s) then
        andThen (unmap_pages PF_USER vaddr pg_cnt s) (vaddr_remove pf vaddr pg_cnt)
      else
        andThen (unmap_pages PF_KERNEL vaddr pg_cnt s) (vaddr_remove pf vaddr pg_cnt))))"

section \<open>Blocks\<close>

abbreviation DESC_CNT :: nat where
  "DESC_CNT \<equiv> 7"

abbreviation ARENA_SIZE :: nat where
  "ARENA_SIZE \<equiv> 12"

text \<open>\<open>descs[i]\<close> and the list head inside it.\<close>

definition desc_at :: "nat \<Rightarrow> nat \<Rightarrow> nat" where
  "desc_at descs i = descs + 24 * i"

definition free_list :: "nat \<Rightarrow> nat" where
  "free_list d = d + 8"

definition u_block_desc :: "nat \<Rightarrow> nat" where
  "u_block_desc p = p + 68"

definition get_desc :: "nat \<Rightarrow> 'a kmem_scheme \<Rightarrow> mem_block_desc outcome" where
  "get_desc d s = (case descs_at s d of Some x \<Rightarrow> Inr x | None \<Rightarrow> Inl BadAccess)"

definition get_arena :: "nat \<Rightarrow> 'a kmem_scheme \<Rightarrow> arena outcome" where
  "get_arena a s = (case arenas s a of Some x \<Rightarrow> Inr x | None \<Rightarrow> Inl BadAccess)"

definition set_arena :: "nat \<Rightarrow> arena \<Rightarrow> 'a kmem_scheme \<Rightarrow> 'a kmem_scheme" where
  "set_arena a x s = s\<lparr>arenas := (arenas s)(a \<mapsto> x)\<rparr>"

definition arena2block :: "nat \<Rightarrow> nat \<Rightarrow> 'a kmem_scheme \<Rightarrow> nat outcome" where
  "arena2block a idx s =
     andThen (get_arena a s) (\<lambda>x.
     andThen (get_desc (desc x) s) (\<lambda>d.
     Inr (a + ARENA_SIZE + idx * block_size d)))"

definition block2arena :: "nat \<Rightarrow> nat" where
  "block2arena b = unat ((of_nat b :: u32) AND 0xfffff000)"

text \<open>The search for the smallest block size that is large enough.\<close>

fun find_desc :: "nat \<Rightarrow> nat \<Rightarrow> nat \<Rightarrow> nat \<Rightarrow> 'a kmem_scheme \<Rightarrow> nat outcome" where
  "find_desc descs sz i 0 s = Inr i"
| "find_desc descs sz i (Suc n) s =
     andThen (get_desc (desc_at descs i) s) (\<lambda>d.
     if sz \<le> block_size d then Inr i else find_desc descs sz (Suc i) n s)"

text \<open>Splitting an arena into blocks that are appended to the free list of its descriptor.\<close>

fun split_arena :: "nat \<Rightarrow> nat \<Rightarrow> nat \<Rightarrow> 'a kmem_scheme \<Rightarrow> 'a kmem_scheme outcome" where
  "split_arena a block_idx 0 s = Inr s"
| "split_arena a block_idx (Suc n) s =
     andThen (arena2block a block_idx s) (\<lambda>b.
     andThen (get_arena a s) (\<lambda>x.
     andThen (elem_find (free_list (desc x)) b s) (\<lambda>found. ASSERT (\<not> found)
    (andThen (list_append (free_list (desc x)) b s) (\<lambda>s.
     split_arena a (Suc block_idx) n s)))))"

definition memset_block :: "nat \<Rightarrow> nat \<Rightarrow> 'a kmem_scheme \<Rightarrow> 'a kmem_scheme" where
  "memset_block b n s =
     s\<lparr>ram := (\<lambda>a. if b \<le> a \<and> a < b + n then Some 0 else ram s a),
       elems := (\<lambda>a. if b \<le> a \<and> a < b + n then Some \<lparr>prev = 0, next = 0\<rparr> else elems s a)\<rparr>"

text \<open>The large request: whole pages behind an arena header without descriptor.\<close>

definition malloc_large :: "pool_flags \<Rightarrow> nat \<Rightarrow> 'a kmem_scheme \<Rightarrow> (nat \<times> 'a kmem_scheme) outcome" where
  "malloc_large pf sz s =
     (let page_cnt = (sz + ARENA_SIZE + (PG_SIZE - 1)) div PG_SIZE in
      andThen (malloc_page pf page_cnt s) (\<lambda>(a, s).
      if a \<noteq> 0 then
        andThen (memset_pages a page_cnt s) (\<lambda>s.
        let s = set_arena (unat a) \<lparr>desc = 0, cnt = of_nat page_cnt, large = True\<rparr> s in
        andThen (lock_release (pool_lock pf s) s) (\<lambda>s.
        Inr (unat a + ARENA_SIZE, s)))
      else
        andThen (lock_release (pool_lock pf s) s) (\<lambda>s. Inr (0, s))))"

text \<open>A fresh arena for the descriptor \<open>d\<close>; \<open>False\<close> when no page was found.\<close>

definition new_arena :: "pool_flags \<Rightarrow> nat \<Rightarrow> 'a kmem_scheme \<Rightarrow> (bool \<times> 'a kmem_scheme) outcome" where
  "new_arena pf d s =
     andThen (malloc_page pf 1 s) (\<lambda>(a, s).
     if a = 0 then Inr (False, s) else
     andThen (memset_pages a 1 s) (\<lambda>s.
     andThen (get_desc d s) (\<lambda>x.
     let s = set_arena (unat a) \<lparr>desc = d, cnt = of_nat (blocks_per_arena x), large = False\<rparr> s;
         (old_status, s) = intr_disable s in
     andThen (split_arena (unat a) 0 (blocks_per_arena x) s) (\<lambda>s.
     Inr (True, snd (intr_set_status old_status s))))))"

text \<open>Taking the first free block of a descriptor.\<close>

definition take_block :: "nat \<Rightarrow> 'a kmem_scheme \<Rightarrow> (nat \<times> 'a kmem_scheme) outcome" where
  "take_block d s =
     andThen (list_pop (free_list d) s) (\<lambda>(b, s).
     andThen (get_desc d s) (\<lambda>x.
     let s = memset_block b (block_size x) s; a = block2arena b in
     andThen (get_arena a s) (\<lambda>y.
     Inr (b, set_arena a (y\<lparr>cnt := cnt y - 1\<rparr>) s))))"

definition malloc_small :: "pool_flags \<Rightarrow> nat \<Rightarrow> nat \<Rightarrow> 'a kmem_scheme \<Rightarrow> (nat \<times> 'a kmem_scheme) outcome" where
  "malloc_small pf descs sz s =
     andThen (find_desc descs sz 0 DESC_CNT s) (\<lambda>desc_idx.
     let d = desc_at descs desc_idx in
     andThen (list_empty (free_list d) s) (\<lambda>empty.
     andThen (if empty then new_arena pf d s else Inr (True, s)) (\<lambda>(ok, s).
     if \<not> ok then andThen (lock_release (pool_lock pf s) s) (\<lambda>s. Inr (0, s)) else
     andThen (take_block d s) (\<lambda>(b, s).
     andThen (lock_release (pool_lock pf s) s) (\<lambda>s. Inr (b, s))))))"

definition sys_malloc :: "nat \<Rightarrow> 'a kmem_scheme \<Rightarrow> (nat \<times> 'a kmem_scheme) outcome" where
  "sys_malloc sz s =
     andThen (get_task (running_thread s) s) (\<lambda>cur_thread.
     let pf = (if pgdir cur_thread = 0 then PF_KERNEL else PF_USER);
         descs = (if pgdir cur_thread = 0 then k_block_descs s else u_block_desc (running_thread s)) in
     if \<not> (sz > 0 \<and> sz < unat (pool_size (mem_pool pf s))) then Inr (0, s) else
     andThen (acquire_now (pool_lock pf s) s) (\<lambda>s.
     if sz > 1024 then malloc_large pf sz s else malloc_small pf descs sz s))"

text \<open>Taking all blocks of an arena off the free list.\<close>

fun drop_blocks :: "nat \<Rightarrow> nat \<Rightarrow> nat \<Rightarrow> 'a kmem_scheme \<Rightarrow> 'a kmem_scheme outcome" where
  "drop_blocks a block_idx 0 s = Inr s"
| "drop_blocks a block_idx (Suc n) s =
     andThen (arena2block a block_idx s) (\<lambda>b.
     andThen (get_arena a s) (\<lambda>x.
     andThen (elem_find (free_list (desc x)) b s) (\<lambda>found. ASSERT found
    (andThen (list_remove b s) (\<lambda>s.
     drop_blocks a (Suc block_idx) n s)))))"

definition free_small :: "pool_flags \<Rightarrow> nat \<Rightarrow> 'a kmem_scheme \<Rightarrow> 'a kmem_scheme outcome" where
  "free_small pf b s =
     (let a = block2arena b in
      andThen (get_arena a s) (\<lambda>x.
      andThen (list_append (free_list (desc x)) b s) (\<lambda>s.
      let s = set_arena a (x\<lparr>cnt := cnt x + 1\<rparr>) s in
      andThen (get_desc (desc x) s) (\<lambda>d.
      if cnt x + 1 = of_nat (blocks_per_arena d) then
        andThen (drop_blocks a 0 (blocks_per_arena d) s) (mfree_page pf (of_nat a) 1)
      else Inr s))))"

abbreviation K_HEAP_START :: nat where
  "K_HEAP_START \<equiv> 0xc0100000"

definition sys_free :: "nat \<Rightarrow> 'a kmem_scheme \<Rightarrow> 'a kmem_scheme outcome" where
  "sys_free ptr s = ASSERT (ptr \<noteq> 0)
     (andThen (get_task (running_thread s) s) (\<lambda>cur.
      let pf = (if pgdir cur = 0 then PF_KERNEL else PF_USER) in
      ASSERT (pf = PF_KERNEL \<longrightarrow> ptr \<ge> K_HEAP_START)
     (andThen (acquire_now (pool_lock pf s) s) (\<lambda>s.
      andThen (get_arena (block2arena ptr) s) (\<lambda>a.
      andThen
        (if desc a = 0 \<and> large a then mfree_page pf (of_nat (block2arena ptr)) (unat (cnt a)) s
         else free_small pf ptr s) (\<lambda>s.
      lock_release (pool_lock pf s) s))))))"

section \<open>Initialisation\<close>

fun block_desc_loop :: "nat \<Rightarrow> nat \<Rightarrow> u16 \<Rightarrow> nat \<Rightarrow> 'a kmem_scheme \<Rightarrow> 'a kmem_scheme outcome" where
  "block_desc_loop desc_array desc_idx bsize 0 s = Inr s"
| "block_desc_loop desc_array desc_idx bsize (Suc n) s =
     (let d = desc_at desc_array desc_idx;
          x = \<lparr>block_size = unat bsize, blocks_per_arena = (PG_SIZE - ARENA_SIZE) div unat bsize\<rparr> in
      andThen (list_init (free_list d) (s\<lparr>descs_at := (descs_at s)(d \<mapsto> x)\<rparr>)) (\<lambda>s.
      block_desc_loop desc_array (Suc desc_idx) (bsize * 2) n s))"

definition block_desc_init :: "nat \<Rightarrow> 'a kmem_scheme \<Rightarrow> 'a kmem_scheme outcome" where
  "block_desc_init desc_array s = block_desc_loop desc_array 0 16 DESC_CNT s"

text \<open>
  The bitmaps lie one after the other from \<open>MEM_BITMAP_BASE\<close> on; \<open>mem_bits\<close> is what that memory
  holds before it is cleared.
\<close>

definition mem_pool_init :: "(nat \<Rightarrow> u8) \<Rightarrow> u32 \<Rightarrow> 'a kmem_scheme \<Rightarrow> 'a kmem_scheme outcome" where
  "mem_pool_init mem_bits all_mem s =
     (let page_table_size = 4096 * 256;
          used_mem = page_table_size + 0x100000;
          free_mem = all_mem - used_mem;
          all_free_pages = ucast (free_mem div 4096) :: u16;
          kernel_free_pages = all_free_pages div 2;
          user_free_pages = all_free_pages - kernel_free_pages;
          kbm_length = unat (kernel_free_pages div 8);
          ubm_length = unat (user_free_pages div 8);
          kp_start = used_mem;
          up_start = kp_start + ucast kernel_free_pages * 4096;
          kbits = bitmap_init \<lparr>btmp_bytes_len = kbm_length, bits = mem_bits\<rparr>;
          ubits = bitmap_init \<lparr>btmp_bytes_len = ubm_length, bits = (\<lambda>i. mem_bits (kbm_length + i))\<rparr>;
          vbits = bitmap_init \<lparr>btmp_bytes_len = kbm_length, bits = (\<lambda>i. mem_bits (kbm_length + ubm_length + i))\<rparr>;
          s = s\<lparr>kernel_pool := \<lparr>pool_bitmap = kbits, phy_addr_start = kp_start,
                    pool_size = ucast kernel_free_pages * 4096\<rparr>,
                user_pool := \<lparr>pool_bitmap = ubits, phy_addr_start = up_start,
                    pool_size = ucast user_free_pages * 4096\<rparr>\<rparr> in
      andThen (lock_init (kernel_pool_lock s) s) (\<lambda>s.
      andThen (lock_init (user_pool_lock s) s) (\<lambda>s.
      Inr (s\<lparr>kernel_vaddr := \<lparr>vaddr_bitmap = vbits, vaddr_start = of_nat K_HEAP_START\<rparr>\<rparr>))))"

text \<open>\<open>mem_bytes_total\<close> is the word the loader left at address \<open>0xb00\<close>.\<close>

definition mem_init :: "(nat \<Rightarrow> u8) \<Rightarrow> u32 \<Rightarrow> 'a kmem_scheme \<Rightarrow> 'a kmem_scheme outcome" where
  "mem_init mem_bits mem_bytes_total s =
     andThen (mem_pool_init mem_bits mem_bytes_total s) (\<lambda>s.
     block_desc_init (k_block_descs s) s)"

end
