(* ===== verification/Memory_Pages.thy ===== *)
theory Memory_Pages
  imports Memory
begin

text \<open>
  Correctness of the page level of \<^verbatim>\<open>kernel/memory.c\<close>: \<open>palloc\<close> hands out frames that were free,
  \<open>page_table_add\<close> maps exactly the page it is asked to map, also when it first has to create the
  page table, and \<open>malloc_page\<close> maps a run of consecutive pages to frames of the right pool that
  were free before.
\<close>

section \<open>Frames\<close>

lemma frame_aligned: "frame x = x \<longleftrightarrow> PG_SIZE dvd unat x"
proof -
  have "frame x = x \<longleftrightarrow> take_bit 12 x = 0"
    by (auto simp only: bit_eq_iff frame_bit bit_take_bit_iff not_le bit_0_eq bot_fun_def bot_bool_def)
  also have "\<dots> \<longleftrightarrow> take_bit 12 (unat x) = 0"
    by (simp only: unsigned_take_bit_eq [symmetric] unat_eq_zero)
  finally show ?thesis by (simp add: take_bit_eq_mod mod_eq_0_iff_dvd)
qed

lemma frame_or_flags:
  assumes "frame a = a"
  shows "frame (a OR 7) = a" "(a OR 7) AND 1 \<noteq> (0 :: u32)"
proof -
  have flags: "(7 :: u32) = mask 3" by (simp add: mask_eq_exp_minus_1)
  have high: "12 \<le> n" if "bit a n" for n using assms that by (metis frame_bit)
  show "frame (a OR 7) = a"
    unfolding flags by (rule bit_eqI) (use high in \<open>auto simp only: frame_bit bit_or_iff bit_mask_iff\<close>)
  have "bit (a OR 7) 0" by (simp add: bit_or_iff)
  then show "(a OR 7) AND 1 \<noteq> (0 :: u32)" using and_exp_eq_0_iff_not_bit [of "a OR 7" 0] by simp
qed

definition pool_frame :: "pool \<Rightarrow> nat \<Rightarrow> u32" where
  "pool_frame p i = of_nat i * 4096 + phy_addr_start p"

definition pool_ok :: "pool \<Rightarrow> bool" where
  "pool_ok p \<longleftrightarrow> frame (phy_addr_start p) = phy_addr_start p \<and> phy_addr_start p \<noteq> 0
     \<and> unat (phy_addr_start p) + PG_SIZE * bm_cap (pool_bitmap p) \<le> 2 ^ 32"

definition free_frames :: "pool \<Rightarrow> u32 set" where
  "free_frames p = pool_frame p ` ({..<bm_cap (pool_bitmap p)} - bm_used (pool_bitmap p))"

lemma unat_u32: "n < 2 ^ 32 \<Longrightarrow> unat (of_nat n :: u32) = n"
  by (simp add: unat_of_nat)

lemma pool_frame_nat:
  assumes "pool_ok p" "i < bm_cap (pool_bitmap p)"
  shows "unat (pool_frame p i) = i * PG_SIZE + unat (phy_addr_start p)"
proof -
  have b: "i * 4096 + unat (phy_addr_start p) < 2 ^ 32" using assms by (simp add: pool_ok_def)
  have "pool_frame p i = of_nat (i * 4096 + unat (phy_addr_start p))"
    by (simp add: pool_frame_def)
  then show ?thesis by (simp only: unat_u32 [OF b])
qed

lemma pool_frame_inj:
  assumes "pool_ok p" "i < bm_cap (pool_bitmap p)" "j < bm_cap (pool_bitmap p)" "pool_frame p i = pool_frame p j"
  shows "i = j"
proof -
  have "i * PG_SIZE + unat (phy_addr_start p) = j * PG_SIZE + unat (phy_addr_start p)"
    using pool_frame_nat [OF assms(1,2)] pool_frame_nat [OF assms(1,3)] unfolding assms(4) by (rule trans [OF sym])
  then show ?thesis by simp
qed

lemma pool_frame_aligned:
  assumes "pool_ok p" "i < bm_cap (pool_bitmap p)"
  shows "frame (pool_frame p i) = pool_frame p i"
proof -
  have "PG_SIZE dvd unat (phy_addr_start p)" using assms(1) by (simp add: pool_ok_def frame_aligned)
  then show ?thesis unfolding frame_aligned pool_frame_nat [OF assms] by simp
qed

text \<open>\<open>palloc\<close> stops the machine when the pool has no free frame, and otherwise takes one.\<close>

lemma mem_pool_set [simp]:
  "mem_pool pf (set_pool pf p s) = p" "pf \<noteq> pf' \<Longrightarrow> mem_pool pf' (set_pool pf p s) = mem_pool pf' s"
  by (cases pf; cases pf'; simp)+

lemma set_pool_keeps [simp]:
  "pm (set_pool pf p s) = pm s" "cr3 (set_pool pf p s) = cr3 s" "elems (set_pool pf p s) = elems s"
  "kernel_vaddr (set_pool pf p s) = kernel_vaddr s" "arenas (set_pool pf p s) = arenas s"
  by (cases pf; simp)+

lemma palloc_full: "free_frames (mem_pool pf s) = {} \<Longrightarrow> palloc pf s = Inl AssertFail"
  by (cases rule: bm.scan_cases [of "pool_bitmap (mem_pool pf s)"])
    (auto simp: palloc_def free_frames_def Let_def)

lemma palloc_takes:
  assumes "pool_ok (mem_pool pf s)" "free_frames (mem_pool pf s) \<noteq> {}"
  shows "\<exists>f p. palloc pf s = Inr (f, set_pool pf p s) \<and> f \<in> free_frames (mem_pool pf s) \<and> pool_ok p
    \<and> free_frames p = free_frames (mem_pool pf s) - {f} \<and> frame f = f \<and> phy_addr_start p = phy_addr_start (mem_pool pf s)"
proof -
  let ?p = "mem_pool pf s"
  let ?b = "pool_bitmap ?p"
  obtain i where i: "bitmap_scan ?b 1 = Inr (int i)"
    using assms(2) by (cases rule: bm.scan_cases [of ?b]) (auto simp: free_frames_def)
  then obtain b where b: "bitmap_set ?b i 1 = Inr b" "i < bm_cap ?b" "i \<notin> bm_used ?b"
    "bm_used b = insert i (bm_used ?b)" "bm_cap b = bm_cap ?b"
    using bm.alloc_fresh [OF i] by auto
  let ?q = "?p\<lparr>pool_bitmap := b\<rparr>"
  have f: "pool_frame ?q = pool_frame ?p" by (simp add: pool_frame_def fun_eq_iff)
  have "free_frames ?q = free_frames ?p - {pool_frame ?p i}"
    using pool_frame_inj [OF assms(1)] b(2) unfolding free_frames_def f by (auto simp: b(4,5))
  moreover have "palloc pf s = Inr (pool_frame ?p i, set_pool pf ?q s)"
    using i b(1) by (simp add: palloc_def Let_def pool_frame_def)
  moreover have "pool_ok ?q" using assms(1) b(5) by (simp add: pool_ok_def)
  moreover have "pool_frame ?p i \<in> free_frames ?p" using b(2,3) by (simp add: free_frames_def)
  ultimately show ?thesis using pool_frame_aligned [OF assms(1) b(2)] by auto
qed

lemma free_frame_nonzero: "pool_ok p \<Longrightarrow> f \<in> free_frames p \<Longrightarrow> f \<noteq> 0"
proof
  assume p: "pool_ok p" "f \<in> free_frames p" "f = 0"
  then obtain i where "pool_frame p i = 0" "i < bm_cap (pool_bitmap p)" by (auto simp: free_frames_def)
  then show False using pool_frame_nat [OF p(1), of i] p(1) by (simp add: pool_ok_def unat_eq_zero)
qed

lemma finite_free_frames [simp]: "finite (free_frames p)"
  by (simp add: free_frames_def)

section \<open>Mapping one page\<close>

definition present :: "'a paging_scheme \<Rightarrow> u32 \<Rightarrow> bool" where
  "present s v \<longleftrightarrow> pm s (pde_addr s v) AND 1 \<noteq> 0"

definition table_of :: "'a paging_scheme \<Rightarrow> u32 \<Rightarrow> u32" where
  "table_of s v = frame (pm s (pde_addr s v))"

definition tables :: "'a paging_scheme \<Rightarrow> u32 set" where
  "tables s = {table_of s v | v. PDE_IDX v \<noteq> 1023 \<and> present s v}"

definition tables_ok :: "'a kmem_scheme \<Rightarrow> bool" where
  "tables_ok s \<longleftrightarrow> self_mapped s \<and> pool_ok (kernel_pool s) \<and> frame (cr3 s) \<notin> free_frames (kernel_pool s)
     \<and> (\<forall>v. PDE_IDX v \<noteq> 1023 \<and> present s v \<longrightarrow>
           table_of s v \<noteq> frame (cr3 s) \<and> table_of s v \<notin> free_frames (kernel_pool s))"

text \<open>
  A set of addresses, none of them in the window through which the kernel sees its page tables,
  whose page tables are not shared between different directory entries.
\<close>

definition apart :: "u32 set \<Rightarrow> 'a paging_scheme \<Rightarrow> bool" where
  "apart A s \<longleftrightarrow> (\<forall>v\<in>A. PDE_IDX v \<noteq> 1023) \<and>
     (\<forall>v\<in>A. \<forall>w\<in>A. present s v \<and> present s w \<and> table_of s v = table_of s w \<longrightarrow> PDE_IDX v = PDE_IDX w)"

lemma frame_eq_idx: "frame v = frame w \<longleftrightarrow> PDE_IDX v = PDE_IDX w \<and> PTE_IDX v = PTE_IDX w"
proof
  assume "frame v = frame w"
  then have e: "bit (frame v) n = bit (frame w) n" for n by simp
  have "bit v (n + 12) = bit w (n + 12)" "bit v (n + 22) = bit w (n + 22)" for n
    using e [of "n + 12"] e [of "n + 22"] by (simp_all add: frame_bit)
  then show "PDE_IDX v = PDE_IDX w \<and> PTE_IDX v = PTE_IDX w"
    by (simp add: bit_eq_iff [of "PDE_IDX v"] bit_eq_iff [of "PTE_IDX v"] PDE_IDX_bit PTE_IDX_bit)
next
  assume a: "PDE_IDX v = PDE_IDX w \<and> PTE_IDX v = PTE_IDX w"
  have "bit v n = bit w n" if n: "12 \<le> n" "n < 32" for n
  proof (cases "n < 22")
    case True
    then have "n - 12 < 10" using n by simp
    then show ?thesis using a PTE_IDX_bit [of v "n - 12"] PTE_IDX_bit [of w "n - 12"] n by simp
  next
    case False
    then have "n - 22 < 10" using n by simp
    then show ?thesis using False a PDE_IDX_bit [of v "n - 22"] PDE_IDX_bit [of w "n - 22"] n by simp
  qed
  then show "frame v = frame w" by (intro bit_eqI) (auto simp: frame_bit dest: bit_imp_le_length)
qed

lemma idx4_inj:
  "4 * PDE_IDX v = 4 * PDE_IDX w \<longleftrightarrow> PDE_IDX v = PDE_IDX w" "4 * PTE_IDX v = 4 * PTE_IDX w \<longleftrightarrow> PTE_IDX v = PTE_IDX w"
proof -
  have "x = drop_bit 2 (4 * x)" if "\<forall>n. bit x n \<longrightarrow> n < 10" for x :: u32
    using that unfolding mult4 by (intro bit_eqI) (auto simp: bit_simps)
  then show "4 * PDE_IDX v = 4 * PDE_IDX w \<longleftrightarrow> PDE_IDX v = PDE_IDX w" "4 * PTE_IDX v = 4 * PTE_IDX w \<longleftrightarrow> PTE_IDX v = PTE_IDX w"
    by (metis PDE_IDX_bit, metis PTE_IDX_bit)
qed

lemma same_pte_addr: "pte_addr s v = pte_addr s w \<longleftrightarrow> table_of s v = table_of s w \<and> PTE_IDX v = PTE_IDX w"
proof
  assume a: "pte_addr s v = pte_addr s w"
  then have "table_of s v = table_of s w" unfolding table_of_def by (metis frame_addr(2))
  with a show "table_of s v = table_of s w \<and> PTE_IDX v = PTE_IDX w"
    by (simp add: pte_addr_def table_of_def idx4_inj)
qed (simp add: pte_addr_def table_of_def)

lemma same_pde_addr: "pde_addr s v = pde_addr s w \<longleftrightarrow> PDE_IDX v = PDE_IDX w"
  by (simp add: pde_addr_def idx4_inj)

lemma dir_addr_window: "PDE_IDX 0xffffffff = 1023" "pde_addr s 0xffffffff = frame (cr3 s) + 0xffc"
  by (simp_all add: PDE_IDX_def pde_addr_def)

lemma self_mapped_alt:
  "self_mapped s \<longleftrightarrow> table_of s 0xffffffff = frame (cr3 s) \<and> present s 0xffffffff"
  by (simp add: self_mapped_def table_of_def present_def dir_addr_window)

text \<open>What a write changes in the directory: one directory entry, or nothing.\<close>

lemma set_pde_present:
  "present (set_word (pde_addr s v) x s) w \<longleftrightarrow> (if PDE_IDX w = PDE_IDX v then x AND 1 \<noteq> 0 else present s w)"
  "table_of (set_word (pde_addr s v) x s) w = (if PDE_IDX w = PDE_IDX v then frame x else table_of s w)"
  by (simp_all add: present_def table_of_def set_word_def same_pde_addr) (simp_all add: pde_addr_def idx4_inj)

lemma set_pte_present:
  assumes "frame a \<noteq> frame (cr3 s)"
  shows "present (set_word a x s) w \<longleftrightarrow> present s w" "table_of (set_word a x s) w = table_of s w"
  using set_word_pde [OF assms] by (simp_all add: present_def table_of_def)

lemma zero_frame_present:
  assumes "f \<noteq> frame (cr3 s)"
  shows "present (zero_frame f s) w \<longleftrightarrow> present s w" "table_of (zero_frame f s) w = table_of s w"
  using assms frame_addr(1) [of s w]
  by (auto simp: present_def table_of_def zero_frame_def pde_addr_def)

lemma translate_alt:
  "translate s w = (let e = pm s (table_of s w + 4 * PTE_IDX w) in
     if present s w \<and> e AND 1 \<noteq> 0 then Some (frame e + (w AND 0x00000fff)) else None)"
  by (simp add: translate_def present_def table_of_def pte_addr_def Let_def)

lemma page_table_add_present:
  assumes "self_mapped s" "present s v" "translate s v = None"
  shows "page_table_add v pa s = Inr (set_word (table_of s v + 4 * PTE_IDX v) (pa OR 4 OR 2 OR 1) s)"
proof -
  have "pm s (pte_addr s v) AND 1 = 0" using assms(2,3) by (simp add: translate_def present_def split: if_splits)
  moreover have "pte_addr s v = table_of s v + 4 * PTE_IDX v" by (simp add: pte_addr_def table_of_def)
  ultimately show ?thesis using assms(1,2)
    by (simp add: page_table_add_def vload_def vstore_def translate_pde_ptr translate_pte_ptr present_def set_word_def)
qed

lemma bit_u32: "bit (x :: u32) n \<Longrightarrow> n < 32"
  using bit_imp_le_length [of x n] by simp

lemma bit_table_base: "bit (v AND 0xffc00000 :: u32) n \<longleftrightarrow> 22 \<le> n \<and> bit v n"
  by (auto simp only: bit_and_iff high_bits dest: bit_u32)

lemma pte_page: "pte_ptr v AND 0xfffff000 = pte_ptr (v AND 0xffc00000)"
  by (rule bit_eqI) (simp only: bit_and_iff high_bits pte_ptr_bit bit_table_base, auto)

lemma page_idx: "PDE_IDX (v AND 0xffc00000) = PDE_IDX v" "PTE_IDX (v AND 0xffc00000) = 0"
  by (rule bit_eqI, simp only: PDE_IDX_bit PTE_IDX_bit bit_table_base bit_0_eq bot_fun_def bot_bool_def, auto)+

lemma page_table_add_absent:
  fixes s :: "'a kmem_scheme"
  assumes "self_mapped s" "\<not> present s v" "PDE_IDX v \<noteq> 1023"
    and "palloc PF_KERNEL s = Inr (f, s')" "pm s' = pm s" "cr3 s' = cr3 s" "frame f = f" "f \<noteq> frame (cr3 s)"
  shows "page_table_add v pa s = Inr (set_word (f + 4 * PTE_IDX v) (pa OR 4 OR 2 OR 1)
    (zero_frame f (set_word (pde_addr s v) (f OR 4 OR 2 OR 1) s')))"
proof -
  let ?t = "set_word (pde_addr s v) (f OR 4 OR 2 OR 1) s'"
  let ?u = "zero_frame f ?t"
  have pd: "pde_addr s' w = pde_addr s w" for w by (simp add: pde_addr_def assms(6))
  have sm: "self_mapped s'" using assms(1,5,6) by (simp add: self_mapped_def)
  have t: "present ?t v" "table_of ?t v = f"
    using set_pde_present [of s' v] by (simp_all add: pd frame_or_flags assms(7))
  have smt: "self_mapped ?t" using sm assms(3) set_pde_present [of s' v]
    by (simp add: self_mapped_alt pd dir_addr_window) (simp add: set_word_def)
  have c: "cr3 ?t = cr3 s" by (simp add: set_word_def assms(6))
  have u: "present ?u v" "table_of ?u v = f" "self_mapped ?u"
    using zero_frame_present [of f ?t] t smt assms(8) c by (simp_all add: self_mapped_alt) (simp add: zero_frame_def c)
  have pa: "pte_addr ?u v = f + 4 * PTE_IDX v" using u(2) by (simp add: pte_addr_def table_of_def)
  have z: "pm ?u (f + 4 * PTE_IDX v) = 0" using frame_idx(2) [of f v] assms(7) by (simp add: zero_frame_def)
  have "translate ?t (pte_ptr v AND 0xfffff000) = Some f"
    using t smt by (simp add: pte_page translate_pte_ptr present_def pte_addr_def pde_addr_def page_idx table_of_def)
  then show ?thesis
    using assms(1,2,4) translate_pde_ptr [OF sm] translate_pte_ptr [OF u(3)] u(1) pa z
    by (simp add: page_table_add_def vload_def vstore_def translate_pde_ptr present_def pd zero_page_def assms(7)
        set_word_def)
qed

text \<open>Two states that differ only in the page tables and in the kernel's frames.\<close>

definition same_but_tables :: "'a kmem_scheme \<Rightarrow> 'a kmem_scheme \<Rightarrow> bool" where
  "same_but_tables s t \<longleftrightarrow> (\<exists>h p. t = s\<lparr>pm := h, kernel_pool := p\<rparr>)"

definition maps_page :: "u32 set \<Rightarrow> u32 \<Rightarrow> u32 \<Rightarrow> 'a paging_scheme \<Rightarrow> 'a paging_scheme \<Rightarrow> bool" where
  "maps_page A v pa s t \<longleftrightarrow> (\<forall>w\<in>A. translate t w =
     (if frame w = frame v then Some (pa + (w AND 0x00000fff)) else translate s w))"

lemma add_to_table:
  fixes s :: "'a kmem_scheme"
  assumes ok: "tables_ok s" and A: "apart A s" and v: "v \<in> A" "present s v" and pa: "frame pa = pa"
    and t: "t = set_word (table_of s v + 4 * PTE_IDX v) (pa OR 7) s"
  shows "tables_ok t" "apart A t" "maps_page A v pa s t" "tables t = tables s"
proof -
  let ?a = "table_of s v + 4 * PTE_IDX v"
  have tab: "table_of s w \<noteq> frame (cr3 s)" if "w \<in> A" "present s w" for w
    using ok A that unfolding tables_ok_def apart_def by blast
  have fa: "frame (table_of s w + 4 * PTE_IDX w) = table_of s w" for w
    unfolding table_of_def by (rule frame_idx(2))
  have p: "present t w \<longleftrightarrow> present s w" "table_of t w = table_of s w" for w
    unfolding t by (rule set_pte_present; use tab [OF v] in \<open>simp add: fa\<close>)+
  have k: "cr3 t = cr3 s" "kernel_pool t = kernel_pool s" by (simp_all add: t set_word_def)
  show "tables_ok t" using ok by (simp add: tables_ok_def self_mapped_alt p k)
  show "apart A t" using A unfolding apart_def p .
  show "tables t = tables s" unfolding tables_def p ..
  show "maps_page A v pa s t" unfolding maps_page_def
  proof
    fix w assume w: "w \<in> A"
    have "table_of s w + 4 * PTE_IDX w = ?a \<longleftrightarrow> frame w = frame v" if "present s w"
    proof
      assume e: "table_of s w + 4 * PTE_IDX w = ?a"
      have same: "table_of s w = table_of s v" using arg_cong [OF e, of frame] by (simp only: fa)
      then have "PDE_IDX w = PDE_IDX v" using A w v that unfolding apart_def by blast
      then show "frame w = frame v" using e same by (simp add: frame_eq_idx idx4_inj)
    qed (simp add: frame_eq_idx table_of_def pde_addr_def)
    then show "translate t w = (if frame w = frame v then Some (pa + (w AND 0x00000fff)) else translate s w)"
      using v(2) frame_or_flags [OF pa] unfolding translate_alt p Let_def
      by (auto simp: t set_word_def frame_eq_idx present_def pde_addr_def)
  qed
qed

lemma add_new_table:
  fixes s :: "'a kmem_scheme"
  assumes ok: "tables_ok s" and A: "apart A s" and v: "v \<in> A" "\<not> present s v"
    and f: "f \<in> free_frames (kernel_pool s)" "frame f = f" and p: "pool_ok p" "free_frames p = free_frames (kernel_pool s) - {f}"
    and t: "t = zero_frame f (set_word (pde_addr s v) (f OR 7) (s\<lparr>kernel_pool := p\<rparr>))"
  shows "tables_ok t" "apart A t" "present t v" "table_of t v = f" "\<forall>w\<in>A. translate t w = translate s w"
    "tables t \<subseteq> insert f (tables s)"
proof -
  let ?s = "s\<lparr>kernel_pool := p\<rparr>"
  have fc: "f \<noteq> frame (cr3 s)" using ok f(1) by (auto simp: tables_ok_def)
  have vw: "PDE_IDX v \<noteq> 1023" using A v unfolding apart_def by blast
  have aw: "PDE_IDX w \<noteq> 1023" if "w \<in> A" for w using A that unfolding apart_def by blast
  have s: "present ?s w \<longleftrightarrow> present s w" "table_of ?s w = table_of s w" "pde_addr ?s w = pde_addr s w" for w
    by (simp_all add: present_def table_of_def pde_addr_def)
  let ?u = "set_word (pde_addr ?s v) (f OR 7) ?s"
  have tu: "t = zero_frame f ?u" unfolding t s ..
  have "f \<noteq> frame (cr3 ?u)" using fc by (simp add: set_word_def)
  note z = zero_frame_present [OF this, folded tu]
  have q: "present t w \<longleftrightarrow> PDE_IDX w = PDE_IDX v \<or> present s w"
    "table_of t w = (if PDE_IDX w = PDE_IDX v then f else table_of s w)" for w
    using set_pde_present [of ?s v "f OR 7" w] frame_or_flags [OF f(2)] unfolding z s(1,2) by simp_all
  have k: "cr3 t = cr3 s" "kernel_pool t = p" by (simp_all add: t zero_frame_def set_word_def)
  have tab: "table_of s w \<noteq> f" "table_of s w \<noteq> frame (cr3 s)" "table_of s w \<notin> free_frames (kernel_pool s)"
    if "PDE_IDX w \<noteq> 1023" "present s w" for w
    using ok f(1) that unfolding tables_ok_def by blast+
  show "present t v" "table_of t v = f" by (simp_all add: q)
  show "tables t \<subseteq> insert f (tables s)"
  proof
    fix x assume "x \<in> tables t"
    then obtain w where w: "x = table_of t w" "PDE_IDX w \<noteq> 1023" "present t w" unfolding tables_def by blast
    then show "x \<in> insert f (tables s)" unfolding q tables_def by (cases "PDE_IDX w = PDE_IDX v") auto
  qed
  show "tables_ok t" using ok tab fc vw
    by (auto simp: tables_ok_def self_mapped_alt q k p f(1) dir_addr_window(1))
  show "apart A t" using A tab(1) v unfolding apart_def q by metis
  show "\<forall>w\<in>A. translate t w = translate s w"
  proof
    fix w assume w: "w \<in> A"
    have ft: "frame (table_of t w + 4 * PTE_IDX w) = table_of t w"
      unfolding table_of_def by (rule frame_idx(2))
    show "translate t w = translate s w"
    proof (cases "PDE_IDX w = PDE_IDX v")
      case True
      then have "\<not> present s w" using v(2) by (simp add: present_def pde_addr_def)
      moreover have "pm t (f + 4 * PTE_IDX w) = 0" using ft True by (simp add: q) (simp add: t zero_frame_def)
      ultimately show ?thesis using True by (simp add: translate_alt q)
    next
      case False
      have "pm t (table_of s w + 4 * PTE_IDX w) = pm s (table_of s w + 4 * PTE_IDX w)" if "present s w"
      proof -
        let ?a = "table_of s w + 4 * PTE_IDX w"
        have fs: "frame ?a = table_of s w" unfolding table_of_def by (rule frame_idx(2))
        then have "?a \<noteq> pde_addr s v" using tab(2) [OF aw [OF w] that] frame_addr(1) [of s v] by metis
        then show ?thesis using fs tab(1) [OF aw [OF w] that] by (simp add: t zero_frame_def set_word_def)
      qed
      then show ?thesis using False by (cases "present s w") (simp_all add: translate_alt q Let_def)
    qed
  qed
qed

lemma same_but_tables_refl: "same_but_tables s s"
  unfolding same_but_tables_def by (rule exI [of _ "pm s"], rule exI [of _ "kernel_pool s"]) simp

lemma same_but_tables_trans:
  assumes "same_but_tables s t" "same_but_tables t u"
  shows "same_but_tables s u"
proof -
  obtain h p g q where "t = s\<lparr>pm := h, kernel_pool := p\<rparr>" "u = t\<lparr>pm := g, kernel_pool := q\<rparr>"
    using assms unfolding same_but_tables_def by blast
  then have "u = s\<lparr>pm := g, kernel_pool := q\<rparr>" by simp
  then show ?thesis unfolding same_but_tables_def by blast
qed

lemma same_but_tables_fields:
  assumes "same_but_tables s t"
  shows "cr3 t = cr3 s" "user_pool t = user_pool s" "kernel_vaddr t = kernel_vaddr s" "tcb t = tcb s" "esp t = esp s"
  using assms by (auto simp: same_but_tables_def)

text \<open>At most one frame is used up for a page table.\<close>

definition uses_frames :: "nat \<Rightarrow> pool \<Rightarrow> pool \<Rightarrow> bool" where
  "uses_frames n p q \<longleftrightarrow> free_frames q \<subseteq> free_frames p \<and> card (free_frames p) \<le> card (free_frames q) + n
     \<and> phy_addr_start q = phy_addr_start p"

lemma page_table_add_maps:
  fixes s :: "'a kmem_scheme"
  assumes ok: "tables_ok s" and A: "apart A s" and v: "v \<in> A" "translate s v = None" and pa: "frame pa = pa"
    and room: "present s v \<or> free_frames (kernel_pool s) \<noteq> {}"
  shows "\<exists>t. page_table_add v pa s = Inr t \<and> tables_ok t \<and> apart A t \<and> maps_page A v pa s t
    \<and> same_but_tables s t \<and> uses_frames 1 (kernel_pool s) (kernel_pool t)
    \<and> tables t \<subseteq> tables s \<union> free_frames (kernel_pool s)"
proof (cases "present s v")
  case True
  have sm: "self_mapped s" using ok by (simp add: tables_ok_def)
  let ?t = "set_word (table_of s v + 4 * PTE_IDX v) (pa OR 7) s"
  have "page_table_add v pa s = Inr ?t" using page_table_add_present [OF sm True v(2)] by simp
  moreover have "same_but_tables s ?t"
    unfolding same_but_tables_def set_word_def by (intro exI [of _ "pm ?t"] exI [of _ "kernel_pool s"]) (simp add: set_word_def)
  moreover have "uses_frames 1 (kernel_pool s) (kernel_pool ?t)" by (simp add: uses_frames_def set_word_def)
  ultimately show ?thesis using add_to_table [OF ok A v(1) True pa refl] by auto
next
  case False
  have sm: "self_mapped s" and po: "pool_ok (kernel_pool s)" using ok by (simp_all add: tables_ok_def)
  have vw: "PDE_IDX v \<noteq> 1023" using A v unfolding apart_def by blast
  obtain f p where f: "palloc PF_KERNEL s = Inr (f, s\<lparr>kernel_pool := p\<rparr>)" "f \<in> free_frames (kernel_pool s)"
    "pool_ok p" "free_frames p = free_frames (kernel_pool s) - {f}" "frame f = f"
    "phy_addr_start p = phy_addr_start (kernel_pool s)"
    using palloc_takes [of PF_KERNEL s] po room False by auto
  have fc: "f \<noteq> frame (cr3 s)" using ok f(2) by (auto simp: tables_ok_def)
  let ?t = "zero_frame f (set_word (pde_addr s v) (f OR 7) (s\<lparr>kernel_pool := p\<rparr>))"
  let ?u = "set_word (f + 4 * PTE_IDX v) (pa OR 7) ?t"
  note t = add_new_table [OF ok A v(1) False f(2,5,3,4) refl]
  have run: "page_table_add v pa s = Inr ?u"
    using page_table_add_absent [OF sm False vw f(1) _ _ f(5) fc] by simp
  have u: "tables_ok ?u" "apart A ?u" "maps_page A v pa ?t ?u" "tables ?u = tables ?t"
    using add_to_table [OF t(1,2) v(1) t(3) pa, of ?u] by (simp_all add: t(4))
  have m: "maps_page A v pa s ?u" using u(3) t(5) by (simp add: maps_page_def)
  have e: "?u = s\<lparr>pm := pm ?u, kernel_pool := p\<rparr>" by (simp add: zero_frame_def set_word_def)
  have k: "kernel_pool ?u = p" by (simp add: zero_frame_def set_word_def)
  have "card (free_frames (kernel_pool s)) = card (free_frames p) + 1"
    using card_Suc_Diff1 [OF finite_free_frames f(2)] f(4) by simp
  then have "uses_frames 1 (kernel_pool s) (kernel_pool ?u)" unfolding k using f(4,6) by (auto simp: uses_frames_def)
  moreover have "same_but_tables s ?u" unfolding same_but_tables_def using e by blast
  moreover have "tables ?u \<subseteq> tables s \<union> free_frames (kernel_pool s)" using t(6) f(2) unfolding u(4) by blast
  ultimately show ?thesis using run u m by blast
qed

text \<open>
  C6. With page tables that the kernel can reach and that no free frame overlaps, \<open>page_table_add\<close>
  maps the page of an unmapped address to the given frame and leaves the translation of every other
  address of a set without shared tables as it was. It does so too when it has to allocate, clear and
  enter a page table first, and it keeps the well-formedness of the tables.
\<close>

theorem page_table_add_correct:
  assumes "tables_ok s" "apart A s" "v \<in> A" "translate s v = None" "frame pa = pa"
    and "present s v \<or> free_frames (kernel_pool s) \<noteq> {}"
  shows "\<exists>t. page_table_add v pa s = Inr t \<and> tables_ok t \<and> apart A t
    \<and> (\<forall>w\<in>A. translate t w = (if frame w = frame v then Some (pa + (w AND 0x00000fff)) else translate s w))"
  using page_table_add_maps [OF assms] unfolding maps_page_def by blast

section \<open>Mapping a run of pages\<close>

definition same_but_pages :: "'a kmem_scheme \<Rightarrow> 'a kmem_scheme \<Rightarrow> bool" where
  "same_but_pages s t \<longleftrightarrow> (\<exists>h p q. t = s\<lparr>pm := h, kernel_pool := p, user_pool := q\<rparr>)"

lemma same_but_pages_trans:
  assumes "same_but_pages s t" "same_but_pages t u"
  shows "same_but_pages s u"
proof -
  obtain h p q where "t = s\<lparr>pm := h, kernel_pool := p, user_pool := q\<rparr>"
    using assms unfolding same_but_pages_def by blast
  moreover obtain h' p' q' where "u = t\<lparr>pm := h', kernel_pool := p', user_pool := q'\<rparr>"
    using assms unfolding same_but_pages_def by blast
  ultimately have "u = s\<lparr>pm := h', kernel_pool := p', user_pool := q'\<rparr>" by simp
  then show ?thesis unfolding same_but_pages_def by blast
qed

lemma same_but_pages_refl: "same_but_pages s s"
  unfolding same_but_pages_def
  by (rule exI [of _ "pm s"], rule exI [of _ "kernel_pool s"], rule exI [of _ "user_pool s"]) simp

lemma same_but_pages_step:
  assumes "same_but_tables (set_pool pf p s) t"
  shows "same_but_pages s t"
proof -
  obtain h q where t: "t = (set_pool pf p s)\<lparr>pm := h, kernel_pool := q\<rparr>"
    using assms unfolding same_but_tables_def by blast
  have "t = s\<lparr>pm := h, kernel_pool := q, user_pool := (if pf = PF_USER then p else user_pool s)\<rparr>"
    unfolding t by (cases pf) simp_all
  then show ?thesis unfolding same_but_pages_def by blast
qed

text \<open>Frames for \<open>n\<close> pages and for the page tables they may need.\<close>

fun room :: "pool_flags \<Rightarrow> nat \<Rightarrow> 'a kmem_scheme \<Rightarrow> bool" where
  "room PF_KERNEL n s \<longleftrightarrow> 2 * n \<le> card (free_frames (kernel_pool s))"
| "room PF_USER n s \<longleftrightarrow> n \<le> card (free_frames (user_pool s)) \<and> n \<le> card (free_frames (kernel_pool s))"

lemma tables_ok_pool:
  assumes "tables_ok s" "pool_ok p" "free_frames p \<subseteq> free_frames (mem_pool pf s)"
  shows "tables_ok (set_pool pf p s)"
proof -
  have "present (set_pool pf p s) v = present s v" "table_of (set_pool pf p s) v = table_of s v"
    "self_mapped (set_pool pf p s) = self_mapped s" for v
    by (simp_all add: present_def table_of_def self_mapped_def pde_addr_def)
  then show ?thesis using assms by (cases pf) (auto simp: tables_ok_def)
qed

lemma apart_pool: "apart A (set_pool pf p s) = apart A s" "translate (set_pool pf p s) = translate s"
  by (simp_all add: apart_def present_def table_of_def pde_addr_def translate_def pte_addr_def fun_eq_iff)

definition pages_ok :: "u32 set \<Rightarrow> 'a kmem_scheme \<Rightarrow> bool" where
  "pages_ok A s \<longleftrightarrow> tables_ok s \<and> apart A s \<and> pool_ok (user_pool s)"

lemma card_take: "finite F \<Longrightarrow> f \<in> F \<Longrightarrow> card (F - {f}) + 1 = card F"
  using card_Suc_Diff1 [of F f] by simp

lemma map_one:
  fixes s :: "'a kmem_scheme"
  assumes ok: "pages_ok A s" and v: "v \<in> A" "translate s v = None" and r: "room pf (Suc n) s"
  shows "\<exists>f s' t. palloc pf s = Inr (f, s') \<and> f \<noteq> 0 \<and> page_table_add v f s' = Inr t \<and> maps_page A v f s t
    \<and> f \<in> free_frames (mem_pool pf s) \<and> free_frames (mem_pool pf t) \<subseteq> free_frames (mem_pool pf s) - {f}
    \<and> pages_ok A t \<and> room pf n t \<and> same_but_pages s t \<and> (pf = PF_KERNEL \<longrightarrow> f \<notin> tables t \<and> f \<noteq> frame (cr3 t))"
proof -
  let ?F = "free_frames (mem_pool pf s)"
  have po: "pool_ok (mem_pool pf s)" using ok by (cases pf) (simp_all add: pages_ok_def tables_ok_def)
  have ne: "?F \<noteq> {}" using r by (cases pf) auto
  obtain f p where f: "palloc pf s = Inr (f, set_pool pf p s)" "f \<in> ?F" "pool_ok p" "free_frames p = ?F - {f}"
    "frame f = f" using palloc_takes [OF po ne] by blast
  let ?s = "set_pool pf p s"
  have tok: "tables_ok ?s" and A: "apart A ?s" and tr: "translate ?s v = None"
    using ok f(3,4) v(2) by (auto simp: pages_ok_def apart_pool intro: tables_ok_pool)
  have c: "card (free_frames p) + 1 = card ?F" using card_take [OF finite_free_frames f(2)] f(4) by simp
  then have kr: "card (free_frames (kernel_pool ?s)) \<ge> 1"
    using r by (cases pf) simp_all
  have kne: "present ?s v \<or> free_frames (kernel_pool ?s) \<noteq> {}" using kr by (metis card.empty not_one_le_zero)
  obtain t where t: "page_table_add v f ?s = Inr t" "tables_ok t" "apart A t" "maps_page A v f ?s t"
    "same_but_tables ?s t" "uses_frames 1 (kernel_pool ?s) (kernel_pool t)"
    "tables t \<subseteq> tables ?s \<union> free_frames (kernel_pool ?s)"
    using page_table_add_maps [OF tok A v(1) tr f(5) kne] by blast
  have u: "user_pool t = user_pool ?s" by (rule same_but_tables_fields [OF t(5)])
  have "free_frames (mem_pool pf t) \<subseteq> ?F - {f}" "pool_ok (user_pool t)"
    using t(6) f(3,4) u ok by (cases pf; auto simp: uses_frames_def pages_ok_def)+
  moreover have "room pf n t" using r c t(6) u by (cases pf) (auto simp: uses_frames_def)
  moreover have "maps_page A v f s t" using t(4) by (simp add: maps_page_def apart_pool)
  moreover have "f \<noteq> 0" using free_frame_nonzero [OF po f(2)] .
  moreover have "f \<notin> tables t \<and> f \<noteq> frame (cr3 t)" if k: "pf = PF_KERNEL"
  proof -
    have "tables ?s = tables s" unfolding tables_def by (simp add: present_def table_of_def pde_addr_def)
    moreover have "f \<notin> tables s" "f \<noteq> frame (cr3 s)"
      using ok f(2) k unfolding pages_ok_def tables_ok_def tables_def by auto
    moreover have "cr3 t = cr3 s" using same_but_tables_fields(1) [OF t(5)] by simp
    ultimately show ?thesis using t(7) f(4) k by auto
  qed
  ultimately show ?thesis using f(1,2) t(1,2,3) same_but_pages_step [OF t(5)] unfolding pages_ok_def by blast
qed

abbreviation page_at :: "u32 \<Rightarrow> nat \<Rightarrow> u32" where
  "page_at va k \<equiv> va + of_nat k * 4096"

text \<open>The pages from \<open>va\<close> on map to the frames \<open>fs\<close>; other addresses of \<open>A\<close> translate as before.\<close>

definition maps_run :: "u32 set \<Rightarrow> u32 \<Rightarrow> u32 list \<Rightarrow> 'a paging_scheme \<Rightarrow> 'a paging_scheme \<Rightarrow> bool" where
  "maps_run A va fs s t \<longleftrightarrow>
     (\<forall>k<length fs. \<forall>w. frame w = page_at va k \<longrightarrow> translate t w = Some (fs ! k + (w AND 0x00000fff))) \<and>
     (\<forall>w\<in>A. (\<forall>k<length fs. frame w \<noteq> page_at va k) \<longrightarrow> translate t w = translate s w)"

lemma unat_u32_mod: "unat (of_nat n :: u32) = n mod 2 ^ 32"
  by (simp add: unat_of_nat)

lemma page_at_nat: "page_at va k = of_nat (unat va + k * PG_SIZE)"
  by simp

lemma page_at_frame:
  assumes "frame va = va"
  shows "frame (page_at va k) = page_at va k"
proof -
  have "PG_SIZE dvd (unat va + k * PG_SIZE) mod 2 ^ 32"
    using assms by (intro dvd_mod) (simp_all add: frame_aligned)
  then show ?thesis unfolding frame_aligned page_at_nat unat_u32_mod .
qed

lemma page_at_inj:
  assumes "page_at va j = page_at va k" "j < 2 ^ 20" "k < 2 ^ 20"
  shows "j = k"
proof -
  have "of_nat (j * PG_SIZE) = (of_nat (k * PG_SIZE) :: u32)" using assms(1) by simp
  then have "unat (of_nat (j * PG_SIZE) :: u32) = unat (of_nat (k * PG_SIZE) :: u32)" by (rule arg_cong)
  moreover have "j * PG_SIZE < 2 ^ 32" "k * PG_SIZE < 2 ^ 32" using assms(2,3) by simp_all
  ultimately have "j * PG_SIZE = k * PG_SIZE" unfolding unat_u32_mod by simp
  then show ?thesis by simp
qed

lemma page_at_Suc: "page_at (va + 4096) k = page_at va (Suc k)"
  by (simp add: algebra_simps)

lemma maps_run_Cons:
  assumes one: "maps_page A va f s t" and rest: "maps_run A (va + 4096) fs t u"
    and va: "frame va = va" and n: "length fs < 2 ^ 20 - 1" and A: "\<forall>w. frame w = va \<longrightarrow> w \<in> A"
  shows "maps_run A va (f # fs) s u"
proof -
  have ne: "va \<noteq> page_at (va + 4096) k" if "k < length fs" for k
    using page_at_inj [of va 0 "Suc k"] that n unfolding page_at_Suc by auto
  have r: "translate u w = Some (fs ! k + (w AND 0x00000fff))" if "k < length fs" "frame w = page_at va (Suc k)" for k w
    using rest that unfolding maps_run_def page_at_Suc by blast
  have o: "translate u w = translate t w" if "w \<in> A" "\<forall>k<length fs. frame w \<noteq> page_at va (Suc k)" for w
    using rest that unfolding maps_run_def page_at_Suc by blast
  have z: "translate u w = Some (f + (w AND 0x00000fff))" if w: "frame w = va" for w
  proof -
    have "w \<in> A" using A w by blast
    moreover have "translate t w = Some (f + (w AND 0x00000fff))"
      using one \<open>w \<in> A\<close> w va unfolding maps_page_def by metis
    ultimately show ?thesis using o [of w] ne w unfolding page_at_Suc by metis
  qed
  have "translate u w = translate s w" if w: "w \<in> A" "\<forall>k<length (f # fs). frame w \<noteq> page_at va k" for w
  proof -
    have "frame w \<noteq> va" using w(2) by auto
    then have "translate t w = translate s w" using one w(1) va unfolding maps_page_def by metis
    moreover have "\<forall>k<length fs. frame w \<noteq> page_at va (Suc k)" using w(2) by auto
    ultimately show ?thesis using o [OF w(1)] by metis
  qed
  moreover have "translate u w = Some ((f # fs) ! k + (w AND 0x00000fff))"
    if "k < length (f # fs)" "frame w = page_at va k" for k w
    using that z r by (cases k) (simp_all del: of_nat_Suc)
  ultimately show ?thesis unfolding maps_run_def by blast
qed

lemma map_pages_maps:
  fixes s :: "'a kmem_scheme"
  assumes "pages_ok A s" "frame va = va" "n < 2 ^ 20" "room pf n s"
    and "\<forall>k<n. translate s (page_at va k) = None" "\<forall>k<n. \<forall>w. frame w = page_at va k \<longrightarrow> w \<in> A"
  shows "\<exists>fs t. map_pages pf va n s = Inr (True, t) \<and> length fs = n \<and> distinct fs
    \<and> set fs \<subseteq> free_frames (mem_pool pf s) \<and> free_frames (mem_pool pf t) \<subseteq> free_frames (mem_pool pf s) - set fs
    \<and> maps_run A va fs s t \<and> pages_ok A t \<and> same_but_pages s t"
  using assms
proof (induction n arbitrary: va s)
  case 0
  then show ?case by (intro exI [of _ "[]"] exI [of _ s]) (simp add: maps_run_def same_but_pages_refl)
next
  case (Suc n)
  have p0: "page_at va 0 = va" by simp
  have vA: "\<forall>w. frame w = va \<longrightarrow> w \<in> A" using Suc.prems(6) p0 by (metis zero_less_Suc)
  have v: "va \<in> A" "translate s va = None" using vA Suc.prems(2,5) p0 by (blast, metis zero_less_Suc)
  obtain f s' t where t: "palloc pf s = Inr (f, s')" "f \<noteq> 0" "page_table_add va f s' = Inr t" "maps_page A va f s t"
    "f \<in> free_frames (mem_pool pf s)" "free_frames (mem_pool pf t) \<subseteq> free_frames (mem_pool pf s) - {f}"
    "pages_ok A t" "room pf n t" "same_but_pages s t"
    using map_one [OF Suc.prems(1) v Suc.prems(4)] by blast
  have pa: "page_at (va + 4096) k = page_at va (Suc k)" for k by (rule page_at_Suc)
  have fr: "frame (va + 4096) = va + 4096" using page_at_frame [OF Suc.prems(2), of 1] by simp
  have un: "\<forall>k<n. translate t (page_at (va + 4096) k) = None"
  proof (intro allI impI)
    fix k assume k: "k < n"
    let ?w = "page_at va (Suc k)"
    have fw: "frame ?w = ?w" by (rule page_at_frame [OF Suc.prems(2)])
    have "?w \<in> A" using Suc.prems(6) fw k by (metis Suc_less_eq)
    moreover have "?w \<noteq> va" using page_at_inj [of va "Suc k" 0] k Suc.prems(3) by (metis Suc_lessD Suc_mono less_trans nat.simps(3) p0 zero_less_power zero_less_numeral)
    ultimately have "translate t ?w = translate s ?w"
      using t(4) fw Suc.prems(2) unfolding maps_page_def by metis
    then show "translate t (page_at (va + 4096) k) = None" unfolding pa using Suc.prems(5) k by (metis Suc_less_eq)
  qed
  have inA: "\<forall>k<n. \<forall>w. frame w = page_at (va + 4096) k \<longrightarrow> w \<in> A"
    unfolding pa using Suc.prems(6) by (metis Suc_less_eq)
  have n: "n < 2 ^ 20" using Suc.prems(3) by simp
  obtain fs u where u: "map_pages pf (va + 4096) n t = Inr (True, u)" "length fs = n" "distinct fs"
    "set fs \<subseteq> free_frames (mem_pool pf t)" "free_frames (mem_pool pf u) \<subseteq> free_frames (mem_pool pf t) - set fs"
    "maps_run A (va + 4096) fs t u" "pages_ok A u" "same_but_pages t u"
    using Suc.IH [OF t(7) fr n t(8) un inA] by blast
  have "maps_run A va (f # fs) s u"
    by (rule maps_run_Cons [OF t(4) u(6) Suc.prems(2) _ vA]) (use u(2) Suc.prems(3) in simp)
  moreover have "map_pages pf va (Suc n) s = Inr (True, u)" using t(1-3) u(1) by simp
  moreover have "length (f # fs) = Suc n" "distinct (f # fs)" using u(2,3,4) t(6) by auto
  moreover have "set (f # fs) \<subseteq> free_frames (mem_pool pf s)" using t(5,6) u(4) by auto
  moreover have "free_frames (mem_pool pf u) \<subseteq> free_frames (mem_pool pf s) - set (f # fs)" using t(6) u(5) by auto
  ultimately show ?case using u(7) same_but_pages_trans [OF t(9) u(8)] by blast
qed

section \<open>Pages of virtual memory\<close>

lemma set_bits_ok:
  assumes "v = 0 \<or> v = 1"
  shows "\<exists>b'. set_bits b i v n = Inr b' \<and> bm_cap b' = bm_cap b \<and>
    (\<forall>j. bitmap_scan_test b' j = (if i \<le> j \<and> j < i + n then v = 1 else bitmap_scan_test b j))"
proof (induction n arbitrary: b i)
  case (Suc n)
  obtain c where c: "bitmap_set b i v = Inr c" using bitmap_set_ok [OF assms] by blast
  obtain d where d: "set_bits c (Suc i) v n = Inr d" "bm_cap d = bm_cap c"
    "\<forall>j. bitmap_scan_test d j = (if Suc i \<le> j \<and> j < Suc i + n then v = 1 else bitmap_scan_test c j)"
    using Suc.IH [of c "Suc i"] by blast
  have "bm_cap d = bm_cap b" using d(2) bm.setb_cap [OF c] by simp
  moreover have "\<forall>j. bitmap_scan_test d j = (if i \<le> j \<and> j < i + Suc n then v = 1 else bitmap_scan_test b j)"
    using d(3) bitmap_set_test(1) [OF c] by auto
  ultimately show ?case using c d(1) by simp
qed auto

lemma scan_free_run:
  assumes "bitmap_scan b n = Inr (int p)" "0 < n"
  shows "free_run b p n"
proof (cases "n = 1")
  case True
  then obtain i where "int p = int i" "\<not> bitmap_scan_test b i" using bitmap_scan_one assms(1) by blast
  then show ?thesis using True by (simp add: free_run_def)
next
  case False
  then show ?thesis using bitmap_scan_many [OF _ assms(1)] assms(2) by auto
qed

lemma pages_ok_vaddr: "pages_ok A (s\<lparr>kernel_vaddr := k\<rparr>) = pages_ok A s" "room pf n (s\<lparr>kernel_vaddr := k\<rparr>) = room pf n s"
  "translate (s\<lparr>kernel_vaddr := k\<rparr>) = translate s" "mem_pool pf (s\<lparr>kernel_vaddr := k\<rparr>) = mem_pool pf s"
  by (cases pf; simp add: pages_ok_def tables_ok_def apart_def present_def table_of_def pde_addr_def self_mapped_def
      translate_def pte_addr_def fun_eq_iff)+

text \<open>
  C7. When the kernel's address pool has a run of free pages and there are frames enough for the pages
  and their tables, \<open>malloc_page\<close> returns the start of that run, maps each of its pages to a frame of the
  kernel pool of its own that was free, changes no other translation, and marks exactly the pages of
  the run as used, which were free before.
\<close>

theorem malloc_page_kernel:
  fixes s :: "'a kmem_scheme"
  defines "b \<equiv> vaddr_bitmap (kernel_vaddr s)" and "base \<equiv> vaddr_start (kernel_vaddr s)"
  assumes n: "0 < n" "n < 3840" and scan: "bitmap_scan b n = Inr (int p)"
    and va: "va = page_at base p" "frame base = base" "va \<noteq> 0"
    and ok: "pages_ok A s" "room PF_KERNEL n s" and un: "\<forall>k<n. translate s (page_at va k) = None"
    and A: "\<forall>k<n. \<forall>w. frame w = page_at va k \<longrightarrow> w \<in> A"
  shows "\<exists>fs t. malloc_page PF_KERNEL n s = Inr (va, t) \<and> length fs = n \<and> distinct fs
    \<and> set fs \<subseteq> free_frames (kernel_pool s) \<and> free_frames (kernel_pool t) \<subseteq> free_frames (kernel_pool s) - set fs
    \<and> maps_run A va fs s t \<and> pages_ok A t \<and> free_run b p n
    \<and> (\<forall>j. bitmap_scan_test (vaddr_bitmap (kernel_vaddr t)) j = (p \<le> j \<and> j < p + n \<or> bitmap_scan_test b j))"
proof -
  obtain c where c: "set_bits b p 1 n = Inr c"
    "\<forall>j. bitmap_scan_test c j = (if p \<le> j \<and> j < p + n then (1 :: int) = 1 else bitmap_scan_test b j)"
    using set_bits_ok [of 1 b p n] by auto
  let ?s = "s\<lparr>kernel_vaddr := (kernel_vaddr s)\<lparr>vaddr_bitmap := c\<rparr>\<rparr>"
  have g: "vaddr_get PF_KERNEL n s = Inr (va, ?s)"
    using scan c(1) unfolding vaddr_get_def b_def base_def va(1) by simp
  have fva: "frame va = va" unfolding va(1) by (rule page_at_frame [OF va(2)])
  have n20: "n < 2 ^ 20" using n(2) by simp
  obtain fs t where t: "map_pages PF_KERNEL va n ?s = Inr (True, t)" "length fs = n" "distinct fs"
    "set fs \<subseteq> free_frames (mem_pool PF_KERNEL ?s)"
    "free_frames (mem_pool PF_KERNEL t) \<subseteq> free_frames (mem_pool PF_KERNEL ?s) - set fs"
    "maps_run A va fs ?s t" "pages_ok A t" "same_but_pages ?s t"
    using map_pages_maps [of A ?s va n PF_KERNEL] fva n20 ok un A unfolding pages_ok_vaddr by blast
  have "malloc_page PF_KERNEL n s = Inr (va, t)" using n g t(1) va(3) by (simp add: malloc_page_def)
  moreover have "maps_run A va fs s t" using t(6) by (simp add: maps_run_def pages_ok_vaddr)
  moreover have "vaddr_bitmap (kernel_vaddr t) = c" using t(8) by (auto simp: same_but_pages_def)
  ultimately show ?thesis using t(2-5,7) c(2) scan_free_run [OF scan n(1)] by auto
qed

section \<open>A fresh kernel page\<close>

lemma zero_frame_safe:
  fixes s :: "'a kmem_scheme"
  assumes "f \<notin> tables s" "f \<noteq> frame (cr3 s)" "pages_ok A s"
  shows "pages_ok A (zero_frame f s)" "w \<in> A \<Longrightarrow> translate (zero_frame f s) w = translate s w"
proof -
  note z = zero_frame_present [OF assms(2)]
  have k: "cr3 (zero_frame f s) = cr3 s" "kernel_pool (zero_frame f s) = kernel_pool s" "user_pool (zero_frame f s) = user_pool s"
    by (simp_all add: zero_frame_def)
  have "self_mapped (zero_frame f s)" using assms(3) by (simp add: self_mapped_alt z k pages_ok_def tables_ok_def)
  then have "tables_ok (zero_frame f s)" using assms(3) unfolding pages_ok_def tables_ok_def z k by blast
  moreover have "apart A (zero_frame f s)" using assms(3) unfolding pages_ok_def apart_def z by blast
  ultimately show "pages_ok A (zero_frame f s)" using assms(3) by (simp add: pages_ok_def k)
  show "translate (zero_frame f s) w = translate s w" if "w \<in> A"
  proof (cases "present s w")
    case True
    have "PDE_IDX w \<noteq> 1023" using assms(3) that unfolding pages_ok_def apart_def by blast
    then have "table_of s w \<noteq> f" using assms(1) True unfolding tables_def by blast
    moreover have "frame (table_of s w + 4 * PTE_IDX w) = table_of s w" unfolding table_of_def by (rule frame_idx(2))
    ultimately have "pm (zero_frame f s) (table_of s w + 4 * PTE_IDX w) = pm s (table_of s w + 4 * PTE_IDX w)"
      by (simp add: zero_frame_def)
    then show ?thesis unfolding translate_alt z by simp
  qed (simp add: translate_alt z)
qed

text \<open>The parts of the state that handing out kernel pages does not touch.\<close>

definition same_but_memory :: "'a kmem_scheme \<Rightarrow> 'a kmem_scheme \<Rightarrow> bool" where
  "same_but_memory s t \<longleftrightarrow> (\<exists>h p q k m e. t = s\<lparr>pm := h, kernel_pool := p, user_pool := q, kernel_vaddr := k, ram := m, elems := e\<rparr>)"

lemma same_but_memory_fields:
  assumes "same_but_memory s t"
  shows "cr3 t = cr3 s" "tcb t = tcb s" "running_thread t = running_thread s" "sema_value t = sema_value s"
    "lock_holder t = lock_holder s" "holder_repeat_nr t = holder_repeat_nr s" "kernel_pool_lock t = kernel_pool_lock s"
    "arenas t = arenas s" "descs_at t = descs_at s" "eflags t = eflags s"
  using assms by (auto simp: same_but_memory_def running_thread_def)

text \<open>What the caller of \<open>get_kernel_pages(1)\<close> finds: bit \<open>p\<close> is the first free one of the address pool.\<close>

definition page_ready :: "u32 set \<Rightarrow> nat \<Rightarrow> u32 \<Rightarrow> 'a kmem_scheme \<Rightarrow> bool" where
  "page_ready A p va s \<longleftrightarrow> bitmap_scan (vaddr_bitmap (kernel_vaddr s)) 1 = Inr (int p)
     \<and> va = page_at (vaddr_start (kernel_vaddr s)) p \<and> frame (vaddr_start (kernel_vaddr s)) = vaddr_start (kernel_vaddr s)
     \<and> va \<noteq> 0 \<and> pages_ok A s \<and> room PF_KERNEL 1 s \<and> translate s va = None \<and> (\<forall>w. frame w = va \<longrightarrow> w \<in> A)"

lemma malloc_one_page:
  fixes s :: "'a kmem_scheme"
  assumes "page_ready A p va s"
  shows "\<exists>f t c. malloc_page PF_KERNEL 1 s = Inr (va, t) \<and> f \<in> free_frames (kernel_pool s) \<and> f \<notin> free_frames (kernel_pool t)
    \<and> maps_page A va f s t \<and> pages_ok A t \<and> f \<notin> tables t \<and> f \<noteq> frame (cr3 t) \<and> frame f = f
    \<and> bitmap_set (vaddr_bitmap (kernel_vaddr s)) p 1 = Inr c \<and> vaddr_bitmap (kernel_vaddr t) = c \<and> same_but_memory s t
    \<and> elems t = elems s \<and> ram t = ram s"
proof -
  let ?b = "vaddr_bitmap (kernel_vaddr s)"
  have r: "bitmap_scan ?b 1 = Inr (int p)" "va = page_at (vaddr_start (kernel_vaddr s)) p" "va \<noteq> 0"
    "frame (vaddr_start (kernel_vaddr s)) = vaddr_start (kernel_vaddr s)"
    "pages_ok A s" "room PF_KERNEL (Suc 0) s" "translate s va = None" "\<forall>w. frame w = va \<longrightarrow> w \<in> A"
    using assms unfolding page_ready_def One_nat_def by blast+
  have fva: "frame va = va" unfolding r(2) by (rule page_at_frame [OF r(4)])
  have vA: "va \<in> A" using r(8) fva by blast
  obtain c where c: "bitmap_set ?b p 1 = Inr c" using bitmap_set_ok by blast
  let ?s = "s\<lparr>kernel_vaddr := (kernel_vaddr s)\<lparr>vaddr_bitmap := c\<rparr>\<rparr>"
  have g: "vaddr_get PF_KERNEL 1 s = Inr (va, ?s)" using r(1) c unfolding vaddr_get_def r(2) by simp
  obtain f s' t where t: "palloc PF_KERNEL ?s = Inr (f, s')" "f \<noteq> 0" "page_table_add va f s' = Inr t" "maps_page A va f ?s t"
    "f \<in> free_frames (mem_pool PF_KERNEL ?s)" "free_frames (mem_pool PF_KERNEL t) \<subseteq> free_frames (mem_pool PF_KERNEL ?s) - {f}"
    "pages_ok A t" "same_but_pages ?s t" "f \<notin> tables t \<and> f \<noteq> frame (cr3 t)"
    using map_one [of A ?s va PF_KERNEL 0] r(5-7) vA unfolding pages_ok_vaddr by blast
  have "malloc_page PF_KERNEL 1 s = Inr (va, t)" using g t(1-3) r(3) by (simp add: malloc_page_def)
  moreover have "maps_page A va f s t" using t(4) by (simp add: maps_page_def pages_ok_vaddr)
  moreover have "frame f = f" using t(5) r(5) pool_frame_aligned by (auto simp: free_frames_def pages_ok_def tables_ok_def)
  moreover have "vaddr_bitmap (kernel_vaddr t) = c" "elems t = elems s" "ram t = ram s"
    using t(8) by (auto simp: same_but_pages_def)
  moreover have "same_but_memory s t"
  proof -
    obtain h q u where "t = ?s\<lparr>pm := h, kernel_pool := q, user_pool := u\<rparr>" using t(8) unfolding same_but_pages_def by blast
    then have "t = s\<lparr>pm := h, kernel_pool := q, user_pool := u, kernel_vaddr := kernel_vaddr t, ram := ram t, elems := elems t\<rparr>"
      by simp
    then show ?thesis unfolding same_but_memory_def by blast
  qed
  ultimately show ?thesis using t(5-7,9) c by auto
qed

lemma locked_kmem [simp]:
  fixes s :: "'a kmem_scheme"
  shows "elems (locked l s) = elems s" "arenas (locked l s) = arenas s" "descs_at (locked l s) = descs_at s"
    "k_block_descs (locked l s) = k_block_descs s" "ram (locked l s) = ram s" "tcb (locked l s) = tcb s"
    "kernel_pool_lock (locked l s) = kernel_pool_lock s" "running_thread (locked l s) = running_thread s"
    "kernel_pool (locked l s) = kernel_pool s" "user_pool (locked l s) = user_pool s" "kernel_vaddr (locked l s) = kernel_vaddr s"
    "pm (locked l s) = pm s" "cr3 (locked l s) = cr3 s" "thread_ready_list (locked l s) = thread_ready_list s"
  by (simp_all add: locked_def set_value_def set_holder_def set_repeat_def running_thread_def)

lemma locked_mine [simp]:
  "lock_holder (locked l s) l = running_thread s" "holder_repeat_nr (locked l s) l = 1" "sema_value (locked l s) (lock_sema l) = 0"
  by (simp_all add: locked_def set_value_def set_holder_def set_repeat_def)

lemma page_cong:
  fixes s t :: "'a kmem_scheme"
  assumes "pm s = pm t" "cr3 s = cr3 t"
  shows "translate s = translate t" "present s = present t" "table_of s = table_of t" "tables s = tables t"
    "kernel_pool s = kernel_pool t \<Longrightarrow> user_pool s = user_pool t \<Longrightarrow> pages_ok A s = pages_ok A t"
proof -
  show 1: "present s = present t" "table_of s = table_of t" using assms by (simp_all add: present_def table_of_def pde_addr_def fun_eq_iff)
  show "translate s = translate t" using assms by (simp add: translate_def pde_addr_def pte_addr_def fun_eq_iff)
  show "tables s = tables t" by (simp add: tables_def 1)
  show "pages_ok A s = pages_ok A t" if "kernel_pool s = kernel_pool t" "user_pool s = user_pool t"
    using that assms by (simp add: pages_ok_def tables_ok_def apart_def 1 self_mapped_def)
qed

lemma page_ready_locked: "page_ready A p va (locked l s) = page_ready A p va s"
  by (simp add: page_ready_def page_cong [of "locked l s" s])

lemma same_but_memory_release:
  fixes s :: "'a kmem_scheme"
  assumes "same_but_memory (locked l s) t" "lock_free l s" "list_empty (waiters (lock_sema l)) t = Inr True"
  shows "\<exists>u. lock_release l t = Inr u \<and> same_but_memory s u \<and> lock_free l u \<and> pm u = pm t \<and> ram u = ram t \<and> elems u = elems t
    \<and> kernel_pool u = kernel_pool t \<and> user_pool u = user_pool t \<and> kernel_vaddr u = kernel_vaddr t"
proof -
  note f = same_but_memory_fields [OF assms(1)]
  have r: "lock_release l t = Inr (unlocked l t)"
    by (rule lock_release_alone [OF _ _ _ assms(3)]) (simp_all add: f)
  have e: "elems (unlocked l t) = elems t" by (simp add: unlocked_def set_value_def set_holder_def set_repeat_def)
  have "lock_free l (unlocked l t)"
    using assms(3) list_empty_cong [OF e] by (simp add: lock_free_def) (simp add: unlocked_def set_value_def set_holder_def set_repeat_def)
  moreover have "same_but_memory s (unlocked l t)"
  proof -
    obtain h p q k m g where t: "t = (locked l s)\<lparr>pm := h, kernel_pool := p, user_pool := q, kernel_vaddr := k, ram := m, elems := g\<rparr>"
      using assms(1) unfolding same_but_memory_def by blast
    have "unlocked l t = s\<lparr>pm := h, kernel_pool := p, user_pool := q, kernel_vaddr := k, ram := m, elems := g\<rparr>"
      using assms(2) unfolding t
      by (simp add: unlocked_def locked_def lock_free_def set_value_def set_holder_def set_repeat_def fun_upd_idem)
    then show ?thesis unfolding same_but_memory_def by blast
  qed
  moreover have "pm (unlocked l t) = pm t" "ram (unlocked l t) = ram t" "kernel_pool (unlocked l t) = kernel_pool t"
    "user_pool (unlocked l t) = user_pool t" "kernel_vaddr (unlocked l t) = kernel_vaddr t"
    by (simp_all add: unlocked_def set_value_def set_holder_def set_repeat_def)
  ultimately show ?thesis using r e by blast
qed

text \<open>The page of \<open>va\<close> as addresses of bytes.\<close>

definition in_page :: "u32 \<Rightarrow> nat \<Rightarrow> bool" where
  "in_page va a \<longleftrightarrow> unat va \<le> a \<and> a < unat va + PG_SIZE"

lemma frame_low:
  assumes "frame v = v"
  shows "v AND 0x00000fff = 0"
proof (rule bit_eqI)
  fix n
  show "bit (v AND 0x00000fff) n = bit 0 n" using frame_bit [of v n] unfolding assms low12_bit by auto
qed

lemma get_kernel_page:
  fixes s :: "'a kmem_scheme"
  defines "l \<equiv> kernel_pool_lock s"
  assumes r: "page_ready A p va s" and free: "lock_free l s" "running_thread s \<noteq> 0"
    and out: "\<not> in_page va (waiters (lock_sema l))"
  shows "\<exists>f t. get_kernel_pages 1 s = Inr (va, t) \<and> f \<in> free_frames (kernel_pool s) \<and> f \<notin> free_frames (kernel_pool t)
    \<and> frame f = f \<and> maps_page A va f s t \<and> (\<forall>a. frame a = f \<longrightarrow> pm t a = 0) \<and> f \<notin> tables t \<and> f \<noteq> frame (cr3 t) \<and> pages_ok A t
    \<and> ram t = (\<lambda>a. if in_page va a then Some 0 else ram s a)
    \<and> elems t = (\<lambda>a. if in_page va a then Some \<lparr>prev = 0, next = 0\<rparr> else elems s a)
    \<and> (\<exists>c. bitmap_set (vaddr_bitmap (kernel_vaddr s)) p 1 = Inr c \<and> vaddr_bitmap (kernel_vaddr t) = c)
    \<and> same_but_memory s t \<and> lock_free l t"
proof -
  let ?s = "locked l s"
  obtain f t c where t: "malloc_page PF_KERNEL 1 ?s = Inr (va, t)" "f \<in> free_frames (kernel_pool s)"
    "f \<notin> free_frames (kernel_pool t)" "maps_page A va f ?s t" "pages_ok A t" "f \<notin> tables t" "f \<noteq> frame (cr3 t)" "frame f = f"
    "bitmap_set (vaddr_bitmap (kernel_vaddr s)) p 1 = Inr c" "vaddr_bitmap (kernel_vaddr t) = c" "same_but_memory ?s t"
    "elems t = elems s" "ram t = ram s"
    using malloc_one_page [of A p va ?s] r unfolding page_ready_locked by auto
  have fva: "frame va = va" and vA: "va \<in> A" and v0: "va \<noteq> 0"
    using r page_at_frame unfolding page_ready_def by blast+
  have tr: "translate t va = Some f" using t(4) vA frame_low [OF fva] unfolding maps_page_def by simp
  note z = zero_frame_safe [OF t(6,7,5)]
  let ?z = "zero_frame f t"
  let ?m = "?z\<lparr>ram := (\<lambda>a. if in_page va a then Some 0 else ram s a),
    elems := (\<lambda>a. if in_page va a then Some \<lparr>prev = 0, next = 0\<rparr> else elems s a)\<rparr>"
  have ms: "memset_pages va 1 t = Inr ?m"
    using tr t(8,12,13) by (simp add: memset_pages_def zero_page_def in_page_def zero_frame_def cong: if_cong)
  obtain h pk pu kv rm e where te: "t = ?s\<lparr>pm := h, kernel_pool := pk, user_pool := pu, kernel_vaddr := kv, ram := rm, elems := e\<rparr>"
    using t(11) unfolding same_but_memory_def by blast
  have "?m = ?s\<lparr>pm := pm ?m, kernel_pool := pk, user_pool := pu, kernel_vaddr := kv, ram := ram ?m, elems := elems ?m\<rparr>"
    by (subst (1) te) (simp add: te zero_frame_def cong: if_cong)
  then have sm: "same_but_memory ?s ?m" unfolding same_but_memory_def by blast
  have "list_empty (waiters (lock_sema l)) ?m = Inr True"
    using free(1) out by (simp add: lock_free_def list_empty_def get_node_def)
  then obtain u where u: "lock_release l ?m = Inr u" "same_but_memory s u" "lock_free l u" "pm u = pm ?m" "ram u = ram ?m"
    "elems u = elems ?m" "kernel_pool u = kernel_pool ?m" "user_pool u = user_pool ?m" "kernel_vaddr u = kernel_vaddr ?m"
    using same_but_memory_release [OF sm free(1)] by blast
  have cz: "cr3 u = cr3 ?z" "cr3 ?z = cr3 t"
    using same_but_memory_fields(1) [OF u(2)] same_but_memory_fields(1) [OF t(11)] by (simp_all add: zero_frame_def)
  have c: "translate u = translate ?z" "tables u = tables ?z" "pages_ok A u = pages_ok A ?z"
    using page_cong [of u ?z] cz(1) u(4,7,8) by simp_all
  have kz: "kernel_pool ?z = kernel_pool t" "kernel_vaddr ?z = kernel_vaddr t" by (simp_all add: zero_frame_def)
  have "pool_lock PF_KERNEL s = l" "pool_lock PF_KERNEL ?s = l" "pool_lock PF_KERNEL ?m = l"
    using same_but_memory_fields(7) [OF sm] unfolding l_def by simp_all
  then have "get_kernel_pages 1 s = Inr (va, u)"
    using acquire_now_free [OF free] t(1) v0 ms u(1) unfolding get_kernel_pages_def get_pages_def by simp
  moreover have "maps_page A va f s u"
    using t(4) z(2) page_cong(1) [of ?s s] unfolding maps_page_def c(1) by simp
  moreover have "\<forall>a. frame a = f \<longrightarrow> pm u a = 0" using u(4) by (simp add: zero_frame_def)
  moreover have "tables ?z = tables t" unfolding tables_def zero_frame_present [OF t(7)] ..
  then have "f \<notin> tables u" using t(6) c(2) by simp
  ultimately show ?thesis using t u(2,3,5-9) z(1) cz kz c(3) by auto
qed

section \<open>A concrete memory\<close>

text \<open>
  A directory at \<open>0x100000\<close> whose entry 768 points at an empty page table at \<open>0x101000\<close>, and pools of eight
  free frames.
\<close>

definition demo_bits :: bitmap where
  "demo_bits = \<lparr>btmp_bytes_len = 1, bits = (\<lambda>_. 0)\<rparr>"

definition demo_mem :: kmem where
  "demo_mem = io.extend ((demo_io 0)\<lparr>cr3 := 0x100000,
       pm := (\<lambda>a. if a = 0x100ffc then 0x100007 else if a = 0x100c00 then 0x101007 else 0)\<rparr>)
     (kmem.fields \<lparr>pool_bitmap = demo_bits, phy_addr_start = 0x200000, pool_size = 0x8000\<rparr>
       \<lparr>pool_bitmap = demo_bits, phy_addr_start = 0x300000, pool_size = 0x8000\<rparr> 500 600
       \<lparr>vaddr_bitmap = demo_bits, vaddr_start = 0xc0100000\<rparr> 700 (\<lambda>_. None) (\<lambda>_. None))"

lemma demo_mem_simps:
  "cr3 demo_mem = 0x100000" "pm demo_mem a = (if a = 0x100ffc then 0x100007 else if a = 0x100c00 then 0x101007 else 0)"
  "kernel_pool demo_mem = \<lparr>pool_bitmap = demo_bits, phy_addr_start = 0x200000, pool_size = 0x8000\<rparr>"
  "user_pool demo_mem = \<lparr>pool_bitmap = demo_bits, phy_addr_start = 0x300000, pool_size = 0x8000\<rparr>"
  "kernel_vaddr demo_mem = \<lparr>vaddr_bitmap = demo_bits, vaddr_start = 0xc0100000\<rparr>"
  by (simp_all add: demo_mem_def io.extend_def kmem.fields_def)

lemma demo_bits_used: "bm_cap demo_bits = 8" "bm_used demo_bits = {}" "bitmap_scan demo_bits 1 = Inr 0"
proof -
  show "bm_cap demo_bits = 8" "bm_used demo_bits = {}"
    by (simp_all add: bm_cap_def bm_used_def demo_bits_def bitmap_scan_test_def)
  have "skip_full_bytes demo_bits 0 = 0" "skip_set_bits (bits demo_bits 0) 0 = 0"
    by (simp_all add: skip_full_bytes.simps skip_set_bits.simps demo_bits_def)
  then show "bitmap_scan demo_bits 1 = Inr 0" by (simp add: bitmap_scan_def Let_def) (simp add: demo_bits_def)
qed

lemma demo_free: "free_frames (kernel_pool demo_mem) =
  {0x200000, 0x201000, 0x202000, 0x203000, 0x204000, 0x205000, 0x206000, 0x207000}"
proof -
  have "{..<8} = set [0, 1, 2, 3, 4, 5, 6, 7 :: nat]" by (auto simp: less_eq_Suc_le numeral_eq_Suc)
  then show ?thesis
    by (simp add: free_frames_def demo_mem_simps demo_bits_used pool_frame_def)
qed

lemma demo_tables_ok: "tables_ok demo_mem"
proof -
  have 1: "pde_addr demo_mem 0xffffffff = 0x100ffc" "pde_addr demo_mem 0xc0100000 = 0x100c00"
    by (simp_all add: pde_addr_def PDE_IDX_def frame_def demo_mem_simps)
  have "table_of demo_mem v = 0x101000" if "PDE_IDX v \<noteq> 1023" "present demo_mem v" for v
  proof -
    have "pde_addr demo_mem v \<noteq> 0x100ffc" using that(1) same_pde_addr [of demo_mem v "0xffffffff"] 1 dir_addr_window(1) by auto
    then show ?thesis using that(2) by (simp add: table_of_def present_def demo_mem_simps frame_def split: if_splits)
  qed
  moreover have "self_mapped demo_mem" by (simp add: self_mapped_def demo_mem_simps frame_def)
  moreover have "pool_ok (kernel_pool demo_mem)" by (simp add: pool_ok_def demo_mem_simps demo_bits_used frame_def)
  ultimately show ?thesis unfolding tables_ok_def demo_free by (auto simp: demo_mem_simps frame_def)
qed

lemma demo_apart: "apart {w. frame w = 0xc0100000} demo_mem"
proof -
  have "PDE_IDX w = 768" if "frame w = 0xc0100000" for w
    using that frame_eq_idx [of w "0xc0100000"] by (simp add: frame_def PDE_IDX_def)
  then show ?thesis by (simp add: apart_def)
qed

lemma demo_unmapped: "translate demo_mem 0xc0100000 = None"
  by (simp add: translate_def pde_addr_def pte_addr_def PDE_IDX_def PTE_IDX_def frame_def demo_mem_simps)

theorem page_table_add_correct_witness:
  "\<exists>t. page_table_add 0xc0100000 0x200000 demo_mem = Inr t \<and> tables_ok t \<and> apart {w. frame w = 0xc0100000} t
    \<and> (\<forall>w\<in>{w. frame w = 0xc0100000}. translate t w =
      (if frame w = frame 0xc0100000 then Some (0x200000 + (w AND 0x00000fff)) else translate demo_mem w))"
  by (rule page_table_add_correct [OF demo_tables_ok demo_apart _ demo_unmapped])
    (simp_all add: demo_free frame_def)

theorem malloc_page_kernel_witness:
  "\<exists>fs t. malloc_page PF_KERNEL 1 demo_mem = Inr (0xc0100000, t) \<and> length fs = 1 \<and> distinct fs
    \<and> set fs \<subseteq> free_frames (kernel_pool demo_mem)
    \<and> free_frames (kernel_pool t) \<subseteq> free_frames (kernel_pool demo_mem) - set fs
    \<and> maps_run {w. frame w = 0xc0100000} 0xc0100000 fs demo_mem t \<and> pages_ok {w. frame w = 0xc0100000} t
    \<and> free_run demo_bits 0 1
    \<and> (\<forall>j. bitmap_scan_test (vaddr_bitmap (kernel_vaddr t)) j = (0 \<le> j \<and> j < 0 + 1 \<or> bitmap_scan_test demo_bits j))"
proof -
  have ok: "pages_ok {w. frame w = 0xc0100000} demo_mem"
    using demo_tables_ok demo_apart by (simp add: pages_ok_def pool_ok_def demo_mem_simps demo_bits_used frame_def)
  have r: "room PF_KERNEL 1 demo_mem" by (simp add: demo_free)
  have v: "vaddr_bitmap (kernel_vaddr demo_mem) = demo_bits" "vaddr_start (kernel_vaddr demo_mem) = 0xc0100000"
    by (simp_all add: demo_mem_simps)
  show ?thesis
    by (rule malloc_page_kernel [of 1 demo_mem 0 "0xc0100000" "{w. frame w = 0xc0100000}", unfolded v, OF _ _ _ _ _ _ ok r])
      (use demo_bits_used(3) demo_unmapped in \<open>simp_all add: frame_def\<close>)
qed

end
