(* ===== verification/Memory_Heap.thy ===== *)
theory Memory_Heap
  imports Memory_Pages
begin

text \<open>
  Correctness of the block heap and of the initialisation of \<^verbatim>\<open>kernel/memory.c\<close>: the size classes and
  where blocks lie in their arena, splitting an arena and dissolving it again, and what \<open>sys_malloc\<close>
  and \<open>sys_free\<close> do to the free list of a size class.
\<close>

section \<open>Size classes\<close>

text \<open>Block \<open>k\<close> of the arena at \<open>a\<close> with blocks of \<open>n\<close> bytes.\<close>

definition block_at :: "nat \<Rightarrow> nat \<Rightarrow> nat \<Rightarrow> nat" where
  "block_at a n k = a + ARENA_SIZE + k * n"

definition class_desc :: "nat \<Rightarrow> mem_block_desc" where
  "class_desc i = \<lparr>block_size = 16 * 2 ^ i, blocks_per_arena = (PG_SIZE - ARENA_SIZE) div (16 * 2 ^ i)\<rparr>"

definition classes_at :: "nat \<Rightarrow> 'a kmem_scheme \<Rightarrow> bool" where
  "classes_at base s \<longleftrightarrow> (\<forall>i<DESC_CNT. descs_at s (desc_at base i) = Some (class_desc i))"

lemma desc_at_inj [simp]: "desc_at base i = desc_at base j \<longleftrightarrow> i = j"
  by (simp add: desc_at_def)

lemma find_desc_loop:
  assumes "classes_at base s" "i + n = DESC_CNT"
  shows "find_desc base sz i n s =
    Inr (if \<exists>j. i \<le> j \<and> j < DESC_CNT \<and> sz \<le> 16 * 2 ^ j then LEAST j. i \<le> j \<and> sz \<le> 16 * 2 ^ j else DESC_CNT)"
  using assms(2)
proof (induction n arbitrary: i)
  case (Suc n)
  have d: "get_desc (desc_at base i) s = Inr (class_desc i)"
    using assms(1) Suc.prems by (simp add: classes_at_def get_desc_def)
  show ?case
  proof (cases "sz \<le> 16 * 2 ^ i")
    case True
    then have "(LEAST j. i \<le> j \<and> sz \<le> 16 * 2 ^ j) = i" by (intro Least_equality) auto
    moreover have "\<exists>j. i \<le> j \<and> j < DESC_CNT \<and> sz \<le> 16 * 2 ^ j"
      using True Suc.prems by (intro exI [of _ i]) simp
    ultimately show ?thesis using True d by (simp add: class_desc_def)
  next
    case False
    then have eq: "(i \<le> j \<and> sz \<le> 16 * 2 ^ j) = (Suc i \<le> j \<and> sz \<le> 16 * 2 ^ j)" for j
      by (cases "j = i") auto
    have ex: "(\<exists>j. i \<le> j \<and> j < DESC_CNT \<and> sz \<le> 16 * 2 ^ j) = (\<exists>j. Suc i \<le> j \<and> j < DESC_CNT \<and> sz \<le> 16 * 2 ^ j)"
      using eq by blast
    have step: "find_desc base sz i (Suc n) s = find_desc base sz (Suc i) n s"
      using False d by (simp add: class_desc_def)
    have "Suc i + n = DESC_CNT" using Suc.prems by simp
    from Suc.IH [OF this] show ?thesis unfolding step ex eq .
  qed
qed auto

text \<open>The smallest class that is large enough, for every request of at most 1024 bytes.\<close>

lemma find_desc_least:
  assumes "classes_at base s" "sz \<le> 1024"
  shows "\<exists>i<DESC_CNT. find_desc base sz 0 DESC_CNT s = Inr i \<and> sz \<le> 16 * 2 ^ i \<and> (\<forall>j<i. 16 * 2 ^ j < sz)"
proof -
  let ?P = "\<lambda>j. sz \<le> 16 * 2 ^ j"
  have 6: "?P 6" using assms(2) by simp
  then have "\<exists>j. 0 \<le> j \<and> j < DESC_CNT \<and> ?P j" by (intro exI [of _ 6]) simp
  then have "find_desc base sz 0 DESC_CNT s = Inr (LEAST j. ?P j)"
    using find_desc_loop [OF assms(1), of 0 DESC_CNT sz] by simp
  moreover have "(LEAST j. ?P j) \<le> 6" by (rule Least_le) (rule 6)
  moreover have "?P (LEAST j. ?P j)" using 6 by (rule LeastI)
  moreover have "16 * 2 ^ j < sz" if "j < (LEAST j. ?P j)" for j using not_less_Least [OF that] by simp
  ultimately show ?thesis by (intro exI [of _ "LEAST j. ?P j"]) simp
qed

text \<open>Blocks lie inside their page, behind the header, and \<open>block2arena\<close> finds the header again.\<close>

lemma block_in_page:
  assumes "k < blocks_per_arena (class_desc i)"
  shows "block_at a (block_size (class_desc i)) k + block_size (class_desc i) \<le> a + PG_SIZE"
proof -
  let ?n = "16 * 2 ^ i :: nat"
  have "k + 1 \<le> 4084 div ?n" using assms by (simp add: class_desc_def)
  then have "(k + 1) * ?n \<le> 4084" by (meson div_times_less_eq_dividend le_trans mult_le_mono1)
  then show ?thesis by (simp add: block_at_def class_desc_def)
qed

lemma block2arena_nat:
  assumes "b < 2 ^ 32"
  shows "block2arena b = b div PG_SIZE * PG_SIZE"
proof -
  let ?w = "of_nat b :: u32"
  let ?n = "b div PG_SIZE * PG_SIZE"
  have n: "?n < 2 ^ 32" using assms by (meson div_times_less_eq_dividend le_less_trans)
  have "bit (?w AND 0xfffff000) k = bit (of_nat ?n :: u32) k" for k
  proof -
    have w: "bit (of_nat m :: u32) k \<longleftrightarrow> k < 32 \<and> bit m k" for m :: nat by (simp add: bit_simps)
    have "?n = push_bit 12 (drop_bit 12 b)" by (simp add: push_bit_eq_mult drop_bit_eq_div)
    then have nb: "bit ?n k \<longleftrightarrow> 12 \<le> k \<and> bit b k" by (auto simp: bit_simps)
    show ?thesis unfolding frame_def [symmetric] frame_bit w nb by blast
  qed
  then have "?w AND 0xfffff000 = of_nat ?n" by (intro bit_eqI)
  then show ?thesis unfolding block2arena_def by (simp only: unat_u32 [OF n])
qed

lemma block2arena_block:
  assumes "PG_SIZE dvd a" "a + PG_SIZE \<le> 2 ^ 32" "k < blocks_per_arena (class_desc i)"
  shows "block2arena (block_at a (block_size (class_desc i)) k) = a"
proof -
  let ?b = "block_at a (block_size (class_desc i)) k"
  have "0 < block_size (class_desc i)" by (simp add: class_desc_def)
  then have in_page: "?b < a + PG_SIZE" "a \<le> ?b"
    using block_in_page [OF assms(3), of a] by (linarith, simp add: block_at_def)
  then have "?b div PG_SIZE = a div PG_SIZE" using assms(1) by (auto elim!: dvdE)
  then show ?thesis using block2arena_nat [of ?b] in_page assms(1,2) by simp
qed

section \<open>Splitting and dissolving an arena\<close>

lemma same_but_links_kmem:
  fixes s :: "'a kmem_scheme"
  assumes "same_but_links s t"
  shows "arenas t = arenas s" "descs_at t = descs_at s" "ram t = ram s" "tcb t = tcb s" "esp t = esp s"
    "sema_value t = sema_value s" "lock_holder t = lock_holder s" "holder_repeat_nr t = holder_repeat_nr s"
    "kernel_pool_lock t = kernel_pool_lock s" "user_pool_lock t = user_pool_lock s"
  using assms by (auto simp: same_but_links_def)

lemma block_at_inj: "0 < n \<Longrightarrow> block_at a n j = block_at a n k \<longleftrightarrow> j = k"
  by (simp add: block_at_def)

lemma arena2block_eq:
  assumes "arenas s a = Some y" "descs_at s (desc y) = Some x"
  shows "arena2block a k s = Inr (block_at a (block_size x) k)"
  using assms by (simp add: arena2block_def get_arena_def get_desc_def block_at_def)

lemma split_arena_rep:
  fixes s :: "'a kmem_scheme"
  assumes "lists_rep s L" "arenas s a = Some y" "descs_at s (desc y) = Some x" "0 < block_size x"
    and "L (free_list (desc y)) = Some xs"
    and "\<forall>k. i \<le> k \<and> k < i + n \<longrightarrow> detached s L (block_at a (block_size x) k)"
  shows "\<exists>t. split_arena a i n s = Inr t \<and> same_but_links s t
    \<and> lists_rep t (L(free_list (desc y) \<mapsto> xs @ map (block_at a (block_size x)) [i..<i + n]))"
  using assms
proof (induction n arbitrary: i s L xs)
  case 0
  then show ?case by (intro exI [of _ s]) (simp add: same_but_links_refl fun_upd_idem)
next
  case (Suc n)
  let ?l = "free_list (desc y)"
  let ?b = "block_at a (block_size x)"
  have d: "detached s L (?b i)" using Suc.prems(6) by simp
  have "?b i \<notin> set xs" using detached_not_in [OF d Suc.prems(5)] by (simp add: nodes_def)
  then have f: "elem_find ?l (?b i) s = Inr False" using elem_find_rep [OF Suc.prems(1,5)] by simp
  obtain t where t: "list_append ?l (?b i) s = Inr t" "lists_rep t (L(?l \<mapsto> xs @ [?b i]))" "same_but_links s t"
    using list_append_rep [OF Suc.prems(1,5) d] by blast
  note k = same_but_links_kmem [OF t(3)]
  have "\<forall>k. Suc i \<le> k \<and> k < Suc i + n \<longrightarrow> detached t (L(?l \<mapsto> xs @ [?b i])) (?b k)"
  proof (intro allI impI)
    fix k assume k: "Suc i \<le> k \<and> k < Suc i + n"
    then have dk: "detached s L (?b k)" using Suc.prems(6) by simp
    have "?b k \<notin> set (xs @ [?b i])"
      using detached_not_in [OF dk Suc.prems(5)] k block_at_inj [OF Suc.prems(4), of a k i] by (simp add: nodes_def)
    then show "detached t (L(?l \<mapsto> xs @ [?b i])) (?b k)" by (rule detached_keeps [OF dk t(3) Suc.prems(5)])
  qed
  note rest = this
  have ax: "arenas t a = Some y" "descs_at t (desc y) = Some x" using Suc.prems(2,3) k by simp_all
  obtain u where u: "split_arena a (Suc i) n t = Inr u" "same_but_links t u"
    "lists_rep u (L(?l \<mapsto> (xs @ [?b i]) @ map ?b [Suc i..<Suc i + n]))"
    using Suc.IH [OF t(2) ax Suc.prems(4) fun_upd_same rest] unfolding fun_upd_upd by blast
  have "[i..<i + Suc n] = i # [Suc i..<Suc i + n]" by (simp add: upt_conv_Cons)
  then have "lists_rep u (L(?l \<mapsto> xs @ map ?b [i..<i + Suc n]))" using u(3) by simp
  moreover have "split_arena a i (Suc n) s = Inr u"
    using Suc.prems(2,3) f t(1) u(1) by (simp add: arena2block_eq) (simp add: get_arena_def)
  ultimately show ?case using same_but_links_trans [OF t(3) u(2)] by blast
qed

lemma drop_blocks_rep:
  fixes s :: "'a kmem_scheme"
  assumes "lists_rep s L" "arenas s a = Some y" "descs_at s (desc y) = Some x" "0 < block_size x"
    and "L (free_list (desc y)) = Some xs" "block_at a (block_size x) ` {i..<i + n} \<subseteq> set xs"
  shows "\<exists>t. drop_blocks a i n s = Inr t \<and> same_but_links s t
    \<and> lists_rep t (L(free_list (desc y) \<mapsto> filter (\<lambda>b. b \<notin> block_at a (block_size x) ` {i..<i + n}) xs))"
  using assms
proof (induction n arbitrary: i s L xs)
  case 0
  then show ?case by (intro exI [of _ s]) (simp add: same_but_links_refl fun_upd_idem)
next
  case (Suc n)
  let ?l = "free_list (desc y)"
  let ?b = "block_at a (block_size x)"
  have "?b i \<in> set xs" using Suc.prems(6) by auto
  then have f: "elem_find ?l (?b i) s = Inr True" using elem_find_rep [OF Suc.prems(1,5)] by simp
  obtain us vs where xs: "xs = us @ ?b i # vs" using \<open>?b i \<in> set xs\<close> by (auto dest: split_list)
  have dist: "distinct xs" using dll_distinct [OF lists_repD(2) [OF Suc.prems(1,5)]] .
  obtain t where t: "list_remove (?b i) s = Inr t" "lists_rep t (L(?l \<mapsto> us @ vs))" "same_but_links s t"
    using remove_rep [OF Suc.prems(1), of ?l us "?b i" vs] Suc.prems(5) xs by auto
  note k = same_but_links_kmem [OF t(3)]
  have sub: "?b ` {Suc i..<Suc i + n} \<subseteq> set (us @ vs)"
  proof
    fix z assume "z \<in> ?b ` {Suc i..<Suc i + n}"
    then obtain m where m: "z = ?b m" "Suc i \<le> m" "m < Suc i + n" by auto
    then have "z \<in> set xs" "z \<noteq> ?b i" using Suc.prems(6) block_at_inj [OF Suc.prems(4), of a m i] by auto
    then show "z \<in> set (us @ vs)" using xs by auto
  qed
  have ax: "arenas t a = Some y" "descs_at t (desc y) = Some x" using Suc.prems(2,3) k by simp_all
  obtain u where u: "drop_blocks a (Suc i) n t = Inr u" "same_but_links t u"
    "lists_rep u (L(?l \<mapsto> filter (\<lambda>b. b \<notin> ?b ` {Suc i..<Suc i + n}) (us @ vs)))"
    using Suc.IH [OF t(2) ax Suc.prems(4) fun_upd_same sub] unfolding fun_upd_upd by blast
  have "{i..<i + Suc n} = insert i {Suc i..<Suc i + n}" by auto
  moreover have "?b i \<notin> set (us @ vs)" using dist xs by auto
  ultimately have "filter (\<lambda>b. b \<notin> ?b ` {i..<i + Suc n}) xs = filter (\<lambda>b. b \<notin> ?b ` {Suc i..<Suc i + n}) (us @ vs)"
    unfolding xs by (auto intro!: arg_cong2 [where f = append] filter_cong)
  moreover have "drop_blocks a i (Suc n) s = Inr u"
    using Suc.prems(2,3) f t(1) u(1) by (simp add: arena2block_eq) (simp add: get_arena_def)
  ultimately show ?case using u(3) same_but_links_trans [OF t(3) u(2)] by metis
qed

section \<open>The kernel heap\<close>

abbreviation class_size :: "nat \<Rightarrow> nat" where
  "class_size i \<equiv> 16 * 2 ^ i"

text \<open>
  A block of class \<open>i\<close>: a slot of an arena of that class. Of the nodes of all lists, only the block's own
  can lie in its memory.
\<close>

definition slot_of :: "'a kmem_scheme \<Rightarrow> nat \<Rightarrow> nat \<Rightarrow> nat \<Rightarrow> bool" where
  "slot_of s i b a \<longleftrightarrow> (\<exists>y. arenas s a = Some y \<and> desc y = desc_at (k_block_descs s) i) \<and> PG_SIZE dvd a \<and> 0 < a
     \<and> a + PG_SIZE \<le> 2 ^ 32 \<and> (\<exists>k<blocks_per_arena (class_desc i). b = block_at a (class_size i) k)"

definition unshared :: "(nat \<rightharpoonup> nat list) \<Rightarrow> nat \<Rightarrow> nat \<Rightarrow> bool" where
  "unshared L b n \<longleftrightarrow> (\<forall>l xs m. L l = Some xs \<longrightarrow> m \<in> set (nodes l xs) \<longrightarrow> \<not> (b < m \<and> m < b + n))"

definition good_block :: "'a kmem_scheme \<Rightarrow> (nat \<rightharpoonup> nat list) \<Rightarrow> nat \<Rightarrow> nat \<Rightarrow> bool" where
  "good_block s L i b \<longleftrightarrow> (\<exists>a. slot_of s i b a) \<and> unshared L b (class_size i)"

definition live_block :: "'a kmem_scheme \<Rightarrow> (nat \<rightharpoonup> nat list) \<Rightarrow> nat \<Rightarrow> nat \<Rightarrow> bool" where
  "live_block s L i b \<longleftrightarrow> good_block s L i b \<and> detached s L b"

definition class_list :: "'a kmem_scheme \<Rightarrow> nat \<Rightarrow> nat" where
  "class_list s i = free_list (desc_at (k_block_descs s) i)"

definition kernel_thread_runs :: "'a sched_scheme \<Rightarrow> bool" where
  "kernel_thread_runs s \<longleftrightarrow> running_thread s \<noteq> 0 \<and> (\<exists>cur. tcb s (running_thread s) = Some cur \<and> pgdir cur = 0)"

definition kernel_heap :: "'a kmem_scheme \<Rightarrow> (nat \<rightharpoonup> nat list) \<Rightarrow> bool" where
  "kernel_heap s L \<longleftrightarrow> lists_rep s L \<and> classes_at (k_block_descs s) s \<and> 0 < k_block_descs s \<and> kernel_thread_runs s
     \<and> lock_free (kernel_pool_lock s) s \<and> L (waiters (lock_sema (kernel_pool_lock s))) = Some []
     \<and> (\<forall>i<DESC_CNT. class_list s i \<noteq> waiters (lock_sema (kernel_pool_lock s))
          \<and> (\<exists>bs. L (class_list s i) = Some bs \<and> (\<forall>b\<in>set bs. good_block s L i b)))"

lemma slot_block2arena: "slot_of s i b a \<Longrightarrow> block2arena b = a"
  using block2arena_block [of a _ i] by (auto simp: slot_of_def class_desc_def)

lemma slot_bounds:
  assumes "slot_of s i b a"
  shows "a < b" "b + class_size i \<le> a + PG_SIZE"
  using assms block_in_page [of _ i a] by (auto simp: slot_of_def block_at_def class_desc_def)

lemma slots_disjoint:
  assumes "slot_of s i b a" "slot_of s j c a'" "b \<noteq> c"
  shows "\<not> (c < b \<and> b < c + class_size j)"
proof (cases "a = a'")
  case True
  then have ij: "i = j" using assms by (auto simp: slot_of_def)
  obtain k m where km: "b = block_at a (class_size i) k" "c = block_at a (class_size i) m"
    using assms True ij by (auto simp: slot_of_def)
  show ?thesis
  proof
    assume "c < b \<and> b < c + class_size j"
    then have "m * class_size i < k * class_size i" "k * class_size i < (m + 1) * class_size i"
      using ij km by (simp_all add: block_at_def)
    then have "m < k" "k < m + 1" by (meson mult_less_cancel2)+
    then show False by simp
  qed
next
  case False
  obtain x x' where "a = PG_SIZE * x" "a' = PG_SIZE * x'" using assms by (auto simp: slot_of_def elim!: dvdE)
  then have "a + PG_SIZE \<le> a' \<or> a' + PG_SIZE \<le> a" using False by (cases "x < x'") auto
  then show ?thesis using slot_bounds [OF assms(1)] slot_bounds [OF assms(2)] by auto
qed

lemma memset_rep:
  assumes "lists_rep s L" "unshared L b n" "detached s L b" "0 < b"
  shows "lists_rep (memset_block b n s) L" "detached (memset_block b n s) L b"
proof -
  have out: "elems (memset_block b n s) m = elems s m" if "L l = Some xs" "m \<in> set (nodes l xs)" for l xs m
  proof -
    have "m \<noteq> b" using assms(3) that by (auto simp: detached_def)
    moreover have "\<not> (b < m \<and> m < b + n)" using assms(2) that unfolding unshared_def by blast
    ultimately show ?thesis by (auto simp: memset_block_def)
  qed
  have "dll (elems (memset_block b n s)) l xs" if "L l = Some xs" for l xs
    using dll_frame [OF lists_repD(2) [OF assms(1) that]] out [OF that] by blast
  moreover have "elems (memset_block b n s) 0 = None"
    using lists_repD(1) [OF assms(1)] assms(4) by (simp add: memset_block_def)
  ultimately show "lists_rep (memset_block b n s) L"
    using lists_repD(3) [OF assms(1)] unfolding lists_rep_def by blast
  show "detached (memset_block b n s) L b" using assms(3) by (auto simp: detached_def memset_block_def)
qed

lemma unshared_fewer:
  assumes "unshared L b n" "L l = Some xs" "set ys \<subseteq> set xs"
  shows "unshared (L(l \<mapsto> ys)) b n"
  unfolding unshared_def
proof (intro allI impI)
  fix l' zs m assume z: "(L(l \<mapsto> ys)) l' = Some zs" "m \<in> set (nodes l' zs)"
  then obtain ws where "L l' = Some ws" "m \<in> set (nodes l' ws)"
    using assms(2,3) by (cases "l' = l") (auto simp: nodes_def)
  then show "\<not> (b < m \<and> m < b + n)" using assms(1) unfolding unshared_def by blast
qed

lemma unshared_more:
  assumes "unshared L b n" "L l = Some xs" "\<not> (b < c \<and> c < b + n)"
  shows "unshared (L(l \<mapsto> xs @ [c])) b n"
  unfolding unshared_def
proof (intro allI impI)
  fix l' zs m assume z: "(L(l \<mapsto> xs @ [c])) l' = Some zs" "m \<in> set (nodes l' zs)"
  then have "m = c \<or> (\<exists>ws. L l' = Some ws \<and> m \<in> set (nodes l' ws))"
    using assms(2) by (cases "l' = l") (auto simp: nodes_def)
  then show "\<not> (b < m \<and> m < b + n)" using assms(1,3) unfolding unshared_def by blast
qed

text \<open>The fields the heap operations leave alone.\<close>

definition heap_frame :: "'a kmem_scheme \<Rightarrow> 'a kmem_scheme \<Rightarrow> bool" where
  "heap_frame s t \<longleftrightarrow> (\<exists>h m g. t = s\<lparr>elems := h, ram := m, arenas := g\<rparr>)"

lemma heap_frame_eq:
  assumes "heap_frame s t"
  shows "k_block_descs t = k_block_descs s" "descs_at t = descs_at s" "running_thread t = running_thread s"
    "tcb t = tcb s" "kernel_pool_lock t = kernel_pool_lock s" "sema_value t = sema_value s"
    "lock_holder t = lock_holder s" "holder_repeat_nr t = holder_repeat_nr s" "eflags t = eflags s"
    "class_list t i = class_list s i"
  using assms by (auto simp: heap_frame_def running_thread_def class_list_def)

text \<open>The list operations in between taking and releasing the lock of the pool.\<close>

lemma with_pool_lock:
  fixes s :: "'a kmem_scheme"
  assumes f: "lock_free l s" and r: "running_thread s \<noteq> 0"
    and h: "heap_frame (locked l s) u" and e: "list_empty (waiters (lock_sema l)) u = Inr True"
  shows "lock_release l u = Inr (s\<lparr>elems := elems u, ram := ram u, arenas := arenas u\<rparr>)"
proof -
  note hf = heap_frame_eq [OF h]
  have "lock_holder u l = running_thread u" "holder_repeat_nr u l = 1" "sema_value u (lock_sema l) = 0"
    using hf by (simp_all add: locked_def set_value_def set_holder_def set_repeat_def running_thread_def)
  then have "lock_release l u = Inr (unlocked l u)" using e by (rule lock_release_alone)
  moreover have "unlocked l u = s\<lparr>elems := elems u, ram := ram u, arenas := arenas u\<rparr>"
  proof -
    obtain h m g where "u = (locked l s)\<lparr>elems := h, ram := m, arenas := g\<rparr>" using h unfolding heap_frame_def by blast
    then show ?thesis using f
      by (simp add: unlocked_def locked_def lock_free_def set_value_def set_holder_def set_repeat_def fun_upd_idem)
  qed
  ultimately show ?thesis by simp
qed

lemma kernel_heapD:
  assumes "kernel_heap s L"
  shows "lists_rep s L" "classes_at (k_block_descs s) s" "kernel_thread_runs s" "lock_free (kernel_pool_lock s) s"
    "L (waiters (lock_sema (kernel_pool_lock s))) = Some []" "0 < k_block_descs s"
    "i < DESC_CNT \<Longrightarrow> class_list s i \<noteq> waiters (lock_sema (kernel_pool_lock s))"
    "i < DESC_CNT \<Longrightarrow> \<exists>bs. L (class_list s i) = Some bs \<and> (\<forall>b\<in>set bs. good_block s L i b)"
  using assms by (simp_all add: kernel_heap_def)

text \<open>The heap stays well-formed when one class list changes and every block keeps its memory to itself.\<close>

lemma kernel_heap_update:
  fixes s :: "'a kmem_scheme"
  assumes h: "kernel_heap s L" and i: "i < DESC_CNT"
    and t: "t = s\<lparr>elems := elems t, ram := ram t, arenas := arenas t\<rparr>" and rep: "lists_rep t (L(class_list s i \<mapsto> bs))"
    and sl: "\<And>j c a. slot_of t j c a = slot_of s j c a"
    and un: "\<And>j c a. slot_of s j c a \<Longrightarrow> unshared L c (class_size j) \<Longrightarrow> unshared (L(class_list s i \<mapsto> bs)) c (class_size j)"
    and bs: "\<forall>b\<in>set bs. good_block s L i b"
  shows "kernel_heap t (L(class_list s i \<mapsto> bs))" "good_block s L j c \<Longrightarrow> good_block t (L(class_list s i \<mapsto> bs)) j c"
proof -
  let ?L = "L(class_list s i \<mapsto> bs)" and ?w = "waiters (lock_sema (kernel_pool_lock s))"
  have f: "k_block_descs t = k_block_descs s" "descs_at t = descs_at s" "running_thread t = running_thread s" "tcb t = tcb s"
    "kernel_pool_lock t = kernel_pool_lock s" "sema_value t = sema_value s" "lock_holder t = lock_holder s"
    "holder_repeat_nr t = holder_repeat_nr s" "class_list t j = class_list s j" for j
    by (subst t, simp add: running_thread_def class_list_def)+
  have gb: "good_block t ?L j c" if "good_block s L j c" for j c
    using that un sl by (auto simp: good_block_def)
  then show "good_block s L j c \<Longrightarrow> good_block t ?L j c" .
  have w: "?L ?w = Some []" using kernel_heapD(5) [OF h] kernel_heapD(7) [OF h i] by (simp add: eq_commute)
  then have "lock_free (kernel_pool_lock s) t"
    using kernel_heapD(4) [OF h] list_empty_rep [OF rep w] by (simp add: lock_free_def f)
  moreover have "\<exists>bs. ?L (class_list s j) = Some bs \<and> (\<forall>c\<in>set bs. good_block t ?L j c)" if "j < DESC_CNT" for j
  proof (cases "j = i")
    case True
    then show ?thesis using bs gb by auto
  next
    case False
    then have "class_list s j \<noteq> class_list s i" by (simp add: class_list_def free_list_def)
    then show ?thesis using kernel_heapD(8) [OF h that] gb by auto
  qed
  ultimately show "kernel_heap t ?L" using kernel_heapD [OF h] rep w
    by (simp add: kernel_heap_def f classes_at_def kernel_thread_runs_def)
qed

text \<open>Taking the first block of a class.\<close>

lemma take_block_first:
  fixes s :: "'a kmem_scheme"
  assumes rep: "lists_rep s L" and cl: "classes_at (k_block_descs s) s" "i < DESC_CNT" and b: "L (class_list s i) = Some (b # bs)"
    and a: "slot_of s i b a" "unshared L b (class_size i)" "arenas s a = Some y"
  shows "\<exists>t. take_block (desc_at (k_block_descs s) i) s = Inr (b, t) \<and> lists_rep t (L(class_list s i \<mapsto> bs))
    \<and> detached t (L(class_list s i \<mapsto> bs)) b \<and> heap_frame s t \<and> arenas t = (arenas s)(a \<mapsto> y\<lparr>cnt := cnt y - 1\<rparr>)
    \<and> ram t = (\<lambda>m. if b \<le> m \<and> m < b + class_size i then Some 0 else ram s m)"
proof -
  let ?L = "L(class_list s i \<mapsto> bs)"
  obtain s2 where s2: "list_pop (class_list s i) s = Inr (b, s2)" "lists_rep s2 ?L" "detached s2 ?L b" "same_but_links s s2"
    using list_pop_rep [OF rep b] by blast
  let ?s3 = "memset_block b (class_size i) s2"
  let ?s4 = "set_arena a (y\<lparr>cnt := cnt y - 1\<rparr>) ?s3"
  note k2 = same_but_links_kmem [OF s2(4)]
  have "unshared ?L b (class_size i)" using unshared_fewer [OF a(2) b] by auto
  then have "lists_rep ?s3 ?L" "detached ?s3 ?L b"
    using memset_rep [OF s2(2) _ s2(3)] slot_bounds(1) [OF a(1)] by auto
  then have "lists_rep ?s4 ?L" "detached ?s4 ?L b" by (simp_all add: lists_rep_def detached_def set_arena_def)
  moreover have "take_block (desc_at (k_block_descs s) i) s = Inr (b, ?s4)"
    using s2(1) cl k2 a(3) slot_block2arena [OF a(1)]
    by (simp add: take_block_def class_list_def get_desc_def get_arena_def classes_at_def class_desc_def memset_block_def Let_def)
  moreover have "heap_frame s ?s4"
  proof -
    obtain h where "s2 = s\<lparr>elems := h\<rparr>" using s2(4) unfolding same_but_links_def by blast
    then have "?s4 = s\<lparr>elems := elems ?s4, ram := ram ?s4, arenas := arenas ?s4\<rparr>"
      by (simp add: memset_block_def set_arena_def)
    then show ?thesis unfolding heap_frame_def by blast
  qed
  moreover have "arenas ?s4 = (arenas s)(a \<mapsto> y\<lparr>cnt := cnt y - 1\<rparr>)" using k2 by (simp add: set_arena_def memset_block_def)
  moreover have "ram ?s4 = (\<lambda>m. if b \<le> m \<and> m < b + class_size i then Some 0 else ram s m)"
    using k2 by (simp add: set_arena_def memset_block_def fun_eq_iff)
  ultimately show ?thesis by blast
qed

text \<open>
  C8. A request of a kernel thread for which class \<open>i\<close> is the smallest that is large enough, when the free
  list of that class is not empty: \<open>sys_malloc\<close> returns the first block of that list, takes it off, clears its memory and no other, counts it in its arena, and leaves the heap well-formed
  and the pool's lock free.
\<close>

theorem sys_malloc_takes_first:
  assumes "kernel_heap s L" "0 < sz" "sz < unat (pool_size (kernel_pool s))"
    and i: "i < DESC_CNT" "sz \<le> class_size i" "\<forall>j<i. class_size j < sz" and b: "L (class_list s i) = Some (b # bs)"
  shows "\<exists>a y t. sys_malloc sz s = Inr (b, t) \<and> kernel_heap t (L(class_list s i \<mapsto> bs))
    \<and> live_block t (L(class_list s i \<mapsto> bs)) i b \<and> slot_of s i b a \<and> arenas s a = Some y
    \<and> arenas t = (arenas s)(a \<mapsto> y\<lparr>cnt := cnt y - 1\<rparr>)
    \<and> ram t = (\<lambda>m. if b \<le> m \<and> m < b + class_size i then Some 0 else ram s m)"
proof -
  let ?l = "kernel_pool_lock s" and ?s1 = "locked (kernel_pool_lock s) s"
  note h = kernel_heapD [OF assms(1)]
  have r0: "running_thread s \<noteq> 0" using h(3) by (simp add: kernel_thread_runs_def)
  let ?f = "class_list s i"
  let ?L = "L(?f \<mapsto> bs)"
  have sz: "sz \<le> 1024" using i(1,2) power_increasing [of i 6 "2 :: nat"] by simp
  have fd: "find_desc (k_block_descs s) sz 0 DESC_CNT ?s1 = Inr i"
    using find_desc_least [of "k_block_descs s" ?s1 sz] h(2) sz i by (auto simp: classes_at_def) (metis leD linorder_neqE_nat)
  have gb: "\<forall>c\<in>set (b # bs). good_block s L i c" using h(8) [OF i(1)] b by auto
  obtain a where a: "slot_of s i b a" and un: "unshared L b (class_size i)" using gb by (auto simp: good_block_def)
  then obtain y where y: "arenas s a = Some y" "desc y = desc_at (k_block_descs s) i" by (auto simp: slot_of_def)
  have s1: "lists_rep ?s1 L" "classes_at (k_block_descs ?s1) ?s1" "class_list ?s1 i = ?f" "slot_of ?s1 i b a"
    using h(1,2) a by (simp_all add: lists_rep_def classes_at_def class_list_def slot_of_def)
  obtain u where u: "take_block (desc_at (k_block_descs s) i) ?s1 = Inr (b, u)" "lists_rep u ?L" "detached u ?L b"
    "heap_frame ?s1 u" "arenas u = (arenas s)(a \<mapsto> y\<lparr>cnt := cnt y - 1\<rparr>)"
    "ram u = (\<lambda>m. if b \<le> m \<and> m < b + class_size i then Some 0 else ram s m)"
    using take_block_first [OF s1(1,2) i(1) _ s1(4) un, of bs y] b y(1) by (auto simp: s1(3) cong: if_cong)
  have e: "list_empty (waiters (lock_sema ?l)) u = Inr True" using list_empty_rep [OF u(2)] h(5) h(7) [OF i(1)] by simp
  let ?t = "s\<lparr>elems := elems u, ram := ram u, arenas := arenas u\<rparr>"
  have rel: "lock_release (pool_lock PF_KERNEL u) u = Inr ?t"
    using with_pool_lock [OF h(4) r0 u(4) e] heap_frame_eq(5) [OF u(4)] by simp
  have "list_empty ?f ?s1 = Inr False" using list_empty_rep [OF s1(1) b] by simp
  then have "sys_malloc sz s = Inr (b, ?t)"
    using h(3) acquire_now_free [OF h(4) r0] fd u(1) rel assms(2,3) sz
    by (auto simp: sys_malloc_def kernel_thread_runs_def get_task_def malloc_small_def class_list_def Let_def)
  moreover have rt: "lists_rep ?t ?L" using u(2) by (simp add: lists_rep_def)
  have sl: "slot_of ?t j c a' = slot_of s j c a'" for j c a' using y u(5) by (auto simp: slot_of_def)
  have un': "unshared ?L c n" if "unshared L c n" for c n using unshared_fewer [OF that b] by auto
  have bs: "\<forall>c\<in>set bs. good_block s L i c" using gb by simp
  have k: "kernel_heap ?t ?L" "good_block ?t ?L i b"
    using kernel_heap_update [OF assms(1) i(1) _ rt sl un' bs] gb by auto
  moreover have "live_block ?t ?L i b" using k(2) u(3) by (simp add: live_block_def detached_def)
  moreover have "arenas ?t = (arenas s)(a \<mapsto> y\<lparr>cnt := cnt y - 1\<rparr>)"
    "ram ?t = (\<lambda>m. if b \<le> m \<and> m < b + class_size i then Some 0 else ram s m)" using u(5,6) by simp_all
  ultimately show ?thesis using a y(1) by blast
qed

text \<open>
  C9. \<open>sys_free\<close> of a block in use, not the last one of its arena, appends the block to the free list of its
  class and counts it in its arena; memory contents and the rest of the heap stay as they were, the heap
  is well-formed and the lock free again.
\<close>

theorem sys_free_appends:
  assumes "kernel_heap s L" "i < DESC_CNT" "live_block s L i b" "K_HEAP_START \<le> b" "slot_of s i b a" "arenas s a = Some y"
    and "cnt y + 1 \<noteq> of_nat (blocks_per_arena (class_desc i))"
  shows "\<exists>bs t. L (class_list s i) = Some bs \<and> sys_free b s = Inr t \<and> kernel_heap t (L(class_list s i \<mapsto> bs @ [b]))
    \<and> arenas t = (arenas s)(a \<mapsto> y\<lparr>cnt := cnt y + 1\<rparr>) \<and> ram t = ram s"
proof -
  let ?l = "kernel_pool_lock s" and ?s1 = "locked (kernel_pool_lock s) s" and ?f = "class_list s i"
  note h = kernel_heapD [OF assms(1)]
  have r0: "running_thread s \<noteq> 0" using h(3) by (simp add: kernel_thread_runs_def)
  obtain bs where bs: "L ?f = Some bs" "\<forall>c\<in>set bs. good_block s L i c" using h(8) [OF assms(2)] by blast
  let ?L = "L(?f \<mapsto> bs @ [b])"
  have y: "desc y = desc_at (k_block_descs s) i" "desc y \<noteq> 0"
    using assms(5,6) h(6) by (auto simp: slot_of_def desc_at_def)
  have s1: "lists_rep ?s1 L" "detached ?s1 L b" using h(1) assms(3) by (simp_all add: lists_rep_def live_block_def detached_def)
  obtain s2 where s2: "list_append ?f b ?s1 = Inr s2" "lists_rep s2 ?L" "same_but_links ?s1 s2"
    using list_append_rep [OF s1(1) bs(1) s1(2)] by blast
  note k2 = same_but_links_kmem [OF s2(3)]
  let ?u = "set_arena a (y\<lparr>cnt := cnt y + 1\<rparr>) s2"
  have b2: "block2arena b = a" by (rule slot_block2arena [OF assms(5)])
  have fs: "free_small PF_KERNEL b ?s1 = Inr ?u"
    using s2(1) assms(2,6,7) y(1) h(2) b2 k2(2)
    by (simp add: free_small_def get_arena_def get_desc_def class_list_def classes_at_def set_arena_def Let_def)
  have hf: "heap_frame ?s1 ?u"
  proof -
    obtain g where "s2 = ?s1\<lparr>elems := g\<rparr>" using s2(3) unfolding same_but_links_def by blast
    then have "?u = ?s1\<lparr>elems := elems ?u, ram := ram ?u, arenas := arenas ?u\<rparr>" by (simp add: set_arena_def)
    then show ?thesis unfolding heap_frame_def by blast
  qed
  have ru: "lists_rep ?u ?L" using s2(2) by (simp add: lists_rep_def set_arena_def)
  have e: "list_empty (waiters (lock_sema ?l)) ?u = Inr True"
    using list_empty_rep [OF ru] h(5) h(7) [OF assms(2)] by simp
  let ?t = "s\<lparr>elems := elems ?u, ram := ram ?u, arenas := arenas ?u\<rparr>"
  have rel: "lock_release (pool_lock PF_KERNEL ?u) ?u = Inr ?t"
    using with_pool_lock [OF h(4) r0 hf e] heap_frame_eq(5) [OF hf] by simp
  have "sys_free b s = Inr ?t"
    using h(3) acquire_now_free [OF h(4) r0] fs rel assms(4,6) b2 y(2)
    by (auto simp: sys_free_def kernel_thread_runs_def get_task_def get_arena_def Let_def)
  moreover have at: "arenas ?t = (arenas s)(a \<mapsto> y\<lparr>cnt := cnt y + 1\<rparr>)" "ram ?t = ram s"
    using k2 by (simp_all add: set_arena_def)
  moreover have "kernel_heap ?t ?L"
  proof (rule kernel_heap_update(1) [OF assms(1,2)])
    show "slot_of ?t j c a' = slot_of s j c a'" for j c a' using y(1) assms(6) at(1) by (auto simp: slot_of_def)
    show "unshared ?L c (class_size j)" if "slot_of s j c a'" "unshared L c (class_size j)" for j c a'
      using slots_disjoint [OF assms(5) that(1)] by (intro unshared_more [OF that(2) bs(1)]) auto
    show "\<forall>c\<in>set (bs @ [b]). good_block s L i c" using bs(2) assms(3) by (simp add: live_block_def)
    show "lists_rep ?t ?L" using ru by (simp add: lists_rep_def)
  qed simp
  ultimately show ?thesis using bs(1) by blast
qed

section \<open>A concrete heap\<close>

text \<open>
  Seven descriptors at address 1000, an arena at the start of the kernel heap whose first block is free
  and whose second block is in use.
\<close>

definition demo_lists :: "nat \<rightharpoonup> nat list" where
  "demo_lists = [508 \<mapsto> [], 1008 \<mapsto> [0xc010000c], 1032 \<mapsto> [], 1056 \<mapsto> [], 1080 \<mapsto> [], 1104 \<mapsto> [], 1128 \<mapsto> [], 1152 \<mapsto> []]"

fun empty_list :: "nat \<Rightarrow> (nat \<rightharpoonup> list_elem) \<Rightarrow> (nat \<rightharpoonup> list_elem)" where
  "empty_list l h = h(l \<mapsto> \<lparr>prev = 0, next = l + 8\<rparr>, l + 8 \<mapsto> \<lparr>prev = l, next = 0\<rparr>)"

definition demo_links :: "nat \<rightharpoonup> list_elem" where
  "demo_links = (fold empty_list [508, 1032, 1056, 1080, 1104, 1128, 1152] Map.empty)
     (1008 \<mapsto> \<lparr>prev = 0, next = 0xc010000c\<rparr>, 0xc010000c \<mapsto> \<lparr>prev = 1008, next = 1016\<rparr>,
      1016 \<mapsto> \<lparr>prev = 0xc010000c, next = 0\<rparr>, 0xc010001c \<mapsto> \<lparr>prev = 0, next = 0\<rparr>)"

definition demo_heap :: kmem where
  "demo_heap = demo_mem\<lparr>elems := demo_links, k_block_descs := 1000,
     descs_at := (\<lambda>d. if d \<in> set (map (desc_at 1000) [0..<7]) then Some (class_desc ((d - 1000) div 24)) else None),
     arenas := [0xc0100000 \<mapsto> \<lparr>desc = 1000, cnt = 1, large = False\<rparr>]\<rparr>"

lemma demo_heap_rep: "lists_rep demo_heap demo_lists"
proof -
  have e: "elems demo_heap = demo_links" by (simp add: demo_heap_def)
  have "dll demo_links l xs" if "demo_lists l = Some xs" for l xs
    using that by (auto simp: demo_lists_def dll_def nodes_def list_tail_def link_def nxt_def prv_def demo_links_def
        split: if_splits)
  moreover have "set (nodes l xs) \<inter> set (nodes l' xs') = {}"
    if "demo_lists l = Some xs" "demo_lists l' = Some xs'" "l \<noteq> l'" for l l' xs xs'
    using that by (auto simp: demo_lists_def nodes_def list_tail_def split: if_splits)
  moreover have "demo_links 0 = None" by (simp add: demo_links_def)
  ultimately show ?thesis unfolding lists_rep_def e by blast
qed

lemma demo_heap_fields:
  "k_block_descs demo_heap = 1000" "kernel_pool_lock demo_heap = 500" "running_thread demo_heap = 4096"
  "pool_size (kernel_pool demo_heap) = 0x8000" "class_list demo_heap i = 1008 + 24 * i"
  "arenas demo_heap 0xc0100000 = Some \<lparr>desc = 1000, cnt = 1, large = False\<rparr>"
  by (simp_all add: demo_heap_def demo_mem_def demo_io_def io.extend_def kmem.fields_def running_thread_def
      class_list_def free_list_def desc_at_def)

lemma demo_slot:
  "slot_of demo_heap 0 0xc010000c 0xc0100000" "slot_of demo_heap 0 0xc010001c 0xc0100000"
  unfolding slot_of_def demo_heap_fields
  by (auto simp: class_desc_def block_at_def desc_at_def intro: exI [of _ 0] exI [of _ 1])

lemma demo_unshared: "unshared demo_lists 0xc010000c 16" "unshared demo_lists 0xc010001c 16"
  by (auto simp: unshared_def demo_lists_def nodes_def list_tail_def split: if_splits)

lemma demo_heap_ok: "kernel_heap demo_heap demo_lists"
proof -
  have i7: "i \<in> {0, 1, 2, 3, 4, 5, 6}" if "i < DESC_CNT" for i using that by auto
  have "classes_at 1000 demo_heap" by (auto simp: classes_at_def demo_heap_def desc_at_def)
  moreover have "kernel_thread_runs demo_heap"
    unfolding kernel_thread_runs_def demo_heap_fields
    by (simp add: demo_heap_def demo_mem_def demo_io_def io.extend_def kmem.fields_def demo_sched_def demo_task_def)
  moreover have w: "waiters (lock_sema 500) = 508" by (simp add: waiters_def lock_sema_def)
  moreover have "lock_free 500 demo_heap"
    using list_empty_rep [OF demo_heap_rep, of 508 "[]"] w
    by (simp add: lock_free_def demo_lists_def)
      (simp add: demo_heap_def demo_mem_def demo_io_def io.extend_def kmem.fields_def)
  moreover have "\<exists>bs. demo_lists (1008 + 24 * i) = Some bs \<and> (\<forall>b\<in>set bs. good_block demo_heap demo_lists i b)"
    if "i < DESC_CNT" for i
    using i7 [OF that] demo_slot(1) demo_unshared(1)
    by (elim insertE; simp add: demo_lists_def good_block_def) (auto simp: demo_lists_def)
  ultimately show ?thesis unfolding kernel_heap_def demo_heap_fields using demo_heap_rep
    by (auto simp: demo_lists_def)
qed

theorem sys_malloc_takes_first_witness:
  "\<exists>a y t. sys_malloc 10 demo_heap = Inr (0xc010000c, t) \<and> kernel_heap t (demo_lists(class_list demo_heap 0 \<mapsto> []))
    \<and> live_block t (demo_lists(class_list demo_heap 0 \<mapsto> [])) 0 0xc010000c
    \<and> slot_of demo_heap 0 0xc010000c a \<and> arenas demo_heap a = Some y
    \<and> arenas t = (arenas demo_heap)(a \<mapsto> y\<lparr>cnt := cnt y - 1\<rparr>)
    \<and> ram t = (\<lambda>m. if 0xc010000c \<le> m \<and> m < 0xc010000c + class_size 0 then Some 0 else ram demo_heap m)"
  by (rule sys_malloc_takes_first [OF demo_heap_ok]) (simp_all add: demo_heap_fields, simp add: demo_lists_def)

theorem sys_free_appends_witness:
  "\<exists>bs t. demo_lists (class_list demo_heap 0) = Some bs \<and> sys_free 0xc010001c demo_heap = Inr t
    \<and> kernel_heap t (demo_lists(class_list demo_heap 0 \<mapsto> bs @ [0xc010001c]))
    \<and> arenas t = (arenas demo_heap)(0xc0100000 \<mapsto> \<lparr>desc = 1000, cnt = 1, large = False\<rparr>
        \<lparr>cnt := cnt \<lparr>desc = 1000, cnt = 1, large = False\<rparr> + 1\<rparr>) \<and> ram t = ram demo_heap"
proof (rule sys_free_appends [OF demo_heap_ok _ _ _ demo_slot(2) demo_heap_fields(6)])
  have "detached demo_heap demo_lists 0xc010001c"
    by (auto simp: detached_def demo_heap_def demo_links_def demo_lists_def nodes_def list_tail_def split: if_splits)
  then show "live_block demo_heap demo_lists 0 0xc010001c"
    using demo_slot(2) demo_unshared(2) by (auto simp: live_block_def good_block_def)
qed (simp_all add: class_desc_def)

section \<open>Initialisation\<close>

text \<open>The size classes are 16, 32, ..., 1024 bytes, with empty free lists.\<close>

definition class_nodes :: "nat \<Rightarrow> nat \<Rightarrow> nat list" where
  "class_nodes base j = nodes (free_list (desc_at base j)) []"

lemma class_nodes_disjoint: "j \<noteq> k \<Longrightarrow> set (class_nodes base j) \<inter> set (class_nodes base k) = {}"
  by (auto simp: class_nodes_def nodes_def list_tail_def free_list_def desc_at_def)

lemma block_desc_loop_classes:
  fixes s :: "'a kmem_scheme"
  assumes "i + n = DESC_CNT" "\<forall>j<DESC_CNT. set (class_nodes base j) \<subseteq> dom (elems s)"
    and "\<forall>j<i. descs_at s (desc_at base j) = Some (class_desc j) \<and> dll (elems s) (free_list (desc_at base j)) []"
  shows "\<exists>t. block_desc_loop base i (of_nat (class_size i)) n s = Inr t
    \<and> (\<forall>j<DESC_CNT. descs_at t (desc_at base j) = Some (class_desc j) \<and> dll (elems t) (free_list (desc_at base j)) [])"
  using assms
proof (induction n arbitrary: i s)
  case (Suc n)
  have i: "i < DESC_CNT" using Suc.prems(1) by simp
  then have "class_size i < 2 ^ 16" using power_increasing [of i 6 "2 :: nat"] by simp
  then have u: "unat (of_nat (class_size i) :: u16) = class_size i" by (simp only: unat_of_nat take_bit_nat_eq_self_iff) simp
  let ?d = "desc_at base i" and ?l = "free_list (desc_at base i)"
  let ?s = "s\<lparr>descs_at := (descs_at s)(?d \<mapsto> class_desc i)\<rparr>"
  obtain e f where "elems s ?l = Some e" "elems s (list_tail ?l) = Some f"
    using Suc.prems(2) i by (auto simp: class_nodes_def nodes_def)
  then obtain h where h: "list_init ?l ?s = Inr (?s\<lparr>elems := h\<rparr>)" "dll h ?l []" "local_update (nodes ?l []) (elems s) h"
    using dll_init [of ?s ?l e f] by auto
  let ?t = "?s\<lparr>elems := h\<rparr>"
  have "set (class_nodes base j) \<subseteq> dom (elems ?t)" if "j < DESC_CNT" for j
    using Suc.prems(2) that h(3) by (simp add: local_update_def)
  moreover have "descs_at ?t (desc_at base j) = Some (class_desc j) \<and> dll (elems ?t) (free_list (desc_at base j)) []"
    if "j < Suc i" for j
  proof (cases "j = i")
    case False
    then have o: "h a = elems s a" if "a \<in> set (nodes (free_list (desc_at base j)) [])" for a
      using h(3) class_nodes_disjoint [of j i base] that by (auto simp: local_update_def class_nodes_def)
    have "dll (elems s) (free_list (desc_at base j)) []" "descs_at s (desc_at base j) = Some (class_desc j)"
      using Suc.prems(3) that False by auto
    then show ?thesis using dll_frame [OF _ o] False by simp
  qed (use h(2) in simp)
  ultimately obtain t where t: "block_desc_loop base (Suc i) (of_nat (class_size (Suc i))) n ?t = Inr t"
    "\<forall>j<DESC_CNT. descs_at t (desc_at base j) = Some (class_desc j) \<and> dll (elems t) (free_list (desc_at base j)) []"
    using Suc.IH [of "Suc i" ?t] Suc.prems(1) by auto
  have cd: "\<lparr>block_size = unat (of_nat (class_size i) :: u16),
      blocks_per_arena = (PG_SIZE - ARENA_SIZE) div unat (of_nat (class_size i) :: u16)\<rparr> = class_desc i"
    unfolding u class_desc_def ..
  have "(of_nat (class_size i) :: u16) * 2 = of_nat (class_size (Suc i))" by simp
  then have "block_desc_loop base i (of_nat (class_size i)) (Suc n) s = Inr t"
    unfolding block_desc_loop.simps Let_def cd using h(1) t(1) by simp
  then show ?case using t(2) by blast
qed auto

text \<open>
  \<open>block_desc_init\<close> sets up the size classes 16, 32, ..., 1024 bytes with empty free lists; as many
  blocks as an arena of a class is said to hold do fit in its page behind the header, and from each of
  them \<open>block2arena\<close> leads back to the arena.
\<close>

theorem block_desc_init_classes:
  assumes "\<forall>j<DESC_CNT. set (class_nodes base j) \<subseteq> dom (elems s)"
  shows "\<exists>t. block_desc_init base s = Inr t \<and> classes_at base t
    \<and> (\<forall>j<DESC_CNT. dll (elems t) (free_list (desc_at base j)) []
        \<and> (\<forall>a k. PG_SIZE dvd a \<and> a + PG_SIZE \<le> 2 ^ 32 \<and> k < blocks_per_arena (class_desc j) \<longrightarrow>
             block_at a (class_size j) k + class_size j \<le> a + PG_SIZE \<and> block2arena (block_at a (class_size j) k) = a))"
proof -
  obtain t where t: "block_desc_loop base 0 (of_nat (class_size 0)) DESC_CNT s = Inr t"
    "\<forall>j<DESC_CNT. descs_at t (desc_at base j) = Some (class_desc j) \<and> dll (elems t) (free_list (desc_at base j)) []"
    using block_desc_loop_classes [of 0 DESC_CNT base s] assms by auto
  have "block_at a (class_size j) k + class_size j \<le> a + PG_SIZE \<and> block2arena (block_at a (class_size j) k) = a"
    if "PG_SIZE dvd a \<and> a + PG_SIZE \<le> 2 ^ 32 \<and> k < blocks_per_arena (class_desc j)" for a j k
    using block_in_page [of k j a] block2arena_block [of a k j] that by (simp add: class_desc_def)
  then show ?thesis using t by (auto simp: block_desc_init_def classes_at_def)
qed

theorem block_desc_init_classes_witness:
  "\<exists>t. block_desc_init 1000 demo_heap = Inr t \<and> classes_at 1000 t
    \<and> (\<forall>j<DESC_CNT. dll (elems t) (free_list (desc_at 1000 j)) []
        \<and> (\<forall>a k. PG_SIZE dvd a \<and> a + PG_SIZE \<le> 2 ^ 32 \<and> k < blocks_per_arena (class_desc j) \<longrightarrow>
             block_at a (class_size j) k + class_size j \<le> a + PG_SIZE \<and> block2arena (block_at a (class_size j) k) = a))"
proof (rule block_desc_init_classes, intro allI impI)
  fix j :: nat assume "j < DESC_CNT"
  then have "j \<in> {0, 1, 2, 3, 4, 5, 6}" by auto
  then show "set (class_nodes 1000 j) \<subseteq> dom (elems demo_heap)"
    by (elim insertE; simp add: class_nodes_def nodes_def list_tail_def free_list_def desc_at_def demo_heap_def demo_links_def)
qed

lemma lock_init_free:
  assumes "elems s (waiters (lock_sema l)) \<noteq> None" "elems s (list_tail (waiters (lock_sema l))) \<noteq> None"
  shows "\<exists>h. lock_init l s = Inr (set_value (lock_sema l) 1 (set_repeat l 0 (set_holder l 0 s))\<lparr>elems := h\<rparr>)
    \<and> dll h (waiters (lock_sema l)) [] \<and> local_update (nodes (waiters (lock_sema l)) []) (elems s) h"
proof -
  let ?w = "waiters (lock_sema l)"
  let ?s = "set_value (lock_sema l) 1 (set_repeat l 0 (set_holder l 0 s))"
  have e: "elems ?s = elems s" by (simp add: set_value_def set_repeat_def set_holder_def)
  then obtain h where "list_init ?w ?s = Inr (?s\<lparr>elems := h\<rparr>)" "dll h ?w []" "local_update (nodes ?w []) (elems s) h"
    using dll_init [of ?s ?w] assms by auto
  then show ?thesis by (auto simp: lock_init_def sema_init_def)
qed

lemma free_lockI:
  assumes "sema_value s (lock_sema l) = 1" "lock_holder s l = 0" "holder_repeat_nr s l = 0" "dll (elems s) (waiters (lock_sema l)) []"
  shows "lock_free l s"
  using assms dll_head [OF assms(4)] by (auto simp: lock_free_def list_empty_def outcome_simps)

text \<open>The two locks of the pools do not overlap.\<close>

lemma two_locks:
  fixes s :: "'a kmem_scheme"
  assumes "k + 28 \<le> u" "{k + 8, k + 16, u + 8, u + 16} \<subseteq> dom (elems s)"
  shows "\<exists>s' t. lock_init k s = Inr s' \<and> user_pool_lock s' = user_pool_lock s \<and> lock_init u s' = Inr t
    \<and> lock_free k t \<and> lock_free u t
    \<and> t = s\<lparr>elems := elems t, sema_value := sema_value t, lock_holder := lock_holder t, holder_repeat_nr := holder_repeat_nr t\<rparr>"
proof -
  have w: "waiters (lock_sema l) = l + 8" "list_tail (l + 8) = l + 16" for l
    by (simp_all add: waiters_def lock_sema_def list_tail_def)
  have "elems s (waiters (lock_sema k)) \<noteq> None" "elems s (list_tail (waiters (lock_sema k))) \<noteq> None"
    using assms(2) unfolding w by auto
  then obtain h where h: "lock_init k s = Inr (set_value (lock_sema k) 1 (set_repeat k 0 (set_holder k 0 s))\<lparr>elems := h\<rparr>)"
    "dll h (k + 8) []" "local_update (nodes (k + 8) []) (elems s) h"
    using lock_init_free [of s k] by (auto simp: w)
  let ?s = "set_value (lock_sema k) 1 (set_repeat k 0 (set_holder k 0 s))\<lparr>elems := h\<rparr>"
  have "dom (elems ?s) = dom (elems s)" using h(3) by (simp add: local_update_def)
  then have "elems ?s (waiters (lock_sema u)) \<noteq> None" "elems ?s (list_tail (waiters (lock_sema u))) \<noteq> None"
    using assms(2) unfolding w domIff [symmetric] by auto
  then obtain g where g: "lock_init u ?s = Inr (set_value (lock_sema u) 1 (set_repeat u 0 (set_holder u 0 ?s))\<lparr>elems := g\<rparr>)"
    "dll g (u + 8) []" "local_update (nodes (u + 8) []) h g"
    using lock_init_free [of ?s u] by (auto simp: w)
  let ?t = "set_value (lock_sema u) 1 (set_repeat u 0 (set_holder u 0 ?s))\<lparr>elems := g\<rparr>"
  have "dll g (k + 8) []"
    using g(3) assms(1) by (intro dll_frame [OF h(2)]) (auto simp: local_update_def nodes_def w)
  then have "lock_free k ?t" "lock_free u ?t"
    using g(2) assms(1) by (auto intro!: free_lockI simp: waiters_def set_value_def set_repeat_def set_holder_def lock_sema_def add.commute)
  moreover have "user_pool_lock ?s = user_pool_lock s" by (simp add: set_value_def set_repeat_def set_holder_def)
  moreover have "?t = s\<lparr>elems := elems ?t, sema_value := sema_value ?t, lock_holder := lock_holder ?t,
      holder_repeat_nr := holder_repeat_nr ?t\<rparr>" by (simp add: set_value_def set_repeat_def set_holder_def)
  ultimately show ?thesis using h(1) g(1) by blast
qed

lemma pool_ok_fresh:
  assumes "PG_SIZE dvd st" "0 < st" "st < 2 ^ 32" "st + PG_SIZE * n \<le> 2 ^ 32"
    and p: "p = \<lparr>pool_bitmap = bitmap_init \<lparr>btmp_bytes_len = n div 8, bits = m\<rparr>, phy_addr_start = of_nat st, pool_size = z\<rparr>"
  shows "pool_ok p" "bm_used (pool_bitmap p) = {}" "bm_cap (pool_bitmap p) \<le> n"
proof -
  have u: "unat (of_nat st :: u32) = st" by (rule unat_u32 [OF assms(3)])
  have nz: "(of_nat st :: u32) \<noteq> 0" using u assms(2) by (metis neq0_conv unat_0)
  have c: "bm_cap (pool_bitmap p) = 8 * (n div 8)" by (simp add: p bm_cap_def)
  then show cap: "bm_cap (pool_bitmap p) \<le> n" by simp
  show "bm_used (pool_bitmap p) = {}" unfolding p by (simp add: bm_used_init)
  have "frame (of_nat st) = of_nat st" unfolding frame_aligned u by (rule assms(1))
  moreover have "st + PG_SIZE * bm_cap (pool_bitmap p) \<le> 2 ^ 32" using cap assms(4) by simp
  ultimately show "pool_ok p" using nz u by (simp add: pool_ok_def p)
qed

lemma pages_count:
  fixes all_mem :: u32
  assumes "0x200000 \<le> unat all_mem" "n = (unat all_mem - 0x200000) div PG_SIZE" "n < 2 ^ 16"
  shows "unat (ucast ((all_mem - 0x200000) div 4096) :: u16) = n"
    "unat ((ucast ((all_mem - 0x200000) div 4096) :: u16) div 2) = n div 2"
    "unat ((ucast ((all_mem - 0x200000) div 4096) :: u16) - ucast ((all_mem - 0x200000) div 4096) div 2) = n - n div 2"
proof -
  let ?w = "ucast ((all_mem - 0x200000) div 4096) :: u16"
  have "unat (all_mem - 0x200000) = unat all_mem - 0x200000"
    using assms(1) by (subst unat_sub) (simp_all add: word_le_nat_alt)
  then have "unat ((all_mem - 0x200000) div 4096) = n" using assms(2) by (simp add: unat_div)
  then show w: "unat ?w = n" using assms(3) by (simp add: unsigned_ucast_eq take_bit_nat_eq_self_iff)
  show h: "unat (?w div 2) = n div 2" using w by (simp add: unat_div)
  have "?w div 2 \<le> ?w" using w h by (simp add: word_le_nat_alt)
  then show "unat (?w - ?w div 2) = n - n div 2" using w h by (simp add: unat_sub)
qed

lemma ucast_nat: "ucast (x :: u16) = (of_nat (unat x) :: u32)"
  by simp

lemma pools_disjoint:
  assumes "pool_ok p" "pool_ok q"
    and "unat (phy_addr_start p) + bm_cap (pool_bitmap p) * PG_SIZE \<le> unat (phy_addr_start q)"
  shows "free_frames p \<inter> free_frames q = {}"
proof (rule ccontr)
  assume "free_frames p \<inter> free_frames q \<noteq> {}"
  then obtain i j where ij: "i < bm_cap (pool_bitmap p)" "j < bm_cap (pool_bitmap q)" "pool_frame p i = pool_frame q j"
    by (auto simp: free_frames_def)
  have "i * PG_SIZE + unat (phy_addr_start p) = j * PG_SIZE + unat (phy_addr_start q)"
    using pool_frame_nat [OF assms(1) ij(1)] pool_frame_nat [OF assms(2) ij(2)] unfolding ij(3) by simp
  moreover have "(i + 1) * PG_SIZE \<le> bm_cap (pool_bitmap p) * PG_SIZE" using ij(1) by (intro mult_le_mono1) simp
  ultimately show False using assms(3) by simp
qed

text \<open>
  On a machine with 2 MiB of memory or more, up to the 258 MiB its page counters can hold,
  \<open>mem_pool_init\<close> divides what is above the first 2 MiB: the kernel pool starts at 2 MiB, the user pool
  follows it without a gap, neither reaches beyond the memory, every frame of both is free and inside its
  pool, no frame belongs to both, and both pool locks are free.
\<close>

theorem mem_pool_init_pools:
  fixes s :: "'a kmem_scheme"
  assumes mem: "0x200000 \<le> unat all_mem" "(unat all_mem - 0x200000) div PG_SIZE < 2 ^ 16"
    and locks: "kernel_pool_lock s + 28 \<le> user_pool_lock s"
      "{kernel_pool_lock s + 8, kernel_pool_lock s + 16, user_pool_lock s + 8, user_pool_lock s + 16} \<subseteq> dom (elems s)"
  shows "\<exists>t. mem_pool_init mem_bits all_mem s = Inr t
    \<and> unat (phy_addr_start (kernel_pool t)) = 0x200000
    \<and> unat (phy_addr_start (user_pool t)) = 0x200000 + unat (pool_size (kernel_pool t))
    \<and> unat (phy_addr_start (user_pool t)) + unat (pool_size (user_pool t)) \<le> unat all_mem
    \<and> pool_ok (kernel_pool t) \<and> pool_ok (user_pool t)
    \<and> bm_used (pool_bitmap (kernel_pool t)) = {} \<and> bm_used (pool_bitmap (user_pool t)) = {}
    \<and> PG_SIZE * bm_cap (pool_bitmap (kernel_pool t)) \<le> unat (pool_size (kernel_pool t))
    \<and> PG_SIZE * bm_cap (pool_bitmap (user_pool t)) \<le> unat (pool_size (user_pool t))
    \<and> free_frames (kernel_pool t) \<inter> free_frames (user_pool t) = {}
    \<and> lock_free (kernel_pool_lock t) t \<and> lock_free (user_pool_lock t) t"
proof -
  define n k where "n = (unat all_mem - 0x200000) div PG_SIZE" and "k = n div 2"
  have n: "n < 2 ^ 16" "0x200000 + n * PG_SIZE \<le> unat all_mem" and kn: "k \<le> n"
    using mem by (auto simp: n_def k_def)
  have "unat all_mem < 2 ^ LENGTH(32)" by (rule unsigned_less)
  then have all: "unat all_mem < 2 ^ 32" by simp
  let ?w = "ucast ((all_mem - 0x200000) div 4096) :: u16"
  have w: "unat ?w = n" "unat (?w div 2) = k" "unat (?w - ?w div 2) = n - k"
    using pages_count [OF mem(1) n_def n(1)] kn by (simp_all add: k_def)
  define kp up where "kp = (\<lparr>pool_bitmap = bitmap_init \<lparr>btmp_bytes_len = k div 8, bits = mem_bits\<rparr>,
      phy_addr_start = of_nat 0x200000, pool_size = of_nat (k * PG_SIZE)\<rparr>)"
    and "up = (\<lparr>pool_bitmap = bitmap_init \<lparr>btmp_bytes_len = (n - k) div 8, bits = (\<lambda>i. mem_bits (k div 8 + i))\<rparr>,
      phy_addr_start = of_nat (0x200000 + k * PG_SIZE), pool_size = of_nat ((n - k) * PG_SIZE)\<rparr>)"
  have kp: "pool_ok kp" "bm_used (pool_bitmap kp) = {}" "bm_cap (pool_bitmap kp) \<le> k"
    using pool_ok_fresh [OF _ _ _ _ kp_def] n(2) kn all by simp_all
  have up: "pool_ok up" "bm_used (pool_bitmap up) = {}" "bm_cap (pool_bitmap up) \<le> n - k"
    using pool_ok_fresh [OF _ _ _ _ up_def] n(2) kn all by simp_all
  have sz: "unat (phy_addr_start kp) = 0x200000" "unat (pool_size kp) = k * PG_SIZE"
    "unat (phy_addr_start up) = 0x200000 + k * PG_SIZE" "unat (pool_size up) = (n - k) * PG_SIZE"
    unfolding kp_def up_def pool.select_convs by (rule unat_u32, use n kn all in linarith)+
  have disj: "free_frames kp \<inter> free_frames up = {}"
    by (rule pools_disjoint [OF kp(1) up(1)]) (use kp(3) sz in simp)
  let ?s = "s\<lparr>kernel_pool := kp, user_pool := up\<rparr>"
  obtain s' t where t: "lock_init (kernel_pool_lock s) ?s = Inr s' \<and> user_pool_lock s' = user_pool_lock s
      \<and> lock_init (user_pool_lock s) s' = Inr t"
    "lock_free (kernel_pool_lock s) t" "lock_free (user_pool_lock s) t"
    "t = ?s\<lparr>elems := elems t, sema_value := sema_value t, lock_holder := lock_holder t, holder_repeat_nr := holder_repeat_nr t\<rparr>"
    using two_locks [OF locks(1), of ?s] locks(2) by (auto simp del: insert_subset)
  have f: "kernel_pool t = kp" "user_pool t = up" "kernel_pool_lock t = kernel_pool_lock s" "user_pool_lock t = user_pool_lock s"
    by (subst t(4), simp)+
  have w32: "ucast (?w div 2) * 4096 = (of_nat (k * PG_SIZE) :: u32)" "ucast (?w - ?w div 2) * 4096 = (of_nat ((n - k) * PG_SIZE) :: u32)"
    "unat (?w div 2 div 8) = k div 8" "unat ((?w - ?w div 2) div 8) = (n - k) div 8"
    using w by (simp_all add: ucast_nat unat_div)
  let ?v = "\<lparr>vaddr_bitmap = bitmap_init \<lparr>btmp_bytes_len = k div 8, bits = (\<lambda>i. mem_bits (k div 8 + (n - k) div 8 + i))\<rparr>,
    vaddr_start = of_nat K_HEAP_START\<rparr>"
  have u: "(4096 * 256 + 0x100000 :: u32) = of_nat 0x200000"
    "(of_nat 0x200000 :: u32) + of_nat (k * PG_SIZE) = of_nat (0x200000 + k * PG_SIZE)" "(of_nat 0x200000 :: u32) = 0x200000"
    by simp_all
  have "mem_pool_init mem_bits all_mem s = Inr (t\<lparr>kernel_vaddr := ?v\<rparr>)"
    unfolding mem_pool_init_def Let_def u(1) w32 [folded u(3)] u(2) kp_def [symmetric] up_def [symmetric]
    using t(1) by simp
  moreover have "lock_free l (t\<lparr>kernel_vaddr := v\<rparr>) = lock_free l t" for l v
    using list_empty_cong [of "t\<lparr>kernel_vaddr := v\<rparr>" t] by (simp add: lock_free_def)
  ultimately show ?thesis using sz n kn kp up disj t(2,3) f by simp
qed

theorem mem_pool_init_pools_witness:
  "\<exists>t. mem_pool_init (\<lambda>_. 0) 0x2000000 (demo_heap\<lparr>elems := fold empty_list [508, 608] Map.empty\<rparr>) = Inr t
    \<and> unat (phy_addr_start (kernel_pool t)) = 0x200000
    \<and> unat (phy_addr_start (user_pool t)) = 0x200000 + unat (pool_size (kernel_pool t))
    \<and> unat (phy_addr_start (user_pool t)) + unat (pool_size (user_pool t)) \<le> unat (0x2000000 :: u32)
    \<and> pool_ok (kernel_pool t) \<and> pool_ok (user_pool t)
    \<and> bm_used (pool_bitmap (kernel_pool t)) = {} \<and> bm_used (pool_bitmap (user_pool t)) = {}
    \<and> PG_SIZE * bm_cap (pool_bitmap (kernel_pool t)) \<le> unat (pool_size (kernel_pool t))
    \<and> PG_SIZE * bm_cap (pool_bitmap (user_pool t)) \<le> unat (pool_size (user_pool t))
    \<and> free_frames (kernel_pool t) \<inter> free_frames (user_pool t) = {}
    \<and> lock_free (kernel_pool_lock t) t \<and> lock_free (user_pool_lock t) t"
  by (rule mem_pool_init_pools)
    (simp_all add: demo_heap_def demo_mem_def demo_io_def io.extend_def kmem.fields_def)

section \<open>Frames\<close>

text \<open>
  \<open>pfree\<close> undoes \<open>palloc\<close>: a frame taken from a pool that has a free one is given back to the same pool,
  which then has the free frames it had before, and the other pool is as it was.
\<close>

theorem pfree_palloc:
  fixes s :: "'a kmem_scheme"
  assumes ok: "pool_ok (kernel_pool s)" "pool_ok (user_pool s)"
    and below: "unat (phy_addr_start (kernel_pool s)) + bm_cap (pool_bitmap (kernel_pool s)) * PG_SIZE
      \<le> unat (phy_addr_start (user_pool s))"
    and free: "free_frames (mem_pool pf s) \<noteq> {}"
  shows "\<exists>f t u. palloc pf s = Inr (f, t) \<and> f \<in> free_frames (mem_pool pf s) \<and> f \<notin> free_frames (mem_pool pf t)
    \<and> pfree f t = Inr u \<and> free_frames (mem_pool pf u) = free_frames (mem_pool pf s)
    \<and> (\<forall>pf'. pf' \<noteq> pf \<longrightarrow> mem_pool pf' u = mem_pool pf' s)"
proof -
  let ?p = "mem_pool pf s"
  have po: "pool_ok ?p" using ok by (cases pf) simp_all
  obtain i where i: "bitmap_scan (pool_bitmap ?p) 1 = Inr (int i)"
    using free by (cases rule: bm.scan_cases [of "pool_bitmap ?p"]) (auto simp: free_frames_def)
  obtain b where b: "bitmap_set (pool_bitmap ?p) i 1 = Inr b" "i < bm_cap (pool_bitmap ?p)" "i \<notin> bm_used (pool_bitmap ?p)"
    "bm_used b = insert i (bm_used (pool_bitmap ?p))" "bm_cap b = bm_cap (pool_bitmap ?p)"
    using bm.alloc_fresh [OF i] by auto
  obtain c where c: "bitmap_set b i 0 = Inr c" using bitmap_set_ok by blast
  have cu: "bm_used c = bm_used (pool_bitmap ?p)" "bm_cap c = bm_cap (pool_bitmap ?p)"
    using bm.alloc_then_free [OF i b(1) c] bm.setb_cap [OF c] b(5) by simp_all
  let ?f = "pool_frame ?p i" and ?t = "set_pool pf (?p\<lparr>pool_bitmap := b\<rparr>) s"
  let ?u = "set_pool pf (?p\<lparr>pool_bitmap := c\<rparr>) ?t"
  note fn = pool_frame_nat [OF po b(2)]
  have "of_nat i * 4096 = ?f - phy_addr_start ?p" by (simp add: pool_frame_def)
  moreover have "i * PG_SIZE < 2 ^ 32" using po b(2) by (simp add: pool_ok_def)
  ultimately have idx: "unat ((?f - phy_addr_start ?p) div 4096) = i"
    using unat_u32 [of "i * PG_SIZE"] by (simp add: unat_div)
  have "(i + 1) * PG_SIZE \<le> bm_cap (pool_bitmap ?p) * PG_SIZE" using b(2) by (intro mult_le_mono1) simp
  then have side: "phy_addr_start (user_pool ?t) \<le> ?f \<longleftrightarrow> pf = PF_USER"
    using fn below by (cases pf) (simp_all add: word_le_nat_alt)
  have "palloc pf s = Inr (?f, ?t)" using i b(1) by (simp add: palloc_def Let_def pool_frame_def)
  moreover have "pfree ?f ?t = Inr ?u" using side idx c by (cases pf) (simp_all add: pfree_def Let_def)
  moreover have fp: "pool_frame (?p\<lparr>pool_bitmap := d\<rparr>) = pool_frame ?p" for d by (simp add: pool_frame_def fun_eq_iff)
  moreover have "?f \<in> free_frames ?p" using b(2,3) by (simp add: free_frames_def)
  moreover have "?f \<notin> free_frames (mem_pool pf ?t)"
    using pool_frame_inj [OF po b(2)] b(4,5) by (auto simp: free_frames_def fp)
  moreover have "free_frames (mem_pool pf ?u) = free_frames ?p" using cu by (simp add: free_frames_def fp)
  ultimately show ?thesis by (auto intro!: exI [of _ ?f] exI [of _ ?t] exI [of _ ?u])
qed

theorem pfree_palloc_witness:
  "\<exists>f t u. palloc PF_KERNEL demo_mem = Inr (f, t) \<and> f \<in> free_frames (mem_pool PF_KERNEL demo_mem)
    \<and> f \<notin> free_frames (mem_pool PF_KERNEL t) \<and> pfree f t = Inr u
    \<and> free_frames (mem_pool PF_KERNEL u) = free_frames (mem_pool PF_KERNEL demo_mem)
    \<and> (\<forall>pf'. pf' \<noteq> PF_KERNEL \<longrightarrow> mem_pool pf' u = mem_pool pf' demo_mem)"
proof (rule pfree_palloc)
  show "pool_ok (kernel_pool demo_mem)" "pool_ok (user_pool demo_mem)"
    by (simp_all add: pool_ok_def demo_mem_simps demo_bits_used frame_def)
  show "free_frames (mem_pool PF_KERNEL demo_mem) \<noteq> {}" by (simp add: demo_free)
qed (simp add: demo_mem_simps demo_bits_used)

end
