(* ===== verification/Process.thy ===== *)
theory Process
  imports Memory_Heap
begin

text \<open>
  The life of threads and processes: the pid pool and the creation and end of threads of
  \<^verbatim>\<open>thread/thread.c\<close>, the creation of processes of \<^verbatim>\<open>userprog/process.c\<close>, and the search for children of
  \<^verbatim>\<open>userprog/wait_exit.c\<close>. Initial stack frames are written as words through the page tables.

  Addresses of functions are fixed by the linker; they are fields of the state. So is, for each control
  block, the address of the bitmap of the user's virtual pages, whose contents are in the control block.
\<close>

section \<open>State\<close>

record proc = kmem +
  pid_bitmap :: bitmap
  pid_start :: u32
  pid_lock :: nat
  user_bits :: "nat \<Rightarrow> u32"
  kernel_thread_at :: u32
  start_process_at :: u32
  idle_at :: u32
  init_at :: u32

abbreviation TASK_NAME_LEN :: nat where
  "TASK_NAME_LEN \<equiv> 16"

abbreviation MAX_FILES_OPEN_PER_PROC :: nat where
  "MAX_FILES_OPEN_PER_PROC \<equiv> 8"

section \<open>Process identifiers\<close>

definition pid_pool_init :: "'a proc_scheme \<Rightarrow> 'a proc_scheme outcome" where
  "pid_pool_init s =
     (let s = s\<lparr>pid_start := 1, pid_bitmap := bitmap_init ((pid_bitmap s)\<lparr>btmp_bytes_len := 128\<rparr>)\<rparr> in
      lock_init (pid_lock s) s)"

definition allocate_pid :: "'a proc_scheme \<Rightarrow> (u16 \<times> 'a proc_scheme) outcome" where
  "allocate_pid s =
     andThen (acquire_now (pid_lock s) s) (\<lambda>s.
     andThen (bitmap_scan (pid_bitmap s) 1) (\<lambda>bit_idx.
     if bit_idx < 0 then Inl BadAccess else
     andThen (bitmap_set (pid_bitmap s) (nat bit_idx) 1) (\<lambda>b.
     let s = s\<lparr>pid_bitmap := b\<rparr> in
     andThen (lock_release (pid_lock s) s) (\<lambda>s.
     Inr (ucast (of_int bit_idx + pid_start s), s)))))"

definition release_pid :: "u16 \<Rightarrow> 'a proc_scheme \<Rightarrow> 'a proc_scheme outcome" where
  "release_pid p s =
     andThen (acquire_now (pid_lock s) s) (\<lambda>s.
     let bit_idx = sint (scast p - pid_start s :: u32) in
     if bit_idx < 0 then Inl BadAccess else
     andThen (bitmap_set (pid_bitmap s) (nat bit_idx) 0) (\<lambda>b.
     let s = s\<lparr>pid_bitmap := b\<rparr> in
     lock_release (pid_lock s) s))"

definition fork_pid :: "'a proc_scheme \<Rightarrow> (u16 \<times> 'a proc_scheme) outcome" where
  "fork_pid s = allocate_pid s"

section \<open>Stack frames\<close>

text \<open>Consecutive assignments to words at virtual addresses.\<close>

fun vstores :: "(u32 \<times> u32) list \<Rightarrow> 'a paging_scheme \<Rightarrow> 'a paging_scheme outcome" where
  "vstores [] s = Inr s"
| "vstores ((a, v) # ws) s = andThen (vstore a v s) (vstores ws)"

text \<open>
  \<open>struct intr_stack\<close> has 19 words and \<open>struct thread_stack\<close> has 8. The pointer \<open>self_kstack\<close> is a pointer
  to words, so subtracting the sizes in bytes moves it by four times as much.
\<close>

definition sizeof_intr_stack :: u32 where
  "sizeof_intr_stack = 76"

definition sizeof_thread_stack :: u32 where
  "sizeof_thread_stack = 32"

definition thread_create :: "nat \<Rightarrow> u32 \<Rightarrow> u32 \<Rightarrow> 'a proc_scheme \<Rightarrow> 'a proc_scheme outcome" where
  "thread_create pthread function func_arg s =
     andThen (set_task pthread (\<lambda>t. t\<lparr>self_kstack := self_kstack t - 4 * sizeof_intr_stack\<rparr>) s) (\<lambda>s.
     andThen (set_task pthread (\<lambda>t. t\<lparr>self_kstack := self_kstack t - 4 * sizeof_thread_stack\<rparr>) s) (\<lambda>s.
     andThen (get_task pthread s) (\<lambda>t.
     let kthread_stack = self_kstack t in
     vstores [(kthread_stack + 16, kernel_thread_at s), (kthread_stack + 24, function), (kthread_stack + 28, func_arg),
       (kthread_stack + 8, 0), (kthread_stack + 12, 0), (kthread_stack + 4, 0), (kthread_stack, 0)] s)))"

section \<open>Control blocks\<close>

definition zero_task :: task_struct where
  "zero_task = \<lparr>self_kstack = 0, pid = 0, status = TASK_RUNNING, tname = replicate TASK_NAME_LEN 0, priority = 0, ticks = 0,
     elapsed_ticks = 0, pgdir = 0, userprog_vaddr = \<lparr>vaddr_bitmap = \<lparr>btmp_bytes_len = 0, bits = (\<lambda>_. 0)\<rparr>, vaddr_start = 0\<rparr>,
     fd_table = replicate MAX_FILES_OPEN_PER_PROC 0, cwd_inode_nr = 0, parent_pid = 0, exit_status = 0, stack_magic = 0\<rparr>"

text \<open>The list nodes inside a control block: its two tags and the heads of the free lists of \<open>u_block_desc\<close>.\<close>

definition task_nodes :: "nat \<Rightarrow> nat set" where
  "task_nodes p = {general_tag p, all_list_tag p} \<union>
     (\<Union>i<DESC_CNT. {free_list (desc_at (u_block_desc p) i), list_tail (free_list (desc_at (u_block_desc p) i))})"

definition memset_task :: "nat \<Rightarrow> 'a proc_scheme \<Rightarrow> 'a proc_scheme outcome" where
  "memset_task p s = ASSERT (p \<noteq> 0)
     (Inr (s\<lparr>tcb := (tcb s)(p \<mapsto> zero_task), user_bits := (user_bits s)(p := 0),
        elems := (\<lambda>a. if a \<in> task_nodes p then Some \<lparr>prev = 0, next = 0\<rparr> else elems s a),
        descs_at := (\<lambda>d. if \<exists>i<DESC_CNT. d = desc_at (u_block_desc p) i
          then Some \<lparr>block_size = 0, blocks_per_arena = 0\<rparr> else descs_at s d)\<rparr>))"

text \<open>\<open>strcpy\<close> into the name field; a name that does not fit runs over the end of the field.\<close>

definition copy_name :: "u8 list \<Rightarrow> u8 list \<Rightarrow> u8 list outcome" where
  "copy_name name field = (if length name < length field
     then Inr (name @ 0 # drop (Suc (length name)) field) else Inl BadAccess)"

definition init_thread :: "nat \<Rightarrow> u8 list \<Rightarrow> int \<Rightarrow> 'a proc_scheme \<Rightarrow> 'a proc_scheme outcome" where
  "init_thread pthread name prio s =
     andThen (memset_task pthread s) (\<lambda>s.
     andThen (allocate_pid s) (\<lambda>(p, s).
     andThen (set_task pthread (\<lambda>t. t\<lparr>pid := p\<rparr>) s) (\<lambda>s.
     andThen (get_task pthread s) (\<lambda>t.
     andThen (copy_name name (tname t)) (\<lambda>nm.
     set_task pthread (\<lambda>t. t\<lparr>tname := nm,
       status := (if pthread = main_thread s then TASK_RUNNING else TASK_READY),
       self_kstack := of_nat pthread + 4096, priority := of_int prio, ticks := of_int prio, elapsed_ticks := 0,
       pgdir := 0, fd_table := [0, 1, 2] @ replicate (MAX_FILES_OPEN_PER_PROC - 3) (- 1),
       cwd_inode_nr := 0, parent_pid := - 1, stack_magic := 0x19870916\<rparr>) s)))))"

text \<open>Entering a new thread into the two lists, as \<open>thread_start\<close>, \<open>process_execute\<close> and \<open>sys_fork\<close> do.\<close>

definition enlist_ready :: "nat \<Rightarrow> 'a proc_scheme \<Rightarrow> 'a proc_scheme outcome" where
  "enlist_ready p s =
     andThen (elem_find (thread_ready_list s) (general_tag p) s) (\<lambda>found. ASSERT (\<not> found)
    (list_append (thread_ready_list s) (general_tag p) s))"

definition enlist_all :: "nat \<Rightarrow> 'a proc_scheme \<Rightarrow> 'a proc_scheme outcome" where
  "enlist_all p s =
     andThen (elem_find (thread_all_list s) (all_list_tag p) s) (\<lambda>found. ASSERT (\<not> found)
    (list_append (thread_all_list s) (all_list_tag p) s))"

definition thread_start :: "u8 list \<Rightarrow> int \<Rightarrow> u32 \<Rightarrow> u32 \<Rightarrow> 'a proc_scheme \<Rightarrow> (nat \<times> 'a proc_scheme) outcome" where
  "thread_start name prio function func_arg s =
     andThen (get_kernel_pages 1 s) (\<lambda>(thread, s).
     let p = unat thread in
     andThen (init_thread p name prio s) (\<lambda>s.
     andThen (thread_create p function func_arg s) (\<lambda>s.
     andThen (enlist_ready p s) (\<lambda>s.
     andThen (enlist_all p s) (\<lambda>s.
     Inr (p, s))))))"

definition make_main_thread :: "'a proc_scheme \<Rightarrow> 'a proc_scheme outcome" where
  "make_main_thread s =
     (let s = s\<lparr>main_thread := running_thread s\<rparr> in
      andThen (init_thread (main_thread s) (bytes ''main'') 31 s) (\<lambda>s.
      enlist_all (main_thread s) s))"

section \<open>Processes\<close>

abbreviation USER_VADDR_START :: nat where
  "USER_VADDR_START \<equiv> 0x8048000"

abbreviation USER_STACK3_VADDR :: u32 where
  "USER_STACK3_VADDR \<equiv> 0xc0000000 - 0x1000"

definition user_bitmap_len :: nat where
  "user_bitmap_len = (0xc0000000 - USER_VADDR_START) div PG_SIZE div 8"

definition user_bitmap_pages :: nat where
  "user_bitmap_pages = (user_bitmap_len + (PG_SIZE - 1)) div PG_SIZE"

definition create_user_vaddr_bitmap :: "nat \<Rightarrow> 'a proc_scheme \<Rightarrow> 'a proc_scheme outcome" where
  "create_user_vaddr_bitmap user_prog s =
     andThen (set_task user_prog (\<lambda>t. t\<lparr>userprog_vaddr := (userprog_vaddr t)\<lparr>vaddr_start := of_nat USER_VADDR_START\<rparr>\<rparr>) s) (\<lambda>s.
     andThen (get_kernel_pages user_bitmap_pages s) (\<lambda>(v, s).
     let s = s\<lparr>user_bits := (user_bits s)(user_prog := v)\<rparr> in
     ASSERT (v \<noteq> 0)
    (set_task user_prog (\<lambda>t. t\<lparr>userprog_vaddr := (userprog_vaddr t)\<lparr>vaddr_bitmap :=
       bitmap_init \<lparr>btmp_bytes_len = user_bitmap_len, bits = (\<lambda>_. 0)\<rparr>\<rparr>\<rparr>) s)))"

text \<open>\<open>memcpy\<close> of \<open>n\<close> words between virtual addresses.\<close>

fun copy_words :: "u32 \<Rightarrow> u32 \<Rightarrow> nat \<Rightarrow> 'a paging_scheme \<Rightarrow> 'a paging_scheme outcome" where
  "copy_words dst src 0 s = Inr s"
| "copy_words dst src (Suc n) s =
     andThen (vload s src) (\<lambda>v.
     andThen (vstore dst v s) (\<lambda>s.
     copy_words (dst + 4) (src + 4) n s))"

definition create_page_dir :: "'a kmem_scheme \<Rightarrow> (u32 \<times> 'a kmem_scheme) outcome" where
  "create_page_dir s =
     andThen (get_kernel_pages 1 s) (\<lambda>(page_dir_vaddr, s).
     if page_dir_vaddr = 0 then Inr (0, s) else
     andThen (copy_words (page_dir_vaddr + 0x300 * 4) (0xfffff000 + 0x300 * 4) 256 s) (\<lambda>s.
     andThen (addr_v2p page_dir_vaddr s) (\<lambda>new_page_dir_phy_addr.
     andThen (vstore (page_dir_vaddr + 1023 * 4) (new_page_dir_phy_addr OR 4 OR 2 OR 1) s) (\<lambda>s.
     Inr (page_dir_vaddr, s)))))"

definition process_execute :: "u32 \<Rightarrow> u8 list \<Rightarrow> 'a proc_scheme \<Rightarrow> 'a proc_scheme outcome" where
  "process_execute filename name s =
     andThen (get_kernel_pages 1 s) (\<lambda>(thread, s).
     let p = unat thread in
     andThen (init_thread p name 31 s) (\<lambda>s.
     andThen (create_user_vaddr_bitmap p s) (\<lambda>s.
     andThen (thread_create p (start_process_at s) filename s) (\<lambda>s.
     andThen (create_page_dir s) (\<lambda>(d, s).
     andThen (set_task p (\<lambda>t. t\<lparr>pgdir := d\<rparr>) s) (\<lambda>s.
     andThen (block_desc_init (u_block_desc p) s) (\<lambda>s.
     let (old_status, s) = intr_disable s in
     andThen (enlist_ready p s) (\<lambda>s.
     andThen (enlist_all p s) (\<lambda>s.
     Inr (snd (intr_set_status old_status s)))))))))))"

definition SELECTOR_U_DATA :: u32 where
  "SELECTOR_U_DATA = push_bit 3 6 + push_bit 2 0 + 3"

definition SELECTOR_U_CODE :: u32 where
  "SELECTOR_U_CODE = push_bit 3 5 + push_bit 2 0 + 3"

text \<open>
  \<open>start_process\<close> builds the frame that \<open>intr_exit\<close> pops and jumps there: the result is the state with the
  stack pointer at that frame.
\<close>

definition start_process :: "u32 \<Rightarrow> 'a proc_scheme \<Rightarrow> 'a proc_scheme outcome" where
  "start_process function s =
     (let cur = running_thread s in
      andThen (set_task cur (\<lambda>t. t\<lparr>self_kstack := self_kstack t + 4 * sizeof_thread_stack\<rparr>) s) (\<lambda>s.
      andThen (get_task cur s) (\<lambda>t.
      let f = self_kstack t in
      andThen (vstores [(f + 16, 0), (f + 12, 0), (f + 8, 0), (f + 4, 0), (f + 32, 0), (f + 28, 0), (f + 24, 0), (f + 20, 0),
        (f + 36, 0), (f + 40, SELECTOR_U_DATA), (f + 44, SELECTOR_U_DATA), (f + 48, SELECTOR_U_DATA),
        (f + 56, function), (f + 60, SELECTOR_U_CODE), (f + 64, 0 OR 2 OR 0x200)] s) (\<lambda>s.
      andThen (get_a_page PF_USER USER_STACK3_VADDR s) (\<lambda>(v, s).
      andThen (vstores [(f + 68, v + 4096), (f + 72, SELECTOR_U_DATA)] s) (\<lambda>s.
      Inr (s\<lparr>esp := f\<rparr>)))))))"

section \<open>The end of a thread\<close>

definition thread_exit :: "nat \<Rightarrow> bool \<Rightarrow> 'a proc_scheme \<Rightarrow> 'a proc_scheme outcome" where
  "thread_exit thread_over need_schedule s =
     (let s = snd (intr_disable s) in
      andThen (set_task thread_over (\<lambda>t. t\<lparr>status := TASK_DIED\<rparr>) s) (\<lambda>s.
      andThen (elem_find (thread_ready_list s) (general_tag thread_over) s) (\<lambda>found.
      andThen (if found then list_remove (general_tag thread_over) s else Inr s) (\<lambda>s.
      andThen (get_task thread_over s) (\<lambda>t.
      andThen (if pgdir t \<noteq> 0 then mfree_page PF_KERNEL (pgdir t) 1 s else Inr s) (\<lambda>s.
      andThen (list_remove (all_list_tag thread_over) s) (\<lambda>s.
      andThen (if thread_over \<noteq> main_thread s then mfree_page PF_KERNEL (of_nat thread_over) 1 s else Inr s) (\<lambda>s.
      andThen (get_task thread_over s) (\<lambda>t.
      andThen (release_pid (pid t) s) (\<lambda>s.
      if need_schedule then schedule s else Inr s))))))))))"

section \<open>Children\<close>

definition find_child :: "nat \<Rightarrow> int \<Rightarrow> 'a sched_scheme \<Rightarrow> (bool \<times> 'a sched_scheme) outcome" where
  "find_child pelem ppid s =
     andThen (get_task (entry_of_all pelem) s) (\<lambda>t. Inr (sint (parent_pid t) = ppid, s))"

definition find_hanging_child :: "nat \<Rightarrow> int \<Rightarrow> 'a sched_scheme \<Rightarrow> (bool \<times> 'a sched_scheme) outcome" where
  "find_hanging_child pelem ppid s =
     andThen (get_task (entry_of_all pelem) s) (\<lambda>t. Inr (sint (parent_pid t) = ppid \<and> status t = TASK_HANGING, s))"

definition init_adopt_a_child :: "nat \<Rightarrow> int \<Rightarrow> 'a sched_scheme \<Rightarrow> (bool \<times> 'a sched_scheme) outcome" where
  "init_adopt_a_child pelem p s =
     andThen (get_task (entry_of_all pelem) s) (\<lambda>t.
     if sint (parent_pid t) = p
     then andThen (set_task (entry_of_all pelem) (\<lambda>t. t\<lparr>parent_pid := 1\<rparr>) s) (\<lambda>s. Inr (False, s))
     else Inr (False, s))"

text \<open>
  One round of the loop of \<open>sys_wait\<close>: it reaps a child that has exited (its pid and exit status), reports that
  there is none, or blocks; the parent goes through the loop again when it is scheduled.
\<close>

datatype 's wait_result = Reaped u16 int 's | NoChild 's | Waiting intr_status 's

definition sys_wait :: "'a proc_scheme \<Rightarrow> 'a proc_scheme wait_result outcome" where
  "sys_wait s =
     (let parent_thread = running_thread s in
      andThen (get_task parent_thread s) (\<lambda>par.
      andThen (list_traversal (thread_all_list s) find_hanging_child (sint (pid par)) s) (\<lambda>(child_elem, s).
      if child_elem \<noteq> 0 then
        andThen (get_task (entry_of_all child_elem) s) (\<lambda>child.
        andThen (thread_exit (entry_of_all child_elem) False s) (\<lambda>s.
        Inr (Reaped (pid child) (sint (exit_status child)) s)))
      else
        andThen (list_traversal (thread_all_list s) find_child (sint (pid par)) s) (\<lambda>(child_elem, s).
        if child_elem = 0 then Inr (NoChild s)
        else andThen (thread_block TASK_WAITING s) (\<lambda>(old_status, s). Inr (Waiting old_status s))))))"

definition sys_wait_resume :: "intr_status \<Rightarrow> 'a proc_scheme \<Rightarrow> 'a proc_scheme wait_result outcome" where
  "sys_wait_resume old_status s = sys_wait (resume_switch old_status s)"

section \<open>Start-up\<close>

definition thread_init :: "'a proc_scheme \<Rightarrow> 'a proc_scheme outcome" where
  "thread_init s =
     andThen (list_init (thread_ready_list s) s) (\<lambda>s.
     andThen (list_init (thread_all_list s) s) (\<lambda>s.
     andThen (pid_pool_init s) (\<lambda>s.
     andThen (process_execute (init_at s) (bytes ''init'') s) (\<lambda>s.
     andThen (make_main_thread s) (\<lambda>s.
     andThen (thread_start (bytes ''idle'') 10 (idle_at s) 0 s) (\<lambda>(p, s).
     Inr (s\<lparr>idle_thread := p\<rparr>)))))))"

end
