(* ===== verification/Process_Proofs.thy ===== *)
theory Process_Proofs
  imports Process
begin

text \<open>
  Correctness of the pid pool, of the page directory of a new process and of the start of a thread.
\<close>

section \<open>Process identifiers\<close>

lemma pid_lock_cycle:
  fixes s :: "'a proc_scheme"
  assumes "lock_free l s" "running_thread s \<noteq> 0"
  shows "acquire_now l s = Inr (locked l s)"
    "lock_release l ((locked l s)\<lparr>pid_bitmap := b\<rparr>) = Inr (s\<lparr>pid_bitmap := b\<rparr>)"
    "pid_bitmap (locked l s) = pid_bitmap s" "pid_start (locked l s) = pid_start s" "pid_lock (locked l s) = pid_lock s"
proof -
  show "acquire_now l s = Inr (locked l s)" by (rule acquire_now_free [OF assms])
  let ?u = "(locked l s)\<lparr>pid_bitmap := b\<rparr>"
  have "list_empty (waiters (lock_sema l)) ?u = Inr True"
    using assms(1) list_empty_cong [of ?u s] by (simp add: lock_free_def)
  moreover have "running_thread ?u = running_thread s" by (simp add: running_thread_def locked_def set_value_def set_holder_def set_repeat_def)
  ultimately have "lock_release l ?u = Inr (unlocked l ?u)" by (intro lock_release_alone) simp_all
  moreover have "unlocked l ?u = s\<lparr>pid_bitmap := b\<rparr>"
    using assms(1) by (simp add: unlocked_def locked_def lock_free_def set_value_def set_holder_def set_repeat_def fun_upd_idem)
  ultimately show "lock_release l ?u = Inr (s\<lparr>pid_bitmap := b\<rparr>)" by simp
qed (simp_all add: locked_def set_value_def set_holder_def set_repeat_def)

definition pid_pool_ok :: "'a proc_scheme \<Rightarrow> bool" where
  "pid_pool_ok s \<longleftrightarrow> lock_free (pid_lock s) s \<and> running_thread s \<noteq> 0 \<and> pid_start s = 1 \<and> bm_cap (pid_bitmap s) = 1024"

lemma sint_small: "m < 2 ^ 15 \<Longrightarrow> sint (of_nat m :: u16) = int m" "m < 2 ^ 31 \<Longrightarrow> sint (of_nat m :: u32) = int m"
  by (simp_all add: signed_of_nat signed_take_bit_int_eq_self)

lemma pid_index:
  assumes "i < 1024"
  shows "sint (scast (of_nat (Suc i) :: u16) - 1 :: u32) = int i"
proof -
  have "sint (of_nat (Suc i) :: u16) = int (Suc i)" by (rule sint_small) (use assms in simp)
  then have "scast (of_nat (Suc i) :: u16) = (of_int (int (Suc i)) :: u32)" by (metis of_int_sint)
  then have "scast (of_nat (Suc i) :: u16) - 1 = (of_nat i :: u32)" by simp
  then show ?thesis using sint_small(2) [of i] assms by simp
qed

text \<open>
  C31. While a pid is free, \<open>allocate_pid\<close> returns one between 1 and 1024 that was not in use and marks it as
  used; \<open>release_pid\<close> of that pid then gives back exactly that one, and the state is what it was before.
\<close>

theorem pid_roundtrip:
  assumes "pid_pool_ok s" "bm_used (pid_bitmap s) \<noteq> {..<1024}"
  shows "\<exists>i t u. allocate_pid s = Inr (of_nat (Suc i), t) \<and> i < 1024 \<and> i \<notin> bm_used (pid_bitmap s)
    \<and> bm_used (pid_bitmap t) = insert i (bm_used (pid_bitmap s)) \<and> pid_pool_ok t
    \<and> release_pid (of_nat (Suc i)) t = Inr u \<and> bm_used (pid_bitmap u) = bm_used (pid_bitmap s)
    \<and> u = s\<lparr>pid_bitmap := pid_bitmap u\<rparr>"
proof -
  let ?l = "pid_lock s" and ?b = "pid_bitmap s"
  have ok: "lock_free ?l s" "running_thread s \<noteq> 0" "pid_start s = 1" "bm_cap ?b = 1024" using assms(1) by (simp_all add: pid_pool_ok_def)
  obtain i where i: "bitmap_scan ?b 1 = Inr (int i)" using assms(2) ok(4) by (cases rule: bm.scan_cases [of ?b]) auto
  obtain b where b: "bitmap_set ?b i 1 = Inr b" "i < 1024" "i \<notin> bm_used ?b" "bm_used b = insert i (bm_used ?b)" "bm_cap b = 1024"
    using bm.alloc_fresh [OF i] ok(4) by auto
  let ?t = "s\<lparr>pid_bitmap := b\<rparr>"
  note s1 = pid_lock_cycle [OF ok(1,2)]
  have al: "allocate_pid s = Inr (of_nat (Suc i), ?t)"
  proof -
    have "(of_int (int i) + 1 :: u32) = of_nat (Suc i)" by simp
    then have "ucast (of_int (int i) + 1 :: u32) = (ucast (of_nat (Suc i) :: u32) :: u16)" by (rule arg_cong)
    also have "\<dots> = of_nat (Suc i)" using b(2) by (simp only: unsigned_of_nat) (simp add: take_bit_nat_eq_self)
    finally have "ucast (of_int (int i) + 1 :: u32) = (of_nat (Suc i) :: u16)" .
    then show ?thesis using s1 i b(1) ok(3) by (simp add: allocate_pid_def Let_def)
  qed
  have lt: "lock_free ?l ?t" "running_thread ?t \<noteq> 0"
    using ok(1,2) list_empty_cong [of ?t s] by (simp_all add: lock_free_def running_thread_def)
  obtain c where c: "bitmap_set b i 0 = Inr c" using bitmap_set_ok by blast
  have "release_pid (of_nat (Suc i)) ?t = Inr (?t\<lparr>pid_bitmap := c\<rparr>)"
    using pid_lock_cycle [OF lt] pid_index [OF b(2)] c ok(3) by (simp add: release_pid_def Let_def del: of_nat_Suc)
  moreover have "pid_pool_ok ?t" using lt ok(3) b(5) by (simp add: pid_pool_ok_def)
  moreover have "bm_used c = bm_used ?b" by (rule bm.alloc_then_free [OF i b(1) c])
  ultimately show ?thesis using al b(2-4) by (intro exI [of _ i] exI [of _ ?t] exI [of _ "?t\<lparr>pid_bitmap := c\<rparr>"]) simp
qed

section \<open>The page directory of a process\<close>

lemma bit_small: "bit (of_nat m :: u32) n \<Longrightarrow> m < 2 ^ k \<Longrightarrow> n < k"
proof (rule ccontr)
  assume a: "bit (of_nat m :: u32) n" "m < 2 ^ k" "\<not> n < k"
  then have "bit m n" by (simp add: bit_simps)
  moreover have "m < 2 ^ n" using a(2,3) power_increasing [of k n "2 :: nat"] by (simp add: not_less order_less_le_trans)
  ultimately show False by (simp add: bit_iff_odd)
qed

lemma frame_offset:
  assumes "frame va = va" "m < PG_SIZE"
  shows "frame (va + of_nat m) = va" "(va + of_nat m) AND 0x00000fff = of_nat m"
proof -
  have hi: "12 \<le> n" if "bit va n" for n using frame_bit [of va n] assms(1) that by simp
  have lo: "n < 12" if "bit (of_nat m :: u32) n" for n using bit_small [OF that, of 12] assms(2) by simp
  have e: "va + of_nat m = va OR of_nat m" using hi lo by (intro plus_or) fastforce
  show "frame (va + of_nat m) = va" unfolding e by (rule bit_eqI) (use hi lo in \<open>fastforce simp: frame_bit bit_or_iff dest: leD\<close>)
  show "(va + of_nat m) AND 0x00000fff = of_nat m"
    unfolding e by (rule bit_eqI) (use hi lo in \<open>fastforce simp: low12_bit bit_or_iff dest: leD\<close>)
qed

text \<open>Changing the words of a frame that holds no table leaves every translation as it was.\<close>

lemma other_frame_safe:
  fixes s t :: "'a paging_scheme"
  assumes f: "f \<notin> tables s" "f \<noteq> frame (cr3 s)" and out: "\<forall>a. frame a \<noteq> f \<longrightarrow> pm t a = pm s a" and c: "cr3 t = cr3 s"
  shows "tables t = tables s" "self_mapped t = self_mapped s"
    "PDE_IDX w \<noteq> 1023 \<Longrightarrow> translate t w = translate s w"
proof -
  have a: "pde_addr t v = pde_addr s v" for v using c by (simp add: pde_addr_def)
  have e: "pm t (pde_addr t v) = pm s (pde_addr s v)" for v using out f(2) unfolding a by simp
  have p: "present t v = present s v" "table_of t v = table_of s v" for v
    unfolding present_def table_of_def e by (rule refl)+
  show "tables t = tables s" unfolding tables_def p ..
  show "self_mapped t = self_mapped s" unfolding self_mapped_alt p c ..
  show "translate t w = translate s w" if "PDE_IDX w \<noteq> 1023"
  proof (cases "present s w")
    case True
    then have "table_of s w \<in> tables s" using that by (auto simp: tables_def)
    then have "table_of s w \<noteq> f" using f(1) by metis
    moreover have "frame (table_of s w + 4 * PTE_IDX w) = table_of s w" unfolding table_of_def by (rule frame_idx(2))
    ultimately show ?thesis using out unfolding translate_alt p by (simp add: Let_def)
  qed (simp add: translate_alt p)
qed

lemma window_word:
  assumes "self_mapped s" "j < 1024"
  shows "translate s (0xfffff000 + of_nat (4 * j)) = Some (frame (cr3 s) + of_nat (4 * j))"
proof -
  define v where "v = push_bit 22 (of_nat j :: u32)"
  have idx: "PDE_IDX v = of_nat j"
    by (rule bit_eqI) (use bit_small [of j _ 10] assms(2) in \<open>auto simp: PDE_IDX_bit v_def bit_push_bit_iff dest: bit_u32\<close>)
  then have "pde_ptr v = 0xfffff000 + of_nat (4 * j)" "pde_addr s v = frame (cr3 s) + of_nat (4 * j)"
    by (simp_all add: pde_ptr_def pde_addr_def mult.commute)
  then show ?thesis using translate_pde_ptr [OF assms(1), of v] by simp
qed

lemma word_addr_inj:
  assumes "f + of_nat (4 * i) = f + (of_nat (4 * j) :: u32)" "i < 1024" "j < 1024"
  shows "i = j"
proof -
  have "(of_nat (4 * i) :: u32) = of_nat (4 * j)" using assms(1) by simp
  then have "unat (of_nat (4 * i) :: u32) = unat (of_nat (4 * j) :: u32)" by (rule arg_cong)
  then show ?thesis using assms(2,3) by (simp only: unat_u32_mod) simp
qed

lemma copy_words_dir:
  fixes s :: "'a paging_scheme"
  assumes "self_mapped s" "f \<notin> tables s" "frame f = f" "f \<noteq> frame (cr3 s)" "frame va = va" "PDE_IDX va \<noteq> 1023"
    and "\<forall>w. frame w = va \<longrightarrow> translate s w = Some (f + (w AND 0x00000fff))" "i + n \<le> 1024"
  shows "\<exists>h. copy_words (va + of_nat (4 * i)) (0xfffff000 + of_nat (4 * i)) n s = Inr (s\<lparr>pm := h\<rparr>)
    \<and> (\<forall>j<1024. h (f + of_nat (4 * j)) = (if i \<le> j \<and> j < i + n then pm s (frame (cr3 s) + of_nat (4 * j)) else pm s (f + of_nat (4 * j))))
    \<and> (\<forall>a. frame a \<noteq> f \<longrightarrow> h a = pm s a)"
  using assms
proof (induction n arbitrary: i s)
  case 0
  then show ?case by (intro exI [of _ "pm s"]) auto
next
  case (Suc n)
  have i: "i < 1024" using Suc.prems(8) by simp
  let ?a = "f + of_nat (4 * i)" and ?v = "pm s (frame (cr3 s) + of_nat (4 * i))"
  let ?t = "set_word ?a ?v s"
  have fa: "frame ?a = f" using frame_offset(1) [OF Suc.prems(3), of "4 * i"] i by simp
  have "translate s (va + of_nat (4 * i)) = Some ?a"
    using Suc.prems(7) frame_offset [OF Suc.prems(5), of "4 * i"] i by simp
  then have st: "vstore (va + of_nat (4 * i)) ?v s = Inr ?t" by (simp add: vstore_def set_word_def)
  have ld: "vload s (0xfffff000 + of_nat (4 * i)) = Inr ?v" using window_word [OF Suc.prems(1) i] by (simp add: vload_def)
  have c: "cr3 ?t = cr3 s" by (simp add: set_word_def)
  have out: "\<forall>b. frame b \<noteq> f \<longrightarrow> pm ?t b = pm s b" using fa by (auto simp: set_word_def)
  note sf = other_frame_safe [OF Suc.prems(2,4) out c]
  have vt: "\<forall>w. frame w = va \<longrightarrow> translate ?t w = Some (f + (w AND 0x00000fff))"
  proof (intro allI impI)
    fix w assume w: "frame w = va"
    then have "PDE_IDX w = PDE_IDX va" using Suc.prems(5) frame_eq_idx [of w va] by simp
    then show "translate ?t w = Some (f + (w AND 0x00000fff))" using sf(3) [of w] Suc.prems(6,7) w by simp
  qed
  have nx: "va + of_nat (4 * i) + 4 = va + of_nat (4 * Suc i)" "0xfffff000 + of_nat (4 * i) + 4 = 0xfffff000 + (of_nat (4 * Suc i) :: u32)"
    by simp_all
  obtain h where h: "copy_words (va + of_nat (4 * Suc i)) (0xfffff000 + of_nat (4 * Suc i)) n ?t = Inr (?t\<lparr>pm := h\<rparr>)"
    "\<forall>j<1024. h (f + of_nat (4 * j)) = (if Suc i \<le> j \<and> j < Suc i + n then pm ?t (frame (cr3 s) + of_nat (4 * j)) else pm ?t (f + of_nat (4 * j)))"
    "\<forall>a. frame a \<noteq> f \<longrightarrow> h a = pm ?t a"
    using Suc.IH [of ?t "Suc i"] Suc.prems(1,2,3,4,5,6,8) sf(1,2) vt c by auto
  have run: "copy_words (va + of_nat (4 * i)) (0xfffff000 + of_nat (4 * i)) (Suc n) s = Inr (s\<lparr>pm := h\<rparr>)"
    using st ld h(1) unfolding copy_words.simps nx by (simp add: set_word_def)
  have dirw: "pm ?t (frame (cr3 s) + of_nat (4 * j)) = pm s (frame (cr3 s) + of_nat (4 * j))" if "j < 1024" for j
    using out frame_offset(1) [of "frame (cr3 s)" "4 * j"] that Suc.prems(4) by simp
  have own: "pm ?t (f + of_nat (4 * j)) = (if j = i then ?v else pm s (f + of_nat (4 * j)))" if "j < 1024" for j
    using word_addr_inj [of f j i] that i by (auto simp: set_word_def)
  have "\<forall>j<1024. h (f + of_nat (4 * j)) = (if i \<le> j \<and> j < i + Suc n then pm s (frame (cr3 s) + of_nat (4 * j)) else pm s (f + of_nat (4 * j)))"
    using h(2) dirw own by auto
  then show ?case using run h(3) out by auto
qed

text \<open>What the processor sees once it uses the directory held by the frame \<open>f\<close>.\<close>

lemma new_dir_view:
  fixes u t :: "'a paging_scheme"
  assumes f: "frame f = f" "f \<notin> tables t" "f \<noteq> frame (cr3 t)"
    and out: "\<forall>a. frame a \<noteq> f \<longrightarrow> pm u a = pm t a"
    and kernel: "\<forall>j<1023. 768 \<le> j \<longrightarrow> pm u (f + of_nat (4 * j)) = pm t (frame (cr3 t) + of_nat (4 * j))"
    and user: "\<forall>j<768. pm u (f + of_nat (4 * j)) = 0" and self: "pm u (f + 0xffc) = f OR 7"
  shows "self_mapped (u\<lparr>cr3 := f\<rparr>)"
    "768 \<le> PDE_IDX w \<Longrightarrow> PDE_IDX w \<noteq> 1023 \<Longrightarrow> translate (u\<lparr>cr3 := f\<rparr>) w = translate t w"
    "PDE_IDX w < 768 \<Longrightarrow> translate (u\<lparr>cr3 := f\<rparr>) w = None"
proof -
  let ?u = "u\<lparr>cr3 := f\<rparr>" and ?j = "unat (PDE_IDX w)"
  have lt: "?j < 1024"
  proof -
    have "PDE_IDX w = take_bit 10 (PDE_IDX w)" by (rule bit_eqI) (auto simp: PDE_IDX_bit bit_take_bit_iff)
    then have "?j = take_bit 10 ?j" using unsigned_take_bit_eq [of 10 "PDE_IDX w"] by metis
    then show ?thesis using take_bit_nat_less_exp [of 10 ?j] by simp
  qed
  have a: "pde_addr ?u w = f + of_nat (4 * ?j)" "pde_addr t w = frame (cr3 t) + of_nat (4 * ?j)"
    using f(1) by (simp_all add: pde_addr_def)
  show "self_mapped ?u" using self frame_or_flags [OF f(1)] f(1) by (simp add: self_mapped_def)
  show "translate ?u w = None" if "PDE_IDX w < 768"
  proof -
    have "?j < 768" using that by (simp add: word_less_nat_alt)
    then have "pm u (f + of_nat (4 * ?j)) = 0" using user by blast
    then show ?thesis by (simp only: translate_def a(1) select_convs update_convs) simp
  qed
  show "translate ?u w = translate t w" if w: "768 \<le> PDE_IDX w" "PDE_IDX w \<noteq> 1023"
  proof -
    have "768 \<le> ?j" using w(1) by (simp add: word_le_nat_alt)
    moreover have "?j \<noteq> 1023"
    proof
      assume "?j = 1023"
      then have "of_nat ?j = (1023 :: u32)" by simp
      then show False using w(2) by simp
    qed
    ultimately have "768 \<le> ?j" "?j < 1023" using lt by simp_all
    then have "pm u (f + of_nat (4 * ?j)) = pm t (frame (cr3 t) + of_nat (4 * ?j))" using kernel by blast
    then have e: "pm ?u (pde_addr ?u w) = pm t (pde_addr t w)" unfolding a by simp
    then have p: "present ?u w = present t w" "table_of ?u w = table_of t w" unfolding present_def table_of_def by simp_all
    show ?thesis
    proof (cases "present t w")
      case True
      then have "table_of t w \<in> tables t" using w(2) by (auto simp: tables_def)
      then have "table_of t w \<noteq> f" using f(2) by metis
      moreover have "frame (table_of t w + 4 * PTE_IDX w) = table_of t w" unfolding table_of_def by (rule frame_idx(2))
      ultimately show ?thesis using out unfolding translate_alt p by (simp add: Let_def)
    qed (simp add: translate_alt p)
  qed
qed

lemma fill_page_dir:
  fixes t :: "'a kmem_scheme"
  assumes gp: "get_kernel_pages 1 s = Inr (va, t)" "frame va = va" "va \<noteq> 0" "PDE_IDX va \<noteq> 1023"
    and f: "frame f = f" "f \<notin> tables t" "f \<noteq> frame (cr3 t)" and sm: "self_mapped t"
    and vt: "\<forall>w. frame w = va \<longrightarrow> translate t w = Some (f + (w AND 0x00000fff))"
  obtains u where "create_page_dir s = Inr (va, u)" "cr3 u = cr3 t" "\<forall>a. frame a \<noteq> f \<longrightarrow> pm u a = pm t a"
    "\<forall>j<1023. 768 \<le> j \<longrightarrow> pm u (f + of_nat (4 * j)) = pm t (frame (cr3 t) + of_nat (4 * j))"
    "\<forall>j<768. pm u (f + of_nat (4 * j)) = pm t (f + of_nat (4 * j))" "pm u (f + 0xffc) = f OR 7"
proof -
  obtain h where h: "copy_words (va + of_nat (4 * 768)) (0xfffff000 + of_nat (4 * 768)) 256 t = Inr (t\<lparr>pm := h\<rparr>)"
    "\<forall>j<1024. h (f + of_nat (4 * j)) = (if 768 \<le> j \<and> j < 768 + 256 then pm t (frame (cr3 t) + of_nat (4 * j)) else pm t (f + of_nat (4 * j)))"
    "\<forall>a. frame a \<noteq> f \<longrightarrow> h a = pm t a"
    using copy_words_dir [OF sm f(2,1,3) gp(2,4) vt, of 768 256] by auto
  let ?h = "t\<lparr>pm := h\<rparr>" and ?b = "f + of_nat (4 * 1023)"
  let ?u = "set_word ?b (f OR 7) ?h"
  have fb: "frame ?b = f" using frame_offset(1) [OF f(1), of "4 * 1023"] by simp
  have out: "\<forall>a. frame a \<noteq> f \<longrightarrow> pm ?h a = pm t a" using h(3) by simp
  note safe = other_frame_safe [OF f(2,3) out]
  have fo: "frame (va + 0xffc) = va" "(va + 0xffc) AND 0x00000fff = 0xffc" using frame_offset [OF gp(2), of "0xffc"] by simp_all
  then have "PDE_IDX (va + 0xffc) \<noteq> 1023" using gp(2,4) frame_eq_idx [of "va + 0xffc" va] by simp
  then have "translate ?h (va + 0xffc) = Some ?b" using safe(3) [of "va + 0xffc"] vt fo by simp
  then have st: "vstore (va + 0xffc) (f OR 7) ?h = Inr ?u" by (simp add: vstore_def set_word_def)
  have "addr_v2p va ?h = Inr f"
    by (rule addr_v2p_translate) (use safe(2) safe(3) [of va] sm vt gp(2,4) frame_low [OF gp(2)] in simp_all)
  then have run: "create_page_dir s = Inr (va, ?u)" using gp(1,3) h(1) st by (simp add: create_page_dir_def)
  have other: "pm ?u (f + of_nat (4 * j)) = h (f + of_nat (4 * j))" if "j < 1023" for j
    using word_addr_inj [of f j 1023] that by (auto simp: set_word_def)
  have hk: "h (f + of_nat (4 * j)) = pm t (frame (cr3 t) + of_nat (4 * j))" if "768 \<le> j" "j < 1023" for j
    using h(2) [rule_format, of j] that by (simp del: of_nat_mult)
  have hu: "h (f + of_nat (4 * j)) = pm t (f + of_nat (4 * j))" if "j < 768" for j
    using h(2) [rule_format, of j] that by (simp del: of_nat_mult)
  show thesis
  proof (rule that [OF run])
    show "\<forall>a. frame a \<noteq> f \<longrightarrow> pm ?u a = pm t a" using h(3) fb by (auto simp: set_word_def)
    show "\<forall>j<1023. 768 \<le> j \<longrightarrow> pm ?u (f + of_nat (4 * j)) = pm t (frame (cr3 t) + of_nat (4 * j))"
      using hk other by (simp del: of_nat_mult)
    show "\<forall>j<768. pm ?u (f + of_nat (4 * j)) = pm t (f + of_nat (4 * j))" using hu other by (simp del: of_nat_mult)
  qed (simp_all add: set_word_def)
qed

text \<open>
  C18. \<open>create_page_dir\<close>: when a kernel page can be had, the page it returns holds a page directory that maps
  itself, in which every kernel address (directory entries 768 to 1022) is translated exactly as by the directory
  in use, and no user address is mapped.
\<close>

theorem create_page_dir_correct:
  fixes s :: "'a kmem_scheme"
  defines "l \<equiv> kernel_pool_lock s"
  assumes r: "page_ready A p va s" and free: "lock_free l s" "running_thread s \<noteq> 0"
    and outside: "\<not> in_page va (waiters (lock_sema l))"
  shows "\<exists>f u. create_page_dir s = Inr (va, u) \<and> addr_v2p va u = Inr f \<and> f \<in> free_frames (kernel_pool s)
    \<and> maps_page A va f s u \<and> self_mapped (u\<lparr>cr3 := f\<rparr>)
    \<and> (\<forall>w. 768 \<le> PDE_IDX w \<and> PDE_IDX w \<noteq> 1023 \<longrightarrow> translate (u\<lparr>cr3 := f\<rparr>) w = translate u w)
    \<and> (\<forall>w. PDE_IDX w < 768 \<longrightarrow> translate (u\<lparr>cr3 := f\<rparr>) w = None)"
proof -
  obtain f t where t: "get_kernel_pages 1 s = Inr (va, t)" "f \<in> free_frames (kernel_pool s)" "frame f = f"
    "maps_page A va f s t" "\<forall>a. frame a = f \<longrightarrow> pm t a = 0" "f \<notin> tables t" "f \<noteq> frame (cr3 t)" "pages_ok A t"
    using get_kernel_page [OF r free [unfolded l_def] outside [unfolded l_def]] by blast
  have va: "frame va = va" "va \<noteq> 0" "\<forall>w. frame w = va \<longrightarrow> w \<in> A"
    using r page_at_frame unfolding page_ready_def by blast+
  have sm: "self_mapped t" and n1023: "PDE_IDX va \<noteq> 1023"
    using t(8) va(1,3) unfolding pages_ok_def tables_ok_def apart_def by blast+
  have vt: "\<forall>w. frame w = va \<longrightarrow> translate t w = Some (f + (w AND 0x00000fff))"
    using t(4) va(1,3) unfolding maps_page_def by simp
  obtain u where u: "create_page_dir s = Inr (va, u)" "cr3 u = cr3 t" "\<forall>a. frame a \<noteq> f \<longrightarrow> pm u a = pm t a"
    "\<forall>j<1023. 768 \<le> j \<longrightarrow> pm u (f + of_nat (4 * j)) = pm t (frame (cr3 t) + of_nat (4 * j))"
    "\<forall>j<768. pm u (f + of_nat (4 * j)) = pm t (f + of_nat (4 * j))" "pm u (f + 0xffc) = f OR 7"
    by (rule fill_page_dir [OF t(1) va(1,2) n1023 t(3,6,7) sm vt])
  have z: "\<forall>j<768. pm u (f + of_nat (4 * j)) = 0"
    using u(5) t(5) frame_offset(1) [OF t(3)] by (simp del: of_nat_mult)
  note safe = other_frame_safe [OF t(6,7) u(3,2)] and view = new_dir_view [OF t(3,6,7) u(3,4) z u(6)]
  have au: "addr_v2p va u = Inr f"
    by (rule addr_v2p_translate) (use safe(2) safe(3) [OF n1023] sm vt va(1) frame_low [OF va(1)] in simp_all)
  have mu: "maps_page A va f s u" using t(4,8) safe(3) unfolding maps_page_def pages_ok_def apart_def by metis
  have "\<forall>w. 768 \<le> PDE_IDX w \<and> PDE_IDX w \<noteq> 1023 \<longrightarrow> translate (u\<lparr>cr3 := f\<rparr>) w = translate u w"
    using view(2) safe(3) by metis
  then show ?thesis using u(1) au t(2) mu view(1,3) by blast
qed

section \<open>Witnesses\<close>

definition demo_proc :: proc where
  "demo_proc = kmem.extend demo_heap (proc.fields \<lparr>btmp_bytes_len = 128, bits = (\<lambda>_. 0)\<rparr> 1 500 (\<lambda>_. 0) 0 0 0 0)"

lemma demo_proc_fields:
  "pid_bitmap demo_proc = \<lparr>btmp_bytes_len = 128, bits = (\<lambda>_. 0)\<rparr>" "pid_start demo_proc = 1" "pid_lock demo_proc = 500"
  "esp demo_proc = esp demo_heap" "elems demo_proc = elems demo_heap" "sema_value demo_proc = sema_value demo_heap"
  "lock_holder demo_proc = lock_holder demo_heap" "holder_repeat_nr demo_proc = holder_repeat_nr demo_heap"
  by (simp_all add: demo_proc_def kmem.extend_def proc.fields_def)

theorem pid_roundtrip_witness:
  "\<exists>i t u. allocate_pid demo_proc = Inr (of_nat (Suc i), t) \<and> i < 1024 \<and> i \<notin> bm_used (pid_bitmap demo_proc)
    \<and> bm_used (pid_bitmap t) = insert i (bm_used (pid_bitmap demo_proc)) \<and> pid_pool_ok t
    \<and> release_pid (of_nat (Suc i)) t = Inr u \<and> bm_used (pid_bitmap u) = bm_used (pid_bitmap demo_proc)
    \<and> u = demo_proc\<lparr>pid_bitmap := pid_bitmap u\<rparr>"
proof (rule pid_roundtrip)
  have "lock_free 500 demo_heap" using kernel_heapD(4) [OF demo_heap_ok] by (simp add: demo_heap_fields)
  then show "pid_pool_ok demo_proc"
    using demo_heap_fields(3)
    by (simp add: pid_pool_ok_def demo_proc_fields lock_free_def list_empty_def get_node_def running_thread_def bm_cap_def)
  have "0 \<notin> bm_used (pid_bitmap demo_proc)" by (simp add: bm_used_def bitmap_scan_test_def demo_proc_fields)
  then show "bm_used (pid_bitmap demo_proc) \<noteq> {..<1024}" by (metis lessThan_iff zero_less_numeral)
qed

theorem create_page_dir_correct_witness:
  "\<exists>f u. create_page_dir demo_heap = Inr (0xc0100000, u) \<and> addr_v2p 0xc0100000 u = Inr f \<and> f \<in> free_frames (kernel_pool demo_heap)
    \<and> maps_page {w. frame w = 0xc0100000} 0xc0100000 f demo_heap u \<and> self_mapped (u\<lparr>cr3 := f\<rparr>)
    \<and> (\<forall>w. 768 \<le> PDE_IDX w \<and> PDE_IDX w \<noteq> 1023 \<longrightarrow> translate (u\<lparr>cr3 := f\<rparr>) w = translate u w)
    \<and> (\<forall>w. PDE_IDX w < 768 \<longrightarrow> translate (u\<lparr>cr3 := f\<rparr>) w = None)"
proof -
  let ?A = "{w. frame w = 0xc0100000}"
  have ok: "pages_ok ?A demo_mem"
    using demo_tables_ok demo_apart by (simp add: pages_ok_def pool_ok_def demo_mem_simps demo_bits_used frame_def)
  have e: "pm demo_heap = pm demo_mem" "cr3 demo_heap = cr3 demo_mem" "kernel_pool demo_heap = kernel_pool demo_mem"
    "user_pool demo_heap = user_pool demo_mem" "kernel_vaddr demo_heap = kernel_vaddr demo_mem" by (simp_all add: demo_heap_def)
  have "page_ready ?A 0 0xc0100000 demo_heap"
    using ok page_cong(5) [OF e(1-4), of ?A] page_cong(1) [OF e(1,2)] demo_unmapped demo_bits_used(3) demo_free
    by (simp add: page_ready_def e(3,5) demo_mem_simps(5) frame_def)
  moreover have "\<not> in_page 0xc0100000 (waiters (lock_sema (kernel_pool_lock demo_heap)))"
    by (simp add: in_page_def demo_heap_fields waiters_def lock_sema_def)
  moreover have "lock_free (kernel_pool_lock demo_heap) demo_heap" "running_thread demo_heap \<noteq> 0"
    using kernel_heapD(4) [OF demo_heap_ok] by (simp_all add: demo_heap_fields)
  ultimately show ?thesis by (intro create_page_dir_correct)
qed

end
