(* ===== verification/String_Lib.thy ===== *)
theory String_Lib
  imports Kernel_Prelude
begin

text \<open>
  The byte and string routines of \<^verbatim>\<open>lib/string.c\<close>, over byte memory. Each loop is
  a recursion that loads and stores one byte at a time in the order of the source,
  so overlapping operands behave as in C. A pointer is an address, \<open>NULL\<close> is 0.
  \<open>char\<close> is signed, \<open>uint8_t\<close> is not: where the source compares a \<open>char\<close> with a
  \<open>char\<close> or with a \<open>uint8_t\<close>, the model compares the promoted values.

  The lemmas give each routine its meaning on C strings (\<open>cstr\<close>), with the
  memory it leaves unchanged.
\<close>

named_theorems string_specs \<open>what the string routines do on C strings\<close>

subsection \<open>The routines\<close>

fun memset_loop :: "mem \<Rightarrow> nat \<Rightarrow> u8 \<Rightarrow> nat \<Rightarrow> mem outcome" where
  "memset_loop m dst v 0 = Inr m"
| "memset_loop m dst v (Suc n) = andThen (store m dst v) (\<lambda>m. memset_loop m (Suc dst) v n)"

definition memset :: "mem \<Rightarrow> nat \<Rightarrow> u8 \<Rightarrow> nat \<Rightarrow> mem outcome" where
  "memset m dst v n = ASSERT (dst \<noteq> 0) (memset_loop m dst v n)"

fun memcpy_loop :: "mem \<Rightarrow> nat \<Rightarrow> nat \<Rightarrow> nat \<Rightarrow> mem outcome" where
  "memcpy_loop m dst src 0 = Inr m"
| "memcpy_loop m dst src (Suc n) =
     andThen (load m src) (\<lambda>b. andThen (store m dst b) (\<lambda>m. memcpy_loop m (Suc dst) (Suc src) n))"

definition memcpy :: "mem \<Rightarrow> nat \<Rightarrow> nat \<Rightarrow> nat \<Rightarrow> mem outcome" where
  "memcpy m dst src n = ASSERT (dst \<noteq> 0 \<and> src \<noteq> 0) (memcpy_loop m dst src n)"

fun memcmp_loop :: "mem \<Rightarrow> nat \<Rightarrow> nat \<Rightarrow> nat \<Rightarrow> int outcome" where
  "memcmp_loop m a b 0 = Inr 0"
| "memcmp_loop m a b (Suc n) =
     andThen (load m a) (\<lambda>x. andThen (load m b) (\<lambda>y.
       if x \<noteq> y then Inr (if sint x > sint y then 1 else -1)
       else memcmp_loop m (Suc a) (Suc b) n))"

definition memcmp :: "mem \<Rightarrow> nat \<Rightarrow> nat \<Rightarrow> nat \<Rightarrow> int outcome" where
  "memcmp m a b n = ASSERT (a \<noteq> 0 \<or> b \<noteq> 0) (memcmp_loop m a b n)"

function strcpy_loop :: "mem \<Rightarrow> nat \<Rightarrow> nat \<Rightarrow> mem outcome" where
  "strcpy_loop m dst src =
     andThen (load m src) (\<lambda>b. andThen (store m dst b) (\<lambda>m.
       if b \<noteq> 0 then strcpy_loop m (Suc dst) (Suc src) else Inr m))"
  by pat_completeness auto
termination
  by (relation "measure (\<lambda>(m, d, s). addr_limit - s)") (auto dest: load_in_range)

definition strcpy :: "mem \<Rightarrow> nat \<Rightarrow> nat \<Rightarrow> (nat \<times> mem) outcome" where
  "strcpy m dst src = ASSERT (dst \<noteq> 0 \<and> src \<noteq> 0)
     (andThen (strcpy_loop m dst src) (\<lambda>m. Inr (dst, m)))"

text \<open>The address just past the terminating 0: the value of \<open>p\<close> after \<open>while (*p++);\<close>.\<close>

function scan_past_nul :: "mem \<Rightarrow> nat \<Rightarrow> nat outcome" where
  "scan_past_nul m p =
     andThen (load m p) (\<lambda>b. if b \<noteq> 0 then scan_past_nul m (Suc p) else Inr (Suc p))"
  by pat_completeness auto
termination
  by (relation "measure (\<lambda>(m, p). addr_limit - p)") (auto dest: load_in_range)

definition strlen :: "mem \<Rightarrow> nat \<Rightarrow> nat outcome" where
  "strlen m str = ASSERT (str \<noteq> 0) (andThen (scan_past_nul m str) (\<lambda>p. Inr (p - str - 1)))"

function strcmp_loop :: "mem \<Rightarrow> nat \<Rightarrow> nat \<Rightarrow> (nat \<times> nat) outcome" where
  "strcmp_loop m a b =
     andThen (load m a) (\<lambda>x. if x \<noteq> 0
       then andThen (load m b) (\<lambda>y. if x = y then strcmp_loop m (Suc a) (Suc b) else Inr (a, b))
       else Inr (a, b))"
  by pat_completeness auto
termination
  by (relation "measure (\<lambda>(m, a, b). addr_limit - a)") (auto dest: load_in_range)

definition strcmp :: "mem \<Rightarrow> nat \<Rightarrow> nat \<Rightarrow> int outcome" where
  "strcmp m a b = ASSERT (a \<noteq> 0 \<and> b \<noteq> 0)
     (andThen (strcmp_loop m a b) (\<lambda>(a, b).
       andThen (load m a) (\<lambda>x. andThen (load m b) (\<lambda>y.
         Inr (if sint x < sint y then -1 else if sint x > sint y then 1 else 0)))))"

function strchr_loop :: "mem \<Rightarrow> nat \<Rightarrow> u8 \<Rightarrow> nat outcome" where
  "strchr_loop m str ch =
     andThen (load m str) (\<lambda>c. if c \<noteq> 0
       then if sint c = uint ch then Inr str else strchr_loop m (Suc str) ch
       else Inr 0)"
  by pat_completeness auto
termination
  by (relation "measure (\<lambda>(m, p, c). addr_limit - p)") (auto dest: load_in_range)

definition strchr :: "mem \<Rightarrow> nat \<Rightarrow> u8 \<Rightarrow> nat outcome" where
  "strchr m str ch = ASSERT (str \<noteq> 0) (strchr_loop m str ch)"

function strrchr_loop :: "mem \<Rightarrow> nat \<Rightarrow> u8 \<Rightarrow> nat \<Rightarrow> nat outcome" where
  "strrchr_loop m str ch last_char =
     andThen (load m str) (\<lambda>c. if c \<noteq> 0
       then strrchr_loop m (Suc str) ch (if sint c = uint ch then str else last_char)
       else Inr last_char)"
  by pat_completeness auto
termination
  by (relation "measure (\<lambda>(m, p, c, l). addr_limit - p)") (auto dest: load_in_range)

definition strrchr :: "mem \<Rightarrow> nat \<Rightarrow> u8 \<Rightarrow> nat outcome" where
  "strrchr m str ch = ASSERT (str \<noteq> 0) (strrchr_loop m str ch 0)"

definition strcat :: "mem \<Rightarrow> nat \<Rightarrow> nat \<Rightarrow> (nat \<times> mem) outcome" where
  "strcat m dst src = ASSERT (dst \<noteq> 0 \<and> src \<noteq> 0)
     (andThen (scan_past_nul m dst) (\<lambda>str.
       andThen (strcpy_loop m (str - 1) src) (\<lambda>m. Inr (dst, m))))"

function strchrs_loop :: "mem \<Rightarrow> nat \<Rightarrow> u8 \<Rightarrow> nat \<Rightarrow> nat outcome" where
  "strchrs_loop m p ch ch_cnt =
     andThen (load m p) (\<lambda>c. if c \<noteq> 0
       then strchrs_loop m (Suc p) ch (if sint c = uint ch then Suc ch_cnt else ch_cnt)
       else Inr ch_cnt)"
  by pat_completeness auto
termination
  by (relation "measure (\<lambda>(m, p, c, n). addr_limit - p)") (auto dest: load_in_range)

definition strchrs :: "mem \<Rightarrow> nat \<Rightarrow> u8 \<Rightarrow> nat outcome" where
  "strchrs m str ch = ASSERT (str \<noteq> 0) (strchrs_loop m str ch 0)"

declare strcpy_loop.simps [simp del] scan_past_nul.simps [simp del] strcmp_loop.simps [simp del]
  strchr_loop.simps [simp del] strrchr_loop.simps [simp del] strchrs_loop.simps [simp del]

subsection \<open>Copying and filling\<close>

lemma memset_loop_put: "mapped m d n \<Longrightarrow> memset_loop m d v n = Inr (put_bytes m d (replicate n v))"
  by (induction n arbitrary: m d)
    (auto simp: mapped_Suc put_bytes_Cons store_ok mapped_upd)

lemma memset_spec [string_specs]:
  "d \<noteq> 0 \<Longrightarrow> mapped m d n \<Longrightarrow> memset m d v n = Inr (put_bytes m d (replicate n v))"
  by (simp add: memset_def memset_loop_put)

lemma memcpy_loop_put:
  "holds m s bs \<Longrightarrow> mapped m d (length bs) \<Longrightarrow> region d (length bs) \<inter> region s (length bs) = {} \<Longrightarrow>
   memcpy_loop m d s (length bs) = Inr (put_bytes m d bs)"
proof (induction bs arbitrary: m d s)
  case (Cons b bs)
  from Cons.prems have "load m s = Inr b" and "store m d b = Inr (m(d \<mapsto> b))"
    by (auto simp: holds_Cons mapped_Suc load_Inr store_ok)
  moreover have "memcpy_loop (m(d \<mapsto> b)) (Suc d) (Suc s) (length bs) = Inr (put_bytes (m(d \<mapsto> b)) (Suc d) bs)"
  proof (rule Cons.IH)
    show "holds (m(d \<mapsto> b)) (Suc s) bs"
      using Cons.prems by (subst holds_cong [of _ _ _ m]) (auto simp: holds_Cons region_Suc)
    show "mapped (m(d \<mapsto> b)) (Suc d) (length bs)"
      using Cons.prems by (auto simp: mapped_Suc intro: mapped_upd)
    show "region (Suc d) (length bs) \<inter> region (Suc s) (length bs) = {}"
      using Cons.prems by (auto simp: region_Suc)
  qed
  ultimately show ?case by (simp add: put_bytes_Cons)
qed simp

lemma memcpy_spec [string_specs]:
  assumes "d \<noteq> 0" "s \<noteq> 0" "holds m s bs" "mapped m d (length bs)"
    and "region d (length bs) \<inter> region s (length bs) = {}"
  shows "memcpy m d s (length bs) = Inr (put_bytes m d bs)"
  using assms by (simp add: memcpy_def memcpy_loop_put)

subsection \<open>Length and copy of C strings\<close>

lemma scan_past_nul_cstr: "cstr m p s \<Longrightarrow> scan_past_nul m p = Inr (p + length s + 1)"
  by (induction s arbitrary: p) (subst scan_past_nul.simps, simp add: cstr_Nil cstr_Cons)+

lemma strlen_spec [string_specs]: "p \<noteq> 0 \<Longrightarrow> cstr m p s \<Longrightarrow> strlen m p = Inr (length s)"
  by (simp add: strlen_def scan_past_nul_cstr)

lemma strcpy_loop_put:
  "cstr m s bs \<Longrightarrow> mapped m d (Suc (length bs)) \<Longrightarrow>
   region d (Suc (length bs)) \<inter> region s (Suc (length bs)) = {} \<Longrightarrow>
   strcpy_loop m d s = Inr (put_bytes m d (bs @ [0]))"
proof (induction bs arbitrary: m d s)
  case Nil
  then show ?case
    by (subst strcpy_loop.simps) (auto simp: cstr_Nil mapped_Suc store_ok put_bytes_Cons)
next
  case (Cons b bs)
  from Cons.prems have "load m s = Inr b" "b \<noteq> 0" and "store m d b = Inr (m(d \<mapsto> b))"
    by (auto simp: cstr_Cons mapped_Suc store_ok)
  moreover have "strcpy_loop (m(d \<mapsto> b)) (Suc d) (Suc s) = Inr (put_bytes (m(d \<mapsto> b)) (Suc d) (bs @ [0]))"
  proof (rule Cons.IH)
    show "cstr (m(d \<mapsto> b)) (Suc s) bs"
      using Cons.prems by (subst cstr_cong [of _ _ _ m]) (auto simp: cstr_Cons region_Suc)
    show "mapped (m(d \<mapsto> b)) (Suc d) (Suc (length bs))"
      using Cons.prems by (simp add: mapped_Suc [of m d] mapped_upd)
    show "region (Suc d) (Suc (length bs)) \<inter> region (Suc s) (Suc (length bs)) = {}"
      using Cons.prems by (auto simp: region_Suc [of d] region_Suc [of s])
  qed
  ultimately show ?case by (subst strcpy_loop.simps) (simp add: put_bytes_Cons)
qed

lemma strcpy_spec [string_specs]:
  assumes "d \<noteq> 0" "s \<noteq> 0" "cstr m s bs" "mapped m d (Suc (length bs))"
    and "region d (Suc (length bs)) \<inter> region s (Suc (length bs)) = {}"
  shows "strcpy m d s = Inr (d, put_bytes m d (bs @ [0]))"
  using assms by (simp add: strcpy_def strcpy_loop_put)

lemma strcat_spec [string_specs]:
  assumes "d \<noteq> 0" "s \<noteq> 0" "cstr m d as" "cstr m s bs"
    and "mapped m d (Suc (length as + length bs))"
    and "region d (Suc (length as + length bs)) \<inter> region s (Suc (length bs)) = {}"
  shows "strcat m d s = Inr (d, put_bytes m (d + length as) (bs @ [0]))"
proof -
  have "strcpy_loop m (d + length as) s = Inr (put_bytes m (d + length as) (bs @ [0]))"
  proof (rule strcpy_loop_put)
    show "mapped m (d + length as) (Suc (length bs))"
      using assms(5) by (simp add: mapped_add [of m d "length as" "Suc (length bs)", simplified])
    show "region (d + length as) (Suc (length bs)) \<inter> region s (Suc (length bs)) = {}"
      using assms(6) by (auto simp: region_def)
  qed fact
  then show ?thesis using assms by (simp add: strcat_def scan_past_nul_cstr)
qed

lemma strcat_cstr:
  assumes "cstr m d as" "0 \<notin> set bs" "d + length as + length bs < addr_limit"
  shows "cstr (put_bytes m (d + length as) (bs @ [0])) d (as @ bs)"
proof -
  let ?m = "put_bytes m (d + length as) (bs @ [0])"
  have "holds ?m d as"
    using assms(1) by (subst holds_cong [of _ _ _ m])
      (auto simp: cstr_def holds_append put_bytes_other region_def)
  moreover have "holds ?m (d + length as) (bs @ [0])"
    using assms(3) by (intro holds_put_bytes) simp
  ultimately show ?thesis using assms by (auto simp: cstr_def holds_append)
qed

subsection \<open>Comparison\<close>

text \<open>The order of two strings: the signed order of the first bytes that differ.\<close>

fun str_order :: "u8 list \<Rightarrow> u8 list \<Rightarrow> int" where
  "str_order [] [] = 0"
| "str_order [] (y # ys) = (if 0 < sint y then -1 else 1)"
| "str_order (x # xs) [] = (if sint x < 0 then -1 else 1)"
| "str_order (x # xs) (y # ys) =
     (if x = y then str_order xs ys else if sint x < sint y then -1 else 1)"

lemma sint_eq_iff: "sint (x :: u8) = sint y \<longleftrightarrow> x = y"
  by (rule iffI, drule arg_cong [where f = "of_int :: int \<Rightarrow> u8"], simp_all)

lemma strcmp_spec [string_specs]:
  assumes "a \<noteq> 0" "b \<noteq> 0" "cstr m a xs" "cstr m b ys"
  shows "strcmp m a b = Inr (str_order xs ys)"
proof -
  have "andThen (strcmp_loop m a b) (\<lambda>(a, b).
       andThen (load m a) (\<lambda>x. andThen (load m b) (\<lambda>y.
         Inr (if sint x < sint y then -1 else if sint x > sint y then 1 else 0)))) =
     Inr (str_order xs ys)"
    using assms(3,4)
  proof (induction xs ys arbitrary: a b rule: str_order.induct)
    case (2 y ys)
    then show ?case
      by (subst strcmp_loop.simps) (auto simp: cstr_Nil cstr_Cons signed_eq_0_iff)
  next
    case (3 x xs)
    then show ?case
      by (subst strcmp_loop.simps) (auto simp: cstr_Nil cstr_Cons signed_eq_0_iff)
  next
    case (4 x xs y ys)
    then show ?case
      by (subst strcmp_loop.simps) (auto simp: cstr_Cons dest: sint_eq_iff [THEN iffD1])
  qed (subst strcmp_loop.simps, simp add: cstr_Nil)
  then show ?thesis using assms by (simp add: strcmp_def)
qed

lemma str_order_0: "str_order xs ys = 0 \<longleftrightarrow> xs = ys"
  by (induction xs ys rule: str_order.induct) auto

subsection \<open>Searching\<close>

text \<open>A byte of at least 128 is never found: \<open>*str\<close> is promoted as negative, \<open>ch\<close> is not.\<close>

abbreviation ascii :: "u8 \<Rightarrow> bool" where
  "ascii c \<equiv> uint c < 128"

lemma strchr_spec [string_specs]:
  assumes "p \<noteq> 0" "cstr m p s"
  shows "strchr m p ch = Inr (if ch \<in> set s \<and> ascii ch
     then p + length (takeWhile (\<lambda>c. c \<noteq> ch) s) else 0)"
proof -
  have "strchr_loop m p ch = Inr (if ch \<in> set s \<and> ascii ch
     then p + length (takeWhile (\<lambda>c. c \<noteq> ch) s) else 0)"
    using assms(2)
  proof (induction s arbitrary: p)
    case Nil
    then show ?case by (subst strchr_loop.simps) (simp add: cstr_Nil)
  next
    case (Cons c s)
    then show ?case
      by (subst strchr_loop.simps) (auto simp: cstr_Cons sint_eq_uint8)
  qed
  then show ?thesis using assms by (simp add: strchr_def)
qed

fun last_index :: "u8 \<Rightarrow> u8 list \<Rightarrow> nat option" where
  "last_index ch [] = None"
| "last_index ch (c # s) = (case last_index ch s of
     Some i \<Rightarrow> Some (Suc i) | None \<Rightarrow> if c = ch then Some 0 else None)"

lemma last_index_None: "last_index ch s = None \<longleftrightarrow> ch \<notin> set s"
  by (induction s) (auto split: option.splits)

lemma last_index_split: "ch \<notin> set ys \<Longrightarrow> last_index ch (xs @ ch # ys) = Some (length xs)"
  by (induction xs) (auto simp: last_index_None [THEN iffD2])

lemma strrchr_loop_spec:
  "cstr m p s \<Longrightarrow> ascii ch \<Longrightarrow> strrchr_loop m p ch l =
     Inr (case last_index ch s of Some i \<Rightarrow> p + i | None \<Rightarrow> l)"
proof (induction s arbitrary: p l)
  case Nil
  then show ?case by (subst strrchr_loop.simps) (simp add: cstr_Nil)
next
  case (Cons c s)
  then show ?case
    by (subst strrchr_loop.simps)
      (auto simp: cstr_Cons sint_eq_uint8 split: option.splits)
qed

lemma strrchr_spec [string_specs]:
  "p \<noteq> 0 \<Longrightarrow> cstr m p s \<Longrightarrow> ascii ch \<Longrightarrow>
   strrchr m p ch = Inr (case last_index ch s of Some i \<Rightarrow> p + i | None \<Rightarrow> 0)"
  by (simp add: strrchr_def strrchr_loop_spec)

lemma strchrs_loop_spec:
  "cstr m p s \<Longrightarrow> ascii ch \<Longrightarrow> strchrs_loop m p ch n = Inr (n + count_list s ch)"
proof (induction s arbitrary: p n)
  case Nil
  then show ?case by (subst strchrs_loop.simps) (simp add: cstr_Nil)
next
  case (Cons c s)
  then show ?case
    by (subst strchrs_loop.simps) (auto simp: cstr_Cons sint_eq_uint8)
qed

lemma strchrs_spec [string_specs]:
  "p \<noteq> 0 \<Longrightarrow> cstr m p s \<Longrightarrow> ascii ch \<Longrightarrow> strchrs m p ch = Inr (count_list s ch)"
  by (simp add: strchrs_def strchrs_loop_spec)

lemma memcmp_loop_spec:
  "holds m a xs \<Longrightarrow> holds m b ys \<Longrightarrow> length xs = length ys \<Longrightarrow>
   memcmp_loop m a b (length xs) = Inr (str_order xs ys)"
proof (induction xs ys arbitrary: a b rule: str_order.induct)
  case (4 x xs y ys)
  then show ?case by (auto simp: holds_Cons load_def sint_eq_iff)
qed simp_all

lemma memcmp_spec [string_specs]:
  "a \<noteq> 0 \<Longrightarrow> holds m a xs \<Longrightarrow> holds m b ys \<Longrightarrow> length xs = length ys \<Longrightarrow>
   memcmp m a b (length xs) = Inr (str_order xs ys)"
  using memcmp_loop_spec [of m a xs b ys] by (simp add: memcmp_def)

end
