(* ===== verification/Paths.thy ===== *)
theory Paths
  imports String_Lib Linked_List
begin

text \<open>
  Paths and command lines as C strings: the parsing of paths of \<^verbatim>\<open>fs/fs.c\<close>, the cleaning of paths of
  \<^verbatim>\<open>shell/buildin_cmd.c\<close> and the splitting of command lines of \<^verbatim>\<open>shell/shell.c\<close>. A local array is an argument, the
  address it has on the stack; so are the addresses of the string literals the code compares with.
\<close>

abbreviation MAX_FILE_NAME_LEN :: nat where
  "MAX_FILE_NAME_LEN \<equiv> 16"

abbreviation MAX_PATH_LEN :: nat where
  "MAX_PATH_LEN \<equiv> 512"

abbreviation MAX_ARG_NR :: nat where
  "MAX_ARG_NR \<equiv> 16"

section \<open>Path names\<close>

function skip_char :: "mem \<Rightarrow> nat \<Rightarrow> u8 \<Rightarrow> nat outcome" where
  "skip_char m p c = andThen (load m p) (\<lambda>b. if b = c then skip_char m (Suc p) c else Inr p)"
  by pat_completeness auto
termination
  by (relation "measure (\<lambda>(m, p, c). addr_limit - p)") (auto dest: load_in_range)

function copy_component :: "mem \<Rightarrow> nat \<Rightarrow> nat \<Rightarrow> (nat \<times> mem) outcome" where
  "copy_component m pathname name_store =
     andThen (load m pathname) (\<lambda>b.
     if b \<noteq> 47 \<and> b \<noteq> 0 then andThen (store m name_store b) (\<lambda>m. copy_component m (Suc pathname) (Suc name_store))
     else Inr (pathname, m))"
  by pat_completeness auto
termination
  by (relation "measure (\<lambda>(m, p, d). addr_limit - p)") (auto dest: load_in_range)

definition path_parse :: "mem \<Rightarrow> nat \<Rightarrow> nat \<Rightarrow> (nat \<times> mem) outcome" where
  "path_parse m pathname name_store =
     andThen (load m pathname) (\<lambda>c.
     andThen (if c = 47 then skip_char m (Suc pathname) 47 else Inr pathname) (\<lambda>pathname.
     andThen (copy_component m pathname name_store) (\<lambda>(pathname, m).
     andThen (load m pathname) (\<lambda>c.
     Inr (if c = 0 then 0 else pathname, m)))))"

text \<open>
  The loop of \<open>path_depth_cnt\<close>. In a round with \<open>p\<close> 0 the name has been cleared and the loop ends; otherwise \<open>path_parse\<close>
  has moved on or has found the end of the path.
\<close>

partial_function (option) depth_loop :: "mem \<Rightarrow> nat \<Rightarrow> nat \<Rightarrow> u32 \<Rightarrow> (u32 \<times> mem) outcome option" where
  "depth_loop m p name depth =
     (case load m name of Inl t \<Rightarrow> Some (Inl t) | Inr c \<Rightarrow>
      if c = 0 then Some (Inr (depth, m))
      else (case memset m name 0 MAX_FILE_NAME_LEN of Inl t \<Rightarrow> Some (Inl t) | Inr m \<Rightarrow>
            if p \<noteq> 0 then (case path_parse m p name of Inl t \<Rightarrow> Some (Inl t) | Inr r \<Rightarrow> depth_loop (snd r) (fst r) name (depth + 1))
            else depth_loop m p name (depth + 1)))"

definition path_depth_cnt :: "mem \<Rightarrow> nat \<Rightarrow> nat \<Rightarrow> (u32 \<times> mem) outcome" where
  "path_depth_cnt m pathname name = ASSERT (pathname \<noteq> 0)
     (andThen (path_parse m pathname name) (\<lambda>(p, m). run_walk (depth_loop m p name 0)))"

section \<open>Absolute paths without dots\<close>

record literals =
  lit_slash :: nat
  lit_dot :: nat
  lit_dotdot :: nat

definition wash_step :: "literals \<Rightarrow> mem \<Rightarrow> nat \<Rightarrow> nat \<Rightarrow> mem outcome" where
  "wash_step lits m name new_abs_path =
     andThen (strcmp m (lit_dotdot lits) name) (\<lambda>up.
     if up = 0 then
       andThen (strrchr m new_abs_path 47) (\<lambda>slash_ptr.
       if slash_ptr \<noteq> new_abs_path then store m slash_ptr 0 else store m (slash_ptr + 1) 0)
     else
       andThen (strcmp m (lit_dot lits) name) (\<lambda>here.
       if here \<noteq> 0 then
         andThen (strcmp m new_abs_path (lit_slash lits)) (\<lambda>root.
         andThen (if root \<noteq> 0 then andThen (strcat m new_abs_path (lit_slash lits)) (\<lambda>(_, m). Inr m) else Inr m) (\<lambda>m.
         andThen (strcat m new_abs_path name) (\<lambda>(_, m). Inr m)))
       else Inr m))"

partial_function (option) wash_loop :: "literals \<Rightarrow> mem \<Rightarrow> nat \<Rightarrow> nat \<Rightarrow> nat \<Rightarrow> mem outcome option" where
  "wash_loop lits m sub_path name new_abs_path =
     (case load m name of Inl t \<Rightarrow> Some (Inl t) | Inr c \<Rightarrow>
      if c = 0 then Some (Inr m)
      else (case wash_step lits m name new_abs_path of Inl t \<Rightarrow> Some (Inl t) | Inr m \<Rightarrow>
        (case memset m name 0 MAX_FILE_NAME_LEN of Inl t \<Rightarrow> Some (Inl t) | Inr m \<Rightarrow>
         if sub_path \<noteq> 0 then
           (case path_parse m sub_path name of Inl t \<Rightarrow> Some (Inl t) | Inr r \<Rightarrow> wash_loop lits (snd r) (fst r) name new_abs_path)
         else wash_loop lits m sub_path name new_abs_path)))"

text \<open>The array \<open>name\<close> is initialised with zeros.\<close>

definition wash_path :: "literals \<Rightarrow> mem \<Rightarrow> nat \<Rightarrow> nat \<Rightarrow> nat \<Rightarrow> mem outcome" where
  "wash_path lits m old_abs_path new_abs_path name =
     andThen (load m old_abs_path) (\<lambda>c. ASSERT (c = 47)
    (andThen (memset m name 0 MAX_FILE_NAME_LEN) (\<lambda>m.
     andThen (path_parse m old_abs_path name) (\<lambda>(sub_path, m).
     andThen (load m name) (\<lambda>c.
     if c = 0 then andThen (store m new_abs_path 47) (\<lambda>m. store m (new_abs_path + 1) 0)
     else
       andThen (store m new_abs_path 0) (\<lambda>m.
       andThen (strcat m new_abs_path (lit_slash lits)) (\<lambda>(_, m).
       run_walk (wash_loop lits m sub_path name new_abs_path))))))))"

text \<open>\<open>getcwd\<close> is the system call that writes the path of the working directory into a buffer and returns the buffer or 0.\<close>

definition make_clear_abs_path ::
  "literals \<Rightarrow> (mem \<Rightarrow> nat \<Rightarrow> nat \<Rightarrow> (nat \<times> mem) outcome) \<Rightarrow> mem \<Rightarrow> nat \<Rightarrow> nat \<Rightarrow> nat \<Rightarrow> nat \<Rightarrow> mem outcome" where
  "make_clear_abs_path lits getcwd m path final_path abs_path name =
     andThen (memset m abs_path 0 MAX_PATH_LEN) (\<lambda>m.
     andThen (load m path) (\<lambda>c.
     andThen (if c \<noteq> 47 then
         andThen (memset m abs_path 0 MAX_PATH_LEN) (\<lambda>m.
         andThen (getcwd m abs_path MAX_PATH_LEN) (\<lambda>(r, m).
         if r \<noteq> 0 then
           andThen (load m abs_path) (\<lambda>c0. andThen (load m (abs_path + 1)) (\<lambda>c1.
           if \<not> (c0 = 47 \<and> c1 = 0) then andThen (strcat m abs_path (lit_slash lits)) (\<lambda>(_, m). Inr m) else Inr m))
         else Inr m))
       else Inr m) (\<lambda>m.
     andThen (strcat m abs_path path) (\<lambda>(_, m).
     wash_path lits m abs_path final_path name))))"

section \<open>Command lines\<close>

function word_end :: "mem \<Rightarrow> nat \<Rightarrow> u8 \<Rightarrow> nat outcome" where
  "word_end m p token = andThen (load m p) (\<lambda>b. if b \<noteq> 0 \<and> b \<noteq> token then word_end m (Suc p) token else Inr p)"
  by pat_completeness auto
termination
  by (relation "measure (\<lambda>(m, p, c). addr_limit - p)") (auto dest: load_in_range)

declare skip_char.simps [simp del] copy_component.simps [simp del] word_end.simps [simp del]

text \<open>\<open>argv\<close> is an array of \<open>MAX_ARG_NR\<close> pointers; the check of \<open>argc\<close> comes after the assignment.\<close>

definition set_arg :: "nat list \<Rightarrow> nat \<Rightarrow> nat \<Rightarrow> nat list outcome" where
  "set_arg argv i p = (if i < length argv then Inr (argv[i := p]) else Inl BadAccess)"

partial_function (option) cmd_loop :: "mem \<Rightarrow> nat \<Rightarrow> u8 \<Rightarrow> nat list \<Rightarrow> nat \<Rightarrow> (int \<times> nat list \<times> mem) outcome option" where
  "cmd_loop m p token argv argc =
     (case load m p of Inl t \<Rightarrow> Some (Inl t) | Inr c \<Rightarrow>
      if c = 0 then Some (Inr (int argc, argv, m))
      else (case skip_char m p token of Inl t \<Rightarrow> Some (Inl t) | Inr p \<Rightarrow>
        (case load m p of Inl t \<Rightarrow> Some (Inl t) | Inr c \<Rightarrow>
         if c = 0 then Some (Inr (int argc, argv, m))
         else (case set_arg argv argc p of Inl t \<Rightarrow> Some (Inl t) | Inr argv \<Rightarrow>
           (case word_end m p token of Inl t \<Rightarrow> Some (Inl t) | Inr p \<Rightarrow>
             (case load m p of Inl t \<Rightarrow> Some (Inl t) | Inr c \<Rightarrow>
               (case (if c \<noteq> 0 then andThen (store m p 0) (\<lambda>m. Inr (Suc p, m)) else Inr (p, m)) of
                  Inl t \<Rightarrow> Some (Inl t)
                | Inr r \<Rightarrow>
                    if MAX_ARG_NR < argc then Some (Inr (- 1, argv, snd r))
                    else cmd_loop (snd r) (fst r) token argv (Suc argc))))))))"

definition cmd_parse :: "mem \<Rightarrow> nat \<Rightarrow> u8 \<Rightarrow> (int \<times> nat list \<times> mem) outcome" where
  "cmd_parse m cmd_str token = ASSERT (cmd_str \<noteq> 0)
     (run_walk (cmd_loop m cmd_str token (replicate MAX_ARG_NR 0) 0))"

end
