(* ===== verification/Paths_Proofs.thy ===== *)
theory Paths_Proofs
  imports Paths
begin

text \<open>
  What the path and command line parsers compute: the non-empty pieces of a string between separators, the path that is
  left when \<open>.\<close> and \<open>..\<close> are resolved, and the words of a command line.
\<close>

section \<open>Pieces of a string\<close>

function pieces :: "u8 \<Rightarrow> u8 list \<Rightarrow> u8 list list" where
  "pieces c s = (let t = dropWhile (\<lambda>b. b = c) s in
     if t = [] then [] else takeWhile (\<lambda>b. b \<noteq> c) t # pieces c (dropWhile (\<lambda>b. b \<noteq> c) t))"
  by pat_completeness auto
termination
proof (relation "measure (\<lambda>(c, s). length s)")
  fix c t and s :: "u8 list"
  assume t: "t = dropWhile (\<lambda>b. b = c) s" "t \<noteq> []"
  then have "hd t \<noteq> c" using hd_dropWhile [of "\<lambda>b. b = c" s] by simp
  then have "length (dropWhile (\<lambda>b. b \<noteq> c) t) < length t" using t(2) by (cases t) (auto intro: le_imp_less_Suc length_dropWhile_le)
  also have "\<dots> \<le> length s" using t(1) length_dropWhile_le by blast
  finally show "((c, dropWhile (\<lambda>b. b \<noteq> c) t), (c, s)) \<in> measure (\<lambda>(c, s). length s)" by simp
qed simp

declare pieces.simps [simp del]

lemma pieces_split:
  assumes "dropWhile (\<lambda>b. b = c) s \<noteq> []"
  shows "pieces c s = takeWhile (\<lambda>b. b \<noteq> c) (dropWhile (\<lambda>b. b = c) s) # pieces c (dropWhile (\<lambda>b. b \<noteq> c) (dropWhile (\<lambda>b. b = c) s))"
  using assms by (subst pieces.simps) (simp add: Let_def)

lemma pieces_Nil: "dropWhile (\<lambda>b. b = c) s = [] \<Longrightarrow> pieces c s = []"
  by (subst pieces.simps) simp

lemma piece_ok: "w \<in> set (pieces c s) \<Longrightarrow> w \<noteq> [] \<and> c \<notin> set w \<and> set w \<subseteq> set s"
proof (induction c s rule: pieces.induct)
  case (1 c s)
  let ?t = "dropWhile (\<lambda>b. b = c) s"
  show ?case
  proof (cases "?t = []")
    case False
    have s: "set ?t \<subseteq> set s" by (meson set_dropWhileD subsetI)
    have "hd ?t \<noteq> c" using hd_dropWhile [of "\<lambda>b. b = c" s] False by simp
    then have "takeWhile (\<lambda>b. b \<noteq> c) ?t \<noteq> []" using False by (cases ?t) auto
    moreover have "c \<notin> set (takeWhile (\<lambda>b. b \<noteq> c) ?t)" "set (takeWhile (\<lambda>b. b \<noteq> c) ?t) \<subseteq> set s"
      using s by (auto dest: set_takeWhileD)
    moreover have "set (dropWhile (\<lambda>b. b \<noteq> c) ?t) \<subseteq> set s" using s by (meson set_dropWhileD subset_iff)
    ultimately show ?thesis using "1.IH" [OF refl False] "1.prems" pieces_split [OF False] by auto
  qed (use "1.prems" pieces_Nil in auto)
qed

lemma pieces_length: "length (concat (map ((#) c) (pieces c s))) \<le> Suc (length s)"
  "s \<noteq> [] \<Longrightarrow> hd s = c \<Longrightarrow> length (concat (map ((#) c) (pieces c s))) \<le> length s"
proof (induction c s rule: pieces.induct)
  case (1 c s)
  let ?t = "dropWhile (\<lambda>b. b = c) s" let ?r = "dropWhile (\<lambda>b. b \<noteq> c) ?t"
  have key: "length (concat (map ((#) c) (pieces c s))) \<le> Suc (length ?t)"
  proof (cases "?t = []")
    case False
    have l: "length (takeWhile (\<lambda>b. b \<noteq> c) ?t) + length ?r = length ?t" by (metis length_append takeWhile_dropWhile_id)
    have "length (concat (map ((#) c) (pieces c ?r))) \<le> length ?r"
    proof (cases "?r = []")
      case True
      show ?thesis unfolding True by (simp add: pieces_Nil)
    next
      case rne: False
      then have "hd ?r = c" using hd_dropWhile [of "\<lambda>b. b \<noteq> c" ?t] by simp
      then show ?thesis using "1.IH"(2) [OF refl False rne] by simp
    qed
    then show ?thesis using l unfolding pieces_split [OF False] by simp
  next
    case True
    show ?thesis unfolding pieces_Nil [OF True] by simp
  qed
  show "length (concat (map ((#) c) (pieces c s))) \<le> Suc (length s)"
    using key length_dropWhile_le [of "\<lambda>b. b = c" s] by simp
  show "length (concat (map ((#) c) (pieces c s))) \<le> length s" if "s \<noteq> []" "hd s = c"
  proof -
    have "Suc (length ?t) \<le> length s" using that length_dropWhile_le [of "\<lambda>b. b = c" "tl s"] by (cases s) auto
    then show ?thesis using key by simp
  qed
qed

section \<open>Parsing one component\<close>

lemma cstr_drop: "cstr m p (xs @ ys) \<Longrightarrow> cstr m (p + length xs) ys"
  by (auto simp: cstr_def holds_append)

lemma cstr_loadD: "cstr m p s \<Longrightarrow> load m p = Inr (case s of [] \<Rightarrow> 0 | c # _ \<Rightarrow> c)"
  by (cases s) (auto simp: cstr_Nil cstr_Cons)

lemma skip_char_spec: "cstr m p s \<Longrightarrow> c \<noteq> 0 \<Longrightarrow> skip_char m p c = Inr (p + length (takeWhile (\<lambda>b. b = c) s))"
  by (induction s arbitrary: p) (subst skip_char.simps, auto simp: cstr_Nil cstr_Cons)+

lemma word_end_spec: "cstr m p s \<Longrightarrow> word_end m p c = Inr (p + length (takeWhile (\<lambda>b. b \<noteq> c) s))"
  by (induction s arbitrary: p) (subst word_end.simps, auto simp: cstr_Nil cstr_Cons)+

lemma copy_component_spec:
  "cstr m p s \<Longrightarrow> w = takeWhile (\<lambda>b. b \<noteq> 47) s \<Longrightarrow> mapped m d (length w) \<Longrightarrow>
   region d (length w) \<inter> region p (Suc (length s)) = {} \<Longrightarrow>
   copy_component m p d = Inr (p + length w, put_bytes m d w)"
proof (induction s arbitrary: m p d w)
  case Nil
  then show ?case by (subst copy_component.simps) (simp add: cstr_Nil)
next
  case (Cons b s)
  show ?case
  proof (cases "b = 47")
    case True
    then show ?thesis using Cons.prems by (subst copy_component.simps) (simp add: cstr_Cons)
  next
    case False
    let ?w = "takeWhile (\<lambda>b. b \<noteq> 47) s"
    have w: "w = b # ?w" using Cons.prems(2) False by simp
    have st: "store m d b = Inr (m(d \<mapsto> b))" using Cons.prems(3) by (simp add: w mapped_Suc store_ok)
    have "copy_component (m(d \<mapsto> b)) (Suc p) (Suc d) = Inr (Suc p + length ?w, put_bytes (m(d \<mapsto> b)) (Suc d) ?w)"
    proof (rule Cons.IH)
      show "cstr (m(d \<mapsto> b)) (Suc p) s"
        using Cons.prems(1,4) by (subst cstr_cong [of _ _ _ m]) (auto simp: cstr_Cons w region_Suc [of d] region_Suc [of p])
      show "mapped (m(d \<mapsto> b)) (Suc d) (length ?w)" using Cons.prems(3) by (simp add: w mapped_Suc mapped_upd)
      show "region (Suc d) (length ?w) \<inter> region (Suc p) (Suc (length s)) = {}"
        using Cons.prems(4) by (auto simp: w region_def)
    qed simp
    then show ?thesis using Cons.prems(1) False st
      by (subst copy_component.simps) (simp add: cstr_Cons w put_bytes_Cons)
  qed
qed

lemma path_parse_spec:
  assumes s: "cstr m p s" and t: "t = dropWhile (\<lambda>b. b = 47) s" and w: "w = takeWhile (\<lambda>b. b \<noteq> 47) t"
    and r: "r = dropWhile (\<lambda>b. b \<noteq> 47) t" and d: "mapped m d (length w)" "region d (length w) \<inter> region p (Suc (length s)) = {}"
  shows "path_parse m p d = Inr (if r = [] then 0 else p + (length s - length r), put_bytes m d w)"
    "cstr m (p + (length s - length r)) r"
proof -
  let ?k = "length (takeWhile (\<lambda>b. b = 47) s)"
  have st: "s = takeWhile (\<lambda>b. b = 47) s @ w @ r" using t w r by simp
  then have len: "length s = ?k + length w + length r" by (metis length_append add.assoc)
  have ct: "cstr m (p + ?k) t" using cstr_drop [of m p "takeWhile (\<lambda>b. b = 47) s" t] s t by simp
  show cr: "cstr m (p + (length s - length r)) r"
    using cstr_drop [of m "p + ?k" w r] ct len w r by (simp add: add.assoc)
  have sk: "andThen (load m p) (\<lambda>c. if c = 47 then skip_char m (Suc p) 47 else Inr p) = Inr (p + ?k)"
  proof (cases s)
    case (Cons b u)
    then show ?thesis using s skip_char_spec [of m "Suc p" u 47] by (auto simp: cstr_Cons)
  qed (use s in \<open>simp add: cstr_Nil\<close>)
  have lt: "length t = length w + length r" using w r by (metis length_append takeWhile_dropWhile_id)
  have "region (p + ?k) (Suc (length t)) \<subseteq> region p (Suc (length s))" unfolding region_def len lt by auto
  then have "region d (length w) \<inter> region (p + ?k) (Suc (length t)) = {}" using d(2) by blast
  then have cp: "copy_component m (p + ?k) d = Inr (p + ?k + length w, put_bytes m d w)"
    by (intro copy_component_spec [OF ct w d(1)])
  have "cstr (put_bytes m d w) (p + (length s - length r)) r"
  proof (subst cstr_cong [of _ _ _ m])
    fix a assume a: "a \<in> region (p + (length s - length r)) (Suc (length r))"
    have "a \<in> region p (Suc (length s))" using a len by (auto simp: region_def)
    then show "put_bytes m d w a = m a" using d(2) by (intro put_bytes_other) blast
  qed (rule cr)
  then have "load (put_bytes m d w) (p + ?k + length w) = Inr (case r of [] \<Rightarrow> 0 | c # _ \<Rightarrow> c)" "0 \<notin> set r"
    using cstr_loadD len by (fastforce simp: cstr_def add.assoc)+
  then show "path_parse m p d = Inr (if r = [] then 0 else p + (length s - length r), put_bytes m d w)"
    using sk cp len unfolding path_parse_def andThen_assoc [symmetric]
    by (auto simp: andThen_assoc split: list.splits)
qed

section \<open>What a routine writes\<close>

definition writes :: "nat set \<Rightarrow> mem \<Rightarrow> mem \<Rightarrow> bool" where
  "writes W m m' \<longleftrightarrow> (\<forall>a. a \<notin> W \<longrightarrow> m' a = m a) \<and> (\<forall>a. m' a = None \<longleftrightarrow> m a = None)"

lemma writes_refl [simp]: "writes W m m"
  by (simp add: writes_def)

lemma writes_trans: "writes W m m' \<Longrightarrow> writes W m' m'' \<Longrightarrow> writes W m m''"
  by (simp add: writes_def)

lemma writes_mono: "writes V m m' \<Longrightarrow> V \<subseteq> W \<Longrightarrow> writes W m m'"
  by (auto simp: writes_def)

lemma writes_put: "mapped m p (length bs) \<Longrightarrow> region p (length bs) \<subseteq> W \<Longrightarrow> writes W m (put_bytes m p bs)"
  unfolding writes_def
proof (intro conjI allI impI)
  fix a assume m: "mapped m p (length bs)" "region p (length bs) \<subseteq> W"
  show "put_bytes m p bs a = m a" if "a \<notin> W" using m(2) that by (intro put_bytes_other) blast
  show "(put_bytes m p bs a = None) = (m a = None)"
    using m(1) by (auto simp: put_bytes_def mapped_def dest: spec [of _ "a - p"])
qed

lemma writes_upd: "m a \<noteq> None \<Longrightarrow> a \<in> W \<Longrightarrow> writes W m (m(a \<mapsto> b))"
  by (auto simp: writes_def)

lemma writes_cstr: "writes W m m' \<Longrightarrow> region p (Suc (length s)) \<inter> W = {} \<Longrightarrow> cstr m' p s \<longleftrightarrow> cstr m p s"
  by (intro cstr_cong) (auto simp: writes_def)

lemma writes_mapped: "writes W m m' \<Longrightarrow> mapped m' p n \<longleftrightarrow> mapped m p n"
  by (simp add: writes_def mapped_def)

section \<open>Resolving dots\<close>

text \<open>The path of a list of components, and what one more component does to it.\<close>

definition joined :: "u8 list list \<Rightarrow> u8 list" where
  "joined cs = concat (map ((#) 47) cs)"

definition render :: "u8 list list \<Rightarrow> u8 list" where
  "render cs = (if cs = [] then [47] else joined cs)"

definition resolve :: "u8 list list \<Rightarrow> u8 list \<Rightarrow> u8 list list" where
  "resolve cs c = (if c = [46, 46] then butlast cs else if c = [46] then cs else cs @ [c])"

definition clean :: "u8 list list \<Rightarrow> bool" where
  "clean cs \<longleftrightarrow> (\<forall>c\<in>set cs. c \<noteq> [] \<and> 47 \<notin> set c \<and> 0 \<notin> set c)"

lemma joined_snoc: "joined (cs @ [c]) = joined cs @ 47 # c"
  by (simp add: joined_def)

lemma joined_butlast: "length (joined (butlast cs)) \<le> length (joined cs)"
  by (cases cs rule: rev_cases) (auto simp: joined_snoc)

lemma render_root: "clean cs \<Longrightarrow> render cs = [47] \<longleftrightarrow> cs = []"
  by (cases cs) (auto simp: render_def joined_def clean_def)

definition wash_env :: "literals \<Rightarrow> nat \<Rightarrow> nat \<Rightarrow> nat \<Rightarrow> mem \<Rightarrow> bool" where
  "wash_env lits new N name m \<longleftrightarrow> new \<noteq> 0 \<and> name \<noteq> 0 \<and> lit_slash lits \<noteq> 0 \<and> lit_dot lits \<noteq> 0 \<and> lit_dotdot lits \<noteq> 0
     \<and> mapped m new N \<and> mapped m name 16 \<and> region new N \<inter> region name 16 = {}
     \<and> cstr m (lit_slash lits) [47] \<and> region (lit_slash lits) 2 \<inter> (region new N \<union> region name 16) = {}
     \<and> cstr m (lit_dot lits) [46] \<and> region (lit_dot lits) 2 \<inter> (region new N \<union> region name 16) = {}
     \<and> cstr m (lit_dotdot lits) [46, 46] \<and> region (lit_dotdot lits) 3 \<inter> (region new N \<union> region name 16) = {}"

lemma wash_env_writes:
  assumes "wash_env lits new N name m" "writes (region new N \<union> region name 16) m m'"
  shows "wash_env lits new N name m'"
  using assms writes_mapped [OF assms(2)] writes_cstr [OF assms(2), of "lit_slash lits" "[47]"]
    writes_cstr [OF assms(2), of "lit_dot lits" "[46]"] writes_cstr [OF assms(2), of "lit_dotdot lits" "[46, 46]"]
  by (simp add: wash_env_def numeral_2_eq_2 numeral_3_eq_3)

lemma cstr_cut:
  assumes "cstr m p (xs @ c # ys)"
  shows "store m (p + length xs) 0 = Inr (m(p + length xs \<mapsto> 0))" "cstr (m(p + length xs \<mapsto> 0)) p xs"
proof -
  have h: "holds m p xs" "m (p + length xs) = Some c" "p + length xs < addr_limit" "0 \<notin> set xs"
    using assms by (auto simp: cstr_def holds_append holds_Cons)
  then show "store m (p + length xs) 0 = Inr (m(p + length xs \<mapsto> 0))" by (simp add: store_ok)
  have "holds (m(p + length xs \<mapsto> 0)) p xs" using h(1) by (subst holds_cong [of _ _ _ m]) (auto simp: region_def)
  then show "cstr (m(p + length xs \<mapsto> 0)) p xs" using h by (simp add: cstr_def holds_append holds_Cons)
qed

lemma joined_bytes: "clean cs \<Longrightarrow> 0 \<notin> set (joined cs)"
  by (auto simp: joined_def clean_def)

lemma wash_up:
  assumes env: "wash_env lits new N name m" and cs: "clean cs" "cstr m new (render cs)" "length (render cs) < N"
  shows "\<exists>m'. andThen (strrchr m new 47) (\<lambda>slash_ptr. if slash_ptr \<noteq> new then store m slash_ptr 0 else store m (slash_ptr + 1) 0) = Inr m'
    \<and> writes (region new N) m m' \<and> cstr m' new (render (butlast cs))"
proof (cases cs rule: rev_cases)
  case Nil
  have "strrchr m new 47 = Inr new"
    using strrchr_spec [of new m "[47]" 47] env cs(2) Nil by (simp add: wash_env_def render_def)
  moreover have "m (new + 1) = Some 0" "new + 1 < addr_limit" using cs(2) Nil by (simp_all add: render_def cstr_def holds_Cons)
  then have "store m (new + 1) 0 = Inr m" by (simp add: store_ok fun_upd_idem)
  ultimately show ?thesis using Nil cs(2) by (auto simp: render_def)
next
  case (snoc ys y)
  have y: "y \<noteq> []" "47 \<notin> set y" "clean ys" using cs(1) snoc by (auto simp: clean_def)
  have r: "cstr m new (joined ys @ 47 # y)" using cs(2) snoc by (simp add: render_def joined_snoc)
  have n: "length (joined ys) + length y + 1 < N" using cs(3) snoc by (simp add: render_def joined_snoc)
  have sl: "strrchr m new 47 = Inr (new + length (joined ys))"
    using strrchr_spec [of new m "joined ys @ 47 # y" 47] env r last_index_split [OF y(2), of "joined ys"] by (simp add: wash_env_def)
  have mp: "m (new + i) \<noteq> None" if "i < N" for i using env that by (auto simp: wash_env_def mapped_def)
  show ?thesis
  proof (cases "ys = []")
    case True
    obtain c y' where "y = c # y'" using y(1) by (cases y) auto
    then have "cstr m new ([47] @ c # y')" using r True by (simp add: joined_def)
    from cstr_cut [OF this] have "store m (new + 1) 0 = Inr (m(new + 1 \<mapsto> 0))" "cstr (m(new + 1 \<mapsto> 0)) new [47]" by simp_all
    moreover have "writes (region new N) m (m(new + 1 \<mapsto> 0))" using mp [of 1] n by (intro writes_upd) (auto simp: region_def)
    ultimately show ?thesis using sl True snoc by (auto simp: joined_def render_def)
  next
    case False
    then have "joined ys \<noteq> []" by (cases ys) (auto simp: joined_def)
    moreover have "writes (region new N) m (m(new + length (joined ys) \<mapsto> 0))"
      using mp n by (intro writes_upd) (auto simp: region_def)
    ultimately show ?thesis using sl cstr_cut [OF r] False snoc by (auto simp: render_def)
  qed
qed

lemma strcat_writes:
  assumes "new \<noteq> 0" "q \<noteq> 0" "cstr m new as" "cstr m q bs" "mapped m new N" "length as + length bs < N"
    and "region q (Suc (length bs)) \<inter> region new N = {}"
  shows "\<exists>m'. strcat m new q = Inr (new, m') \<and> writes (region new N) m m' \<and> cstr m' new (as @ bs)"
proof -
  let ?m = "put_bytes m (new + length as) (bs @ [0])"
  have mp: "mapped m new (Suc (length as + length bs))" using mapped_le [OF assms(5)] assms(6) by simp
  have "region new (Suc (length as + length bs)) \<subseteq> region new N" using assms(6) by (auto simp: region_def)
  then have "strcat m new q = Inr (new, ?m)"
    using assms(7) by (intro strcat_spec [OF assms(1-4) mp]) blast
  moreover have "cstr ?m new (as @ bs)"
    using assms(3,4) mp by (intro strcat_cstr) (auto simp: cstr_def mapped_def)
  moreover have "writes (region new N) m ?m"
  proof (rule writes_put)
    show "mapped m (new + length as) (length (bs @ [0]))"
      using mapped_add [of m new "length as" "Suc (length bs)"] mp by simp
  qed (use assms(6) in \<open>auto simp: region_def\<close>)
  ultimately show ?thesis by blast
qed

lemma wash_step_ok:
  assumes env: "wash_env lits new N name m" and cs: "clean cs" "cstr m new (render cs)"
    and c: "cstr m name c" "c \<noteq> []" "47 \<notin> set c" "length c < 16" and n: "length (joined cs) + length c + 2 < N"
  shows "\<exists>m'. wash_step lits m name new = Inr m' \<and> writes (region new N) m m' \<and> cstr m' new (render (resolve cs c))"
proof -
  note e = env [unfolded wash_env_def]
  have up: "strcmp m (lit_dotdot lits) name = Inr (str_order [46, 46] c)" and here: "strcmp m (lit_dot lits) name = Inr (str_order [46] c)"
    using e c(1) by (auto intro!: strcmp_spec)
  have root: "strcmp m new (lit_slash lits) = Inr (str_order (render cs) [47])" using e cs(2) by (auto intro!: strcmp_spec)
  have rl: "length (render cs) < N" using n by (simp add: render_def)
  consider "c = [46, 46]" | "c = [46]" | "c \<noteq> [46, 46]" "c \<noteq> [46]" by blast
  then show ?thesis
  proof cases
    case 1
    then show ?thesis using wash_up [OF env cs rl] up by (simp add: wash_step_def resolve_def str_order_0)
  next
    case 2
    then show ?thesis using up here cs(2) by (simp add: wash_step_def resolve_def str_order_0)
  next
    case 3
    have sep: "\<exists>m1. (if str_order (render cs) [47] \<noteq> 0 then andThen (strcat m new (lit_slash lits)) (\<lambda>(_, m). Inr m) else Inr m) = Inr m1
      \<and> writes (region new N) m m1 \<and> cstr m1 new (joined cs @ [47])"
    proof (cases "cs = []")
      case True
      then show ?thesis using cs(2) by (simp add: render_def joined_def)
    next
      case False
      then have "render cs = joined cs" "str_order (render cs) [47] \<noteq> 0" using render_root [OF cs(1)] by (simp_all add: render_def str_order_0)
      moreover have "region (lit_slash lits) (Suc (length [47 :: u8])) \<inter> region new N = {}" using e by (auto simp: numeral_2_eq_2)
      ultimately show ?thesis
        using strcat_writes [of new "lit_slash lits" m "joined cs" "[47]" N] e cs(2) n by auto
    qed
    then obtain m1 where m1: "(if str_order (render cs) [47] \<noteq> 0 then andThen (strcat m new (lit_slash lits)) (\<lambda>(_, m). Inr m) else Inr m) = Inr m1"
      "writes (region new N) m m1" "cstr m1 new (joined cs @ [47])" by blast
    have rn: "region name (Suc (length c)) \<inter> region new N = {}" using e c(4) by (auto simp: region_def)
    have "cstr m1 name c" using writes_cstr [OF m1(2) rn] c(1) by simp
    then obtain m2 where m2: "strcat m1 new name = Inr (new, m2)" "writes (region new N) m1 m2" "cstr m2 new ((joined cs @ [47]) @ c)"
      using strcat_writes [of new name m1 "joined cs @ [47]" c N] e m1(3) n rn writes_mapped [OF m1(2)] by auto
    have "resolve cs c = cs @ [c]" "render (cs @ [c]) = (joined cs @ [47]) @ c" using 3 by (simp_all add: resolve_def render_def joined_snoc)
    then show ?thesis using up here root m1 m2 3 writes_trans [OF m1(2) m2(2)] by (auto simp: wash_step_def str_order_0)
  qed
qed

text \<open>A pointer into the path: \<open>NULL\<close> at its end.\<close>

definition path_at :: "mem \<Rightarrow> nat set \<Rightarrow> nat \<Rightarrow> u8 list \<Rightarrow> bool" where
  "path_at m W p r \<longleftrightarrow> p = 0 \<and> r = [] \<or> p \<noteq> 0 \<and> cstr m p r \<and> region p (Suc (length r)) \<inter> W = {}"

lemma path_at_writes: "path_at m W p r \<Longrightarrow> writes W m m' \<Longrightarrow> path_at m' W p r"
  using writes_cstr by (auto simp: path_at_def)

lemma name_cstr:
  assumes "mapped m name 16" "0 \<notin> set w" "length w < 16"
  shows "cstr (put_bytes (put_bytes m name (replicate 16 0)) name w) name w"
proof -
  let ?m = "put_bytes (put_bytes m name (replicate 16 0)) name w"
  have "name + 16 \<le> addr_limit" using assms(1) by (simp add: mapped_def)
  moreover have "?m (name + i) = Some ((w @ [0]) ! i)" if "i < Suc (length w)" for i
    using that assms(3) by (auto simp: put_bytes_def nth_append)
  ultimately show ?thesis using assms(2,3) by (simp add: cstr_def holds_def)
qed

lemma next_component:
  assumes s: "cstr m p s" "p \<noteq> 0" "region p (Suc (length s)) \<inter> W = {}" and name: "region name 16 \<subseteq> W" "mapped m name 16" "name \<noteq> 0"
    and short: "\<forall>c\<in>set (pieces 47 s). length c < 16"
  obtains m1 m2 q w r where "memset m name 0 16 = Inr m1" "path_parse m1 p name = Inr (q, m2)" "writes (region name 16) m m2"
    "writes (region name 16) m m1" "cstr m2 name w" "path_at m2 W q r" "pieces 47 s = (if w = [] then [] else w # pieces 47 r)"
    "w = [] \<Longrightarrow> q = 0" "length r \<le> length s" "s \<noteq> [] \<Longrightarrow> length r < length s"
proof -
  define t where "t = dropWhile (\<lambda>b. b = 47) s"
  define w where "w = takeWhile (\<lambda>b. b \<noteq> 47) t"
  define r where "r = dropWhile (\<lambda>b. b \<noteq> 47) t"
  let ?m1 = "put_bytes m name (replicate 16 0)"
  have ms: "memset m name 0 16 = Inr ?m1" using memset_spec [OF name(3,2)] by simp
  have w1: "writes (region name 16) m ?m1" using name(2) by (intro writes_put) simp_all
  have "(takeWhile (\<lambda>b. b \<noteq> 47) t = []) = (t = [])" if "t \<noteq> [] \<Longrightarrow> hd t \<noteq> 47" for t :: "u8 list" using that by (cases t) auto
  then have tne: "w = [] \<longleftrightarrow> t = []" using hd_dropWhile [of "\<lambda>b. b = 47" s] unfolding w_def t_def by blast
  have pc: "pieces 47 s = (if w = [] then [] else w # pieces 47 r)" unfolding tne using pieces_split [of 47 s] pieces_Nil [of 47 s] unfolding w_def r_def t_def [symmetric] by simp
  have wl: "length w < 16" using short pc by (auto split: if_splits)
  have z: "0 \<notin> set w" "0 \<notin> set s" using s(1) by (auto simp: cstr_def w_def t_def dest: set_takeWhileD set_dropWhileD)
  have sub: "region name (length w) \<subseteq> region name 16" using wl by (auto simp: region_def)
  have s1: "cstr ?m1 p s" using writes_cstr [OF w1, of p s] s name(1) by blast
  have d: "mapped ?m1 name (length w)" "region name (length w) \<inter> region p (Suc (length s)) = {}"
    using mapped_le [OF name(2)] wl sub name(1) s(3) by (auto simp: mapped_put_bytes)
  note pp = path_parse_spec [OF s1 t_def w_def r_def d]
  let ?m2 = "put_bytes ?m1 name w"
  have w2: "writes (region name 16) m ?m2"
    using writes_trans [OF w1 writes_put [OF d(1) sub]] .
  have lr: "length r \<le> length s" "s \<noteq> [] \<Longrightarrow> length r < length s"
  proof -
    have "length r \<le> length t" "length t \<le> length s" by (simp_all add: r_def t_def length_dropWhile_le)
    then show "length r \<le> length s" by simp
    show "length r < length s" if "s \<noteq> []"
    proof (cases "t = []")
      case False
      then have "length w > 0" using tne by simp
      moreover have "length w + length r = length t" by (metis length_append takeWhile_dropWhile_id w_def r_def)
      ultimately show ?thesis using \<open>length t \<le> length s\<close> by linarith
    next
      case True
      show ?thesis using that True by (simp add: r_def)
    qed
  qed
  have "region (p + (length s - length r)) (Suc (length r)) \<subseteq> region p (Suc (length s))" using lr(1) by (auto simp: region_def)
  then have dis: "region (p + (length s - length r)) (Suc (length r)) \<inter> W = {}" using s(3) by blast
  then have "cstr ?m2 (p + (length s - length r)) r"
    using writes_cstr [OF writes_put [OF d(1) sub]] name(1) pp(2) by blast
  then have pa: "path_at ?m2 W (if r = [] then 0 else p + (length s - length r)) r" using s(2) dis by (simp add: path_at_def)
  have "r = []" if "w = []" using that tne by (simp add: r_def)
  then show thesis using that [OF ms pp(1) w2 w1 name_cstr [OF name(2) z(1) wl] pa pc] lr by simp
qed

lemma wash_loop_ok:
  fixes c rest :: "u8 list"
  assumes "wash_env lits new N name m" "clean cs" "cstr m new (render cs)" "cstr m name c" "47 \<notin> set c" "length c < 16"
    and "path_at m (region new N \<union> region name 16) sub rest" "\<forall>w\<in>set (pieces 47 rest). length w < 16"
    and "c = [] \<Longrightarrow> rest = []" "length (joined cs) + length (joined (if c = [] then [] else c # pieces 47 rest)) + 1 < N"
  shows "\<exists>m'. wash_loop lits m sub name new = Some (Inr m') \<and> writes (region new N \<union> region name 16) m m'
    \<and> cstr m' new (render (fold (\<lambda>c cs. resolve cs c) (if c = [] then [] else c # pieces 47 rest) cs))"
  using assms
proof (induction "length rest + (if c = [] then 0 else 1)" arbitrary: m cs c sub rest rule: less_induct)
  case less
  let ?W = "region new N \<union> region name 16"
  note e = less.prems(1) [unfolded wash_env_def]
  show ?case
  proof (cases "c = []")
    case True
    then show ?thesis using less.prems(3,4) by (subst wash_loop.simps) (simp add: cstr_Nil)
  next
    case False
    then obtain x xs where c: "c = x # xs" by (cases c) auto
    have lc: "load m name = Inr x" "x \<noteq> 0" using less.prems(4) c by (simp_all add: cstr_Cons)
    obtain m1 where m1: "wash_step lits m name new = Inr m1" "writes (region new N) m m1" "cstr m1 new (render (resolve cs c))"
      using wash_step_ok [OF less.prems(1-4) False less.prems(5,6)] less.prems(10) False by (auto simp: joined_def)
    have W1: "writes ?W m m1" using writes_mono [OF m1(2)] by blast
    note env1 = wash_env_writes [OF less.prems(1) W1] and at1 = path_at_writes [OF less.prems(7) W1]
    have cl: "clean (resolve cs c)"
      using less.prems(2,4,5) False by (auto simp: clean_def resolve_def cstr_def dest: in_set_butlastD)
    have keep: "cstr m' new u \<longleftrightarrow> cstr m1 new u" if "writes (region name 16) m1 m'" "length u < N" for m' u
      using writes_cstr [OF that(1), of new u] e that(2) by (auto simp: region_def)
    have lj: "length (joined (resolve cs c)) \<le> length (joined cs) + 1 + length c"
      using joined_butlast [of cs] by (auto simp: resolve_def joined_snoc)
    have lr: "length (render (resolve cs c)) < N" using lj less.prems(10) False by (auto simp: render_def joined_def)
    show ?thesis
    proof (cases "sub = 0")
      case True
      let ?m2 = "put_bytes m1 name (replicate 16 0)"
      have "memset m1 name 0 16 = Inr ?m2" using memset_spec [of name m1 16 0] env1 by (simp add: wash_env_def)
      moreover have w2: "writes (region name 16) m1 ?m2" using env1 by (intro writes_put) (simp_all add: wash_env_def)
      moreover have "load ?m2 name = Inr 0" using env1 by (auto simp: wash_env_def load_def put_bytes_def mapped_def)
      ultimately have "wash_loop lits m sub name new = Some (Inr ?m2)"
        using lc m1(1) True by (subst wash_loop.simps, simp, subst wash_loop.simps) simp
      moreover have "pieces 47 rest = []" using less.prems(7) True by (simp add: path_at_def pieces_Nil)
      moreover have "writes ?W m ?m2" using writes_trans [OF W1 writes_mono [OF w2]] by blast
      ultimately show ?thesis using keep [OF w2 lr] m1(3) False by simp
    next
      case sub: False
      then have at: "cstr m1 sub rest" "region sub (Suc (length rest)) \<inter> ?W = {}" using at1 by (simp_all add: path_at_def)
      obtain m2 m3 q w r where nc: "memset m1 name 0 16 = Inr m2" "path_parse m2 sub name = Inr (q, m3)" "writes (region name 16) m1 m3"
        "cstr m3 name w" "path_at m3 ?W q r" "pieces 47 rest = (if w = [] then [] else w # pieces 47 r)" "w = [] \<Longrightarrow> q = 0"
        "length r \<le> length rest" "rest \<noteq> [] \<Longrightarrow> length r < length rest"
        by (rule next_component [OF at(1) sub at(2), of name]) (use env1 less.prems(8) in \<open>simp_all add: wash_env_def\<close>)
      have W3: "writes ?W m m3" using writes_trans [OF W1 writes_mono [OF nc(3)]] by blast
      have "writes ?W m1 m3" using writes_mono [OF nc(3)] by blast
      note env3 = wash_env_writes [OF env1 this]
      have r0: "w = [] \<Longrightarrow> r = []" using nc(5,7) by (auto simp: path_at_def)
      have ms: "length r + (if w = [] then 0 else 1) < length rest + (if c = [] then 0 else 1)"
        using nc(6,8,9) r0 False by (cases "rest = []") (auto simp: pieces_Nil split: if_splits)
      have w: "47 \<notin> set w" "length w < 16" "\<forall>w\<in>set (pieces 47 r). length w < 16"
      proof -
        have "set (pieces 47 r) \<subseteq> set (pieces 47 rest) \<and> (w \<noteq> [] \<longrightarrow> w \<in> set (pieces 47 rest))"
          unfolding nc(6) using r0 pieces_Nil [of 47 r] by auto
        then have "w = [] \<or> 47 \<notin> set w \<and> length w < 16" "\<forall>w\<in>set (pieces 47 r). length w < 16"
          using less.prems(8) piece_ok [of w 47 rest] by blast+
        then show "47 \<notin> set w" "length w < 16" "\<forall>w\<in>set (pieces 47 r). length w < 16" by auto
      qed
      have jl: "length (joined (resolve cs c)) + length (joined (if w = [] then [] else w # pieces 47 r)) + 1 < N"
        using lj less.prems(10) False unfolding nc(6) [symmetric] by (simp add: joined_def)
      obtain m' where m': "wash_loop lits m3 q name new = Some (Inr m')" "writes ?W m3 m'"
        "cstr m' new (render (fold (\<lambda>c cs. resolve cs c) (if w = [] then [] else w # pieces 47 r) (resolve cs c)))"
        using less.hyps [OF ms env3 cl _ nc(4) w(1,2) nc(5) w(3) r0 jl] keep [OF nc(3) lr] m1(3) by blast
      have "wash_loop lits m sub name new = Some (Inr m')"
        using lc m1(1) sub nc(1,2) m'(1) by (subst wash_loop.simps) simp
      then show ?thesis using m'(3) writes_trans [OF W3 m'(2)] False nc(6) by auto
    qed
  qed
qed

definition resolved :: "u8 list list \<Rightarrow> u8 list list" where
  "resolved cs = fold (\<lambda>c cs. resolve cs c) cs []"

lemma resolve_no_dots:
  "{[46], [46, 46]} \<inter> set ds = {} \<Longrightarrow> {[46], [46, 46]} \<inter> set (fold (\<lambda>c cs. resolve cs c) cs ds) = {}"
  by (induction cs arbitrary: ds) (auto simp: resolve_def dest: in_set_butlastD)

lemma wash_start:
  assumes env: "wash_env lits new N name m" and N: "1 < N"
  shows "\<exists>m'. andThen (store m new 0) (\<lambda>m. strcat m new (lit_slash lits)) = Inr (new, m') \<and> writes (region new N) m m' \<and> cstr m' new [47]"
    "\<exists>m'. andThen (store m new 47) (\<lambda>m. store m (new + 1) 0) = Inr m' \<and> writes (region new N) m m' \<and> cstr m' new [47]"
proof -
  note e = env [unfolded wash_env_def]
  have mp: "m new \<noteq> None" "m (new + 1) \<noteq> None" "new + 1 < addr_limit" using e N by (auto simp: mapped_def dest: spec [of _ 0] spec [of _ 1])
  let ?m = "m(new \<mapsto> 0)"
  have st: "store m new b = Inr (m(new \<mapsto> b))" for b using mp by (simp add: store_ok)
  have w: "writes (region new N) m (m(new \<mapsto> b))" for b using mp(1) N by (intro writes_upd) (auto simp: region_def)
  have r: "region (lit_slash lits) (Suc (length [47 :: u8])) \<inter> region new N = {}" using e by (auto simp: numeral_2_eq_2)
  have "cstr ?m new []" using mp by (simp add: cstr_Nil load_def)
  moreover have "cstr ?m (lit_slash lits) [47]" using writes_cstr [OF w r] e by simp
  ultimately obtain m' where "strcat ?m new (lit_slash lits) = Inr (new, m')" "writes (region new N) ?m m'" "cstr m' new [47]"
    using strcat_writes [of new "lit_slash lits" ?m "[]" "[47]" N] e r N writes_mapped [OF w] by auto
  then show "\<exists>m'. andThen (store m new 0) (\<lambda>m. strcat m new (lit_slash lits)) = Inr (new, m') \<and> writes (region new N) m m' \<and> cstr m' new [47]"
    using st writes_trans [OF w] by auto
  let ?n = "m(new \<mapsto> 47, new + 1 \<mapsto> 0)"
  have "store (m(new \<mapsto> 47)) (new + 1) 0 = Inr ?n" using mp by (simp add: store_ok)
  moreover have "cstr ?n new [47]" using mp by (simp add: cstr_Cons cstr_Nil load_def)
  moreover have "writes (region new N) m ?n"
    using writes_trans [OF w writes_upd] mp N by (auto simp: region_def)
  ultimately show "\<exists>m'. andThen (store m new 47) (\<lambda>m. store m (new + 1) 0) = Inr m' \<and> writes (region new N) m m' \<and> cstr m' new [47]"
    using st by auto
qed

lemma wash_path_ok:
  assumes env: "wash_env lits new N name m" and p: "cstr m old p" "old \<noteq> 0" "p \<noteq> []" "hd p = 47"
    and apart: "region old (Suc (length p)) \<inter> (region new N \<union> region name 16) = {}"
    and short: "\<forall>c\<in>set (pieces 47 p). length c < 16" and room: "length p + 1 < N"
  shows "\<exists>m'. wash_path lits m old new name = Inr m' \<and> cstr m' new (render (resolved (pieces 47 p)))
    \<and> {[46], [46, 46]} \<inter> set (resolved (pieces 47 p)) = {} \<and> writes (region new N \<union> region name 16) m m'"
proof -
  let ?W = "region new N \<union> region name 16"
  note e = env [unfolded wash_env_def]
  have slash: "load m old = Inr 47" using cstr_loadD [OF p(1)] p(3,4) by (cases p) simp_all
  obtain m1 m2 q w r where nc: "memset m name 0 16 = Inr m1" "path_parse m1 old name = Inr (q, m2)" "writes (region name 16) m m2"
    "cstr m2 name w" "path_at m2 ?W q r" "pieces 47 p = (if w = [] then [] else w # pieces 47 r)" "w = [] \<Longrightarrow> q = 0"
    by (rule next_component [OF p(1,2) apart, of name]) (use e short in simp_all)
  have W2: "writes ?W m m2" using writes_mono [OF nc(3)] by blast
  note env2 = wash_env_writes [OF env W2]
  have nd: "{[46], [46, 46]} \<inter> set (resolved (pieces 47 p)) = {}" unfolding resolved_def by (rule resolve_no_dots) simp
  have N1: "1 < N" using room p(3) by simp
  show ?thesis
  proof (cases "w = []")
    case True
    obtain m' where "andThen (store m2 new 47) (\<lambda>m. store m (new + 1) 0) = Inr m'" "writes (region new N) m2 m'" "cstr m' new [47]"
      using wash_start(2) [OF env2 N1] by blast
    moreover from this(2) have "writes ?W m m'" using writes_trans [OF W2 writes_mono] by blast
    ultimately show ?thesis using slash nc(1,2,4,6) True nd
      by (auto simp: wash_path_def cstr_Nil resolved_def render_def)
  next
    case False
    then obtain x xs where w: "w = x # xs" by (cases w) auto
    obtain m3 where m3: "andThen (store m2 new 0) (\<lambda>m. strcat m new (lit_slash lits)) = Inr (new, m3)" "writes (region new N) m2 m3" "cstr m3 new [47]"
      using wash_start(1) [OF env2 N1] by blast
    have W3: "writes ?W m2 m3" using writes_mono [OF m3(2)] by blast
    have pw: "w \<in> set (pieces 47 p)" using nc(6) False by simp
    have "region name (Suc (length w)) \<inter> region new N = {}" using e short pw by (fastforce simp: region_def)
    then have "cstr m3 name w" using writes_cstr [OF m3(2)] nc(4) by blast
    moreover have "length (joined (if w = [] then [] else w # pieces 47 r)) \<le> length p"
      using pieces_length(2) [OF p(3,4)] unfolding nc(6) [symmetric] joined_def by simp
    moreover have "\<forall>w\<in>set (pieces 47 r). length w < 16" using short nc(6) False by simp
    ultimately obtain m' where m': "wash_loop lits m3 q name new = Some (Inr m')" "writes ?W m3 m'"
      "cstr m' new (render (fold (\<lambda>c cs. resolve cs c) (if w = [] then [] else w # pieces 47 r) []))"
      using wash_loop_ok [OF wash_env_writes [OF env2 W3], of "[]" w q r] m3(3) path_at_writes [OF nc(5) W3] piece_ok [OF pw] short pw room False
      by (auto simp: clean_def render_def joined_def)
    have "load m2 name = Inr x" "x \<noteq> 0" using nc(4) w by (simp_all add: cstr_Cons)
    then have "wash_path lits m old new name = Inr m'"
      using slash nc(1,2) m3(1) m'(1) by (auto simp: wash_path_def andThen_eq_Inr run_walk_def)
    then show ?thesis using m'(3) nd nc(6) writes_trans [OF W2 writes_trans [OF W3 m'(2)]] by (auto simp: resolved_def)
  qed
qed

text \<open>
  C21. \<open>wash_path\<close> resolves the dots of an absolute path: from a path whose components have fewer than 16 characters it
  makes, in a buffer one character longer than the path and its terminator, the path of the components that are left when every \<open>.\<close> is
  dropped and every \<open>..\<close> removes the component before it (none, at the root). The result contains neither.
\<close>

theorem wash_path_correct:
  assumes env: "wash_env lits new N name m" and p: "cstr m old p" "old \<noteq> 0" "p \<noteq> []" "hd p = 47"
    and apart: "region old (Suc (length p)) \<inter> (region new N \<union> region name 16) = {}"
    and short: "\<forall>c\<in>set (pieces 47 p). length c < 16" and room: "length p + 1 < N"
  shows "\<exists>m'. wash_path lits m old new name = Inr m' \<and> cstr m' new (render (resolved (pieces 47 p)))
    \<and> {[46], [46, 46]} \<inter> set (resolved (pieces 47 p)) = {} \<and> writes (region new N \<union> region name 16) m m'"
  by (rule wash_path_ok [OF assms])

section \<open>Words of a command line\<close>

lemma pieces_skip: "pieces c (c # s) = pieces c s"
  by (subst (1 2) pieces.simps) simp

text \<open>
  One round of the loop: the first word \<open>w\<close> of the line starts at \<open>q\<close>, ends with a 0 in the new memory, and the rest of the line
  is at \<open>p'\<close>.
\<close>

lemma cmd_round:
  assumes s: "cstr m p s" "tok \<noteq> 0" and ne: "pieces tok s \<noteq> []" and argc: "argc \<le> 16"
  obtains q w m1 p' r where "pieces tok s = w # pieces tok r" "cstr m1 q w" "cstr m1 p' r" "length r < length s"
    "writes (region p (length s)) m m1" "q + length w \<le> p'" "r = [] \<or> q + length w < p'" "p \<le> q" "p' + length r \<le> p + length s"
    "cmd_loop m p tok argv argc = (case set_arg argv argc q of Inl t \<Rightarrow> Some (Inl t) | Inr argv \<Rightarrow> cmd_loop m1 p' tok argv (Suc argc))"
proof -
  define t where "t = dropWhile (\<lambda>b. b = tok) s"
  define w where "w = takeWhile (\<lambda>b. b \<noteq> tok) t"
  define r where "r = dropWhile (\<lambda>b. b \<noteq> tok) t"
  let ?k = "length (takeWhile (\<lambda>b. b = tok) s)"
  let ?q = "p + ?k" let ?e = "p + ?k + length w"
  have tne: "t \<noteq> []" using ne pieces_Nil [of tok s] by (auto simp: t_def)
  have pc: "pieces tok s = w # pieces tok r" using pieces_split [of tok s] tne by (simp add: w_def r_def t_def)
  have st: "s = takeWhile (\<lambda>b. b = tok) s @ w @ r" by (simp add: w_def r_def t_def)
  then have len: "length s = ?k + length w + length r" by (metis length_append add.assoc)
  have wne: "w \<noteq> []" using piece_ok [of w tok s] pc by simp
  have ct: "cstr m ?q (w @ r)" using cstr_drop [of m p "takeWhile (\<lambda>b. b = tok) s" "w @ r"] s(1) st by simp
  have cr: "cstr m ?e r" using cstr_drop [OF ct] .
  have tw: "w @ r = t" by (simp add: w_def r_def)
  obtain b bs where b: "w = b # bs" using wne by (cases w) auto
  have lq: "load m ?q = Inr b" "b \<noteq> 0" using ct b by (simp_all add: cstr_Cons)
  obtain c cs where sc: "s = c # cs" using tne by (cases s) (auto simp: t_def)
  have lp: "load m p = Inr c" "c \<noteq> 0" using s(1) sc by (simp_all add: cstr_Cons)
  have sk: "skip_char m p tok = Inr ?q" by (rule skip_char_spec [OF s])
  have we: "word_end m ?q tok = Inr ?e" using word_end_spec [OF ct, of tok] tw by (simp add: w_def)
  have unfold: "cmd_loop m p tok argv argc = (case set_arg argv argc ?q of Inl t \<Rightarrow> Some (Inl t) | Inr argv \<Rightarrow> cmd_loop m1 p' tok argv (Suc argc))"
    if "load m ?e = Inr d" "(if d \<noteq> 0 then andThen (store m ?e 0) (\<lambda>m. Inr (Suc ?e, m)) else Inr (?e, m)) = Inr (p', m1)" for d m1 p'
    using lp sk lq we that argc by (subst cmd_loop.simps) (auto split: sum.splits)
  show thesis
  proof (cases r)
    case Nil
    have "cstr m ?q w" using ct Nil by simp
    moreover have "load m ?e = Inr 0" using cr Nil by (simp add: cstr_Nil)
    ultimately show ?thesis using that [OF pc, of m ?q ?e] cr len Nil wne unfold [of 0 ?e m] by simp
  next
    case (Cons d ds)
    have d: "d = tok" using hd_dropWhile [of "\<lambda>b. b \<noteq> tok" t] Cons by (simp add: r_def [symmetric])
    have c2: "cstr m ?q (w @ d # ds)" using ct Cons by simp
    note cut = cstr_cut [OF c2]
    let ?m1 = "m(?e \<mapsto> 0)"
    have "cstr m (Suc ?e) ds" "load m ?e = Inr d" "d \<noteq> 0" using cr Cons by (simp_all add: cstr_Cons)
    moreover from this(1) have "cstr ?m1 (Suc ?e) ds" by (subst cstr_cong [of _ _ _ m]) (auto simp: region_def)
    moreover have "writes (region p (length s)) m ?m1"
      using cr Cons len by (intro writes_upd) (auto simp: region_def cstr_Cons load_Inr)
    moreover have "pieces tok s = w # pieces tok ds" using pc Cons d pieces_skip by simp
    ultimately show ?thesis using that [of w ds ?m1 ?q "Suc ?e"] cut len Cons unfold [of d "Suc ?e" ?m1] by (simp add: add.assoc)
  qed
qed

lemma cmd_loop_end:
  assumes "cstr m p s" "tok \<noteq> 0" "pieces tok s = []"
  shows "cmd_loop m p tok argv argc = Some (Inr (int argc, argv, m))"
proof -
  have e: "dropWhile (\<lambda>b. b = tok) s = []" using pieces_split [of tok s] assms(3) by force
  have tw: "takeWhile (\<lambda>b. b = tok) s = s" using e by (metis append_Nil2 takeWhile_dropWhile_id)
  have "skip_char m p tok = Inr (p + length s)" using skip_char_spec [OF assms(1,2)] unfolding tw .
  moreover have "load m (p + length s) = Inr 0" using cstr_drop [of m p s "[]"] assms(1) by (simp add: cstr_Nil)
  moreover have "load m p = Inr (case s of [] \<Rightarrow> 0 | c # _ \<Rightarrow> c)" by (rule cstr_loadD [OF assms(1)])
  ultimately show ?thesis by (subst cmd_loop.simps) (auto split: list.splits)
qed

lemma cmd_loop_words:
  assumes "cstr m p s" "tok \<noteq> 0" "length argv = 16" "argc + length (pieces tok s) \<le> 16"
  shows "\<exists>qs m'. cmd_loop m p tok argv argc = Some (Inr (int (argc + length (pieces tok s)), take argc argv @ qs @ drop (argc + length qs) argv, m'))
    \<and> list_all2 (cstr m') qs (pieces tok s) \<and> writes (region p (length s)) m m'"
  using assms
proof (induction "length s" arbitrary: m p s argv argc rule: less_induct)
  case less
  show ?case
  proof (cases "pieces tok s = []")
    case True
    then show ?thesis using cmd_loop_end [OF less.prems(1,2) True] by (intro exI [of _ "[]"] exI [of _ m]) simp
  next
    case False
    have argc: "argc < 16" using less.prems(4) False by (cases "pieces tok s") auto
    obtain q w m1 p' r where c: "pieces tok s = w # pieces tok r" "cstr m1 q w" "cstr m1 p' r" "length r < length s"
      "writes (region p (length s)) m m1" "q + length w \<le> p'" "r = [] \<or> q + length w < p'" "p \<le> q" "p' + length r \<le> p + length s"
      "cmd_loop m p tok argv argc = (case set_arg argv argc q of Inl t \<Rightarrow> Some (Inl t) | Inr argv \<Rightarrow> cmd_loop m1 p' tok argv (Suc argc))"
      by (rule cmd_round [OF less.prems(1,2) False, of argc argv]) (use argc in simp_all)
    let ?argv = "argv[argc := q]"
    obtain qs m' where ih: "cmd_loop m1 p' tok ?argv (Suc argc) = Some (Inr (int (Suc argc + length (pieces tok r)),
        take (Suc argc) ?argv @ qs @ drop (Suc argc + length qs) ?argv, m'))"
      "list_all2 (cstr m') qs (pieces tok r)" "writes (region p' (length r)) m1 m'"
      using less.hyps [OF c(4,3) less.prems(2), of ?argv "Suc argc"] less.prems(3,4) c(1) by auto
    have "region q (Suc (length w)) \<inter> region p' (length r) = {}" using c(6,7) by (auto simp: region_def)
    then have cq: "cstr m' q w" using writes_cstr [OF ih(3)] c(2) by blast
    have wr: "writes (region p (length s)) m m'"
      using writes_trans [OF c(5) writes_mono [OF ih(3)]] c(6,8,9) by (force simp: region_def)
    have "take (Suc argc) ?argv = take argc argv @ [q]" using argc less.prems(3) by (simp add: take_Suc_conv_app_nth)
    moreover have "drop (Suc argc + length qs) ?argv = drop (argc + length (q # qs)) argv" by simp
    moreover have "cmd_loop m p tok argv argc = cmd_loop m1 p' tok ?argv (Suc argc)" using c(10) argc less.prems(3) by (simp add: set_arg_def)
    ultimately show ?thesis using ih(1,2) cq wr c(1) by (intro exI [of _ "q # qs"] exI [of _ m']) simp
  qed
qed

text \<open>
  C32. \<open>cmd_parse\<close> splits a command line of at most 16 words: it returns their number, the pointers it stores refer to the
  words, in their order and each ended by a 0, the other pointers are \<open>NULL\<close>, and nothing outside the line is written.
\<close>

theorem cmd_parse_words:
  assumes "cstr m p s" "p \<noteq> 0" "tok \<noteq> 0" "length (pieces tok s) \<le> 16"
  shows "\<exists>qs m'. cmd_parse m p tok = Inr (int (length (pieces tok s)), qs @ replicate (16 - length qs) 0, m')
    \<and> list_all2 (cstr m') qs (pieces tok s) \<and> writes (region p (length s)) m m'"
proof -
  obtain qs m' where "cmd_loop m p tok (replicate 16 0) 0 = Some (Inr (int (length (pieces tok s)), qs @ drop (length qs) (replicate 16 0), m'))"
    "list_all2 (cstr m') qs (pieces tok s)" "writes (region p (length s)) m m'"
    using cmd_loop_words [OF assms(1,3), of "replicate 16 0" 0] assms(4) by auto
  then show ?thesis using assms(2) by (auto simp: cmd_parse_def run_walk_def)
qed

lemma cmd_loop_overflow:
  assumes "cstr m p s" "tok \<noteq> 0" "length argv = 16" "argc \<le> 16" "16 < argc + length (pieces tok s)"
  shows "cmd_loop m p tok argv argc = Some (Inl BadAccess)"
  using assms
proof (induction "length s" arbitrary: m p s argv argc rule: less_induct)
  case less
  have ne: "pieces tok s \<noteq> []" using less.prems(4,5) by auto
  obtain q w m1 p' r where c: "pieces tok s = w # pieces tok r" "cstr m1 p' r" "length r < length s"
    "cmd_loop m p tok argv argc = (case set_arg argv argc q of Inl t \<Rightarrow> Some (Inl t) | Inr argv \<Rightarrow> cmd_loop m1 p' tok argv (Suc argc))"
    by (rule cmd_round [OF less.prems(1,2) ne less.prems(4), of argv])
  show ?case
  proof (cases "argc < 16")
    case True
    then have "cmd_loop m1 p' tok (argv[argc := q]) (Suc argc) = Some (Inl BadAccess)"
      using less.hyps [OF c(3,2) less.prems(2)] less.prems(3,5) c(1) by simp
    then show ?thesis using c(4) True less.prems(3) by (simp add: set_arg_def)
  qed (use c(4) less.prems(3) in \<open>simp add: set_arg_def\<close>)
qed

text \<open>
  C33. A command line of more than 16 words makes \<open>cmd_parse\<close> write past the end of \<open>argv\<close>: the check of \<open>argc\<close> comes
  after the assignment and allows one index too many.
\<close>

theorem cmd_parse_overflow:
  assumes "cstr m p s" "p \<noteq> 0" "tok \<noteq> 0" "16 < length (pieces tok s)"
  shows "cmd_parse m p tok = Inl BadAccess"
  using cmd_loop_overflow [OF assms(1,3), of "replicate 16 0" 0] assms(2,4) by (simp add: cmd_parse_def run_walk_def)

section \<open>Witnesses\<close>

text \<open>The path \<open>/a/./b/../c\<close> at address 100, a buffer at 200, the name at 300 and the literals from 400 on.\<close>

definition demo_path :: "u8 list" where
  "demo_path = bytes ''/a/./b/../c''"

definition demo_lits :: literals where
  "demo_lits = \<lparr>lit_slash = 400, lit_dot = 410, lit_dotdot = 420\<rparr>"

definition demo_paths :: mem where
  "demo_paths = put_bytes (put_bytes (put_bytes (put_bytes (put_bytes (put_bytes (\<lambda>_. None) 100 (demo_path @ [0]))
     200 (replicate 20 1)) 300 (replicate 16 1)) 400 [47, 0]) 410 [46, 0]) 420 [46, 46, 0]"

lemma demo_path_pieces: "pieces 47 demo_path = [bytes ''a'', bytes ''.'', bytes ''b'', bytes ''..'', bytes ''c'']"
  "resolved (pieces 47 demo_path) = [bytes ''a'', bytes ''c'']" "length demo_path = 11" "hd demo_path = 47" "0 \<notin> set demo_path"
proof -
  show p: "pieces 47 demo_path = [bytes ''a'', bytes ''.'', bytes ''b'', bytes ''..'', bytes ''c'']"
    by (simp add: demo_path_def bytes_def pieces.simps)
  show "resolved (pieces 47 demo_path) = [bytes ''a'', bytes ''c'']" unfolding p by (simp add: resolved_def resolve_def bytes_def)
qed (simp_all add: demo_path_def bytes_def)

lemma demo_paths_bytes:
  "i < 12 \<Longrightarrow> demo_paths (100 + i) = Some ((demo_path @ [0]) ! i)" "i < 20 \<Longrightarrow> demo_paths (200 + i) = Some 1"
  "i < 16 \<Longrightarrow> demo_paths (300 + i) = Some 1"
  by (simp_all add: demo_paths_def put_bytes_def demo_path_pieces(3))

lemma demo_paths_cstr: "cstr demo_paths 100 demo_path" "cstr demo_paths 400 [47]" "cstr demo_paths 410 [46]" "cstr demo_paths 420 [46, 46]"
proof -
  show "cstr demo_paths 100 demo_path"
    using demo_paths_bytes(1) demo_path_pieces(3,5) by (simp add: cstr_def holds_def)
qed (simp_all add: cstr_Cons cstr_Nil load_def demo_paths_def put_bytes_def)

theorem wash_path_correct_witness:
  "\<exists>m'. wash_path demo_lits demo_paths 100 200 300 = Inr m' \<and> cstr m' 200 (render (resolved (pieces 47 demo_path)))
    \<and> {[46], [46, 46]} \<inter> set (resolved (pieces 47 demo_path)) = {} \<and> writes (region 200 20 \<union> region 300 16) demo_paths m'"
proof (rule wash_path_correct)
  show "wash_env demo_lits 200 20 300 demo_paths"
    using demo_paths_cstr demo_paths_bytes by (auto simp: wash_env_def demo_lits_def mapped_def region_def)
qed (use demo_paths_cstr demo_path_pieces in \<open>auto simp: region_def bytes_def\<close>)

theorem cmd_parse_words_witness:
  "\<exists>qs m'. cmd_parse demo_paths 100 47 = Inr (int (length (pieces 47 demo_path)), qs @ replicate (16 - length qs) 0, m')
    \<and> list_all2 (cstr m') qs (pieces 47 demo_path) \<and> writes (region 100 (length demo_path)) demo_paths m'"
  by (rule cmd_parse_words [OF demo_paths_cstr(1)]) (simp_all add: demo_path_pieces(1))

definition demo_line :: "u8 list" where
  "demo_line = concat (replicate 17 [97, 32])"

theorem cmd_parse_overflow_witness:
  "cmd_parse (put_bytes (\<lambda>_. None) 100 (demo_line @ [0])) 100 32 = Inl BadAccess"
proof (rule cmd_parse_overflow [where s = demo_line])
  have c: "length (pieces 32 (concat (replicate n [97, 32]))) = n" for n
  proof (induction n)
    case (Suc n)
    have "pieces 32 (97 # 32 # bs) = [97] # pieces 32 bs" for bs by (subst pieces.simps) (simp add: pieces_skip)
    then show ?case using Suc by simp
  qed (simp add: pieces_Nil)
  have "length (pieces 32 demo_line) = 17" unfolding demo_line_def by (rule c)
  then show "16 < length (pieces 32 demo_line)" by simp
  have "length demo_line = 34" by (simp add: demo_line_def length_concat sum_list_replicate)
  moreover have "0 \<notin> set demo_line" by (auto simp: demo_line_def)
  ultimately show "cstr (put_bytes (\<lambda>_. None) 100 (demo_line @ [0])) 100 demo_line" by (intro cstr_put_bytes) simp_all
qed simp_all

end
