(* ===== verification/Devices.thy ===== *)
theory Devices
  imports Process Memory_Heap
begin

text \<open>
  The timer (\<^verbatim>\<open>device/timer.c\<close>), the keyboard (\<^verbatim>\<open>device/keyboard.c\<close>) and the console
  (\<^verbatim>\<open>device/console.c\<close>). The bytes written to ports and the bytes passed to the screen are kept as lists in
  the order they are written; a byte read from the keyboard's port is an argument of its handler.
\<close>

record dev = proc +
  total_ticks :: u32
  kbd_buf :: nat
  ctrl_status :: bool
  shift_status :: bool
  alt_status :: bool
  caps_lock_status :: bool
  ext_scancode :: bool
  console_lock :: nat
  idt_table :: "u32 list"
  timer_handler_at :: u32
  keyboard_handler_at :: u32
  outs :: "(u16 \<times> u8) list"
  screen :: "u8 list"

definition outb :: "u16 \<Rightarrow> u8 \<Rightarrow> 'a dev_scheme \<Rightarrow> 'a dev_scheme" where
  "outb port v s = s\<lparr>outs := outs s @ [(port, v)]\<rparr>"

definition put_str :: "u8 list \<Rightarrow> 'a dev_scheme \<Rightarrow> 'a dev_scheme" where
  "put_str bs s = s\<lparr>screen := screen s @ bs\<rparr>"

definition install_handler :: "u8 \<Rightarrow> u32 \<Rightarrow> 'a dev_scheme \<Rightarrow> 'a dev_scheme outcome" where
  "install_handler vector_no f s = andThen (register_handler (idt_table s) vector_no f) (\<lambda>t. Inr (s\<lparr>idt_table := t\<rparr>))"

section \<open>Timer\<close>

definition IRQ0_FREQUENCY :: nat where
  "IRQ0_FREQUENCY = 100"

definition INPUT_FREQUENCY :: nat where
  "INPUT_FREQUENCY = 1193180"

definition COUNTER0_VALUE :: u16 where
  "COUNTER0_VALUE = of_nat (INPUT_FREQUENCY div IRQ0_FREQUENCY)"

definition mil_seconds_per_intr :: u32 where
  "mil_seconds_per_intr = of_nat (1000 div IRQ0_FREQUENCY)"

text \<open>The cast to a byte binds tighter than the shift, which C does on the promoted value.\<close>

definition frequency_set :: "u16 \<Rightarrow> u8 \<Rightarrow> u8 \<Rightarrow> u8 \<Rightarrow> u16 \<Rightarrow> 'a dev_scheme \<Rightarrow> 'a dev_scheme" where
  "frequency_set counter_port counter_no rwl counter_mode counter_value s =
     (let s = outb 0x43 (push_bit 6 counter_no OR push_bit 4 rwl OR push_bit 1 counter_mode) s;
          s = outb counter_port (ucast counter_value) s in
      outb counter_port (drop_bit 8 (ucast counter_value :: u8)) s)"

definition intr_timer_handler :: "'a dev_scheme \<Rightarrow> 'a dev_scheme outcome" where
  "intr_timer_handler s =
     (let cur_thread = running_thread s in
      andThen (get_task cur_thread s) (\<lambda>t. ASSERT (stack_magic t = 0x19870916)
     (andThen (set_task cur_thread (\<lambda>t. t\<lparr>elapsed_ticks := elapsed_ticks t + 1\<rparr>) s) (\<lambda>s.
      let s = s\<lparr>total_ticks := total_ticks s + 1\<rparr> in
      if ticks t = 0 then schedule s
      else set_task cur_thread (\<lambda>t. t\<lparr>ticks := ticks t - 1\<rparr>) s))))"

text \<open>
  A round of the loop of \<open>ticks_to_sleep\<close>: it returns, or gives up the processor, and the caller goes through
  the loop again, from \<open>start_tick\<close>, when it is scheduled.
\<close>

datatype 's sleep_result = Awake 's | Yielded intr_status 's

definition sleep_loop :: "u32 \<Rightarrow> u32 \<Rightarrow> 'a dev_scheme \<Rightarrow> 'a dev_scheme sleep_result outcome" where
  "sleep_loop start_tick sleep_ticks s =
     (if total_ticks s - start_tick < sleep_ticks
      then andThen (thread_yield s) (\<lambda>(old_status, s). Inr (Yielded old_status s))
      else Inr (Awake s))"

definition ticks_to_sleep :: "u32 \<Rightarrow> 'a dev_scheme \<Rightarrow> 'a dev_scheme sleep_result outcome" where
  "ticks_to_sleep sleep_ticks s = sleep_loop (total_ticks s) sleep_ticks s"

definition sleep_resume :: "u32 \<Rightarrow> u32 \<Rightarrow> intr_status \<Rightarrow> 'a dev_scheme \<Rightarrow> 'a dev_scheme sleep_result outcome" where
  "sleep_resume start_tick sleep_ticks old_status s = sleep_loop start_tick sleep_ticks (resume_switch old_status s)"

definition mtime_sleep :: "u32 \<Rightarrow> 'a dev_scheme \<Rightarrow> 'a dev_scheme sleep_result outcome" where
  "mtime_sleep m_seconds s =
     (let sleep_ticks = (m_seconds + mil_seconds_per_intr - 1) div mil_seconds_per_intr in
      ASSERT (sleep_ticks > 0) (ticks_to_sleep sleep_ticks s))"

definition timer_init :: "'a dev_scheme \<Rightarrow> 'a dev_scheme outcome" where
  "timer_init s =
     (let s = put_str (bytes ''timer_init start'' @ [10]) s;
          s = frequency_set 0x40 0 3 2 COUNTER0_VALUE s in
      andThen (install_handler 0x20 (timer_handler_at s) s) (\<lambda>s.
      Inr (put_str (bytes ''timer_init done'' @ [10]) s)))"

section \<open>Keyboard\<close>

text \<open>The two characters of each key, without and with shift, by make code.\<close>

definition keymap :: "(u8 \<times> u8) list" where
  "keymap = zip
     ([0, 27] @ bytes ''1234567890-='' @ [8, 9] @ bytes ''qwertyuiop[]'' @ [13, 0] @ bytes ''asdfghjkl;'' @ [39] @ bytes ''`''
       @ [0, 92] @ bytes ''zxcvbnm,./'' @ [0] @ bytes ''*'' @ [0] @ bytes '' '' @ [0])
     ([0, 27] @ bytes ''!@#$%^&*()_+'' @ [8, 9] @ bytes ''QWERTYUIOP{}'' @ [13, 0] @ bytes ''ASDFGHJKL:'' @ [34] @ bytes ''~''
       @ [0] @ bytes ''|'' @ bytes ''ZXCVBNM<>?'' @ [0] @ bytes ''*'' @ [0] @ bytes '' '' @ [0])"

definition two_char_key :: "u16 \<Rightarrow> bool" where
  "two_char_key scancode \<longleftrightarrow> scancode < 0x0e \<or> scancode = 0x29 \<or> scancode = 0x1a \<or> scancode = 0x1b \<or> scancode = 0x2b
     \<or> scancode = 0x27 \<or> scancode = 0x28 \<or> scancode = 0x33 \<or> scancode = 0x34 \<or> scancode = 0x35"

definition kbd_shift :: "u16 \<Rightarrow> bool \<Rightarrow> bool \<Rightarrow> bool" where
  "kbd_shift scancode shift_down_last caps_lock_last =
     (if two_char_key scancode then shift_down_last
      else if shift_down_last \<and> caps_lock_last then False
      else shift_down_last \<or> caps_lock_last)"

definition kbd_break :: "u16 \<Rightarrow> 'a dev_scheme \<Rightarrow> 'a dev_scheme" where
  "kbd_break make_code s =
     (if make_code = 0x1d \<or> make_code = 0xe01d then s\<lparr>ctrl_status := False\<rparr>
      else if make_code = 0x2a \<or> make_code = 0x36 then s\<lparr>shift_status := False\<rparr>
      else if make_code = 0x38 \<or> make_code = 0xe038 then s\<lparr>alt_status := False\<rparr>
      else s)"

definition kbd_make :: "u16 \<Rightarrow> 'a dev_scheme \<Rightarrow> 'a dev_scheme outcome" where
  "kbd_make scancode s =
     (let shift = kbd_shift scancode (shift_status s) (caps_lock_status s);
          code = scancode AND 0x00ff in
      if unat code < length keymap then
        let key = keymap ! unat code; cur_char = (if shift then snd key else fst key) in
        if cur_char \<noteq> 0 then
          let cur_char = (if ctrl_status s \<and> cur_char = 108 \<or> ctrl_status s \<and> cur_char = 117 then cur_char - 97 else cur_char) in
          andThen (ioq_full (kbd_buf s) s) (\<lambda>full.
          if full then Inr s
          else andThen (ioq_putchar (kbd_buf s) cur_char s) (\<lambda>r. case r of Finished _ s \<Rightarrow> Inr s | Asleep s \<Rightarrow> Inr s))
        else if code = 0x1d \<or> code = 0xe01d then Inr (s\<lparr>ctrl_status := True\<rparr>)
        else if code = 0x2a \<or> code = 0x36 then Inr (s\<lparr>shift_status := True\<rparr>)
        else if code = 0x38 \<or> code = 0xe038 then Inr (s\<lparr>alt_status := True\<rparr>)
        else if code = 0x3a then Inr (s\<lparr>caps_lock_status := \<not> caps_lock_status s\<rparr>)
        else Inr s
      else Inl BadAccess)"

definition intr_keyboard_handler :: "u8 \<Rightarrow> 'a dev_scheme \<Rightarrow> 'a dev_scheme outcome" where
  "intr_keyboard_handler byte s =
     (let scancode = (ucast byte :: u16) in
      if scancode = 0xe0 then Inr (s\<lparr>ext_scancode := True\<rparr>)
      else
        let (scancode, s) = (if ext_scancode s then (0xe000 OR scancode, s\<lparr>ext_scancode := False\<rparr>) else (scancode, s)) in
        if scancode AND 0x0080 \<noteq> 0 then Inr (kbd_break (scancode AND 0xff7f) s)
        else if 0x00 < scancode \<and> scancode < 0x3b \<or> scancode = 0xe038 \<or> scancode = 0xe01d then kbd_make scancode s
        else Inr (put_str (bytes ''unknown key'' @ [10]) s))"

definition keyboard_init :: "'a dev_scheme \<Rightarrow> 'a dev_scheme outcome" where
  "keyboard_init s =
     (let s = put_str (bytes ''keyboard init start'' @ [10]) s in
      andThen (ioqueue_init (kbd_buf s) s) (\<lambda>s.
      andThen (install_handler 0x21 (keyboard_handler_at s) s) (\<lambda>s.
      Inr (put_str (bytes ''keyboard init done'' @ [10]) s))))"

section \<open>Console\<close>

definition console_init :: "'a dev_scheme \<Rightarrow> 'a dev_scheme outcome" where
  "console_init s = lock_init (console_lock s) s"

definition console_acquire :: "'a dev_scheme \<Rightarrow> 'a dev_scheme outcome" where
  "console_acquire s = acquire_now (console_lock s) s"

definition console_release :: "'a dev_scheme \<Rightarrow> 'a dev_scheme outcome" where
  "console_release s = lock_release (console_lock s) s"

definition console_put_str :: "u8 list \<Rightarrow> 'a dev_scheme \<Rightarrow> 'a dev_scheme outcome" where
  "console_put_str str s = andThen (console_acquire s) (\<lambda>s. console_release (put_str str s))"

definition console_put_char :: "u8 \<Rightarrow> 'a dev_scheme \<Rightarrow> 'a dev_scheme outcome" where
  "console_put_char char_asci s = andThen (console_acquire s) (\<lambda>s. console_release (put_str [char_asci] s))"

text \<open>\<open>put_int\<close> is assembly code that writes the number in hexadecimal; the digits are a parameter.\<close>

definition console_put_int :: "(u32 \<Rightarrow> u8 list) \<Rightarrow> u32 \<Rightarrow> 'a dev_scheme \<Rightarrow> 'a dev_scheme outcome" where
  "console_put_int digits num s = andThen (console_acquire s) (\<lambda>s. console_release (put_str (digits num) s))"

section \<open>Typing\<close>

text \<open>
  The codes a keyboard sends for a character: the make and break code of its key, between those of the left shift
  key when the character is the second one of the key.
\<close>

definition key_for :: "u8 \<Rightarrow> (nat \<times> bool) option" where
  "key_for c = (case List.find (\<lambda>k. fst (keymap ! k) = c) [0..<length keymap] of
     Some k \<Rightarrow> Some (k, False)
   | None \<Rightarrow> map_option (\<lambda>k. (k, True)) (List.find (\<lambda>k. snd (keymap ! k) = c) [0..<length keymap]))"

definition strokes :: "u8 \<Rightarrow> u8 list" where
  "strokes c = (case key_for c of
     None \<Rightarrow> []
   | Some (k, False) \<Rightarrow> [of_nat k, of_nat k OR 0x80]
   | Some (k, True) \<Rightarrow> [0x2a, of_nat k, of_nat k OR 0x80, 0xaa])"

fun key_presses :: "u8 list \<Rightarrow> 'a dev_scheme \<Rightarrow> 'a dev_scheme outcome" where
  "key_presses [] s = Inr s"
| "key_presses (b # bs) s = andThen (intr_keyboard_handler b s) (key_presses bs)"

definition no_modifiers :: "'a dev_scheme \<Rightarrow> bool" where
  "no_modifiers s \<longleftrightarrow> \<not> ctrl_status s \<and> \<not> shift_status s \<and> \<not> caps_lock_status s \<and> \<not> ext_scancode s"

definition same_modifiers :: "'a dev_scheme \<Rightarrow> 'a dev_scheme \<Rightarrow> bool" where
  "same_modifiers s t \<longleftrightarrow> ctrl_status t = ctrl_status s \<and> shift_status t = shift_status s
     \<and> caps_lock_status t = caps_lock_status s \<and> ext_scancode t = ext_scancode s \<and> kbd_buf t = kbd_buf s"

lemma keymap_codes:
  "length keymap = 59"
  "list_all (\<lambda>k. let b = (ucast (of_nat k :: u8) :: u16); d = (ucast (of_nat k OR 0x80 :: u8) :: u16) in
     b \<noteq> 0xe0 \<and> b AND 0x0080 = 0 \<and> b < 0x3b \<and> (0 < k \<longrightarrow> 0 < b) \<and> unat (b AND 0x00ff) = k
     \<and> d \<noteq> 0xe0 \<and> d AND 0x0080 \<noteq> 0 \<and> d AND 0xff7f = b) [0..<59]"
  "list_all (\<lambda>k. fst (keymap ! k) = 0 \<longleftrightarrow> snd (keymap ! k) = 0) [0..<59]"
  "list_all (\<lambda>k. fst (keymap ! k) \<noteq> 0 \<longrightarrow> (let b = (ucast (of_nat k :: u8) :: u16) in
     0 < k \<and> b \<notin> {0x1d, 0xe01d, 0x2a, 0x36, 0x38, 0xe038})) [0..<59]"
  by code_simp+

lemma key_code:
  assumes "k < 59" "fst (keymap ! k) \<noteq> 0"
  defines "b \<equiv> (ucast (of_nat k :: u8) :: u16)" and "d \<equiv> (ucast (of_nat k OR 0x80 :: u8) :: u16)"
  shows "b \<noteq> 0xe0" "b AND 0x0080 = 0" "b < 0x3b" "0 < b" "unat (b AND 0x00ff) = k" "d \<noteq> 0xe0" "d AND 0x0080 \<noteq> 0"
    "kbd_break (d AND 0xff7f) s = s" "snd (keymap ! k) \<noteq> 0"
  using keymap_codes(2-4) assms(1,2) unfolding b_def d_def list_all_iff Let_def kbd_break_def set_upt
  by auto

lemma kbd_shift_no_caps [simp]: "kbd_shift c sh False = sh"
  by (simp add: kbd_shift_def)

lemma key_break:
  assumes "k < 59" "fst (keymap ! k) \<noteq> 0" "\<not> ext_scancode s"
  shows "intr_keyboard_handler (of_nat k OR 0x80) s = Inr s"
  using key_code [OF assms(1,2)] assms(3) unfolding intr_keyboard_handler_def Let_def by simp

lemma quiet_full:
  assumes "quiet_queue q bs s"
  shows "ioq_full q s = Inr (\<not> length bs < bufsize - 1)"
proof -
  obtain i where i: "intr_get_status s = INTR_OFF" "ioqs s q = Some i" "ioq_wf i" "contents i = bs"
    using assms by (auto simp: quiet_queue_def)
  have "length bs < bufsize" "next_pos (head i) = tail i \<longleftrightarrow> length bs = bufsize - 1"
    using full_iff [OF i(3)] ioq_used_bound [of i] length_contents [of i] i(4) by simp_all
  then show ?thesis using i by (auto simp: ioq_full_def get_ioq_Some)
qed

lemma quiet_put_form:
  assumes "quiet_queue q bs s" "length bs < bufsize - 1"
  shows "\<exists>m. ioq_putchar q b s = Inr (Finished () (s\<lparr>ioqs := m\<rparr>)) \<and> quiet_queue q (bs @ [b]) (s\<lparr>ioqs := m\<rparr>)"
proof -
  obtain i where i: "intr_get_status s = INTR_OFF" "ioqs s q = Some i" "ioq_wf i" "contents i = bs" "producer i = 0" "consumer i = 0"
    using assms(1) by (auto simp: quiet_queue_def)
  have "used i < bufsize - 1" using assms(2) i(4) length_contents [of i] by simp
  from putchar_free [OF i(2,3) this i(6,1)] quiet_put [OF assms, of b] show ?thesis by auto
qed

lemma key_make:
  assumes k: "k < 59" "fst (keymap ! k) \<noteq> 0" and m: "\<not> ctrl_status s" "\<not> caps_lock_status s" "\<not> ext_scancode s"
    and q: "quiet_queue (kbd_buf s) bs s" and c: "c = (if shift_status s then snd (keymap ! k) else fst (keymap ! k))"
  shows "\<exists>t. intr_keyboard_handler (of_nat k) s = Inr t \<and> same_modifiers s t
    \<and> quiet_queue (kbd_buf s) (if length bs < bufsize - 1 then bs @ [c] else bs) t"
proof -
  note kc = key_code [OF k]
  have "intr_keyboard_handler (of_nat k) s = kbd_make (ucast (of_nat k :: u8)) s"
    using kc(1-4) m(3) unfolding intr_keyboard_handler_def Let_def by simp
  also have "\<dots> = andThen (ioq_full (kbd_buf s) s) (\<lambda>full.
    if full then Inr s
    else andThen (ioq_putchar (kbd_buf s) c s) (\<lambda>r. case r of Finished _ s \<Rightarrow> Inr s | Asleep s \<Rightarrow> Inr s))"
    using kc(9) k m keymap_codes(1) unfolding kbd_make_def Let_def kc(5) c by simp
  also have "\<dots> = (if length bs < bufsize - 1
    then andThen (ioq_putchar (kbd_buf s) c s) (\<lambda>r. case r of Finished _ s \<Rightarrow> Inr s | Asleep s \<Rightarrow> Inr s) else Inr s)"
    using quiet_full [OF q] by simp
  finally have e: "intr_keyboard_handler (of_nat k) s = \<dots>" .
  show ?thesis
  proof (cases "length bs < bufsize - 1")
    case True
    with quiet_put_form [OF q, of c] e show ?thesis by (auto simp: same_modifiers_def)
  qed (use e q in \<open>simp add: same_modifiers_def\<close>)
qed

lemma key_shift:
  assumes "\<not> ext_scancode s"
  shows "intr_keyboard_handler 0x2a s = Inr (s\<lparr>shift_status := True\<rparr>)" "intr_keyboard_handler 0xaa s = Inr (s\<lparr>shift_status := False\<rparr>)"
proof -
  have "keymap ! 42 = (0, 0)" by code_simp
  then show "intr_keyboard_handler 0x2a s = Inr (s\<lparr>shift_status := True\<rparr>)"
    using assms keymap_codes(1) by (simp add: intr_keyboard_handler_def kbd_make_def Let_def)
  show "intr_keyboard_handler 0xaa s = Inr (s\<lparr>shift_status := False\<rparr>)"
    using assms by (simp add: intr_keyboard_handler_def kbd_break_def Let_def)
qed

lemma key_for_Some:
  assumes "key_for c = Some (k, sh)"
  shows "k < 59" "c = (if sh then snd (keymap ! k) else fst (keymap ! k))"
  using assms keymap_codes(1) by (auto simp: key_for_def find_Some_iff split: option.splits)

lemma strokes_type:
  assumes "no_modifiers s" "quiet_queue (kbd_buf s) bs s" "key_for c \<noteq> None" "c \<noteq> 0"
  shows "\<exists>t. key_presses (strokes c @ cs) s = key_presses cs t \<and> no_modifiers t \<and> kbd_buf t = kbd_buf s
    \<and> quiet_queue (kbd_buf s) (if length bs < bufsize - 1 then bs @ [c] else bs) t"
proof -
  obtain k sh where ks: "key_for c = Some (k, sh)" using assms(3) by auto
  note kf = key_for_Some [OF ks]
  have k0: "fst (keymap ! k) \<noteq> 0" using kf assms(4) keymap_codes(3) by (auto simp: list_all_iff split: if_splits)
  note m = assms(1) [unfolded no_modifiers_def]
  show ?thesis
  proof (cases sh)
    case False
    obtain t where t: "intr_keyboard_handler (of_nat k) s = Inr t" "same_modifiers s t"
      "quiet_queue (kbd_buf s) (if length bs < bufsize - 1 then bs @ [c] else bs) t"
      using key_make [OF kf(1) k0 _ _ _ assms(2), of c] m kf(2) False by auto
    then show ?thesis using key_break [OF kf(1) k0, of t] m ks False
      by (auto simp: strokes_def same_modifiers_def no_modifiers_def)
  next
    case True
    let ?s = "s\<lparr>shift_status := True\<rparr>"
    have q: "quiet_queue (kbd_buf ?s) bs ?s" using assms(2) by (simp add: quiet_queue_def intr_get_status_def)
    obtain t where t: "intr_keyboard_handler (of_nat k) ?s = Inr t" "same_modifiers ?s t"
      "quiet_queue (kbd_buf s) (if length bs < bufsize - 1 then bs @ [c] else bs) t"
      using key_make [OF kf(1) k0 _ _ _ q, of c] m kf(2) True by auto
    have x: "\<not> ext_scancode t" using t(2) m by (simp add: same_modifiers_def)
    have "quiet_queue (kbd_buf s) (if length bs < bufsize - 1 then bs @ [c] else bs) (t\<lparr>shift_status := False\<rparr>)"
      using t(3) by (simp add: quiet_queue_def intr_get_status_def)
    then show ?thesis using t key_break [OF kf(1) k0 x] key_shift(1) [of s] key_shift(2) [OF x] m ks True
      by (auto simp: strokes_def same_modifiers_def no_modifiers_def)
  qed
qed


section \<open>Time slices\<close>

fun timer_interrupts :: "nat \<Rightarrow> 'a dev_scheme \<Rightarrow> 'a dev_scheme outcome" where
  "timer_interrupts 0 s = Inr s"
| "timer_interrupts (Suc n) s = andThen (intr_timer_handler s) (timer_interrupts n)"

lemma sched_inv_ticks:
  assumes "sched_inv ph s L a" "same_memory s u" "elems u = elems s" "\<forall>p. map_option status (tcb u p) = map_option status (tcb s p)"
  shows "sched_inv ph u L a"
proof -
  note d = sched_invD [OF assms(1)]
  have "tcb u 0 = None" using simD(4) [OF d(1)] assms(4) by (metis option.map_disc_iff)
  then have "sim ph u L a"
    using simD [OF d(1)] same_memory_ok [OF assms(2)] assms(2-4) lists_rep_cong [of u s L]
    by (simp add: sim_def same_memory_def)
  then show ?thesis using d free_tag_cong [OF assms(3)] by (simp add: sched_inv_def)
qed

definition slice :: "nat \<Rightarrow> 'a dev_scheme \<Rightarrow> bool" where
  "slice n s \<longleftrightarrow> intr_get_status s = INTR_OFF
     \<and> (\<exists>t. tcb s (running_thread s) = Some t \<and> stack_magic t = 0x19870916 \<and> unat (ticks t) = n)"

lemma timer_keeps:
  assumes "sched_inv ph s L a" "slice (Suc n) s"
  shows "\<exists>u. intr_timer_handler s = Inr u \<and> sched_inv ph u L a \<and> slice n u \<and> running_thread u = running_thread s
    \<and> thread_ready_list u = thread_ready_list s \<and> total_ticks u = total_ticks s + 1"
proof -
  obtain t where t: "tcb s (running_thread s) = Some t" "stack_magic t = 0x19870916" "unat (ticks t) = Suc n" "intr_get_status s = INTR_OFF"
    using assms(2) by (auto simp: slice_def)
  let ?u = "s\<lparr>total_ticks := total_ticks s + 1,
    tcb := (tcb s)(running_thread s \<mapsto> t\<lparr>elapsed_ticks := elapsed_ticks t + 1, ticks := ticks t - 1\<rparr>)\<rparr>"
  have nz: "ticks t \<noteq> 0" using t(3) by auto
  then have "intr_timer_handler s = Inr ?u"
    using t by (simp add: intr_timer_handler_def get_task_def set_task_def Let_def)
  moreover have "sched_inv ph ?u L a"
    by (rule sched_inv_ticks [OF assms(1)]) (use t(1) in \<open>auto simp: same_memory_def\<close>)
  moreover have "unat (ticks t - 1) = n" using t(3) nz by (simp add: unat_minus_one)
  then have "slice n ?u" using t by (simp add: slice_def intr_get_status_def running_thread_def)
  ultimately show ?thesis by (intro exI [of _ ?u]) (simp add: running_thread_def)
qed

lemma timer_slice:
  assumes "sched_inv ph s L a" "slice n s" "m \<le> n"
  shows "\<exists>u. timer_interrupts m s = Inr u \<and> sched_inv ph u L a \<and> slice (n - m) u \<and> running_thread u = running_thread s
    \<and> thread_ready_list u = thread_ready_list s \<and> total_ticks u = total_ticks s + of_nat m"
  using assms
proof (induction m arbitrary: n s)
  case (Suc m)
  then obtain k where k: "n = Suc k" "m \<le> k" by (cases n) auto
  obtain u where u: "intr_timer_handler s = Inr u" "sched_inv ph u L a" "slice k u" "running_thread u = running_thread s"
    "thread_ready_list u = thread_ready_list s" "total_ticks u = total_ticks s + 1"
    using timer_keeps [OF Suc.prems(1)] Suc.prems(2) k(1) by blast
  from Suc.IH [OF u(2,3) k(2)] u k(1) show ?case by (auto simp: algebra_simps)
qed simp

lemma timer_interrupts_add: "timer_interrupts (m + n) s = andThen (timer_interrupts m s) (timer_interrupts n)"
  by (induction m arbitrary: s) (simp_all add: andThen_def split: sum.splits)

text \<open>
  C26. A thread keeps the processor for its time slice and no longer: with \<open>n\<close> ticks left, it still runs after \<open>n\<close>
  timer interrupts, with the scheduler's state unchanged, and the next interrupt switches to the first thread of the ready
  list and keeps the scheduler's invariant.
\<close>

theorem timer_preempts:
  assumes "sched_inv ph s L a" "slice n s"
  shows "\<exists>u v. timer_interrupts n s = Inr u \<and> running_thread u = running_thread s \<and> sched_inv ph u L a
    \<and> timer_interrupts (Suc n) s = Inr v \<and> running_thread v = hd (aready a @ [acur a])
    \<and> sched_inv ph v (L(thread_ready_list s \<mapsto> map general_tag (tl (aready a @ [acur a])))) (aschedule a)"
proof -
  obtain u where u: "timer_interrupts n s = Inr u" "sched_inv ph u L a" "slice 0 u" "running_thread u = running_thread s"
    "thread_ready_list u = thread_ready_list s"
    using timer_slice [OF assms, of n] by auto
  obtain t where t: "tcb u (running_thread u) = Some t" "stack_magic t = 0x19870916" "ticks t = 0" "intr_get_status u = INTR_OFF"
    using u(3) by (auto simp: slice_def unat_eq_0)
  let ?w = "u\<lparr>tcb := (tcb u)(running_thread u \<mapsto> t\<lparr>elapsed_ticks := elapsed_ticks t + 1\<rparr>), total_ticks := total_ticks u + 1\<rparr>"
  have w: "intr_timer_handler u = schedule ?w"
    using t by (simp add: intr_timer_handler_def get_task_def set_task_def Let_def)
  have iw: "sched_inv ph ?w L a" by (rule sched_inv_ticks [OF u(2)]) (use t(1) in \<open>auto simp: same_memory_def\<close>)
  have ow: "intr_get_status ?w = INTR_OFF" using t(4) by (simp add: intr_get_status_def)
  obtain v where v: "schedule ?w = Inr v" "running_thread v = hd (aready a @ [acur a])"
    "sched_inv ph v (L(thread_ready_list s \<mapsto> map general_tag (tl (aready a @ [acur a])))) (aschedule a)"
    using schedule_next [OF iw ow] u(5) by auto
  have "timer_interrupts (n + 1) s = Inr v" unfolding timer_interrupts_add u(1) using w v(1) by simp
  then show ?thesis using u v by simp
qed

text \<open>
  \<open>timer_init\<close> loads the counter with the low byte of its value only: the high byte that \<open>frequency_set\<close> writes is
  always 0, so the divisor is 155 and not 11931, the one for 100 interrupts in a second.
\<close>

theorem frequency_set_high_byte:
  "outs (frequency_set port c rwl mode v s) = outs s @
     [(0x43, push_bit 6 c OR push_bit 4 rwl OR push_bit 1 mode), (port, ucast v), (port, 0)]
   \<and> COUNTER0_VALUE = 11931 \<and> (ucast COUNTER0_VALUE :: u8) = 155"
proof -
  have "drop_bit 8 (w :: u8) = 0" for w by (rule bit_eqI) (auto simp: bit_drop_bit_eq dest: bit_imp_le_length)
  then show ?thesis by (simp add: frequency_set_def outb_def COUNTER0_VALUE_def INPUT_FREQUENCY_def IRQ0_FREQUENCY_def Let_def)
qed

section \<open>Witnesses\<close>

lemma sched_inv_truncate: "sched_inv ph (sched.truncate s) L a \<longleftrightarrow> sched_inv ph s L a"
  by (simp add: sched_inv_def sim_def lists_rep_def free_tag_def detached_def stacks_ok_def dirs_ok_def valid_cr3_def
      running_thread_def addr_v2p_def vload_def translate_def pte_addr_def pde_addr_def sched.truncate_def)

definition demo_dev :: dev where
  "demo_dev = proc.extend (kmem.extend (io.extend (sync.extend (sched.extend demo_sched (sync.fields (\<lambda>_. 1) (\<lambda>_. 0) (\<lambda>_. 0)))
      (io.fields [700 \<mapsto> \<lparr>producer = 0, consumer = 0, buf = replicate 2048 0, head = 0, tail = 0\<rparr>] (\<lambda>_. None)))
     (kmem.fields \<lparr>pool_bitmap = demo_bits, phy_addr_start = 0x200000, pool_size = 0x8000\<rparr>
       \<lparr>pool_bitmap = demo_bits, phy_addr_start = 0x300000, pool_size = 0x8000\<rparr> 500 600
       \<lparr>vaddr_bitmap = demo_bits, vaddr_start = 0xc0100000\<rparr> 700 (\<lambda>_. None) (\<lambda>_. None)))
    (proc.fields demo_bits 1 800 (\<lambda>_. 0) 0 0 0 0))
   (dev.fields 0 700 False False False False False 900 (replicate 0x81 0) 0 0 [] [])"

lemmas demo_dev_simps = demo_dev_def sched.extend_def sync.extend_def io.extend_def kmem.extend_def proc.extend_def sync.fields_def
  io.fields_def kmem.fields_def proc.fields_def dev.fields_def sched.truncate_def demo_sched_def

lemma demo_dev_inv: "sched_inv (\<lambda>_. 0) demo_dev [100 \<mapsto> [8228]] demo_asched"
proof -
  have "sched.truncate demo_dev = demo_sched" by (simp add: demo_dev_simps)
  then show ?thesis using demo_inv sched_inv_truncate [of _ demo_dev] by metis
qed


theorem timer_preempts_witness:
  "\<exists>u v. timer_interrupts 31 demo_dev = Inr u \<and> running_thread u = running_thread demo_dev
    \<and> sched_inv (\<lambda>_. 0) u [100 \<mapsto> [8228]] demo_asched
    \<and> timer_interrupts (Suc 31) demo_dev = Inr v \<and> running_thread v = hd (aready demo_asched @ [acur demo_asched])
    \<and> sched_inv (\<lambda>_. 0) v ([100 \<mapsto> [8228]](thread_ready_list demo_dev \<mapsto>
        map general_tag (tl (aready demo_asched @ [acur demo_asched])))) (aschedule demo_asched)"
proof (rule timer_preempts [OF demo_dev_inv])
  show "slice 31 demo_dev" by (simp add: slice_def intr_get_status_def running_thread_def demo_dev_simps demo_task_def)
qed

end
