(* ===== verification/Stdio.thy ===== *)
theory Stdio
  imports String_Lib
begin

text \<open>
  Formatted output of \<^verbatim>\<open>lib/stdio.c\<close> over byte memory. The variable arguments are the
  32-bit slots that follow \<open>format\<close> on the caller's stack: \<open>ap k\<close> is slot \<open>k\<close>, and
  \<open>va_arg\<close> reads one slot and moves to the next. \<open>vsprintf\<close> writes no terminating 0 of
  its own, so its callers pass a zeroed buffer; the specification says so.
\<close>

section \<open>The routines\<close>

definition digit_char :: "nat \<Rightarrow> u8" where
  "digit_char m = (if m < 10 then of_nat m + 48 else of_nat m - 10 + 65)"

text \<open>
  \<open>itoa\<close> takes the buffer pointer by reference; the model returns its new value.
  With base 0 the division traps, and with base 1 a nonzero value recurses forever.
\<close>

function itoa :: "mem \<Rightarrow> nat \<Rightarrow> nat \<Rightarrow> nat \<Rightarrow> (mem \<times> nat) outcome" where
  "itoa mm v buf_ptr base =
     (if base = 0 then Inl DivError else
      let m = v mod base; i = v div base in
      andThen (if i \<noteq> 0 then if base = 1 then Inl Spins else itoa mm i buf_ptr base
               else Inr (mm, buf_ptr)) (\<lambda>(mm, buf_ptr).
      andThen (store mm buf_ptr (digit_char m)) (\<lambda>mm.
      Inr (mm, Suc buf_ptr))))"
  by pat_completeness auto
termination
  by (relation "measure (\<lambda>(mm, v, b, base). v)") (auto simp: div_eq_0_iff)

declare itoa.simps [simp del]

text \<open>The loop of \<open>vsprintf\<close>; the characters are \<open>%\<close> 37, \<open>s\<close> 115, \<open>c\<close> 99, \<open>d\<close> 100, \<open>x\<close> 120, \<open>-\<close> 45.\<close>

function vsprintf_loop :: "(nat \<Rightarrow> u32) \<Rightarrow> mem \<Rightarrow> nat \<Rightarrow> nat \<Rightarrow> u8 \<Rightarrow> nat \<Rightarrow> mem outcome" where
  "vsprintf_loop ap m buf_ptr index_ptr index_char k =
     (if index_char = 0 then Inr m
      else if index_char \<noteq> 37 then
        andThen (store m buf_ptr index_char) (\<lambda>m.
        andThen (load m (index_ptr + 1)) (\<lambda>c.
        vsprintf_loop ap m (buf_ptr + 1) (index_ptr + 1) c k))
      else
        andThen (load m (index_ptr + 1)) (\<lambda>index_char.
        if index_char = 115 then
          let arg_str = unat (ap k) in
          andThen (strcpy m buf_ptr arg_str) (\<lambda>(_, m).
          andThen (strlen m arg_str) (\<lambda>n.
          andThen (load m (index_ptr + 2)) (\<lambda>c.
          vsprintf_loop ap m (buf_ptr + n) (index_ptr + 2) c (k + 1))))
        else if index_char = 99 then
          andThen (store m buf_ptr (ucast (ap k))) (\<lambda>m.
          andThen (load m (index_ptr + 2)) (\<lambda>c.
          vsprintf_loop ap m (buf_ptr + 1) (index_ptr + 2) c (k + 1)))
        else if index_char = 100 then
          let arg_int = ap k in
          andThen (if sint arg_int < 0
                   then andThen (store m buf_ptr 45) (\<lambda>m. Inr (m, buf_ptr + 1, 0 - arg_int))
                   else Inr (m, buf_ptr, arg_int)) (\<lambda>(m, buf_ptr, arg_int).
          andThen (itoa m (unat arg_int) buf_ptr 10) (\<lambda>(m, buf_ptr).
          andThen (load m (index_ptr + 2)) (\<lambda>c.
          vsprintf_loop ap m buf_ptr (index_ptr + 2) c (k + 1))))
        else if index_char = 120 then
          andThen (itoa m (unat (ap k)) buf_ptr 16) (\<lambda>(m, buf_ptr).
          andThen (load m (index_ptr + 2)) (\<lambda>c.
          vsprintf_loop ap m buf_ptr (index_ptr + 2) c (k + 1)))
        else vsprintf_loop ap m buf_ptr (index_ptr + 1) index_char k))"
  by pat_completeness auto
termination
  by (relation "measure (\<lambda>(ap, m, b, i, c, k). addr_limit - i)") (auto dest!: load_in_range)

declare vsprintf_loop.simps [simp del]

definition vsprintf :: "mem \<Rightarrow> nat \<Rightarrow> nat \<Rightarrow> (nat \<Rightarrow> u32) \<Rightarrow> (nat \<times> mem) outcome" where
  "vsprintf m str format ap =
     andThen (load m format) (\<lambda>c.
     andThen (vsprintf_loop ap m str format c 0) (\<lambda>m.
     andThen (strlen m str) (\<lambda>n. Inr (n, m))))"

definition sprintf :: "mem \<Rightarrow> nat \<Rightarrow> nat \<Rightarrow> (nat \<Rightarrow> u32) \<Rightarrow> (nat \<times> mem) outcome" where
  "sprintf m buf format args = andThen (vsprintf m buf format args) Inr"

section \<open>Numerals\<close>

text \<open>The digits of a number, most significant first, and the number they stand for.\<close>

function digits :: "nat \<Rightarrow> nat \<Rightarrow> nat list" where
  "digits base v = (if base < 2 then [] else
     (if v div base \<noteq> 0 then digits base (v div base) else []) @ [v mod base])"
  by pat_completeness auto
termination
  by (relation "measure snd") (auto simp: div_eq_0_iff)

declare digits.simps [simp del]

definition digits_value :: "nat \<Rightarrow> nat list \<Rightarrow> nat" where
  "digits_value base ds = foldl (\<lambda>acc d. acc * base + d) 0 ds"

definition num_str :: "nat \<Rightarrow> nat \<Rightarrow> u8 list" where
  "num_str base v = map digit_char (digits base v)"

lemma digits_value_digits: "2 \<le> base \<Longrightarrow> digits_value base (digits base v) = v"
proof (induction base v rule: digits.induct)
  case (1 base v)
  have "(v div base) * base + v mod base = v" by (rule div_mult_mod_eq)
  then show ?case using 1
    by (cases "v div base = 0"; subst digits.simps) (auto simp: digits_value_def)
qed

lemma digits_below: "2 \<le> base \<Longrightarrow> d \<in> set (digits base v) \<Longrightarrow> d < base"
proof (induction base v rule: digits.induct)
  case (1 base v)
  then show ?case by (subst (asm) (2) digits.simps) (auto split: if_splits)
qed

lemma digits_no_leading_zero: "2 \<le> base \<Longrightarrow> v \<noteq> 0 \<Longrightarrow> digits base v \<noteq> [] \<and> hd (digits base v) \<noteq> 0"
proof (induction base v rule: digits.induct)
  case (1 base v)
  show ?case
  proof (cases "v div base = 0")
    case True
    then have "v mod base = v" using div_mult_mod_eq [of v base] by simp
    then show ?thesis using True 1(2,3) by (subst (1 2) digits.simps) simp
  next
    case False
    then show ?thesis using 1 by (subst (1 2) digits.simps) simp
  qed
qed

lemma itoa_spec:
  "2 \<le> base \<Longrightarrow> mapped m p (length (num_str base v)) \<Longrightarrow>
   itoa m v p base = Inr (put_bytes m p (num_str base v), p + length (num_str base v))"
proof (induction base v arbitrary: m rule: digits.induct)
  case (1 base v)
  show ?case
  proof (cases "v div base = 0")
    case True
    then have "num_str base v = [digit_char (v mod base)]"
      using 1(2) by (subst num_str_def, subst digits.simps) simp
    then show ?thesis using 1(2,3) True
      by (subst itoa.simps) (auto simp: Let_def mapped_Suc store_ok put_bytes_Cons)
  next
    case False
    then have n: "num_str base v = num_str base (v div base) @ [digit_char (v mod base)]"
      using 1(2) by (subst num_str_def, subst digits.simps) (simp add: num_str_def)
    let ?n = "num_str base (v div base)"
    have m: "mapped m p (length ?n)" "mapped m (p + length ?n) 1"
      using 1(3) by (simp_all add: n mapped_add [of m p "length ?n" 1, simplified])
    have "itoa m (v div base) p base = Inr (put_bytes m p ?n, p + length ?n)"
      using 1(1) [OF _ False 1(2) m(1)] 1(2) by simp
    then show ?thesis using 1(2) False mapped_put_bytes [OF m(2), of p ?n]
      by (subst itoa.simps)
        (auto simp: Let_def n mapped_Suc put_bytes_append put_bytes_Cons store_ok)
  qed
qed

text \<open>
  For every base from 2 on, \<open>itoa\<close> returns with the pointer just past the numeral it wrote:
  the digits are those of the value in that base, with no leading zero, and they add up to
  the value again.
\<close>

theorem itoa_roundtrip:
  assumes "2 \<le> base" "mapped m p (length (num_str base v))"
  shows "\<exists>ds. itoa m v p base = Inr (put_bytes m p (map digit_char ds), p + length ds)
    \<and> digits_value base ds = v \<and> (\<forall>d\<in>set ds. d < base) \<and> (v \<noteq> 0 \<longrightarrow> hd ds \<noteq> 0)"
  using itoa_spec [OF assms] digits_value_digits [OF assms(1)] digits_below [OF assms(1)]
    digits_no_leading_zero [OF assms(1)]
  by (auto simp: num_str_def intro!: exI [of _ "digits base v"])

theorem itoa_roundtrip_witness:
  "\<exists>ds. itoa (put_bytes (\<lambda>_. None) 100 [0, 0, 0]) 255 100 16
      = Inr (put_bytes (put_bytes (\<lambda>_. None) 100 [0, 0, 0]) 100 (map digit_char ds), 100 + length ds)
    \<and> digits_value 16 ds = 255 \<and> (\<forall>d\<in>set ds. d < 16) \<and> hd ds \<noteq> 0"
  using itoa_roundtrip [of 16 "put_bytes (\<lambda>_. None) 100 [0, 0, 0]" 100 255]
  by (simp add: num_str_def digits.simps [of 16 255] digits.simps [of 16 15] mapped_Suc put_bytes_Cons)

section \<open>What a format string produces\<close>

definition dec_str :: "u32 \<Rightarrow> u8 list" where
  "dec_str w = (if sint w < 0 then 45 # num_str 10 (nat (- sint w)) else num_str 10 (nat (sint w)))"

text \<open>
  The output for a format, given the strings that pointer arguments refer to. A character
  after \<open>%\<close> that is no conversion is taken as the next character of the format.
\<close>

fun fmt :: "(u32 \<Rightarrow> u8 list) \<Rightarrow> (nat \<Rightarrow> u32) \<Rightarrow> nat \<Rightarrow> u8 list \<Rightarrow> u8 list" where
  "fmt st ap k [] = []"
| "fmt st ap k [c] = (if c = 37 then [] else [c])"
| "fmt st ap k (c # d # ds) =
     (if c \<noteq> 37 then c # fmt st ap k (d # ds)
      else if d = 115 then st (ap k) @ fmt st ap (Suc k) ds
      else if d = 99 then ucast (ap k) # fmt st ap (Suc k) ds
      else if d = 100 then dec_str (ap k) @ fmt st ap (Suc k) ds
      else if d = 120 then num_str 16 (unat (ap k)) @ fmt st ap (Suc k) ds
      else fmt st ap k (d # ds))"

text \<open>The argument slots that the format uses as strings.\<close>

fun str_slots :: "nat \<Rightarrow> u8 list \<Rightarrow> nat list" where
  "str_slots k [] = []"
| "str_slots k [c] = []"
| "str_slots k (c # d # ds) =
     (if c \<noteq> 37 then str_slots k (d # ds)
      else if d = 115 then k # str_slots (Suc k) ds
      else if d = 99 \<or> d = 100 \<or> d = 120 then str_slots (Suc k) ds
      else str_slots k (d # ds))"

text \<open>
  A destination \<open>[buf, buf + n)\<close> with \<open>out\<close> written so far and zeros after it, on top of
  the memory \<open>m0\<close>.
\<close>

definition written :: "mem \<Rightarrow> nat \<Rightarrow> nat \<Rightarrow> u8 list \<Rightarrow> mem" where
  "written m0 buf n out = put_bytes m0 buf (out @ replicate (n - length out) 0)"

lemma written_extend:
  assumes "length out + length bs \<le> n"
  shows "put_bytes (written m0 buf n out) (buf + length out) bs = written m0 buf n (out @ bs)"
proof (rule ext)
  fix a
  show "put_bytes (written m0 buf n out) (buf + length out) bs a = written m0 buf n (out @ bs) a"
    using assms by (auto simp: written_def put_bytes_def nth_append)
qed

lemma written_nul:
  assumes "length out + length bs < n"
  shows "put_bytes (written m0 buf n out) (buf + length out) (bs @ [0]) = written m0 buf n (out @ bs)"
proof (rule ext)
  fix a
  show "put_bytes (written m0 buf n out) (buf + length out) (bs @ [0]) a = written m0 buf n (out @ bs) a"
    using assms by (auto simp: written_def put_bytes_def nth_append)
qed

lemma written_mapped:
  assumes "mapped m0 buf n" "length out + k \<le> n"
  shows "mapped (written m0 buf n out) (buf + length out) k"
proof -
  have "mapped m0 buf (length out + k)" using assms by (rule mapped_le)
  then show ?thesis by (simp add: written_def mapped_put_bytes mapped_add)
qed

lemma written_cstr:
  assumes "0 \<notin> set out" "length out < n" "buf + n \<le> addr_limit"
  shows "cstr (written m0 buf n out) buf out"
proof -
  have "written m0 buf n out = put_bytes m0 buf ((out @ [0]) @ replicate (n - Suc (length out)) 0)"
    using assms(2) by (simp add: written_def Suc_diff_Suc flip: replicate_Suc)
  then have "holds (written m0 buf n out) buf ((out @ [0]) @ replicate (n - Suc (length out)) 0)"
    using assms(2,3) holds_put_bytes [of buf "(out @ [0]) @ replicate (n - Suc (length out)) 0" m0] by simp
  then have "holds (written m0 buf n out) buf (out @ [0])" by (simp only: holds_append)
  then show ?thesis using assms(1) by (simp add: cstr_def)
qed

lemma written_outside:
  assumes "length out \<le> n" "region buf n \<inter> region p (Suc (length cs)) = {}" "cstr m0 p cs"
  shows "cstr (written m0 buf n out) p cs"
  using assms by (subst cstr_cong [of _ _ _ m0]) (auto simp: written_def put_bytes_def region_def)

lemma cstr_hd: "cstr m p cs \<Longrightarrow> load m p = Inr (hd (cs @ [0]))"
  by (cases cs) (auto simp: cstr_Nil cstr_Cons)

lemma unat_of_sint:
  fixes w :: u32
  shows "0 \<le> sint w \<Longrightarrow> unat w = nat (sint w)" "sint w < 0 \<Longrightarrow> unat (- w) = nat (- sint w)"
proof -
  have b: "- (2 ^ 31) \<le> sint w" "sint w < 2 ^ 31"
    using sint_greater_eq [of w] sint_less [of w] by simp_all
  have w: "w = word_of_int (sint w)" by simp
  have u: "uint w = sint w mod 2 ^ 32" by (subst w, subst uint_word_of_int) simp
  show "unat w = nat (sint w)" if "0 \<le> sint w"
    using that b by (simp add: u flip: nat_uint_eq)
  have "- w = word_of_int (- sint w)" by simp
  then have "uint (- w) = (- sint w) mod 2 ^ 32" by (simp only: uint_word_of_int) simp
  then show "unat (- w) = nat (- sint w)" if "sint w < 0"
    using that b by (simp flip: nat_uint_eq)
qed

lemma itoa_written:
  assumes "mapped m0 buf n" "2 \<le> base" "length out + length (num_str base v) \<le> n"
  shows "itoa (written m0 buf n out) v (buf + length out) base =
    Inr (written m0 buf n (out @ num_str base v), buf + length (out @ num_str base v))"
  using itoa_spec [OF assms(2) written_mapped [OF assms(1,3)]] written_extend [OF assms(3)] by simp

lemma store_written:
  assumes "mapped m0 buf n" "length out < n"
  shows "store (written m0 buf n out) (buf + length out) b = Inr (written m0 buf n (out @ [b]))"
  using written_mapped [OF assms(1), of out 1] written_extend [of out "[b]" n m0 buf] assms(2)
  by (simp add: mapped_Suc store_ok put_bytes_Cons)

lemma strcpy_written:
  assumes "mapped m0 buf n" "buf \<noteq> 0" "length out + length bs < n"
    and "a \<noteq> 0" "cstr m0 a bs" "region buf n \<inter> region a (Suc (length bs)) = {}"
  shows "strcpy (written m0 buf n out) (buf + length out) a =
    Inr (buf + length out, written m0 buf n (out @ bs))"
proof -
  have "region (buf + length out) (Suc (length bs)) \<subseteq> region buf n"
    using assms(3) by (auto simp: region_def)
  then have "strcpy (written m0 buf n out) (buf + length out) a =
    Inr (buf + length out, put_bytes (written m0 buf n out) (buf + length out) (bs @ [0]))"
    using assms by (intro strcpy_spec written_outside written_mapped) auto
  then show ?thesis by (simp add: written_nul [OF assms(3)])
qed

lemma dec_written:
  assumes "mapped m0 buf n" "length out + length (dec_str w) \<le> n"
  shows "andThen (if sint w < 0
       then andThen (store (written m0 buf n out) (buf + length out) 45)
              (\<lambda>m. Inr (m, buf + length out + 1, 0 - w))
       else Inr (written m0 buf n out, buf + length out, w)) (\<lambda>(m, q, x). itoa m (unat x) q 10)
     = Inr (written m0 buf n (out @ dec_str w), buf + length (out @ dec_str w))"
proof (cases "sint w < 0")
  case True
  then have "length (out @ [45]) + length (num_str 10 (nat (- sint w))) \<le> n"
    using assms(2) by (simp add: dec_str_def)
  from itoa_written [OF assms(1) _ this] store_written [OF assms(1), of out] True assms(2)
  show ?thesis by (simp add: dec_str_def unat_of_sint)
next
  case False
  then show ?thesis
    using itoa_written [OF assms(1), of 10 out "nat (sint w)"] assms(2)
    by (simp add: dec_str_def unat_of_sint)
qed

text \<open>What a format needs of the memory it is run on.\<close>

definition args_ok :: "mem \<Rightarrow> nat \<Rightarrow> nat \<Rightarrow> (u32 \<Rightarrow> u8 list) \<Rightarrow> (nat \<Rightarrow> u32) \<Rightarrow> nat list \<Rightarrow> bool" where
  "args_ok m0 buf n st ap ks \<longleftrightarrow> (\<forall>k\<in>set ks. ap k \<noteq> 0 \<and> cstr m0 (unat (ap k)) (st (ap k))
     \<and> region buf n \<inter> region (unat (ap k)) (Suc (length (st (ap k)))) = {})"

definition fmt_ok :: "mem \<Rightarrow> nat \<Rightarrow> nat \<Rightarrow> nat \<Rightarrow> u8 list \<Rightarrow> bool" where
  "fmt_ok m0 buf n p cs \<longleftrightarrow> cstr m0 p cs \<and> region buf n \<inter> region p (Suc (length cs)) = {}"

lemma fmt_ok_Cons: "fmt_ok m0 buf n p (c # cs) \<Longrightarrow> fmt_ok m0 buf n (Suc p) cs"
  by (auto simp: fmt_ok_def cstr_Cons region_def)

lemma fmt_ok_hd:
  "fmt_ok m0 buf n p cs \<Longrightarrow> length out \<le> n \<Longrightarrow> load (written m0 buf n out) p = Inr (hd (cs @ [0]))"
  by (auto simp: fmt_ok_def intro: cstr_hd written_outside)

lemma fmt_ok_nz: "fmt_ok m0 buf n p (c # cs) \<Longrightarrow> c \<noteq> 0"
  by (simp add: fmt_ok_def cstr_Cons)

lemma strlen_written:
  assumes "a \<noteq> 0" "cstr m0 a bs" "region buf n \<inter> region a (Suc (length bs)) = {}" "length out \<le> n"
  shows "strlen (written m0 buf n out) a = Inr (length bs)"
  using assms by (intro strlen_spec written_outside) auto

text \<open>One lemma per branch of the loop: the state it continues with.\<close>

lemma step_plain:
  assumes "mapped m0 buf n" "length out < n" "c \<noteq> 0" "c \<noteq> 37"
    and "\<And>o'. length o' \<le> n \<Longrightarrow> load (written m0 buf n o') (Suc p) = Inr c'"
  shows "vsprintf_loop ap (written m0 buf n out) (buf + length out) p c k =
    vsprintf_loop ap (written m0 buf n (out @ [c])) (buf + length (out @ [c])) (Suc p) c' k"
  using assms store_written [OF assms(1,2)] by (subst vsprintf_loop.simps) simp

lemma step_other:
  assumes "d \<notin> {115, 99, 100, 120}" "load m (Suc p) = Inr d"
  shows "vsprintf_loop ap m q p 37 k = vsprintf_loop ap m q (Suc p) d k"
  using assms by (subst vsprintf_loop.simps) simp

lemma step_conversion:
  assumes m: "mapped m0 buf n" "buf \<noteq> 0"
    and out: "length out + length bs < n"
    and d: "\<And>o'. length o' \<le> n \<Longrightarrow> load (written m0 buf n o') (Suc p) = Inr d"
    and c': "\<And>o'. length o' \<le> n \<Longrightarrow> load (written m0 buf n o') (Suc (Suc p)) = Inr c'"
    and conv: "d = 115 \<and> bs = st (ap k) \<and> args_ok m0 buf n st ap [k] \<or> d = 99 \<and> bs = [ucast (ap k)]
      \<or> d = 100 \<and> bs = dec_str (ap k) \<or> d = 120 \<and> bs = num_str 16 (unat (ap k))"
  shows "vsprintf_loop ap (written m0 buf n out) (buf + length out) p 37 k =
    vsprintf_loop ap (written m0 buf n (out @ bs)) (buf + length (out @ bs)) (Suc (Suc p)) c' (Suc k)"
  using conv
proof (elim disjE conjE)
  assume s: "d = 115" "bs = st (ap k)" and "args_ok m0 buf n st ap [k]"
  then have a: "unat (ap k) \<noteq> 0" "cstr m0 (unat (ap k)) bs"
    "region buf n \<inter> region (unat (ap k)) (Suc (length bs)) = {}"
    by (simp_all add: args_ok_def unat_eq_0)
  show ?thesis using s(1) d c' out strcpy_written [OF m out a] strlen_written [OF a, of "out @ bs"]
    by (subst vsprintf_loop.simps) (simp add: Let_def add.assoc)
next
  assume "d = 99" "bs = [ucast (ap k)]"
  then show ?thesis using d c' out store_written [OF m(1), of out]
    by (subst vsprintf_loop.simps) simp
next
  assume s: "d = 100" "bs = dec_str (ap k)"
  have "length out + length (dec_str (ap k)) \<le> n" using out s by simp
  note w = dec_written [OF m(1) this]
  show ?thesis using s d c' out w
    by (subst vsprintf_loop.simps)
      (cases "sint (ap k) < 0"; auto simp: Let_def andThen_assoc outcome_simps split: prod.splits)
next
  assume "d = 120" "bs = num_str 16 (unat (ap k))"
  then show ?thesis using d c' out itoa_written [OF m(1), of 16 out "unat (ap k)"]
    by (subst vsprintf_loop.simps) simp
qed

lemma vsprintf_loop_fmt:
  assumes m: "mapped m0 buf n" "buf \<noteq> 0"
  shows "fmt_ok m0 buf n p cs \<Longrightarrow> args_ok m0 buf n st ap (str_slots k cs) \<Longrightarrow>
    length out + length (fmt st ap k cs) < n \<Longrightarrow>
    vsprintf_loop ap (written m0 buf n out) (buf + length out) p (hd (cs @ [0])) k =
      Inr (written m0 buf n (out @ fmt st ap k cs))"
proof (induction st ap k cs arbitrary: p out rule: fmt.induct)
  case (1 st ap k)
  then show ?case by (subst vsprintf_loop.simps) simp
next
  case (2 st ap k c)
  have nx: "length o' \<le> n \<Longrightarrow> load (written m0 buf n o') (Suc p) = Inr 0" for o'
    using fmt_ok_hd [OF fmt_ok_Cons [OF 2(1)]] by simp
  show ?case
    using 2 fmt_ok_nz [OF 2(1)] store_written [OF m(1), of out] nx
    by (subst vsprintf_loop.simps) (auto simp: vsprintf_loop.simps [of _ _ _ _ 0])
next
  case (3 st ap k c d ds)
  note ok1 = fmt_ok_Cons [OF 3(7)]
  note ok2 = fmt_ok_Cons [OF ok1]
  have nx: "length o' \<le> n \<Longrightarrow> load (written m0 buf n o') (Suc p) = Inr d"
    "length o' \<le> n \<Longrightarrow> load (written m0 buf n o') (Suc (Suc p)) = Inr (hd (ds @ [0]))" for o'
    using fmt_ok_hd [OF ok1] fmt_ok_hd [OF ok2] by simp_all
  note nz = fmt_ok_nz [OF 3(7)]
  show ?case
  proof (cases "c = 37 \<and> d \<in> {115, 99, 100, 120}")
    case True
    then obtain bs where bs: "fmt st ap k (c # d # ds) = bs @ fmt st ap (Suc k) ds"
      "d = 115 \<and> bs = st (ap k) \<and> args_ok m0 buf n st ap [k] \<or> d = 99 \<and> bs = [ucast (ap k)]
        \<or> d = 100 \<and> bs = dec_str (ap k) \<or> d = 120 \<and> bs = num_str 16 (unat (ap k))"
      using 3(8) by (auto simp: args_ok_def)
    have a: "args_ok m0 buf n st ap (str_slots (Suc k) ds)"
      using 3(8) True by (auto simp: args_ok_def)
    have l: "length out + length bs < n" "length (out @ bs) + length (fmt st ap (Suc k) ds) < n"
      using 3(9) unfolding bs(1) by simp_all
    have "vsprintf_loop ap (written m0 buf n (out @ bs)) (buf + length (out @ bs)) (Suc (Suc p)) (hd (ds @ [0]))
      (Suc k) = Inr (written m0 buf n ((out @ bs) @ fmt st ap (Suc k) ds))"
      using True 3(2) [OF _ _ ok2 a l(2)] 3(3) [OF _ _ _ ok2 a l(2)] 3(4) [OF _ _ _ _ ok2 a l(2)]
        3(5) [OF _ _ _ _ _ ok2 a l(2)] by auto
    then show ?thesis using step_conversion [OF m l(1) nx bs(2)] True unfolding bs(1) by simp
  next
    case False
    show ?thesis
    proof (cases "c = 37")
      case True
      have "length out \<le> n" using 3(9) by simp
      then show ?thesis using True False 3(6) [OF _ _ _ _ _ ok1] 3(8,9) step_other nx by auto
    next
      case c: False
      then have "length out < n" using 3(9) by simp
      from step_plain [OF m(1) this nz c nx(1)] 3(1) [OF c ok1, of "out @ [c]"] 3(8,9) c
      show ?thesis by simp
    qed
  qed
qed

lemma written_Nil: "holds m0 buf (replicate n 0) \<Longrightarrow> written m0 buf n [] = m0"
proof (rule ext)
  fix a
  assume "holds m0 buf (replicate n 0)"
  then have "a - buf < n \<longrightarrow> m0 (buf + (a - buf)) = Some 0" by (simp add: holds_def)
  then show "written m0 buf n [] a = m0 a" by (auto simp: written_def put_bytes_def)
qed

text \<open>
  C24. On a zeroed buffer with room for the output and its terminator, \<open>vsprintf\<close> leaves exactly
  the formatted text as a C string in the buffer, returns its length, and changes no other
  byte of memory.
\<close>

theorem vsprintf_correct:
  assumes "buf \<noteq> 0" "holds m buf (replicate n 0)"
    and "fmt_ok m buf n format cs" "args_ok m buf n st ap (str_slots 0 cs)"
    and "length (fmt st ap 0 cs) < n" "0 \<notin> set (fmt st ap 0 cs)"
  shows "\<exists>m'. vsprintf m buf format ap = Inr (length (fmt st ap 0 cs), m')
    \<and> cstr m' buf (fmt st ap 0 cs) \<and> (\<forall>a. a \<notin> region buf n \<longrightarrow> m' a = m a)"
proof -
  have n: "mapped m buf n" using holds_mapped [OF assms(2)] by simp
  note w = written_Nil [OF assms(2)]
  let ?m' = "written m buf n (fmt st ap 0 cs)"
  have "vsprintf_loop ap m buf format (hd (cs @ [0])) 0 = Inr ?m'"
    using vsprintf_loop_fmt [OF n assms(1,3,4), of "[]"] assms(5) by (simp add: w)
  moreover have "load m format = Inr (hd (cs @ [0]))" using fmt_ok_hd [OF assms(3), of "[]"] by (simp add: w)
  moreover have c: "cstr ?m' buf (fmt st ap 0 cs)"
    using assms(5,6) n by (intro written_cstr) (auto simp: mapped_def)
  ultimately have "vsprintf m buf format ap = Inr (length (fmt st ap 0 cs), ?m')"
    using strlen_spec [OF assms(1) c] by (simp add: vsprintf_def)
  moreover have "\<forall>a. a \<notin> region buf n \<longrightarrow> ?m' a = m a"
    using assms(5) by (auto simp: written_def put_bytes_def region_def)
  ultimately show ?thesis using c by blast
qed

text \<open>A memory with the format \<open>%s%d\<close>, its string argument \<open>n\<close> and a buffer of 8 bytes.\<close>

definition fmt_mem :: mem where
  "fmt_mem = put_bytes (put_bytes (put_bytes (\<lambda>_. None) 100 (replicate 8 0))
     200 [37, 115, 37, 100, 0]) 300 [110, 0]"

definition fmt_args :: "nat \<Rightarrow> u32" where
  "fmt_args k = (if k = 0 then 300 else - 5)"

lemma dec_minus_5: "dec_str (- 5) = [45, 53]"
proof -
  have "sint (- 5 :: u32) = - 5" by simp
  then show ?thesis by (simp add: dec_str_def num_str_def digits.simps [of 10 5] digit_char_def)
qed

theorem vsprintf_correct_witness:
  "\<exists>m'. vsprintf fmt_mem 100 200 fmt_args = Inr (3, m') \<and> cstr m' 100 [110, 45, 53]
    \<and> (\<forall>a. a \<notin> region 100 8 \<longrightarrow> m' a = fmt_mem a)"
proof -
  have f: "fmt (\<lambda>_. [110]) fmt_args 0 [37, 115, 37, 100] = [110, 45, 53]"
    by (simp add: fmt_args_def dec_minus_5)
  have "holds fmt_mem 100 (replicate 8 0)"
    by (auto simp: fmt_mem_def holds_def put_bytes_def nth_replicate)
  moreover have "fmt_ok fmt_mem 100 8 200 [37, 115, 37, 100]"
    by (simp add: fmt_ok_def cstr_Cons cstr_Nil load_def fmt_mem_def put_bytes_def region_def)
  moreover have "args_ok fmt_mem 100 8 (\<lambda>_. [110]) fmt_args (str_slots 0 [37, 115, 37, 100])"
    by (simp add: args_ok_def fmt_args_def cstr_Cons cstr_Nil load_def fmt_mem_def put_bytes_def region_def)
  ultimately show ?thesis
    using vsprintf_correct [of 100 fmt_mem 8 200 "[37, 115, 37, 100]" "\<lambda>_. [110]" fmt_args]
    unfolding f by (simp add: numeral_3_eq_3)
qed

end
