(* ===== verification/Ide.thy ===== *)
theory Ide
  imports Devices Stdio
begin

text \<open>
  The disk driver, \<^verbatim>\<open>device/ide.c\<close>. The controllers are platform: the registers a driver writes, the sectors of
  the two drives of a channel, and the transfer of sectors that the read and write commands of the ATA standard ask
  for. The driver's structures are kept by the address they have in \<open>channels\<close>. A message printed with \<open>printk\<close> is
  given by its text, which is what \<open>vsprintf\<close> produces on a zeroed buffer.

  A command makes the drive raise its interrupt. Here it arrives before the driver waits for it, so that the
  wait returns at once; a wait that has to give up the processor has the outcome \<open>Blocks\<close>.
\<close>

section \<open>Words in byte memory\<close>

definition word_of_bytes :: "u8 \<Rightarrow> u8 \<Rightarrow> u8 \<Rightarrow> u8 \<Rightarrow> u32" where
  "word_of_bytes a b c d = ucast a OR push_bit 8 (ucast b) OR push_bit 16 (ucast c) OR push_bit 24 (ucast d)"

definition bytes_of_word :: "u32 \<Rightarrow> u8 list" where
  "bytes_of_word w = [ucast w, ucast (drop_bit 8 w), ucast (drop_bit 16 w), ucast (drop_bit 24 w)]"

definition load32 :: "mem \<Rightarrow> nat \<Rightarrow> u32 outcome" where
  "load32 m a = andThen (load m a) (\<lambda>b0. andThen (load m (a + 1)) (\<lambda>b1.
     andThen (load m (a + 2)) (\<lambda>b2. andThen (load m (a + 3)) (\<lambda>b3. Inr (word_of_bytes b0 b1 b2 b3)))))"

fun store_bytes :: "mem \<Rightarrow> nat \<Rightarrow> u8 list \<Rightarrow> mem outcome" where
  "store_bytes m a [] = Inr m"
| "store_bytes m a (b # bs) = andThen (store m a b) (\<lambda>m. store_bytes m (Suc a) bs)"

fun load_bytes :: "mem \<Rightarrow> nat \<Rightarrow> nat \<Rightarrow> u8 list outcome" where
  "load_bytes m a 0 = Inr []"
| "load_bytes m a (Suc n) = andThen (load m a) (\<lambda>b. andThen (load_bytes m (Suc a) n) (\<lambda>bs. Inr (b # bs)))"

section \<open>The controllers\<close>

text \<open>
  The registers of a channel, whether its selected drive is busy, the bytes ready to be read and the sectors still to be written.
\<close>

record ata =
  r_cnt :: u8
  r_low :: u8
  r_mid :: u8
  r_high :: u8
  r_dev :: u8
  bsy :: bool
  rbuf :: "u8 list"
  wleft :: nat

record ide_channel =
  cname :: "u8 list"
  port_base :: u16
  irq_no :: u8
  expecting_intr :: bool

record disk =
  dname :: "u8 list"
  my_channel :: nat
  dev_no :: u8

text \<open>A \<open>struct bitmap\<close> whose bits are in memory: their number of bytes and where they are.\<close>

record bitmap_at =
  bm_len :: nat
  bm_bits :: nat

record partition =
  start_lba :: u32
  sec_cnt :: u32
  my_disk :: nat
  pname :: "u8 list"
  sb :: nat
  block_bitmap :: bitmap_at
  inode_bitmap :: bitmap_at

record ide = dev +
  ctl :: "u16 \<Rightarrow> ata"
  medium :: "u16 \<Rightarrow> bool \<Rightarrow> nat \<Rightarrow> u8 list"
  ident :: "u16 \<Rightarrow> bool \<Rightarrow> u8 list"
  chans :: "nat \<Rightarrow> ide_channel option"
  disks :: "nat \<Rightarrow> disk option"
  parts :: "nat \<Rightarrow> partition option"
  channels :: nat
  channel_cnt :: u8
  partition_list :: nat
  ext_lba_base :: u32
  p_no :: u8
  l_no :: u8
  hd_handler_at :: u32

definition max_lba :: u32 where
  "max_lba = 80 * 1024 * 1024 div 512 - 1"

text \<open>The sector a controller is set to, the number of sectors (0 stands for 256) and the selected drive.\<close>

definition ata_lba :: "ata \<Rightarrow> nat" where
  "ata_lba a = unat (word_of_bytes (r_low a) (r_mid a) (r_high a) (r_dev a AND 0x0f))"

definition ata_count :: "ata \<Rightarrow> nat" where
  "ata_count a = (if r_cnt a = 0 then 256 else unat (r_cnt a))"

definition ata_slave :: "ata \<Rightarrow> bool" where
  "ata_slave a \<longleftrightarrow> r_dev a AND 0x10 \<noteq> 0"

definition ata_command :: "u16 \<Rightarrow> u8 \<Rightarrow> 'a ide_scheme \<Rightarrow> 'a ide_scheme" where
  "ata_command port cmd s =
     (let a = ctl s port in
      s\<lparr>ctl := (ctl s)(port :=
        if cmd = 0x20 then a\<lparr>rbuf := concat (map (\<lambda>i. medium s port (ata_slave a) (ata_lba a + i)) [0..<ata_count a]), wleft := 0\<rparr>
        else if cmd = 0x30 then a\<lparr>rbuf := [], wleft := ata_count a\<rparr>
        else if cmd = 0xec then a\<lparr>rbuf := ident s port (ata_slave a), wleft := 0\<rparr>
        else a)\<rparr>)"

definition ata_status :: "ata \<Rightarrow> u8" where
  "ata_status a = (if bsy a then 0x80 else 0) OR (if rbuf a \<noteq> [] \<or> wleft a > 0 then 0x8 else 0)"

definition set_reg :: "u16 \<Rightarrow> (ata \<Rightarrow> ata) \<Rightarrow> 'a ide_scheme \<Rightarrow> 'a ide_scheme" where
  "set_reg port f s = s\<lparr>ctl := (ctl s)(port := f (ctl s port))\<rparr>"

definition ata_in :: "u16 \<Rightarrow> nat \<Rightarrow> 'a ide_scheme \<Rightarrow> u8 list \<times> 'a ide_scheme" where
  "ata_in port n s = (take n (rbuf (ctl s port)), set_reg port (\<lambda>a. a\<lparr>rbuf := drop n (rbuf a)\<rparr>) s)"

fun write_sectors :: "(nat \<Rightarrow> u8 list) \<Rightarrow> nat \<Rightarrow> u8 list \<Rightarrow> nat \<Rightarrow> (nat \<Rightarrow> u8 list)" where
  "write_sectors d lba bs 0 = d"
| "write_sectors d lba bs (Suc n) = write_sectors (d(lba := take 512 bs)) (Suc lba) (drop 512 bs) n"

definition ata_out :: "u16 \<Rightarrow> u8 list \<Rightarrow> 'a ide_scheme \<Rightarrow> 'a ide_scheme" where
  "ata_out port bs s =
     (let a = ctl s port; d = medium s port (ata_slave a) in
      set_reg port (\<lambda>a. a\<lparr>wleft := 0\<rparr>)
       (s\<lparr>medium := (medium s)(port := (medium s port)(ata_slave a := write_sectors d (ata_lba a) bs (wleft a)))\<rparr>))"

section \<open>Structures of the driver\<close>

text \<open>
  Where the members of the structures are: an \<open>ide_channel\<close> has 1632 bytes, a \<open>disk\<close> 784 and a \<open>partition\<close> 64.
\<close>

definition channel_at :: "nat \<Rightarrow> nat \<Rightarrow> nat" where
  "channel_at base i = base + 1632 * i"

definition channel_lock :: "nat \<Rightarrow> nat" where
  "channel_lock c = c + 12"

definition disk_done :: "nat \<Rightarrow> nat" where
  "disk_done c = c + 44"

definition device_at :: "nat \<Rightarrow> nat \<Rightarrow> nat" where
  "device_at c i = c + 64 + 784 * i"

definition prim_part :: "nat \<Rightarrow> nat \<Rightarrow> nat" where
  "prim_part dk i = dk + 16 + 64 * i"

definition logic_part :: "nat \<Rightarrow> nat \<Rightarrow> nat" where
  "logic_part dk i = dk + 272 + 64 * i"

definition part_tag :: "nat \<Rightarrow> nat" where
  "part_tag p = p + 12"

definition entry_of_part :: "nat \<Rightarrow> nat" where
  "entry_of_part tag = tag - 12"

definition open_inodes :: "nat \<Rightarrow> nat" where
  "open_inodes p = p + 48"

definition get_chan :: "nat \<Rightarrow> 'a ide_scheme \<Rightarrow> ide_channel outcome" where
  "get_chan c s = (case chans s c of Some x \<Rightarrow> Inr x | None \<Rightarrow> Inl BadAccess)"

definition set_chan :: "nat \<Rightarrow> (ide_channel \<Rightarrow> ide_channel) \<Rightarrow> 'a ide_scheme \<Rightarrow> 'a ide_scheme outcome" where
  "set_chan c f s = andThen (get_chan c s) (\<lambda>x. Inr (s\<lparr>chans := (chans s)(c \<mapsto> f x)\<rparr>))"

definition get_disk :: "nat \<Rightarrow> 'a ide_scheme \<Rightarrow> disk outcome" where
  "get_disk d s = (case disks s d of Some x \<Rightarrow> Inr x | None \<Rightarrow> Inl BadAccess)"

definition set_disk :: "nat \<Rightarrow> (disk \<Rightarrow> disk) \<Rightarrow> 'a ide_scheme \<Rightarrow> 'a ide_scheme outcome" where
  "set_disk d f s = andThen (get_disk d s) (\<lambda>x. Inr (s\<lparr>disks := (disks s)(d \<mapsto> f x)\<rparr>))"

definition get_part :: "nat \<Rightarrow> 'a ide_scheme \<Rightarrow> partition outcome" where
  "get_part p s = (case parts s p of Some x \<Rightarrow> Inr x | None \<Rightarrow> Inl BadAccess)"

definition set_part :: "nat \<Rightarrow> (partition \<Rightarrow> partition) \<Rightarrow> 'a ide_scheme \<Rightarrow> 'a ide_scheme outcome" where
  "set_part p f s = andThen (get_part p s) (\<lambda>x. Inr (s\<lparr>parts := (parts s)(p \<mapsto> f x)\<rparr>))"

text \<open>The channel of a disk, and the first port of the channel.\<close>

definition with_channel :: "nat \<Rightarrow> 'a ide_scheme \<Rightarrow> (disk \<Rightarrow> u16 \<Rightarrow> 'b outcome) \<Rightarrow> 'b outcome" where
  "with_channel dk s f = andThen (get_disk dk s) (\<lambda>d. andThen (get_chan (my_channel d) s) (\<lambda>c. f d (port_base c)))"

section \<open>Reading and writing sectors\<close>

definition select_disk :: "nat \<Rightarrow> 'a ide_scheme \<Rightarrow> 'a ide_scheme outcome" where
  "select_disk dk s = with_channel dk s (\<lambda>d port.
     let reg_device = 0xa0 OR 0x40;
         reg_device = (if dev_no d = 1 then reg_device OR 0x10 else reg_device) in
     Inr (set_reg port (\<lambda>a. a\<lparr>r_dev := reg_device\<rparr>) s))"

definition select_sector :: "nat \<Rightarrow> u32 \<Rightarrow> u8 \<Rightarrow> 'a ide_scheme \<Rightarrow> 'a ide_scheme outcome" where
  "select_sector dk lba n s = ASSERT (lba \<le> max_lba)
     (with_channel dk s (\<lambda>d port.
      let s = set_reg port (\<lambda>a. a\<lparr>r_cnt := n\<rparr>) s;
          s = set_reg port (\<lambda>a. a\<lparr>r_low := ucast lba\<rparr>) s;
          s = set_reg port (\<lambda>a. a\<lparr>r_mid := ucast (drop_bit 8 lba)\<rparr>) s;
          s = set_reg port (\<lambda>a. a\<lparr>r_high := ucast (drop_bit 16 lba)\<rparr>) s in
      Inr (set_reg port (\<lambda>a. a\<lparr>r_dev := 0xa0 OR 0x40 OR (if dev_no d = 1 then 0x10 else 0) OR ucast (drop_bit 24 lba)\<rparr>) s)))"

definition cmd_out :: "nat \<Rightarrow> u8 \<Rightarrow> 'a ide_scheme \<Rightarrow> 'a ide_scheme outcome" where
  "cmd_out channel cmd s =
     andThen (set_chan channel (\<lambda>c. c\<lparr>expecting_intr := True\<rparr>) s) (\<lambda>s.
     andThen (get_chan channel s) (\<lambda>c. Inr (ata_command (port_base c) cmd s)))"

definition size_in_byte :: "u8 \<Rightarrow> nat" where
  "size_in_byte n = (if n = 0 then 256 * 512 else unat n * 512)"

definition read_from_sector :: "nat \<Rightarrow> nat \<Rightarrow> u8 \<Rightarrow> 'a ide_scheme \<Rightarrow> 'a ide_scheme outcome" where
  "read_from_sector dk addr n s = with_channel dk s (\<lambda>d port.
     let (bs, s) = ata_in port (2 * (size_in_byte n div 2)) s in
     andThen (store_bytes (ram s) addr bs) (\<lambda>m. Inr (s\<lparr>ram := m\<rparr>)))"

definition write2sector :: "nat \<Rightarrow> nat \<Rightarrow> u8 \<Rightarrow> 'a ide_scheme \<Rightarrow> 'a ide_scheme outcome" where
  "write2sector dk addr n s = with_channel dk s (\<lambda>d port.
     andThen (load_bytes (ram s) addr (2 * (size_in_byte n div 2))) (\<lambda>bs. Inr (ata_out port bs s)))"

text \<open>
  In the condition of the loop the comparison binds tighter than the assignment, so the limit goes down by 1 in every
  round and the loop ends when it is 0.
\<close>

fun busy_loop :: "u16 \<Rightarrow> nat \<Rightarrow> 'a ide_scheme \<Rightarrow> (bool \<times> 'a ide_scheme) outcome" where
  "busy_loop port 0 s = Inr (False, s)"
| "busy_loop port (Suc time_limit) s =
     (if time_limit = 0 then Inr (False, s)
      else if ata_status (ctl s port) AND 0x80 = 0 then Inr (ata_status (ctl s port) AND 0x8 \<noteq> 0, s)
      else andThen (mtime_sleep 10 s) (\<lambda>r. case r of Awake s \<Rightarrow> busy_loop port time_limit s | Yielded _ _ \<Rightarrow> Inl Blocks))"

definition busy_wait :: "nat \<Rightarrow> 'a ide_scheme \<Rightarrow> (bool \<times> 'a ide_scheme) outcome" where
  "busy_wait dk s = with_channel dk s (\<lambda>d port. busy_loop port (30 * 1000) s)"

definition intr_hd_handler :: "u8 \<Rightarrow> 'a ide_scheme \<Rightarrow> 'a ide_scheme outcome" where
  "intr_hd_handler irq s = ASSERT (irq = 0x2e \<or> irq = 0x2f)
     (let channel = channel_at (channels s) (unat (irq - 0x2e)) in
      andThen (get_chan channel s) (\<lambda>c. ASSERT (irq_no c = irq)
     (if expecting_intr c then
        andThen (set_chan channel (\<lambda>c. c\<lparr>expecting_intr := False\<rparr>) s) (sema_up (disk_done channel))
      else Inr s)))"

text \<open>The drive raises its interrupt and the driver waits for it.\<close>

definition await_disk :: "nat \<Rightarrow> 'a ide_scheme \<Rightarrow> 'a ide_scheme outcome" where
  "await_disk dk s =
     andThen (get_disk dk s) (\<lambda>d.
     andThen (get_chan (my_channel d) s) (\<lambda>c.
     andThen (intr_hd_handler (irq_no c) s) (\<lambda>s.
     andThen (sema_down (disk_done (my_channel d)) s) (\<lambda>r.
     case r of Done s \<Rightarrow> Inr s | Switched _ _ \<Rightarrow> Inl Blocks))))"

definition secs_op :: "u32 \<Rightarrow> u32 \<Rightarrow> u32" where
  "secs_op secs_done secs = (if secs_done + 256 \<le> secs then 256 else secs - secs_done)"

definition ide_read_step :: "nat \<Rightarrow> u32 \<Rightarrow> u32 \<Rightarrow> u32 \<Rightarrow> u32 \<Rightarrow> 'a ide_scheme \<Rightarrow> 'a ide_scheme outcome" where
  "ide_read_step dk lba addr secs_done n s =
     andThen (select_sector dk (lba + secs_done) (ucast n) s) (\<lambda>s.
     andThen (get_disk dk s) (\<lambda>d.
     andThen (cmd_out (my_channel d) 0x20 s) (\<lambda>s.
     andThen (await_disk dk s) (\<lambda>s.
     andThen (busy_wait dk s) (\<lambda>(ready, s).
     if \<not> ready then Inl Panic
     else read_from_sector dk (unat (addr + secs_done * 512)) (ucast n) s)))))"

partial_function (option) ide_read_loop ::
  "nat \<Rightarrow> u32 \<Rightarrow> u32 \<Rightarrow> u32 \<Rightarrow> u32 \<Rightarrow> 'a ide_scheme \<Rightarrow> 'a ide_scheme outcome option" where
  "ide_read_loop dk lba addr secs secs_done s =
     (if secs_done < secs then
        (case ide_read_step dk lba addr secs_done (secs_op secs_done secs) s of
           Inl t \<Rightarrow> Some (Inl t)
         | Inr s \<Rightarrow> ide_read_loop dk lba addr secs (secs_done + secs_op secs_done secs) s)
      else Some (Inr s))"

definition ide_read :: "nat \<Rightarrow> u32 \<Rightarrow> u32 \<Rightarrow> u32 \<Rightarrow> 'a ide_scheme \<Rightarrow> 'a ide_scheme outcome" where
  "ide_read dk lba addr secs s = ASSERT (lba \<le> max_lba) (ASSERT (secs > 0)
     (andThen (get_disk dk s) (\<lambda>d.
      andThen (acquire_now (channel_lock (my_channel d)) s) (\<lambda>s.
      andThen (select_disk dk s) (\<lambda>s.
      andThen (run_walk (ide_read_loop dk lba addr secs 0 s)) (\<lambda>s.
      lock_release (channel_lock (my_channel d)) s))))))"

definition ide_write_step :: "nat \<Rightarrow> u32 \<Rightarrow> u32 \<Rightarrow> u32 \<Rightarrow> u32 \<Rightarrow> 'a ide_scheme \<Rightarrow> 'a ide_scheme outcome" where
  "ide_write_step dk lba addr secs_done n s =
     andThen (select_sector dk (lba + secs_done) (ucast n) s) (\<lambda>s.
     andThen (get_disk dk s) (\<lambda>d.
     andThen (cmd_out (my_channel d) 0x30 s) (\<lambda>s.
     andThen (busy_wait dk s) (\<lambda>(ready, s).
     if \<not> ready then Inl Panic
     else andThen (write2sector dk (unat (addr + secs_done * 512)) (ucast n) s) (await_disk dk)))))"

partial_function (option) ide_write_loop ::
  "nat \<Rightarrow> u32 \<Rightarrow> u32 \<Rightarrow> u32 \<Rightarrow> u32 \<Rightarrow> 'a ide_scheme \<Rightarrow> 'a ide_scheme outcome option" where
  "ide_write_loop dk lba addr secs secs_done s =
     (if secs_done < secs then
        (case ide_write_step dk lba addr secs_done (secs_op secs_done secs) s of
           Inl t \<Rightarrow> Some (Inl t)
         | Inr s \<Rightarrow> ide_write_loop dk lba addr secs (secs_done + secs_op secs_done secs) s)
      else Some (Inr s))"

definition ide_write :: "nat \<Rightarrow> u32 \<Rightarrow> u32 \<Rightarrow> u32 \<Rightarrow> 'a ide_scheme \<Rightarrow> 'a ide_scheme outcome" where
  "ide_write dk lba addr secs s = ASSERT (lba \<le> max_lba) (ASSERT (secs > 0)
     (andThen (get_disk dk s) (\<lambda>d.
      andThen (acquire_now (channel_lock (my_channel d)) s) (\<lambda>s.
      andThen (select_disk dk s) (\<lambda>s.
      andThen (run_walk (ide_write_loop dk lba addr secs 0 s)) (\<lambda>s.
      lock_release (channel_lock (my_channel d)) s))))))"

section \<open>Disks and partitions\<close>

definition printk :: "u8 list \<Rightarrow> 'a dev_scheme \<Rightarrow> 'a dev_scheme outcome" where
  "printk msg s = console_put_str msg s"

fun swap_pairs_bytes :: "u8 list \<Rightarrow> u8 list" where
  "swap_pairs_bytes (a # b # bs) = b # a # swap_pairs_bytes bs"
| "swap_pairs_bytes bs = []"

text \<open>The bytes a C string has up to its terminator.\<close>

definition c_string :: "u8 list \<Rightarrow> u8 list" where
  "c_string bs = takeWhile (\<lambda>b. b \<noteq> 0) bs"

definition identify_disk :: "nat \<Rightarrow> 'a ide_scheme \<Rightarrow> 'a ide_scheme outcome" where
  "identify_disk dk s =
     andThen (select_disk dk s) (\<lambda>s.
     andThen (get_disk dk s) (\<lambda>d.
     andThen (cmd_out (my_channel d) 0xec s) (\<lambda>s.
     andThen (await_disk dk s) (\<lambda>s.
     andThen (busy_wait dk s) (\<lambda>(ready, s).
     if \<not> ready then Inl Panic
     else with_channel dk s (\<lambda>d port.
       let (id_info, s) = ata_in port 512 s in
       if length id_info < 512 then Inl BadAccess
       else
         let sn = swap_pairs_bytes (take 20 (drop 20 id_info));
             md = swap_pairs_bytes (take 40 (drop 54 id_info));
             sectors = word_of_bytes (id_info ! 120) (id_info ! 121) (id_info ! 122) (id_info ! 123) in
         andThen (printk (bytes ''   disk '' @ dname d @ bytes '' info:'' @ [10] @ bytes ''      SN: '' @ c_string sn @ [10]) s) (\<lambda>s.
         andThen (printk (bytes ''      MODULE: '' @ c_string md @ [10]) s) (\<lambda>s.
         andThen (printk (bytes ''      SECTORS: '' @ dec_str sectors @ [10]) s)
           (printk (bytes ''      CAPACITY: '' @ dec_str (sectors * 512 div 1024 div 1024) @ bytes ''MB'' @ [10]))))))))))"

record partition_table_entry =
  fs_type :: u8
  pt_start_lba :: u32
  pt_sec_cnt :: u32

definition load_entry :: "mem \<Rightarrow> nat \<Rightarrow> partition_table_entry outcome" where
  "load_entry m p =
     andThen (load m (p + 4)) (\<lambda>t.
     andThen (load32 m (p + 8)) (\<lambda>l.
     andThen (load32 m (p + 12)) (\<lambda>n.
     Inr \<lparr>fs_type = t, pt_start_lba = l, pt_sec_cnt = n\<rparr>)))"

definition add_partition :: "nat \<Rightarrow> nat \<Rightarrow> u32 \<Rightarrow> u32 \<Rightarrow> nat \<Rightarrow> 'a ide_scheme \<Rightarrow> 'a ide_scheme outcome" where
  "add_partition dk p lba n k s =
     andThen (get_disk dk s) (\<lambda>d.
     andThen (set_part p (\<lambda>x. x\<lparr>start_lba := lba, sec_cnt := n, my_disk := dk\<rparr>) s) (\<lambda>s.
     andThen (list_append (partition_list s) (part_tag p) s) (\<lambda>s.
     set_part p (\<lambda>x. x\<lparr>pname := dname d @ dec_str (of_nat k)\<rparr>) s)))"

text \<open>
  A partition of the table: its entry is a primary partition in the first sector of the disk and a logical one in the
  sectors of the chain of extended partitions. The result says whether the scan of the sector goes on.
\<close>

definition scan_partition :: "nat \<Rightarrow> u32 \<Rightarrow> partition_table_entry \<Rightarrow> 'a ide_scheme \<Rightarrow> (bool \<times> 'a ide_scheme) outcome" where
  "scan_partition dk ext_lba e s =
     (if ext_lba = 0 then
        andThen (add_partition dk (prim_part dk (unat (p_no s))) (ext_lba + pt_start_lba e) (pt_sec_cnt e) (unat (p_no s) + 1) s) (\<lambda>s.
        let s = s\<lparr>p_no := p_no s + 1\<rparr> in
        ASSERT (p_no s < 4) (Inr (True, s)))
      else
        andThen (add_partition dk (logic_part dk (unat (l_no s))) (ext_lba + pt_start_lba e) (pt_sec_cnt e) (unat (l_no s) + 5) s) (\<lambda>s.
        let s = s\<lparr>l_no := l_no s + 1\<rparr> in
        Inr (\<not> l_no s \<ge> 8, s)))"

definition scan_open :: "nat \<Rightarrow> u32 \<Rightarrow> 'a ide_scheme \<Rightarrow> (nat \<times> 'a ide_scheme) outcome" where
  "scan_open dk ext_lba s =
     andThen (sys_malloc 512 s) (\<lambda>(bs, s).
     andThen (ide_read dk ext_lba (of_nat bs) 1 s) (\<lambda>s. Inr (bs, s)))"

text \<open>
  The recursion of \<open>partition_scan\<close>: \<open>None\<close> is its entry and \<open>Some (bs, i)\<close> its loop at the entry \<open>i\<close> of the table of
  the sector read into \<open>bs\<close>. A chain of extended partitions that comes back to itself is followed for ever.
\<close>

partial_function (option) scan_loop ::
  "nat \<Rightarrow> u32 \<Rightarrow> (nat \<times> nat) option \<Rightarrow> 'a ide_scheme \<Rightarrow> 'a ide_scheme outcome option" where
  "scan_loop dk ext_lba pos s =
     (case pos of
        None \<Rightarrow> (case scan_open dk ext_lba s of
           Inl t \<Rightarrow> Some (Inl t)
         | Inr r \<Rightarrow> scan_loop dk ext_lba (Some (fst r, 0)) (snd r))
      | Some q \<Rightarrow>
          if 4 \<le> snd q then Some (sys_free (fst q) s)
          else (case load_entry (ram s) (fst q + 446 + 16 * snd q) of
             Inl t \<Rightarrow> Some (Inl t)
           | Inr e \<Rightarrow>
               if fs_type e = 0x5 then
                 Option.bind
                   (if ext_lba_base s \<noteq> 0 then scan_loop dk (pt_start_lba e + ext_lba_base s) None s
                    else scan_loop dk (pt_start_lba e) None (s\<lparr>ext_lba_base := pt_start_lba e\<rparr>))
                   (\<lambda>r. case r of Inl t \<Rightarrow> Some (Inl t) | Inr s \<Rightarrow> scan_loop dk ext_lba (Some (fst q, Suc (snd q))) s)
               else if fs_type e \<noteq> 0 then
                 (case scan_partition dk ext_lba e s of
                    Inl t \<Rightarrow> Some (Inl t)
                  | Inr r \<Rightarrow> if fst r then scan_loop dk ext_lba (Some (fst q, Suc (snd q))) (snd r) else Some (Inr (snd r)))
               else scan_loop dk ext_lba (Some (fst q, Suc (snd q))) s))"

definition partition_scan :: "nat \<Rightarrow> u32 \<Rightarrow> 'a ide_scheme \<Rightarrow> 'a ide_scheme outcome" where
  "partition_scan dk ext_lba s = run_walk (scan_loop dk ext_lba None s)"

definition partition_info :: "nat \<Rightarrow> int \<Rightarrow> 'a ide_scheme \<Rightarrow> (bool \<times> 'a ide_scheme) outcome" where
  "partition_info pelem arg s =
     andThen (get_part (entry_of_part pelem) s) (\<lambda>p.
     andThen (printk (bytes ''   '' @ pname p @ bytes '' start_lba:0x'' @ num_str 16 (unat (start_lba p)) @ bytes '', sec_cnt:0x''
        @ num_str 16 (unat (sec_cnt p)) @ [10]) s) (\<lambda>s. Inr (False, s)))"

definition init_disk :: "nat \<Rightarrow> nat \<Rightarrow> nat \<Rightarrow> 'a ide_scheme \<Rightarrow> 'a ide_scheme outcome" where
  "init_disk channel channel_no dev s =
     (let dk = device_at channel dev in
      andThen (set_disk dk (\<lambda>d. d\<lparr>my_channel := channel, dev_no := of_nat dev, dname := bytes ''sd'' @ [of_nat (97 + channel_no * 2 + dev)]\<rparr>) s) (\<lambda>s.
      andThen (identify_disk dk s) (\<lambda>s.
      andThen (if dev \<noteq> 0 then partition_scan dk 0 s else Inr s) (\<lambda>s.
      Inr (s\<lparr>p_no := 0, l_no := 0\<rparr>)))))"

definition init_channel :: "nat \<Rightarrow> 'a ide_scheme \<Rightarrow> 'a ide_scheme outcome" where
  "init_channel channel_no s =
     (let channel = channel_at (channels s) channel_no in
      andThen (set_chan channel (\<lambda>c. c\<lparr>cname := bytes ''ide'' @ dec_str (of_nat channel_no)\<rparr>) s) (\<lambda>s.
      andThen (if channel_no = 0 then set_chan channel (\<lambda>c. c\<lparr>port_base := 0x1f0, irq_no := 0x20 + 14\<rparr>) s
               else if channel_no = 1 then set_chan channel (\<lambda>c. c\<lparr>port_base := 0x170, irq_no := 0x20 + 15\<rparr>) s
               else Inr s) (\<lambda>s.
      andThen (set_chan channel (\<lambda>c. c\<lparr>expecting_intr := False\<rparr>) s) (\<lambda>s.
      andThen (lock_init (channel_lock channel) s) (\<lambda>s.
      andThen (sema_init (disk_done channel) 0 s) (\<lambda>s.
      andThen (get_chan channel s) (\<lambda>c.
      andThen (install_handler (irq_no c) (hd_handler_at s) s) (\<lambda>s.
      andThen (init_disk channel channel_no 0 s) (init_disk channel channel_no 1)))))))))"

fun init_channels :: "nat \<Rightarrow> nat \<Rightarrow> 'a ide_scheme \<Rightarrow> 'a ide_scheme outcome" where
  "init_channels channel_no 0 s = Inr s"
| "init_channels channel_no (Suc n) s = andThen (init_channel channel_no s) (init_channels (Suc channel_no) n)"

definition ide_init :: "'a ide_scheme \<Rightarrow> 'a ide_scheme outcome" where
  "ide_init s =
     andThen (printk (bytes ''ide_init start'' @ [10]) s) (\<lambda>s.
     andThen (load (ram s) 0x475) (\<lambda>hd_cnt. ASSERT (hd_cnt > 0)
    (andThen (list_init (partition_list s) s) (\<lambda>s.
     let s = s\<lparr>channel_cnt := of_nat ((unat hd_cnt + 2 - 1) div 2)\<rparr> in
     andThen (init_channels 0 (unat (channel_cnt s)) s) (\<lambda>s.
     andThen (printk ([10] @ bytes ''   all partition info'' @ [10]) s) (\<lambda>s.
     andThen (list_traversal (partition_list s) partition_info 0 s) (\<lambda>(_, s).
     printk (bytes ''ide_init done'' @ [10]) s)))))))"

end
