(* ===== verification/Inode.thy ===== *)
theory Inode
  imports Ide
begin

text \<open>
  Inodes, \<^verbatim>\<open>fs/inode.c\<close>, with the bitmaps of a partition and their copy on disk (the first part of
  \<^verbatim>\<open>fs/file.c\<close>). The structures that are shared between calls (super blocks, inodes, open directories) are kept by their address;
  a sector buffer is memory, and an inode is copied between the two as its 76 bytes.
\<close>

section \<open>The state of the file system\<close>

record super_block =
  sb_magic :: u32
  sb_sec_cnt :: u32
  inode_cnt :: u32
  part_lba_base :: u32
  block_bitmap_lba :: u32
  block_bitmap_sects :: u32
  inode_bitmap_lba :: u32
  inode_bitmap_sects :: u32
  inode_table_lba :: u32
  inode_table_sects :: u32
  data_start_lba :: u32
  root_inode_no :: u32
  dir_entry_size :: u32

record inode =
  i_no :: u32
  i_size :: u32
  i_open_cnts :: u32
  write_deny :: bool
  i_sectors :: "u32 list"

record dir =
  dir_inode :: nat
  dir_pos :: u32

record open_file =
  fd_pos :: u32
  fd_flag :: u32
  fd_inode :: nat

record fs = ide +
  sbs :: "nat \<Rightarrow> super_block option"
  inodes :: "nat \<Rightarrow> inode option"
  dirs :: "nat \<Rightarrow> dir option"
  file_table :: "open_file list"
  cur_part :: nat
  root_dir :: nat

abbreviation MAX_FILE_OPEN :: nat where
  "MAX_FILE_OPEN \<equiv> 32"

datatype bitmap_type = INODE_BITMAP | BLOCK_BITMAP

definition get_sb :: "nat \<Rightarrow> 'a fs_scheme \<Rightarrow> super_block outcome" where
  "get_sb p s = (case sbs s p of Some x \<Rightarrow> Inr x | None \<Rightarrow> Inl BadAccess)"

definition get_inode :: "nat \<Rightarrow> 'a fs_scheme \<Rightarrow> inode outcome" where
  "get_inode p s = (case inodes s p of Some x \<Rightarrow> Inr x | None \<Rightarrow> Inl BadAccess)"

definition set_inode :: "nat \<Rightarrow> (inode \<Rightarrow> inode) \<Rightarrow> 'a fs_scheme \<Rightarrow> 'a fs_scheme outcome" where
  "set_inode p f s = andThen (get_inode p s) (\<lambda>i. Inr (s\<lparr>inodes := (inodes s)(p \<mapsto> f i)\<rparr>))"

text \<open>The super block of a partition.\<close>

definition part_sb :: "nat \<Rightarrow> 'a fs_scheme \<Rightarrow> (partition \<times> super_block) outcome" where
  "part_sb part s = andThen (get_part part s) (\<lambda>p. andThen (get_sb (sb p) s) (\<lambda>b. Inr (p, b)))"

section \<open>Inodes as bytes\<close>

definition sizeof_inode :: nat where
  "sizeof_inode = 76"

definition inode_tag :: "nat \<Rightarrow> nat" where
  "inode_tag p = p + 68"

definition entry_of_inode :: "nat \<Rightarrow> nat" where
  "entry_of_inode tag = tag - 68"

definition encode_inode :: "inode \<Rightarrow> list_elem \<Rightarrow> u8 list" where
  "encode_inode i e = bytes_of_word (i_no i) @ bytes_of_word (i_size i) @ bytes_of_word (i_open_cnts i)
     @ bytes_of_word (if write_deny i then 1 else 0) @ concat (map bytes_of_word (i_sectors i))
     @ bytes_of_word (of_nat (prev e)) @ bytes_of_word (of_nat (next e))"

definition word_at :: "u8 list \<Rightarrow> nat \<Rightarrow> u32" where
  "word_at bs k = word_of_bytes (bs ! k) (bs ! (k + 1)) (bs ! (k + 2)) (bs ! (k + 3))"

definition decode_inode :: "u8 list \<Rightarrow> inode" where
  "decode_inode bs = \<lparr>i_no = word_at bs 0, i_size = word_at bs 4, i_open_cnts = word_at bs 8, write_deny = word_at bs 12 \<noteq> 0,
     i_sectors = map (\<lambda>k. word_at bs (16 + 4 * k)) [0..<13]\<rparr>"

definition decode_tag :: "u8 list \<Rightarrow> list_elem" where
  "decode_tag bs = \<lparr>prev = unat (word_at bs 68), next = unat (word_at bs 72)\<rparr>"

section \<open>Where an inode is\<close>

record inode_position =
  two_sec :: bool
  sec_lba :: u32
  off_size :: u32

definition inode_locate :: "nat \<Rightarrow> u32 \<Rightarrow> 'a fs_scheme \<Rightarrow> inode_position outcome" where
  "inode_locate part inode_no s = ASSERT (inode_no < 4096)
     (andThen (part_sb part s) (\<lambda>(_, b).
      let inode_size = of_nat sizeof_inode;
          off = inode_no * inode_size;
          off_sec = off div 512;
          off_size_in_sec = off mod 512;
          left_in_sec = 512 - off_size_in_sec in
      Inr \<lparr>two_sec = left_in_sec < inode_size, sec_lba = inode_table_lba b + off_sec, off_size = off_size_in_sec\<rparr>))"

section \<open>Bitmaps in memory and on disk\<close>

definition bitmap_view :: "mem \<Rightarrow> bitmap_at \<Rightarrow> bitmap" where
  "bitmap_view m b = \<lparr>btmp_bytes_len = bm_len b, bits = (\<lambda>i. case m (bm_bits b + i) of Some x \<Rightarrow> x | None \<Rightarrow> 0)\<rparr>"

definition bitmap_scan_mem :: "bitmap_at \<Rightarrow> nat \<Rightarrow> 'a fs_scheme \<Rightarrow> int outcome" where
  "bitmap_scan_mem b cnt' s =
     (if list_all (\<lambda>i. ram s (bm_bits b + i) \<noteq> None) [0..<bm_len b] then bitmap_scan (bitmap_view (ram s) b) cnt' else Inl BadAccess)"

definition bitmap_set_mem :: "bitmap_at \<Rightarrow> nat \<Rightarrow> int \<Rightarrow> 'a fs_scheme \<Rightarrow> 'a fs_scheme outcome" where
  "bitmap_set_mem b bit_idx v s =
     andThen (bitmap_set (bitmap_view (ram s) b) bit_idx v) (\<lambda>b'.
     andThen (store (ram s) (bm_bits b + bit_idx div 8) (bits b' (bit_idx div 8))) (\<lambda>m.
     Inr (s\<lparr>ram := m\<rparr>)))"

definition inode_bitmap_alloc :: "nat \<Rightarrow> 'a fs_scheme \<Rightarrow> (int \<times> 'a fs_scheme) outcome" where
  "inode_bitmap_alloc part s =
     andThen (get_part part s) (\<lambda>p.
     andThen (bitmap_scan_mem (inode_bitmap p) 1 s) (\<lambda>bit_idx.
     if bit_idx = - 1 then Inr (- 1, s)
     else andThen (bitmap_set_mem (inode_bitmap p) (nat bit_idx) 1 s) (\<lambda>s. Inr (bit_idx, s))))"

definition block_bitmap_alloc :: "nat \<Rightarrow> 'a fs_scheme \<Rightarrow> (int \<times> 'a fs_scheme) outcome" where
  "block_bitmap_alloc part s =
     andThen (part_sb part s) (\<lambda>(p, b).
     andThen (bitmap_scan_mem (block_bitmap p) 1 s) (\<lambda>bit_idx.
     if bit_idx = - 1 then Inr (- 1, s)
     else andThen (bitmap_set_mem (block_bitmap p) (nat bit_idx) 1 s) (\<lambda>s.
       Inr (sint (data_start_lba b + of_int bit_idx), s))))"

definition bitmap_sync :: "nat \<Rightarrow> u32 \<Rightarrow> bitmap_type \<Rightarrow> 'a fs_scheme \<Rightarrow> 'a fs_scheme outcome" where
  "bitmap_sync part bit_idx btmp_type s =
     andThen (part_sb part s) (\<lambda>(p, b).
     let off_sec = bit_idx div 4096;
         off = off_sec * 512;
         (lba, bits_at) = (case btmp_type of
            INODE_BITMAP \<Rightarrow> (inode_bitmap_lba b + off_sec, of_nat (bm_bits (inode_bitmap p)) + off)
          | BLOCK_BITMAP \<Rightarrow> (block_bitmap_lba b + off_sec, of_nat (bm_bits (block_bitmap p)) + off)) in
     ide_write (my_disk p) lba bits_at 1 s)"

section \<open>Reading and writing inodes\<close>

text \<open>Reads the sectors of an inode, changes its bytes in the buffer and writes the sectors back.\<close>

definition update_inode_bytes :: "nat \<Rightarrow> inode_position \<Rightarrow> u8 list \<Rightarrow> u32 \<Rightarrow> 'a fs_scheme \<Rightarrow> 'a fs_scheme outcome" where
  "update_inode_bytes dk pos bs inode_buf s =
     (let n = (if two_sec pos then 2 else 1) in
      andThen (ide_read dk (sec_lba pos) inode_buf n s) (\<lambda>s.
      andThen (store_bytes (ram s) (unat (inode_buf + off_size pos)) bs) (\<lambda>m.
      ide_write dk (sec_lba pos) inode_buf n (s\<lparr>ram := m\<rparr>))))"

text \<open>The number is kept in a byte: the inode is written to the place of the inode with the number modulo 256.\<close>

definition inode_sync :: "nat \<Rightarrow> nat \<Rightarrow> u32 \<Rightarrow> 'a fs_scheme \<Rightarrow> 'a fs_scheme outcome" where
  "inode_sync part inode io_buf s =
     andThen (get_inode inode s) (\<lambda>i.
     let inode_no = ucast (ucast (i_no i) :: u8) in
     andThen (inode_locate part inode_no s) (\<lambda>inode_pos.
     andThen (get_part part s) (\<lambda>p. ASSERT (sec_lba inode_pos \<le> start_lba p + sec_cnt p)
    (let pure_inode = i\<lparr>i_open_cnts := 0, write_deny := False\<rparr> in
     update_inode_bytes (my_disk p) inode_pos (encode_inode pure_inode \<lparr>prev = 0, next = 0\<rparr>) io_buf s))))"

text \<open>The walk through the open inodes: the inode with the number, if it is there.\<close>

partial_function (option) find_open_inode :: "nat \<Rightarrow> u32 \<Rightarrow> 'a fs_scheme \<Rightarrow> nat \<Rightarrow> nat option outcome option" where
  "find_open_inode tail_p inode_no s elem =
     (if elem = tail_p then Some (Inr None)
      else (case inodes s (entry_of_inode elem) of None \<Rightarrow> Some (Inl BadAccess)
       | Some i \<Rightarrow>
           if i_no i = inode_no then Some (Inr (Some (entry_of_inode elem)))
           else (case elems s elem of None \<Rightarrow> Some (Inl BadAccess)
            | Some e \<Rightarrow> find_open_inode tail_p inode_no s (next e))))"

definition kernel_malloc :: "nat \<Rightarrow> 'a kmem_scheme \<Rightarrow> (nat \<times> 'a kmem_scheme) outcome" where
  "kernel_malloc sz s =
     (let cur = running_thread s in
      andThen (get_task cur s) (\<lambda>t.
      andThen (set_task cur (\<lambda>t. t\<lparr>pgdir := 0\<rparr>) s) (\<lambda>s.
      andThen (sys_malloc sz s) (\<lambda>(a, s).
      andThen (set_task cur (\<lambda>u. u\<lparr>pgdir := pgdir t\<rparr>) s) (\<lambda>s. Inr (a, s))))))"

definition kernel_free :: "nat \<Rightarrow> 'a kmem_scheme \<Rightarrow> 'a kmem_scheme outcome" where
  "kernel_free a s =
     (let cur = running_thread s in
      andThen (get_task cur s) (\<lambda>t.
      andThen (set_task cur (\<lambda>t. t\<lparr>pgdir := 0\<rparr>) s) (\<lambda>s.
      andThen (sys_free a s) (set_task cur (\<lambda>u. u\<lparr>pgdir := pgdir t\<rparr>)))))"

definition inode_open :: "nat \<Rightarrow> u32 \<Rightarrow> 'a fs_scheme \<Rightarrow> (nat \<times> 'a fs_scheme) outcome" where
  "inode_open part inode_no s =
     andThen (get_node s (open_inodes part)) (\<lambda>hd_elem.
     andThen (run_walk (find_open_inode (list_tail (open_inodes part)) inode_no s (next hd_elem))) (\<lambda>found.
     case found of
       Some inode_found \<Rightarrow>
         andThen (set_inode inode_found (\<lambda>i. i\<lparr>i_open_cnts := i_open_cnts i + 1\<rparr>) s) (\<lambda>s. Inr (inode_found, s))
     | None \<Rightarrow>
       andThen (inode_locate part inode_no s) (\<lambda>inode_pos.
       andThen (kernel_malloc sizeof_inode s) (\<lambda>(inode_found, s).
       andThen (get_part part s) (\<lambda>p.
       andThen (sys_malloc (if two_sec inode_pos then 1024 else 512) s) (\<lambda>(inode_buf, s).
       andThen (ide_read (my_disk p) (sec_lba inode_pos) (of_nat inode_buf) (if two_sec inode_pos then 2 else 1) s) (\<lambda>s.
       andThen (load_bytes (ram s) (inode_buf + unat (off_size inode_pos)) sizeof_inode) (\<lambda>bs.
       let s = s\<lparr>inodes := (inodes s)(inode_found \<mapsto> decode_inode bs),
                elems := (elems s)(inode_tag inode_found \<mapsto> decode_tag bs)\<rparr> in
       andThen (list_push (open_inodes part) (inode_tag inode_found) s) (\<lambda>s.
       andThen (set_inode inode_found (\<lambda>i. i\<lparr>i_open_cnts := 1\<rparr>) s) (\<lambda>s.
       andThen (sys_free inode_buf s) (\<lambda>s. Inr (inode_found, s))))))))))))"

definition inode_close :: "nat \<Rightarrow> 'a fs_scheme \<Rightarrow> 'a fs_scheme outcome" where
  "inode_close inode s =
     (let (old_status, s) = intr_disable s in
      andThen (set_inode inode (\<lambda>i. i\<lparr>i_open_cnts := i_open_cnts i - 1\<rparr>) s) (\<lambda>s.
      andThen (get_inode inode s) (\<lambda>i.
      andThen
        (if i_open_cnts i = 0 then
           andThen (list_remove (inode_tag inode) s) (\<lambda>s.
           andThen (kernel_free inode s) (\<lambda>s. Inr (s\<lparr>inodes := (inodes s)(inode := None)\<rparr>)))
         else Inr s) (\<lambda>s.
      Inr (snd (intr_set_status old_status s))))))"

definition inode_delete :: "nat \<Rightarrow> u32 \<Rightarrow> u32 \<Rightarrow> 'a fs_scheme \<Rightarrow> 'a fs_scheme outcome" where
  "inode_delete part inode_no io_buf s = ASSERT (inode_no < 4096)
     (andThen (inode_locate part inode_no s) (\<lambda>inode_pos.
      andThen (get_part part s) (\<lambda>p. ASSERT (sec_lba inode_pos \<le> start_lba p + sec_cnt p)
     (update_inode_bytes (my_disk p) inode_pos (replicate sizeof_inode 0) io_buf s))))"

text \<open>Gives a block back: clears its bit and writes the sector of the bitmap.\<close>

definition release_block :: "nat \<Rightarrow> u32 \<Rightarrow> 'a fs_scheme \<Rightarrow> 'a fs_scheme outcome" where
  "release_block part lba s =
     andThen (part_sb part s) (\<lambda>(p, b).
     let block_bitmap_idx = lba - data_start_lba b in
     ASSERT (block_bitmap_idx > 0)
    (andThen (bitmap_set_mem (block_bitmap p) (unat block_bitmap_idx) 0 s) (\<lambda>s.
     bitmap_sync (cur_part s) block_bitmap_idx BLOCK_BITMAP s)))"

fun release_blocks :: "nat \<Rightarrow> u32 list \<Rightarrow> 'a fs_scheme \<Rightarrow> 'a fs_scheme outcome" where
  "release_blocks part [] s = Inr s"
| "release_blocks part (lba # bs) s =
     andThen (if lba \<noteq> 0 then release_block part lba s else Inr s) (release_blocks part bs)"

text \<open>The words of a sector, as the array they are read into.\<close>

fun words_of :: "u8 list \<Rightarrow> u32 list" where
  "words_of (a # b # c # d # bs) = word_of_bytes a b c d # words_of bs"
| "words_of bs = []"

text \<open>The array of 140 words is on the stack, from \<open>all_blocks\<close> on.\<close>

definition inode_release :: "nat \<Rightarrow> u32 \<Rightarrow> u32 \<Rightarrow> 'a fs_scheme \<Rightarrow> 'a fs_scheme outcome" where
  "inode_release part inode_no all_blocks s =
     andThen (inode_open part inode_no s) (\<lambda>(inode_to_del, s).
     andThen (get_inode inode_to_del s) (\<lambda>i. ASSERT (i_no i = inode_no)
    (andThen (store_bytes (ram s) (unat all_blocks) (concat (map bytes_of_word (take 12 (i_sectors i))) @ replicate 512 0)) (\<lambda>m.
     let s = s\<lparr>ram := m\<rparr> in
     andThen
       (if i_sectors i ! 12 \<noteq> 0 then
          andThen (get_part part s) (\<lambda>p.
          andThen (ide_read (my_disk p) (i_sectors i ! 12) (all_blocks + 48) 1 s) (\<lambda>s.
          andThen (release_block part (i_sectors i ! 12) s) (\<lambda>s.
          Inr (140, s))))
        else Inr (12, s)) (\<lambda>(block_cnt, s).
     andThen (load_bytes (ram s) (unat all_blocks) (4 * block_cnt)) (\<lambda>bs.
     andThen (release_blocks part (words_of bs) s) (\<lambda>s.
     andThen (get_part part s) (\<lambda>p.
     andThen (bitmap_set_mem (inode_bitmap p) (unat inode_no) 0 s) (\<lambda>s.
     andThen (bitmap_sync (cur_part s) inode_no INODE_BITMAP s) (\<lambda>s.
     andThen (sys_malloc 1024 s) (\<lambda>(io_buf, s).
     andThen (inode_delete part inode_no (of_nat io_buf) s) (\<lambda>s.
     andThen (sys_free io_buf s) (\<lambda>s.
     inode_close inode_to_del s)))))))))))))"

definition inode_init :: "u32 \<Rightarrow> inode \<Rightarrow> inode" where
  "inode_init inode_no new_inode =
     new_inode\<lparr>i_no := inode_no, i_size := 0, i_open_cnts := 0, write_deny := False, i_sectors := replicate 13 0\<rparr>"

end
