(* ===== verification/Directory.thy ===== *)
theory Directory
  imports Inode Paths
begin

text \<open>
  Directories, \<^verbatim>\<open>fs/dir.c\<close>. An entry of a directory is 24 bytes of memory or of a sector: the name in 16 bytes, the number
  of the inode and the type. An open directory is kept by its address, with its buffer \<open>dir_buf\<close> in memory behind it. The
  arrays and structures that are local variables of the code are arguments, the address they have on the stack, and so are
  the addresses of string literals.
\<close>

section \<open>Entries and tables of blocks\<close>

abbreviation FT_UNKNOWN :: u32 where
  "FT_UNKNOWN \<equiv> 0"

abbreviation FT_REGULAR :: u32 where
  "FT_REGULAR \<equiv> 1"

abbreviation FT_DIRECTORY :: u32 where
  "FT_DIRECTORY \<equiv> 2"

definition sizeof_dir_entry :: nat where
  "sizeof_dir_entry = 24"

text \<open>The fields of the entry at an address; \<open>filename\<close> is at the address itself.\<close>

definition entry_i_no :: "mem \<Rightarrow> nat \<Rightarrow> u32 outcome" where
  "entry_i_no m de = load32 m (de + 16)"

definition entry_f_type :: "mem \<Rightarrow> nat \<Rightarrow> u32 outcome" where
  "entry_f_type m de = load32 m (de + 20)"

definition store32 :: "mem \<Rightarrow> nat \<Rightarrow> u32 \<Rightarrow> mem outcome" where
  "store32 m a w = store_bytes m a (bytes_of_word w)"

text \<open>Assignments of memory as steps on the state.\<close>

definition on_ram :: "(mem \<Rightarrow> mem outcome) \<Rightarrow> 'a io_scheme \<Rightarrow> 'a io_scheme outcome" where
  "on_ram f s = andThen (f (ram s)) (\<lambda>m. Inr (s\<lparr>ram := m\<rparr>))"

definition get_dir :: "nat \<Rightarrow> 'a fs_scheme \<Rightarrow> dir outcome" where
  "get_dir p s = (case dirs s p of Some x \<Rightarrow> Inr x | None \<Rightarrow> Inl BadAccess)"

definition set_dir :: "nat \<Rightarrow> (dir \<Rightarrow> dir) \<Rightarrow> 'a fs_scheme \<Rightarrow> 'a fs_scheme outcome" where
  "set_dir p f s = andThen (get_dir p s) (\<lambda>d. Inr (s\<lparr>dirs := (dirs s)(p \<mapsto> f d)\<rparr>))"

text \<open>The inode of an open directory and the entry \<open>i_sectors[k]\<close> of an inode.\<close>

definition dir_inode_of :: "nat \<Rightarrow> 'a fs_scheme \<Rightarrow> (nat \<times> inode) outcome" where
  "dir_inode_of pdir s = andThen (get_dir pdir s) (\<lambda>d. andThen (get_inode (dir_inode d) s) (\<lambda>i. Inr (dir_inode d, i)))"

definition sector_at :: "inode \<Rightarrow> nat \<Rightarrow> u32 outcome" where
  "sector_at i k = (if k < length (i_sectors i) then Inr (i_sectors i ! k) else Inl BadAccess)"

definition set_sector :: "nat \<Rightarrow> nat \<Rightarrow> u32 \<Rightarrow> 'a fs_scheme \<Rightarrow> 'a fs_scheme outcome" where
  "set_sector inode k v s =
     andThen (get_inode inode s) (\<lambda>i. andThen (sector_at i k) (\<lambda>_. set_inode inode (\<lambda>i. i\<lparr>i_sectors := (i_sectors i)[k := v]\<rparr>) s))"

text \<open>\<open>all_blocks[k]\<close>, and the loops that copy the 12 direct blocks of an inode into the table.\<close>

definition get_block :: "nat \<Rightarrow> nat \<Rightarrow> 'a io_scheme \<Rightarrow> u32 outcome" where
  "get_block all_blocks k s = load32 (ram s) (all_blocks + 4 * k)"

definition set_block :: "nat \<Rightarrow> nat \<Rightarrow> u32 \<Rightarrow> 'a io_scheme \<Rightarrow> 'a io_scheme outcome" where
  "set_block all_blocks k v = on_ram (\<lambda>m. store32 m (all_blocks + 4 * k) v)"

fun copy_sectors :: "nat \<Rightarrow> inode \<Rightarrow> nat \<Rightarrow> nat \<Rightarrow> 'a io_scheme \<Rightarrow> 'a io_scheme outcome" where
  "copy_sectors all_blocks i k 0 s = Inr s"
| "copy_sectors all_blocks i k (Suc n) s =
     andThen (sector_at i k) (\<lambda>v.
     andThen (set_block all_blocks k v s) (copy_sectors all_blocks i (Suc k) n))"

text \<open>The 12 direct blocks and, when there is one, the table of indirect blocks; the result tells whether there is one.\<close>

definition collect_blocks :: "nat \<Rightarrow> inode \<Rightarrow> nat \<Rightarrow> 'a fs_scheme \<Rightarrow> (bool \<times> 'a fs_scheme) outcome" where
  "collect_blocks part i all_blocks s =
     andThen (copy_sectors all_blocks i 0 12 s) (\<lambda>s.
     andThen (sector_at i 12) (\<lambda>v.
     if v \<noteq> 0 then
       andThen (get_part part s) (\<lambda>p.
       andThen (ide_read (my_disk p) v (of_nat (all_blocks + 48)) 1 s) (\<lambda>s. Inr (True, s)))
     else Inr (False, s)))"

text \<open>The declaration \<open>uint32_t all_blocks[140] = {0}\<close>.\<close>

definition zero_blocks :: "nat \<Rightarrow> 'a io_scheme \<Rightarrow> 'a io_scheme outcome" where
  "zero_blocks all_blocks = on_ram (\<lambda>m. memset m all_blocks 0 560)"

section \<open>Opening and searching\<close>

definition open_root_dir :: "nat \<Rightarrow> 'a fs_scheme \<Rightarrow> 'a fs_scheme outcome" where
  "open_root_dir part s =
     andThen (part_sb part s) (\<lambda>(_, b).
     andThen (inode_open part (root_inode_no b) s) (\<lambda>(inode, s).
     Inr (s\<lparr>dirs := (dirs s)(root_dir s \<mapsto> \<lparr>dir_inode = inode, dir_pos = 0\<rparr>)\<rparr>)))"

definition sizeof_dir :: nat where
  "sizeof_dir = 520"

definition dir_open :: "nat \<Rightarrow> u32 \<Rightarrow> 'a fs_scheme \<Rightarrow> (nat \<times> 'a fs_scheme) outcome" where
  "dir_open part inode_no s =
     andThen (sys_malloc sizeof_dir s) (\<lambda>(pdir, s).
     andThen (inode_open part inode_no s) (\<lambda>(inode, s).
     Inr (pdir, s\<lparr>dirs := (dirs s)(pdir \<mapsto> \<lparr>dir_inode = inode, dir_pos = 0\<rparr>)\<rparr>)))"

text \<open>The search of the entries of one sector: the address of the entry with the name.\<close>

fun search_entries :: "mem \<Rightarrow> nat \<Rightarrow> nat \<Rightarrow> nat \<Rightarrow> nat option outcome" where
  "search_entries m p_de name 0 = Inr None"
| "search_entries m p_de name (Suc n) =
     andThen (strcmp m p_de name) (\<lambda>c.
     if c = 0 then Inr (Some p_de) else search_entries m (p_de + sizeof_dir_entry) name n)"

fun search_blocks :: "nat \<Rightarrow> nat \<Rightarrow> nat \<Rightarrow> nat \<Rightarrow> nat \<Rightarrow> nat \<Rightarrow> nat \<Rightarrow> 'a fs_scheme \<Rightarrow> (nat option \<times> 'a fs_scheme) outcome" where
  "search_blocks part all_blocks bufp name dir_entry_cnt block_idx 0 s = Inr (None, s)"
| "search_blocks part all_blocks bufp name dir_entry_cnt block_idx (Suc n) s =
     andThen (get_block all_blocks block_idx s) (\<lambda>lba.
     if lba = 0 then search_blocks part all_blocks bufp name dir_entry_cnt (Suc block_idx) n s
     else
       andThen (get_part part s) (\<lambda>p.
       andThen (ide_read (my_disk p) lba (of_nat bufp) 1 s) (\<lambda>s.
       andThen (search_entries (ram s) bufp name dir_entry_cnt) (\<lambda>r.
       case r of
         Some p_de \<Rightarrow> Inr (Some p_de, s)
       | None \<Rightarrow>
           andThen (on_ram (\<lambda>m. memset m bufp 0 512) s)
             (search_blocks part all_blocks bufp name dir_entry_cnt (Suc block_idx) n)))))"

definition search_dir_entry :: "nat \<Rightarrow> nat \<Rightarrow> nat \<Rightarrow> nat \<Rightarrow> 'a fs_scheme \<Rightarrow> (bool \<times> 'a fs_scheme) outcome" where
  "search_dir_entry part pdir name dir_e s =
     andThen (sys_malloc (48 + 512) s) (\<lambda>(all_blocks, s).
     if all_blocks = 0 then
       andThen (printk (bytes ''search_dir_entry: sys_malloc for all_blocks failed'') s) (\<lambda>s. Inr (False, s))
     else
       andThen (dir_inode_of pdir s) (\<lambda>(_, i).
       andThen (collect_blocks part i all_blocks s) (\<lambda>(_, s).
       andThen (sys_malloc 512 s) (\<lambda>(bufp, s).
       andThen (part_sb part s) (\<lambda>(_, b).
       if dir_entry_size b = 0 then Inl DivError
       else
         andThen (search_blocks part all_blocks bufp name (unat (512 div dir_entry_size b)) 0 140 s) (\<lambda>(r, s).
         andThen (case r of
             Some p_de \<Rightarrow> on_ram (\<lambda>m. memcpy m dir_e p_de (unat (dir_entry_size b))) s
           | None \<Rightarrow> Inr s) (\<lambda>s.
         andThen (sys_free bufp s) (\<lambda>s.
         andThen (sys_free all_blocks s) (\<lambda>s.
         Inr (r \<noteq> None, s))))))))))"

definition dir_close :: "nat \<Rightarrow> 'a fs_scheme \<Rightarrow> 'a fs_scheme outcome" where
  "dir_close pdir s =
     (if pdir = root_dir s then Inr s
      else
        andThen (get_dir pdir s) (\<lambda>d.
        andThen (inode_close (dir_inode d) s) (\<lambda>s.
        andThen (sys_free pdir s) (\<lambda>s.
        Inr (s\<lparr>dirs := (dirs s)(pdir := None)\<rparr>)))))"

definition create_dir_entry :: "nat \<Rightarrow> u32 \<Rightarrow> u8 \<Rightarrow> nat \<Rightarrow> 'a io_scheme \<Rightarrow> 'a io_scheme outcome" where
  "create_dir_entry filename inode_no file_type p_de s =
     andThen (strlen (ram s) filename) (\<lambda>n. ASSERT (n \<le> 16)
    (andThen (on_ram (\<lambda>m. memcpy m p_de filename n) s) (\<lambda>s.
     andThen (on_ram (\<lambda>m. store32 m (p_de + 16) inode_no) s) (\<lambda>s.
     on_ram (\<lambda>m. store32 m (p_de + 20) (ucast file_type)) s))))"

section \<open>Adding entries\<close>

text \<open>The addresses of local variables: the array \<open>all_blocks\<close>, of which at most one is in use at a time.\<close>

record frames = literals +
  fr_blocks :: nat

text \<open>The first entry of a sector whose type is \<open>FT_UNKNOWN\<close>.\<close>

fun find_free_entry :: "mem \<Rightarrow> nat \<Rightarrow> nat \<Rightarrow> nat option outcome" where
  "find_free_entry m dir_e 0 = Inr None"
| "find_free_entry m dir_e (Suc n) =
     andThen (entry_f_type m dir_e) (\<lambda>t. if t = FT_UNKNOWN then Inr (Some dir_e) else find_free_entry m (dir_e + sizeof_dir_entry) n)"

text \<open>A new block whose bit of the bitmap is written to the disk.\<close>

definition alloc_synced_block :: "'a fs_scheme \<Rightarrow> (u32 option \<times> 'a fs_scheme) outcome" where
  "alloc_synced_block s =
     andThen (block_bitmap_alloc (cur_part s) s) (\<lambda>(block_lba, s).
     if block_lba = - 1 then
       andThen (printk (bytes ''alloc block bitmap for sync_dir_entry failed'' @ [10]) s) (\<lambda>s. Inr (None, s))
     else
       andThen (part_sb (cur_part s) s) (\<lambda>(_, b).
       let block_bitmap_idx = of_int block_lba - data_start_lba b in
       ASSERT (block_bitmap_idx \<noteq> - 1)
      (andThen (bitmap_sync (cur_part s) block_bitmap_idx BLOCK_BITMAP s) (\<lambda>s.
       Inr (Some (of_int block_lba), s)))))"

text \<open>Enters a new block into the inode or the table of indirect blocks; \<open>False\<close> when a second block was needed and there is none.\<close>

definition enter_block :: "nat \<Rightarrow> nat \<Rightarrow> nat \<Rightarrow> u32 \<Rightarrow> 'a fs_scheme \<Rightarrow> (bool \<times> 'a fs_scheme) outcome" where
  "enter_block inode all_blocks block_idx block_lba s =
     andThen (part_sb (cur_part s) s) (\<lambda>(p, b).
     if block_idx < 12 then
       andThen (set_block all_blocks block_idx block_lba s) (\<lambda>s.
       andThen (set_sector inode block_idx block_lba s) (\<lambda>s. Inr (True, s)))
     else if block_idx = 12 then
       andThen (set_sector inode 12 block_lba s) (\<lambda>s.
       andThen (block_bitmap_alloc (cur_part s) s) (\<lambda>(block_lba', s).
       if block_lba' = - 1 then
         andThen (bitmap_set_mem (block_bitmap p) (unat (block_lba - data_start_lba b)) 0 s) (\<lambda>s.
         andThen (set_sector inode 12 0 s) (\<lambda>s.
         andThen (printk (bytes ''alloc block bitmap for sync_dir_entry failed'' @ [10]) s) (\<lambda>s. Inr (False, s))))
       else
         let block_bitmap_idx = of_int block_lba' - data_start_lba b in
         ASSERT (block_bitmap_idx \<noteq> - 1)
        (andThen (bitmap_sync (cur_part s) block_bitmap_idx BLOCK_BITMAP s) (\<lambda>s.
         andThen (set_block all_blocks 12 (of_int block_lba') s) (\<lambda>s.
         andThen (ide_write (my_disk p) block_lba (of_nat (all_blocks + 48)) 1 s) (\<lambda>s. Inr (True, s)))))))
     else
       andThen (set_block all_blocks block_idx block_lba s) (\<lambda>s.
       andThen (get_inode inode s) (\<lambda>i.
       andThen (sector_at i 12) (\<lambda>table.
       andThen (ide_write (my_disk p) table (of_nat (all_blocks + 48)) 1 s) (\<lambda>s. Inr (True, s))))))"

definition grow_dir :: "nat \<Rightarrow> u32 \<Rightarrow> 'a fs_scheme \<Rightarrow> 'a fs_scheme outcome" where
  "grow_dir inode n = set_inode inode (\<lambda>i. i\<lparr>i_size := i_size i + n\<rparr>)"

definition sync_new_block :: "nat \<Rightarrow> nat \<Rightarrow> nat \<Rightarrow> nat \<Rightarrow> nat \<Rightarrow> 'a fs_scheme \<Rightarrow> (bool \<times> 'a fs_scheme) outcome" where
  "sync_new_block inode p_de io_buf all_blocks block_idx s =
     andThen (alloc_synced_block s) (\<lambda>(r, s).
     case r of
       None \<Rightarrow> Inr (False, s)
     | Some block_lba \<Rightarrow>
         andThen (enter_block inode all_blocks block_idx block_lba s) (\<lambda>(ok, s).
         if \<not> ok then Inr (False, s)
         else
           andThen (part_sb (cur_part s) s) (\<lambda>(p, b).
           andThen (on_ram (\<lambda>m. memset m io_buf 0 512) s) (\<lambda>s.
           andThen (on_ram (\<lambda>m. memcpy m io_buf p_de (unat (dir_entry_size b))) s) (\<lambda>s.
           andThen (get_block all_blocks block_idx s) (\<lambda>lba.
           andThen (ide_write (my_disk p) lba (of_nat io_buf) 1 s) (\<lambda>s.
           andThen (grow_dir inode (dir_entry_size b) s) (\<lambda>s. Inr (True, s)))))))))"

text \<open>An existing block is read, and the entry is written to its first free place, if it has one.\<close>

definition sync_in_block :: "nat \<Rightarrow> nat \<Rightarrow> nat \<Rightarrow> u32 \<Rightarrow> 'a fs_scheme \<Rightarrow> (bool \<times> 'a fs_scheme) outcome" where
  "sync_in_block inode p_de io_buf lba s =
     andThen (part_sb (cur_part s) s) (\<lambda>(p, b).
     andThen (ide_read (my_disk p) lba (of_nat io_buf) 1 s) (\<lambda>s.
     andThen (find_free_entry (ram s) io_buf (unat (512 div dir_entry_size b))) (\<lambda>r.
     case r of
       None \<Rightarrow> Inr (False, s)
     | Some dir_e \<Rightarrow>
         andThen (on_ram (\<lambda>m. memcpy m dir_e p_de (unat (dir_entry_size b))) s) (\<lambda>s.
         andThen (ide_write (my_disk p) lba (of_nat io_buf) 1 s) (\<lambda>s.
         andThen (grow_dir inode (dir_entry_size b) s) (\<lambda>s. Inr (True, s)))))))"

fun sync_loop :: "nat \<Rightarrow> nat \<Rightarrow> nat \<Rightarrow> nat \<Rightarrow> nat \<Rightarrow> nat \<Rightarrow> 'a fs_scheme \<Rightarrow> (bool \<times> 'a fs_scheme) outcome" where
  "sync_loop inode p_de io_buf all_blocks block_idx 0 s =
     andThen (printk (bytes ''directory is full!'' @ [10]) s) (\<lambda>s. Inr (False, s))"
| "sync_loop inode p_de io_buf all_blocks block_idx (Suc n) s =
     andThen (get_block all_blocks block_idx s) (\<lambda>lba.
     if lba = 0 then sync_new_block inode p_de io_buf all_blocks block_idx s
     else
       andThen (sync_in_block inode p_de io_buf lba s) (\<lambda>(ok, s).
       if ok then Inr (True, s) else sync_loop inode p_de io_buf all_blocks (Suc block_idx) n s))"

text \<open>The table of indirect blocks is not read: the entries from 12 on are 0 whatever the inode says.\<close>

definition sync_dir_entry :: "frames \<Rightarrow> nat \<Rightarrow> nat \<Rightarrow> nat \<Rightarrow> 'a fs_scheme \<Rightarrow> (bool \<times> 'a fs_scheme) outcome" where
  "sync_dir_entry fr parent_dir p_de io_buf s =
     andThen (dir_inode_of parent_dir s) (\<lambda>(inode, i).
     andThen (part_sb (cur_part s) s) (\<lambda>(_, b).
     if dir_entry_size b = 0 then Inl DivError
     else ASSERT (i_size i mod dir_entry_size b = 0)
    (andThen (zero_blocks (fr_blocks fr) s) (\<lambda>s.
     andThen (copy_sectors (fr_blocks fr) i 0 12 s) (\<lambda>s.
     sync_loop inode p_de io_buf (fr_blocks fr) 0 140 s)))))"

section \<open>Removing entries\<close>

text \<open>What the walk over the entries of a sector collects.\<close>

record scanned =
  is_dir_first_block :: bool
  dir_entry_cnt :: u8
  dir_entry_found :: nat

definition scan_entry :: "literals \<Rightarrow> mem \<Rightarrow> nat \<Rightarrow> u32 \<Rightarrow> scanned \<Rightarrow> scanned outcome" where
  "scan_entry lits m dir_e inode_no r =
     andThen (entry_f_type m dir_e) (\<lambda>t.
     if t \<noteq> FT_UNKNOWN then
       andThen (strcmp m dir_e (lit_dot lits)) (\<lambda>dot.
       if dot = 0 then Inr (r\<lparr>is_dir_first_block := True\<rparr>)
       else
         andThen (strcmp m dir_e (lit_dotdot lits)) (\<lambda>dotdot.
         if dotdot \<noteq> 0 then
           andThen (entry_i_no m dir_e) (\<lambda>no.
           let r = r\<lparr>dir_entry_cnt := dir_entry_cnt r + 1\<rparr> in
           if no = inode_no then ASSERT (dir_entry_found r = 0) (Inr (r\<lparr>dir_entry_found := dir_e\<rparr>))
           else Inr r)
         else Inr r))
     else Inr r)"

fun scan_entries :: "literals \<Rightarrow> mem \<Rightarrow> nat \<Rightarrow> u32 \<Rightarrow> nat \<Rightarrow> scanned \<Rightarrow> scanned outcome" where
  "scan_entries lits m dir_e inode_no 0 r = Inr r"
| "scan_entries lits m dir_e inode_no (Suc n) r =
     andThen (scan_entry lits m dir_e inode_no r) (scan_entries lits m (dir_e + sizeof_dir_entry) inode_no n)"

text \<open>The loop that counts the indirect blocks; it never changes its index.\<close>

partial_function (option) count_indirect :: "nat \<Rightarrow> nat \<Rightarrow> u32 \<Rightarrow> 'a io_scheme \<Rightarrow> u32 outcome option" where
  "count_indirect all_blocks indirect_block_idx indirect_blocks s =
     (if indirect_block_idx < 140 then
        (case get_block all_blocks indirect_block_idx s of
           Inl t \<Rightarrow> Some (Inl t)
         | Inr v \<Rightarrow> count_indirect all_blocks indirect_block_idx (if v \<noteq> 0 then indirect_blocks + 1 else indirect_blocks) s)
      else Some (Inr indirect_blocks))"

definition free_block_bit :: "nat \<Rightarrow> u32 \<Rightarrow> 'a fs_scheme \<Rightarrow> 'a fs_scheme outcome" where
  "free_block_bit part lba s =
     andThen (part_sb part s) (\<lambda>(p, b).
     let block_bitmap_idx = lba - data_start_lba b in
     andThen (bitmap_set_mem (block_bitmap p) (unat block_bitmap_idx) 0 s) (\<lambda>s.
     bitmap_sync (cur_part s) block_bitmap_idx BLOCK_BITMAP s))"

definition recycle_block :: "nat \<Rightarrow> nat \<Rightarrow> nat \<Rightarrow> nat \<Rightarrow> u32 \<Rightarrow> 'a fs_scheme \<Rightarrow> 'a fs_scheme outcome" where
  "recycle_block part inode all_blocks block_idx lba s =
     andThen (free_block_bit part lba s) (\<lambda>s.
     if block_idx < 12 then set_sector inode block_idx 0 s
     else
       andThen (run_walk (count_indirect all_blocks 12 0 s)) (\<lambda>indirect_blocks. ASSERT (indirect_blocks \<ge> 1)
      (andThen (get_part part s) (\<lambda>p.
       andThen (get_inode inode s) (\<lambda>i.
       andThen (sector_at i 12) (\<lambda>table.
       if indirect_blocks > 1 then
         andThen (set_block all_blocks block_idx 0 s) (ide_write (my_disk p) table (of_nat (all_blocks + 48)) 1)
       else
         andThen (free_block_bit part table s) (set_sector inode 12 0)))))))"

text \<open>Takes the entry that was found in the block out of the directory and writes the inode.\<close>

definition remove_entry :: "nat \<Rightarrow> nat \<Rightarrow> nat \<Rightarrow> nat \<Rightarrow> nat \<Rightarrow> u32 \<Rightarrow> scanned \<Rightarrow> 'a fs_scheme \<Rightarrow> 'a fs_scheme outcome" where
  "remove_entry part inode io_buf all_blocks block_idx lba r s = ASSERT (dir_entry_cnt r \<ge> 1)
     (andThen (part_sb part s) (\<lambda>(p, b).
      andThen
        (if dir_entry_cnt r = 1 \<and> \<not> is_dir_first_block r then recycle_block part inode all_blocks block_idx lba s
         else
           andThen (on_ram (\<lambda>m. memset m (dir_entry_found r) 0 (unat (dir_entry_size b))) s)
             (ide_write (my_disk p) lba (of_nat io_buf) 1)) (\<lambda>s.
      andThen (get_inode inode s) (\<lambda>i. ASSERT (i_size i \<ge> dir_entry_size b)
     (andThen (set_inode inode (\<lambda>i. i\<lparr>i_size := i_size i - dir_entry_size b\<rparr>) s) (\<lambda>s.
      andThen (on_ram (\<lambda>m. memset m io_buf 0 1024) s) (inode_sync part inode (of_nat io_buf))))))))"

fun delete_loop ::
  "literals \<Rightarrow> nat \<Rightarrow> nat \<Rightarrow> u32 \<Rightarrow> nat \<Rightarrow> nat \<Rightarrow> nat \<Rightarrow> nat \<Rightarrow> 'a fs_scheme \<Rightarrow> (bool \<times> 'a fs_scheme) outcome" where
  "delete_loop lits part inode inode_no io_buf all_blocks block_idx 0 s = Inr (False, s)"
| "delete_loop lits part inode inode_no io_buf all_blocks block_idx (Suc n) s =
     andThen (get_block all_blocks block_idx s) (\<lambda>lba.
     if lba = 0 then delete_loop lits part inode inode_no io_buf all_blocks (Suc block_idx) n s
     else
       andThen (on_ram (\<lambda>m. memset m io_buf 0 512) s) (\<lambda>s.
       andThen (part_sb part s) (\<lambda>(p, b).
       andThen (ide_read (my_disk p) lba (of_nat io_buf) 1 s) (\<lambda>s.
       andThen (scan_entries lits (ram s) io_buf inode_no (unat (512 div dir_entry_size b))
         \<lparr>is_dir_first_block = False, dir_entry_cnt = 0, dir_entry_found = 0\<rparr>) (\<lambda>r.
       if dir_entry_found r = 0 then delete_loop lits part inode inode_no io_buf all_blocks (Suc block_idx) n s
       else andThen (remove_entry part inode io_buf all_blocks block_idx lba r s) (\<lambda>s. Inr (True, s)))))))"

definition delete_dir_entry :: "frames \<Rightarrow> nat \<Rightarrow> nat \<Rightarrow> u32 \<Rightarrow> nat \<Rightarrow> 'a fs_scheme \<Rightarrow> (bool \<times> 'a fs_scheme) outcome" where
  "delete_dir_entry fr part pdir inode_no io_buf s =
     andThen (dir_inode_of pdir s) (\<lambda>(inode, i).
     andThen (zero_blocks (fr_blocks fr) s) (\<lambda>s.
     andThen (collect_blocks part i (fr_blocks fr) s) (\<lambda>(_, s).
     andThen (part_sb part s) (\<lambda>(_, b).
     if dir_entry_size b = 0 then Inl DivError
     else delete_loop (literals.truncate fr) part inode inode_no io_buf (fr_blocks fr) 0 140 s))))"

section \<open>Reading directories\<close>

text \<open>
  The walk over the entries of a sector: entries before \<open>dir_pos\<close> are passed over. The result is the address of the entry,
  if it is here, and the position reached.
\<close>

fun read_entries :: "mem \<Rightarrow> nat \<Rightarrow> u32 \<Rightarrow> u32 \<Rightarrow> u32 \<Rightarrow> nat \<Rightarrow> (nat option \<times> u32) outcome" where
  "read_entries m dir_e sz pos cur_pos 0 = Inr (None, cur_pos)"
| "read_entries m dir_e sz pos cur_pos (Suc n) =
     andThen (entry_f_type m dir_e) (\<lambda>t.
     if t \<noteq> 0 then
       if cur_pos < pos then read_entries m (dir_e + sizeof_dir_entry) sz pos (cur_pos + sz) n
       else ASSERT (cur_pos = pos) (Inr (Some dir_e, cur_pos))
     else read_entries m (dir_e + sizeof_dir_entry) sz pos cur_pos n)"

fun dir_read_loop :: "nat \<Rightarrow> nat \<Rightarrow> u32 \<Rightarrow> nat \<Rightarrow> nat \<Rightarrow> 'a fs_scheme \<Rightarrow> (nat \<times> 'a fs_scheme) outcome" where
  "dir_read_loop pdir all_blocks cur_pos block_idx 0 s = Inr (0, s)"
| "dir_read_loop pdir all_blocks cur_pos block_idx (Suc n) s =
     andThen (get_dir pdir s) (\<lambda>d.
     andThen (get_inode (dir_inode d) s) (\<lambda>i.
     if dir_pos d \<ge> i_size i then Inr (0, s)
     else
       andThen (get_block all_blocks block_idx s) (\<lambda>lba.
       if lba = 0 then dir_read_loop pdir all_blocks cur_pos (Suc block_idx) n s
       else
         andThen (on_ram (\<lambda>m. memset m (pdir + 8) 0 512) s) (\<lambda>s.
         andThen (part_sb (cur_part s) s) (\<lambda>(p, b).
         andThen (ide_read (my_disk p) lba (of_nat (pdir + 8)) 1 s) (\<lambda>s.
         andThen (read_entries (ram s) (pdir + 8) (dir_entry_size b) (dir_pos d) cur_pos (unat (512 div dir_entry_size b))) (\<lambda>(r, cur_pos).
         case r of
           Some dir_e \<Rightarrow> andThen (set_dir pdir (\<lambda>d. d\<lparr>dir_pos := dir_pos d + dir_entry_size b\<rparr>) s) (\<lambda>s. Inr (dir_e, s))
         | None \<Rightarrow> dir_read_loop pdir all_blocks cur_pos (Suc block_idx) n s)))))))"

definition dir_read :: "frames \<Rightarrow> nat \<Rightarrow> 'a fs_scheme \<Rightarrow> (nat \<times> 'a fs_scheme) outcome" where
  "dir_read fr pdir s =
     andThen (dir_inode_of pdir s) (\<lambda>(inode, i).
     andThen (zero_blocks (fr_blocks fr) s) (\<lambda>s.
     andThen (collect_blocks (cur_part s) i (fr_blocks fr) s) (\<lambda>(indirect, s).
     andThen (part_sb (cur_part s) s) (\<lambda>(_, b).
     if dir_entry_size b = 0 then Inl DivError
     else dir_read_loop pdir (fr_blocks fr) 0 0 (if indirect then 140 else 12) s))))"

definition dir_is_empty :: "nat \<Rightarrow> 'a fs_scheme \<Rightarrow> bool outcome" where
  "dir_is_empty pdir s =
     andThen (dir_inode_of pdir s) (\<lambda>(_, i).
     andThen (part_sb (cur_part s) s) (\<lambda>(_, b). Inr (i_size i = dir_entry_size b * 2)))"

definition dir_remove :: "frames \<Rightarrow> nat \<Rightarrow> nat \<Rightarrow> 'a fs_scheme \<Rightarrow> (int \<times> 'a fs_scheme) outcome" where
  "dir_remove fr parent_dir child_dir s =
     andThen (dir_inode_of child_dir s) (\<lambda>(inode, i).
     if length (i_sectors i) < 13 then Inl BadAccess
     else ASSERT (list_all (\<lambda>k. i_sectors i ! k = 0) [1..<13])
    (andThen (sys_malloc 1024 s) (\<lambda>(io_buf, s).
     if io_buf = 0 then
       andThen (printk (bytes ''dir_remove: malloc for io_buf failed'' @ [10]) s) (\<lambda>s. Inr (- 1, s))
     else
       andThen (delete_dir_entry fr (cur_part s) parent_dir (i_no i) io_buf s) (\<lambda>(_, s).
       andThen (get_inode inode s) (\<lambda>i.
       andThen (inode_release (cur_part s) (i_no i) (of_nat (fr_blocks fr)) s) (\<lambda>s.
       andThen (sys_free io_buf s) (\<lambda>s. Inr (0, s))))))))"

end
