(* ===== verification/Files.thy ===== *)
theory Files
  imports Directory
begin

text \<open>
  Open files, \<^verbatim>\<open>fs/file.c\<close>: the table of open files, the descriptors of a process, and creating, opening, closing, writing
  and reading files. A pointer to an element of the table is its index. A file has at most 140 blocks; the addresses of those a
  call uses are collected in the array \<open>all_blocks\<close> on the heap.
\<close>

section \<open>Descriptors\<close>

definition get_file :: "nat \<Rightarrow> 'a fs_scheme \<Rightarrow> open_file outcome" where
  "get_file f s = (if f < length (file_table s) then Inr (file_table s ! f) else Inl BadAccess)"

definition set_file :: "nat \<Rightarrow> (open_file \<Rightarrow> open_file) \<Rightarrow> 'a fs_scheme \<Rightarrow> 'a fs_scheme outcome" where
  "set_file f g s = andThen (get_file f s) (\<lambda>x. Inr (s\<lparr>file_table := (file_table s)[f := g x]\<rparr>))"

fun free_slot_loop :: "nat \<Rightarrow> nat \<Rightarrow> 'a fs_scheme \<Rightarrow> nat outcome" where
  "free_slot_loop fd_idx 0 s = Inr fd_idx"
| "free_slot_loop fd_idx (Suc n) s =
     andThen (get_file fd_idx s) (\<lambda>x. if fd_inode x = 0 then Inr fd_idx else free_slot_loop (Suc fd_idx) n s)"

definition get_free_slot_in_global :: "'a fs_scheme \<Rightarrow> (int \<times> 'a fs_scheme) outcome" where
  "get_free_slot_in_global s =
     andThen (free_slot_loop 3 (MAX_FILE_OPEN - 3) s) (\<lambda>fd_idx.
     if fd_idx = MAX_FILE_OPEN then
       andThen (printk (bytes ''exceed max open files'' @ [10]) s) (\<lambda>s. Inr (- 1, s))
     else Inr (int fd_idx, s))"

text \<open>The first free descriptor of a table, from \<open>k\<close> on.\<close>

fun free_fd_loop :: "u32 list \<Rightarrow> nat \<Rightarrow> nat \<Rightarrow> nat outcome" where
  "free_fd_loop fds k 0 = Inr k"
| "free_fd_loop fds k (Suc n) =
     (if k < length fds then if fds ! k = - 1 then Inr k else free_fd_loop fds (Suc k) n else Inl BadAccess)"

definition pcb_fd_install :: "int \<Rightarrow> 'a fs_scheme \<Rightarrow> (int \<times> 'a fs_scheme) outcome" where
  "pcb_fd_install globa_fd_idx s =
     (let cur = running_thread s in
      andThen (get_task cur s) (\<lambda>t.
      andThen (free_fd_loop (fd_table t) 3 (MAX_FILES_OPEN_PER_PROC - 3)) (\<lambda>local_fd_idx.
      if local_fd_idx = MAX_FILES_OPEN_PER_PROC then
        andThen (printk (bytes ''exceed max open files_per_proc'' @ [10]) s) (\<lambda>s. Inr (- 1, s))
      else
        andThen (set_task cur (\<lambda>t. t\<lparr>fd_table := (fd_table t)[local_fd_idx := of_int globa_fd_idx]\<rparr>) s) (\<lambda>s.
        Inr (int local_fd_idx, s)))))"

section \<open>Creating, opening and closing\<close>

text \<open>The inode of an open file.\<close>

definition file_inode :: "nat \<Rightarrow> 'a fs_scheme \<Rightarrow> (nat \<times> inode) outcome" where
  "file_inode f s = andThen (get_file f s) (\<lambda>x. andThen (get_inode (fd_inode x) s) (\<lambda>i. Inr (fd_inode x, i)))"

text \<open>The rollback of \<open>file_create\<close>, with the step it starts from.\<close>

definition create_rollback :: "nat \<Rightarrow> nat \<Rightarrow> int \<Rightarrow> nat \<Rightarrow> nat \<Rightarrow> 'a fs_scheme \<Rightarrow> (int \<times> 'a fs_scheme) outcome" where
  "create_rollback rollback_step fd_idx inode_no new_file_inode io_buf s =
     andThen (if rollback_step \<ge> 3 then set_file fd_idx (\<lambda>_. \<lparr>fd_pos = 0, fd_flag = 0, fd_inode = 0\<rparr>) s else Inr s) (\<lambda>s.
     andThen (if rollback_step \<ge> 2 then
         andThen (sys_free new_file_inode s) (\<lambda>s. Inr (s\<lparr>inodes := (inodes s)(new_file_inode := None)\<rparr>)) else Inr s) (\<lambda>s.
     andThen (get_part (cur_part s) s) (\<lambda>p.
     andThen (bitmap_set_mem (inode_bitmap p) (nat inode_no) 0 s) (\<lambda>s.
     andThen (sys_free io_buf s) (\<lambda>s. Inr (- 1, s))))))"

text \<open>\<open>fr_entry\<close> is the address of the local variable \<open>new_dir_entry\<close>.\<close>

record file_frames = frames +
  fr_entry :: nat

definition clear_ram :: "nat \<Rightarrow> nat \<Rightarrow> 'a io_scheme \<Rightarrow> 'a io_scheme outcome" where
  "clear_ram a n = on_ram (\<lambda>m. memset m a 0 n)"

text \<open>The part of \<open>file_create\<close> after a slot of the file table was found.\<close>

definition create_in_slot :: "file_frames \<Rightarrow> nat \<Rightarrow> nat \<Rightarrow> u8 \<Rightarrow> nat \<Rightarrow> int \<Rightarrow> nat \<Rightarrow> nat \<Rightarrow> 'a fs_scheme \<Rightarrow> (int \<times> 'a fs_scheme) outcome" where
  "create_in_slot fr parent_dir filename flag fd_idx inode_no new_file_inode io_buf s =
     andThen (set_file fd_idx (\<lambda>_. \<lparr>fd_pos = 0, fd_flag = ucast flag, fd_inode = new_file_inode\<rparr>) s) (\<lambda>s.
     andThen (set_inode new_file_inode (\<lambda>i. i\<lparr>write_deny := False\<rparr>) s) (\<lambda>s.
     andThen (clear_ram (fr_entry fr) sizeof_dir_entry s) (\<lambda>s.
     andThen (create_dir_entry filename (of_int inode_no) 1 (fr_entry fr) s) (\<lambda>s.
     andThen (sync_dir_entry (frames.truncate fr) parent_dir (fr_entry fr) io_buf s) (\<lambda>(ok, s).
     if \<not> ok then
       andThen (printk (bytes ''sync dir_entry to disk failed'' @ [10]) s) (create_rollback 3 fd_idx inode_no new_file_inode io_buf)
     else
       andThen (clear_ram io_buf 1024 s) (\<lambda>s.
       andThen (get_dir parent_dir s) (\<lambda>d.
       andThen (inode_sync (cur_part s) (dir_inode d) (of_nat io_buf) s) (\<lambda>s.
       andThen (clear_ram io_buf 1024 s) (\<lambda>s.
       andThen (inode_sync (cur_part s) new_file_inode (of_nat io_buf) s) (\<lambda>s.
       andThen (bitmap_sync (cur_part s) (of_int inode_no) INODE_BITMAP s) (\<lambda>s.
       andThen (list_push (open_inodes (cur_part s)) (inode_tag new_file_inode) s) (\<lambda>s.
       andThen (set_inode new_file_inode (\<lambda>i. i\<lparr>i_open_cnts := 1\<rparr>) s) (\<lambda>s.
       andThen (sys_free io_buf s) (pcb_fd_install (int fd_idx)))))))))))))))"

text \<open>A block of the heap that is used as an inode: cleared memory, read as the fields of the structure.\<close>

definition fresh_inode :: inode where
  "fresh_inode = \<lparr>i_no = 0, i_size = 0, i_open_cnts = 0, write_deny = False, i_sectors = replicate 13 0\<rparr>"

definition file_create :: "file_frames \<Rightarrow> nat \<Rightarrow> nat \<Rightarrow> u8 \<Rightarrow> 'a fs_scheme \<Rightarrow> (int \<times> 'a fs_scheme) outcome" where
  "file_create fr parent_dir filename flag s =
     andThen (sys_malloc 1024 s) (\<lambda>(io_buf, s).
     if io_buf = 0 then
       andThen (printk (bytes ''in file_creat: sys_malloc for io_buf failed'' @ [10]) s) (\<lambda>s. Inr (- 1, s))
     else
       andThen (inode_bitmap_alloc (cur_part s) s) (\<lambda>(inode_no, s).
       if inode_no = - 1 then
         andThen (printk (bytes ''in file_creat: allocate inode failed'' @ [10]) s) (\<lambda>s. Inr (- 1, s))
       else
         andThen (sys_malloc sizeof_inode s) (\<lambda>(new_file_inode, s).
         if new_file_inode = 0 then
           andThen (printk (bytes ''file_create: sys_malloc for inode failded'' @ [10]) s)
             (create_rollback 1 0 inode_no new_file_inode io_buf)
         else
           let s = s\<lparr>inodes := (inodes s)(new_file_inode \<mapsto> inode_init (of_int inode_no) fresh_inode)\<rparr> in
           andThen (get_free_slot_in_global s) (\<lambda>(fd_idx, s).
           if fd_idx = - 1 then
             andThen (printk (bytes ''exceed max open files'' @ [10]) s) (create_rollback 2 0 inode_no new_file_inode io_buf)
           else create_in_slot fr parent_dir filename flag (nat fd_idx) inode_no new_file_inode io_buf s))))"

abbreviation O_WRONLY :: nat where
  "O_WRONLY \<equiv> 1"

abbreviation O_RDWR :: nat where
  "O_RDWR \<equiv> 2"

abbreviation O_CREAT :: nat where
  "O_CREAT \<equiv> 4"

definition file_open :: "u32 \<Rightarrow> u8 \<Rightarrow> 'a fs_scheme \<Rightarrow> (int \<times> 'a fs_scheme) outcome" where
  "file_open inode_no flag s =
     andThen (get_free_slot_in_global s) (\<lambda>(fd_idx, s).
     if fd_idx = - 1 then
       andThen (printk (bytes ''exceed max open files'' @ [10]) s) (\<lambda>s. Inr (- 1, s))
     else
       andThen (inode_open (cur_part s) inode_no s) (\<lambda>(inode, s).
       andThen (set_file (nat fd_idx) (\<lambda>_. \<lparr>fd_pos = 0, fd_flag = ucast flag, fd_inode = inode\<rparr>) s) (\<lambda>s.
       if unat flag = O_WRONLY \<or> unat flag = O_RDWR then
         let (old_status, s) = intr_disable s in
         andThen (get_inode inode s) (\<lambda>i.
         if \<not> write_deny i then
           andThen (set_inode inode (\<lambda>i. i\<lparr>write_deny := True\<rparr>) s) (\<lambda>s.
           pcb_fd_install fd_idx (snd (intr_set_status old_status s)))
         else
           let s = snd (intr_set_status old_status s) in
           andThen (printk (bytes ''file can`t be write now, try again later'' @ [10]) s) (\<lambda>s. Inr (- 1, s)))
       else pcb_fd_install fd_idx s)))"

definition file_close :: "nat option \<Rightarrow> 'a fs_scheme \<Rightarrow> (int \<times> 'a fs_scheme) outcome" where
  "file_close f s =
     (case f of
       None \<Rightarrow> Inr (- 1, s)
     | Some f \<Rightarrow>
         andThen (get_file f s) (\<lambda>x.
         andThen (set_inode (fd_inode x) (\<lambda>i. i\<lparr>write_deny := False\<rparr>) s) (\<lambda>s.
         andThen (inode_close (fd_inode x) s) (\<lambda>s.
         andThen (set_file f (\<lambda>x. x\<lparr>fd_inode := 0\<rparr>) s) (\<lambda>s.
         Inr (0, s))))))"

section \<open>Writing\<close>

text \<open>
  A step that may give up: \<open>None\<close> is the return of -1 after the message. The blocks of memory taken before are not given back.
\<close>

definition give_up :: "string \<Rightarrow> 'a fs_scheme \<Rightarrow> ('b option \<times> 'a fs_scheme) outcome" where
  "give_up msg s = andThen (printk (bytes msg @ [10]) s) (\<lambda>s. Inr (None, s))"

text \<open>The first block of a file that has none.\<close>

definition first_block :: "nat \<Rightarrow> 'a fs_scheme \<Rightarrow> (unit option \<times> 'a fs_scheme) outcome" where
  "first_block f s =
     andThen (file_inode f s) (\<lambda>(inode, i).
     andThen (sector_at i 0) (\<lambda>v.
     if v = 0 then
       andThen (block_bitmap_alloc (cur_part s) s) (\<lambda>(block_lba, s).
       if block_lba = - 1 then give_up ''file_write: block_bitmap_alloc failed'' s
       else
         andThen (set_sector inode 0 (of_int block_lba) s) (\<lambda>s.
         andThen (part_sb (cur_part s) s) (\<lambda>(_, b).
         let block_bitmap_idx = of_int block_lba - data_start_lba b in
         ASSERT (block_bitmap_idx \<noteq> 0)
        (andThen (bitmap_sync (cur_part s) block_bitmap_idx BLOCK_BITMAP s) (\<lambda>s. Inr (Some (), s))))))
     else Inr (Some (), s)))"

text \<open>Writes the bit of a block to the disk.\<close>

definition sync_block_bit :: "u32 \<Rightarrow> 'a fs_scheme \<Rightarrow> 'a fs_scheme outcome" where
  "sync_block_bit block_lba s =
     andThen (part_sb (cur_part s) s) (\<lambda>(_, b). bitmap_sync (cur_part s) (block_lba - data_start_lba b) BLOCK_BITMAP s)"

text \<open>
  The three loops that allocate blocks, from \<open>block_idx\<close> on: for direct blocks, for direct and indirect ones, and for indirect ones.
\<close>

definition enter_direct :: "nat \<Rightarrow> nat \<Rightarrow> nat \<Rightarrow> u32 \<Rightarrow> 'a fs_scheme \<Rightarrow> 'a fs_scheme outcome" where
  "enter_direct f all_blocks block_idx block_lba s =
     andThen (file_inode f s) (\<lambda>(inode, i).
     andThen (sector_at i block_idx) (\<lambda>v. ASSERT (v = 0)
    (andThen (set_block all_blocks block_idx block_lba s) (set_sector inode block_idx block_lba))))"

fun alloc_direct :: "nat \<Rightarrow> nat \<Rightarrow> nat \<Rightarrow> nat \<Rightarrow> 'a fs_scheme \<Rightarrow> (unit option \<times> 'a fs_scheme) outcome" where
  "alloc_direct f all_blocks block_idx 0 s = Inr (Some (), s)"
| "alloc_direct f all_blocks block_idx (Suc n) s =
     andThen (block_bitmap_alloc (cur_part s) s) (\<lambda>(block_lba, s).
     if block_lba = - 1 then give_up ''file_write: block_bitmap_alloc for situation 1 failed'' s
     else
       andThen (enter_direct f all_blocks block_idx (of_int block_lba) s) (\<lambda>s.
       andThen (sync_block_bit (of_int block_lba) s) (alloc_direct f all_blocks (Suc block_idx) n)))"

fun alloc_mixed :: "nat \<Rightarrow> nat \<Rightarrow> nat \<Rightarrow> nat \<Rightarrow> 'a fs_scheme \<Rightarrow> (unit option \<times> 'a fs_scheme) outcome" where
  "alloc_mixed f all_blocks block_idx 0 s = Inr (Some (), s)"
| "alloc_mixed f all_blocks block_idx (Suc n) s =
     andThen (block_bitmap_alloc (cur_part s) s) (\<lambda>(block_lba, s).
     if block_lba = - 1 then give_up ''file_write: block_bitmap_alloc for situation 2 failed'' s
     else
       andThen (if block_idx < 12 then enter_direct f all_blocks block_idx (of_int block_lba) s
                else set_block all_blocks block_idx (of_int block_lba) s) (\<lambda>s.
       andThen (sync_block_bit (of_int block_lba) s) (alloc_mixed f all_blocks (Suc block_idx) n)))"

fun alloc_indirect :: "nat \<Rightarrow> nat \<Rightarrow> nat \<Rightarrow> 'a fs_scheme \<Rightarrow> (unit option \<times> 'a fs_scheme) outcome" where
  "alloc_indirect all_blocks block_idx 0 s = Inr (Some (), s)"
| "alloc_indirect all_blocks block_idx (Suc n) s =
     andThen (block_bitmap_alloc (cur_part s) s) (\<lambda>(block_lba, s).
     if block_lba = - 1 then give_up ''file_write: block_bitmap_alloc for situation 3 failed'' s
     else
       andThen (set_block all_blocks block_idx (of_int block_lba) s) (\<lambda>s.
       andThen (sync_block_bit (of_int block_lba) s) (alloc_indirect all_blocks (Suc block_idx) n)))"

definition read_table :: "u32 \<Rightarrow> nat \<Rightarrow> 'a fs_scheme \<Rightarrow> 'a fs_scheme outcome" where
  "read_table indirect_block_table all_blocks s =
     andThen (get_part (cur_part s) s) (\<lambda>p. ide_read (my_disk p) indirect_block_table (of_nat (all_blocks + 48)) 1 s)"

definition write_table :: "u32 \<Rightarrow> nat \<Rightarrow> 'a fs_scheme \<Rightarrow> 'a fs_scheme outcome" where
  "write_table indirect_block_table all_blocks s =
     andThen (get_part (cur_part s) s) (\<lambda>p. ide_write (my_disk p) indirect_block_table (of_nat (all_blocks + 48)) 1 s)"

text \<open>Continues after an allocation loop, unless it gave up.\<close>

definition and_write_table :: "u32 \<Rightarrow> nat \<Rightarrow> unit option \<times> 'a fs_scheme \<Rightarrow> (unit option \<times> 'a fs_scheme) outcome" where
  "and_write_table indirect_block_table all_blocks r =
     (case r of (None, s) \<Rightarrow> Inr (None, s)
      | (Some _, s) \<Rightarrow> andThen (write_table indirect_block_table all_blocks s) (\<lambda>s. Inr (Some (), s)))"

text \<open>The blocks of a write that stays in the last block of the file.\<close>

definition same_block :: "nat \<Rightarrow> nat \<Rightarrow> nat \<Rightarrow> 'a fs_scheme \<Rightarrow> 'a fs_scheme outcome" where
  "same_block f all_blocks file_has_used_blocks s =
     andThen (file_inode f s) (\<lambda>(inode, i).
     if file_has_used_blocks \<le> 12 then
       andThen (sector_at i (file_has_used_blocks - 1)) (\<lambda>v. set_block all_blocks (file_has_used_blocks - 1) v s)
     else
       andThen (sector_at i 12) (\<lambda>table. ASSERT (table \<noteq> 0) (read_table table all_blocks s)))"

text \<open>The blocks of a write that needs new ones, in the three cases of the code.\<close>

definition more_blocks :: "nat \<Rightarrow> nat \<Rightarrow> nat \<Rightarrow> nat \<Rightarrow> 'a fs_scheme \<Rightarrow> (unit option \<times> 'a fs_scheme) outcome" where
  "more_blocks f all_blocks file_has_used_blocks file_will_use_blocks s =
     andThen (file_inode f s) (\<lambda>(inode, i).
     if file_will_use_blocks \<le> 12 then
       andThen (sector_at i (file_has_used_blocks - 1)) (\<lambda>v. ASSERT (v \<noteq> 0)
      (andThen (set_block all_blocks (file_has_used_blocks - 1) v s)
         (alloc_direct f all_blocks file_has_used_blocks (file_will_use_blocks - file_has_used_blocks))))
     else if file_has_used_blocks \<le> 12 then
       andThen (sector_at i (file_has_used_blocks - 1)) (\<lambda>v.
       andThen (set_block all_blocks (file_has_used_blocks - 1) v s) (\<lambda>s.
       andThen (block_bitmap_alloc (cur_part s) s) (\<lambda>(block_lba, s).
       if block_lba = - 1 then give_up ''file_write: block_bitmap_alloc for situation 2 failed'' s
       else
         andThen (sector_at i 12) (\<lambda>table. ASSERT (table = 0)
        (andThen (set_sector inode 12 (of_int block_lba) s) (\<lambda>s.
         andThen (alloc_mixed f all_blocks file_has_used_blocks (file_will_use_blocks - file_has_used_blocks) s)
           (and_write_table (of_int block_lba) all_blocks)))))))
     else
       andThen (sector_at i 12) (\<lambda>table. ASSERT (table \<noteq> 0)
      (andThen (read_table table all_blocks s) (\<lambda>s.
       andThen (alloc_indirect all_blocks file_has_used_blocks (file_will_use_blocks - file_has_used_blocks) s)
         (and_write_table table all_blocks)))))"

definition write_blocks :: "nat \<Rightarrow> nat \<Rightarrow> u32 \<Rightarrow> 'a fs_scheme \<Rightarrow> (unit option \<times> 'a fs_scheme) outcome" where
  "write_blocks f all_blocks count s =
     andThen (file_inode f s) (\<lambda>(inode, i).
     let file_has_used_blocks = unat (i_size i div 512 + 1);
         file_will_use_blocks = unat ((i_size i + count) div 512 + 1) in
     ASSERT (file_will_use_blocks \<le> 140)
    (if file_will_use_blocks = file_has_used_blocks then
       andThen (same_block f all_blocks file_has_used_blocks s) (\<lambda>s. Inr (Some (), s))
     else more_blocks f all_blocks file_has_used_blocks file_will_use_blocks s))"

text \<open>One round of the loop that writes the data; its result is the number of bytes written.\<close>

definition write_chunk :: "nat \<Rightarrow> nat \<Rightarrow> nat \<Rightarrow> nat \<Rightarrow> bool \<Rightarrow> u32 \<Rightarrow> 'a fs_scheme \<Rightarrow> (u32 \<times> 'a fs_scheme) outcome" where
  "write_chunk f all_blocks io_buf src first_write_block size_left s =
     andThen (clear_ram io_buf 512 s) (\<lambda>s.
     andThen (file_inode f s) (\<lambda>(inode, i).
     let sec_idx = i_size i div 512;
         sec_off_bytes = i_size i mod 512;
         sec_left_bytes = 512 - sec_off_bytes;
         chunk_size = (if size_left < sec_left_bytes then size_left else sec_left_bytes) in
     andThen (get_block all_blocks (unat sec_idx) s) (\<lambda>lba.
     andThen (get_part (cur_part s) s) (\<lambda>p.
     andThen (if first_write_block then ide_read (my_disk p) lba (of_nat io_buf) 1 s else Inr s) (\<lambda>s.
     andThen (on_ram (\<lambda>m. memcpy m (io_buf + unat sec_off_bytes) src (unat chunk_size)) s) (\<lambda>s.
     andThen (ide_write (my_disk p) lba (of_nat io_buf) 1 s) (\<lambda>s.
     andThen (set_inode inode (\<lambda>i. i\<lparr>i_size := i_size i + chunk_size\<rparr>) s) (\<lambda>s.
     andThen (set_file f (\<lambda>x. x\<lparr>fd_pos := fd_pos x + chunk_size\<rparr>) s) (\<lambda>s.
     Inr (chunk_size, s))))))))))"

partial_function (option) write_loop ::
  "nat \<Rightarrow> nat \<Rightarrow> nat \<Rightarrow> nat \<Rightarrow> bool \<Rightarrow> u32 \<Rightarrow> u32 \<Rightarrow> u32 \<Rightarrow> 'a fs_scheme \<Rightarrow> (u32 \<times> 'a fs_scheme) outcome option" where
  "write_loop f all_blocks io_buf src first_write_block bytes_written size_left count s =
     (if bytes_written < count then
        (case write_chunk f all_blocks io_buf src first_write_block size_left s of
           Inl t \<Rightarrow> Some (Inl t)
         | Inr r \<Rightarrow> write_loop f all_blocks io_buf (src + unat (fst r)) False (bytes_written + fst r) (size_left - fst r) count (snd r))
      else Some (Inr (bytes_written, s)))"

text \<open>The part of \<open>file_write\<close> after the blocks were found.\<close>

definition write_data :: "nat \<Rightarrow> nat \<Rightarrow> nat \<Rightarrow> nat \<Rightarrow> u32 \<Rightarrow> 'a fs_scheme \<Rightarrow> (int \<times> 'a fs_scheme) outcome" where
  "write_data f all_blocks io_buf src count s =
     andThen (file_inode f s) (\<lambda>(inode, i).
     andThen (set_file f (\<lambda>x. x\<lparr>fd_pos := i_size i - 1\<rparr>) s) (\<lambda>s.
     andThen (run_walk (write_loop f all_blocks io_buf src True 0 count count s)) (\<lambda>(bytes_written, s).
     andThen (inode_sync (cur_part s) inode (of_nat io_buf) s) (\<lambda>s.
     andThen (sys_free all_blocks s) (\<lambda>s.
     andThen (sys_free io_buf s) (\<lambda>s.
     Inr (sint bytes_written, s)))))))"

definition file_write :: "nat \<Rightarrow> nat \<Rightarrow> u32 \<Rightarrow> 'a fs_scheme \<Rightarrow> (int \<times> 'a fs_scheme) outcome" where
  "file_write f src count s =
     andThen (file_inode f s) (\<lambda>(inode, i).
     if i_size i + count > 512 * 140 then
       andThen (printk (bytes ''exceed max file_size 71680 bytes, write file failed'' @ [10]) s) (\<lambda>s. Inr (- 1, s))
     else
       andThen (sys_malloc 512 s) (\<lambda>(io_buf, s).
       if io_buf = 0 then
         andThen (printk (bytes ''file_write: sys_malloc for io_buf failed'' @ [10]) s) (\<lambda>s. Inr (- 1, s))
       else
         andThen (sys_malloc (512 + 48) s) (\<lambda>(all_blocks, s).
         if all_blocks = 0 then
           andThen (printk (bytes ''file_write: sys_malloc for all_blocks failed'' @ [10]) s) (\<lambda>s. Inr (- 1, s))
         else
           andThen (first_block f s) (\<lambda>(r, s).
           case r of
             None \<Rightarrow> Inr (- 1, s)
           | Some _ \<Rightarrow>
               andThen (write_blocks f all_blocks count s) (\<lambda>(r, s).
               case r of
                 None \<Rightarrow> Inr (- 1, s)
               | Some _ \<Rightarrow> write_data f all_blocks io_buf src count s)))))"

section \<open>Reading\<close>

fun copy_direct :: "nat \<Rightarrow> inode \<Rightarrow> nat \<Rightarrow> nat \<Rightarrow> 'a io_scheme \<Rightarrow> 'a io_scheme outcome" where
  "copy_direct all_blocks i block_idx 0 s = Inr s"
| "copy_direct all_blocks i block_idx (Suc n) s =
     andThen (sector_at i block_idx) (\<lambda>v.
     andThen (set_block all_blocks block_idx v s) (copy_direct all_blocks i (Suc block_idx) n))"

text \<open>The addresses of the blocks of a read, in the cases of the code.\<close>

definition read_blocks :: "nat \<Rightarrow> nat \<Rightarrow> u32 \<Rightarrow> 'a fs_scheme \<Rightarrow> 'a fs_scheme outcome" where
  "read_blocks f all_blocks sz s =
     andThen (get_file f s) (\<lambda>x.
     andThen (get_inode (fd_inode x) s) (\<lambda>i.
     let block_read_start_idx = unat (fd_pos x div 512);
         block_read_end_idx = unat ((fd_pos x + sz) div 512) in
     ASSERT (block_read_start_idx < 139 \<and> block_read_end_idx < 139)
    (andThen (sector_at i 12) (\<lambda>table.
     if block_read_start_idx = block_read_end_idx then
       if block_read_end_idx < 12 then
         andThen (sector_at i block_read_end_idx) (\<lambda>v. set_block all_blocks block_read_end_idx v s)
       else read_table table all_blocks s
     else if block_read_end_idx < 12 then
       copy_direct all_blocks i block_read_start_idx (block_read_end_idx + 1 - block_read_start_idx) s
     else if block_read_start_idx < 12 then
       andThen (copy_direct all_blocks i block_read_start_idx (12 - block_read_start_idx) s) (\<lambda>s. ASSERT (table \<noteq> 0)
      (read_table table all_blocks s))
     else ASSERT (table \<noteq> 0) (read_table table all_blocks s)))))"

definition read_chunk :: "nat \<Rightarrow> nat \<Rightarrow> nat \<Rightarrow> nat \<Rightarrow> u32 \<Rightarrow> 'a fs_scheme \<Rightarrow> (u32 \<times> 'a fs_scheme) outcome" where
  "read_chunk f all_blocks io_buf buf_dst size_left s =
     andThen (get_file f s) (\<lambda>x.
     let sec_idx = fd_pos x div 512;
         sec_off_bytes = fd_pos x mod 512;
         sec_left_bytes = 512 - sec_off_bytes;
         chunk_size = (if size_left < sec_left_bytes then size_left else sec_left_bytes) in
     andThen (get_block all_blocks (unat sec_idx) s) (\<lambda>lba.
     andThen (clear_ram io_buf 512 s) (\<lambda>s.
     andThen (get_part (cur_part s) s) (\<lambda>p.
     andThen (ide_read (my_disk p) lba (of_nat io_buf) 1 s) (\<lambda>s.
     andThen (on_ram (\<lambda>m. memcpy m buf_dst (io_buf + unat sec_off_bytes) (unat chunk_size)) s) (\<lambda>s.
     andThen (set_file f (\<lambda>x. x\<lparr>fd_pos := fd_pos x + chunk_size\<rparr>) s) (\<lambda>s.
     Inr (chunk_size, s))))))))"

partial_function (option) read_loop ::
  "nat \<Rightarrow> nat \<Rightarrow> nat \<Rightarrow> nat \<Rightarrow> u32 \<Rightarrow> u32 \<Rightarrow> u32 \<Rightarrow> 'a fs_scheme \<Rightarrow> (u32 \<times> 'a fs_scheme) outcome option" where
  "read_loop f all_blocks io_buf buf_dst bytes_read size_left sz s =
     (if bytes_read < sz then
        (case read_chunk f all_blocks io_buf buf_dst size_left s of
           Inl t \<Rightarrow> Some (Inl t)
         | Inr r \<Rightarrow> read_loop f all_blocks io_buf (buf_dst + unat (fst r)) (bytes_read + fst r) (size_left - fst r) sz (snd r))
      else Some (Inr (bytes_read, s)))"

text \<open>The code goes on when there is no memory for \<open>io_buf\<close>.\<close>

definition file_read :: "nat \<Rightarrow> nat \<Rightarrow> u32 \<Rightarrow> 'a fs_scheme \<Rightarrow> (int \<times> 'a fs_scheme) outcome" where
  "file_read f bufp count s =
     andThen (get_file f s) (\<lambda>x.
     andThen (get_inode (fd_inode x) s) (\<lambda>i.
     let sz = (if fd_pos x + count > i_size i then i_size i - fd_pos x else count) in
     if fd_pos x + count > i_size i \<and> sz = 0 then Inr (- 1, s)
     else
       andThen (sys_malloc 512 s) (\<lambda>(io_buf, s).
       andThen (if io_buf = 0 then printk (bytes ''file_read: sys_malloc for io_buf failed'' @ [10]) s else Inr s) (\<lambda>s.
       andThen (sys_malloc (512 + 48) s) (\<lambda>(all_blocks, s).
       if all_blocks = 0 then
         andThen (printk (bytes ''file_read: sys_malloc for all_blocks failed'' @ [10]) s) (\<lambda>s. Inr (- 1, s))
       else
         andThen (read_blocks f all_blocks sz s) (\<lambda>s.
         andThen (run_walk (read_loop f all_blocks io_buf bufp 0 sz sz s)) (\<lambda>(bytes_read, s).
         andThen (sys_free all_blocks s) (\<lambda>s.
         andThen (sys_free io_buf s) (\<lambda>s.
         Inr (sint bytes_read, s))))))))))"

end
