(* ===== verification/Ide_Proofs.thy ===== *)
theory Ide_Proofs
  imports Ide
begin

text \<open>
  The disk driver reads and writes exactly the sectors it is asked for, in runs of at most 256, through the registers of
  the controller.
\<close>

section \<open>Bytes and sectors\<close>

lemma word_bytes: "word_of_bytes (ucast w) (ucast (drop_bit 8 w)) (ucast (drop_bit 16 w)) (ucast (drop_bit 24 w)) = w"
proof (rule bit_word_eqI)
  fix n assume "n < LENGTH(32)"
  then have "n < 32" by simp
  then consider "n < 8" | "8 \<le> n \<and> n < 16" | "16 \<le> n \<and> n < 24" | "24 \<le> n \<and> n < 32" by linarith
  then show "bit (word_of_bytes (ucast w) (ucast (drop_bit 8 w)) (ucast (drop_bit 16 w)) (ucast (drop_bit 24 w))) n = bit w n"
    by cases (auto simp: word_of_bytes_def bit_simps)
qed

lemma store_bytes_put: "mapped m a (length bs) \<Longrightarrow> store_bytes m a bs = Inr (put_bytes m a bs)"
  by (induction bs arbitrary: m a) (auto simp: mapped_Suc put_bytes_Cons store_ok mapped_upd)

lemma load_bytes_holds: "holds m a bs \<Longrightarrow> load_bytes m a (length bs) = Inr bs"
  by (induction bs arbitrary: a) (auto simp: holds_Cons load_def)

definition read_sectors :: "(nat \<Rightarrow> u8 list) \<Rightarrow> nat \<Rightarrow> nat \<Rightarrow> u8 list" where
  "read_sectors d lba n = concat (map (\<lambda>i. d (lba + i)) [0..<n])"

definition whole_sectors :: "(nat \<Rightarrow> u8 list) \<Rightarrow> bool" where
  "whole_sectors d \<longleftrightarrow> (\<forall>l. length (d l) = 512)"

lemma length_read_sectors [simp]: "whole_sectors d \<Longrightarrow> length (read_sectors d lba n) = 512 * n"
  by (induction n) (simp_all add: read_sectors_def whole_sectors_def)

lemma read_sectors_add: "read_sectors d lba (m + n) = read_sectors d lba m @ read_sectors d (lba + m) n"
  by (induction n) (simp_all add: read_sectors_def add.assoc)

lemma read_sectors_Suc: "read_sectors d lba (Suc n) = d lba @ read_sectors d (Suc lba) n"
  using read_sectors_add [of d lba 1 n] by (simp add: read_sectors_def)

lemma write_sectors_other: "l < lba \<or> lba + n \<le> l \<Longrightarrow> write_sectors d lba bs n l = d l"
  by (induction n arbitrary: d lba bs) auto

lemma write_sectors_add:
  "write_sectors d lba bs (m + n) = write_sectors (write_sectors d lba bs m) (lba + m) (drop (512 * m) bs) n"
  by (induction m arbitrary: d lba bs) (simp_all add: add.commute)

lemma write_sectors_take: "512 * n \<le> k \<Longrightarrow> write_sectors d lba (take k bs) n = write_sectors d lba bs n"
  by (induction n arbitrary: d lba bs k) (simp_all add: take_drop [symmetric] min_def drop_take)

lemma read_write_sectors:
  "length bs = 512 * n \<Longrightarrow> read_sectors (write_sectors d lba bs n) lba n = bs"
proof (induction n arbitrary: d lba bs)
  case 0
  then show ?case by (simp add: read_sectors_def)
next
  case (Suc n)
  have "write_sectors (d(lba := take 512 bs)) (Suc lba) (drop 512 bs) n lba = take 512 bs" by (simp add: write_sectors_other)
  then show ?case using Suc by (simp add: read_sectors_Suc)
qed

lemma whole_write: "whole_sectors d \<Longrightarrow> length bs = 512 * n \<Longrightarrow> whole_sectors (write_sectors d lba bs n)"
  by (induction n arbitrary: d lba bs) (auto simp: whole_sectors_def)

section \<open>Selecting sectors\<close>

lemma sector_regs:
  fixes lba :: u32 and sl :: bool
  assumes "lba \<le> max_lba"
  defines "r \<equiv> 0xa0 OR 0x40 OR (if sl then 0x10 else 0) OR ucast (drop_bit 24 lba)"
  shows "word_of_bytes (ucast lba) (ucast (drop_bit 8 lba)) (ucast (drop_bit 16 lba)) ((r :: u8) AND 0x0f) = lba"
    "(r AND 0x10 \<noteq> 0) = sl"
proof -
  have "unat lba < 2 ^ 24" using assms(1) by (simp add: max_lba_def word_le_nat_alt)
  then have "unat (drop_bit 24 lba) = 0" by (simp add: unsigned_drop_bit_eq drop_bit_nat_def take_bit_nat_def)
  then have "drop_bit 24 lba = 0" by (simp add: unat_eq_0)
  then have "r = (if sl then 0xf0 else 0xe0)" "ucast (drop_bit 24 lba) = (0 :: u8)" by (simp_all add: r_def)
  then show "word_of_bytes (ucast lba) (ucast (drop_bit 8 lba)) (ucast (drop_bit 16 lba)) (r AND 0x0f) = lba" "(r AND 0x10 \<noteq> 0) = sl"
    using word_bytes [of lba] by simp_all
qed

text \<open>
  A drive that can be used: its structures are in place, nobody waits for it and its controller is not busy.
\<close>

definition drive_ready :: "nat \<Rightarrow> nat \<Rightarrow> u16 \<Rightarrow> bool \<Rightarrow> 'a ide_scheme \<Rightarrow> bool" where
  "drive_ready dk ch port sl s \<longleftrightarrow> (\<exists>d c i. disks s dk = Some d \<and> my_channel d = ch \<and> chans s ch = Some c
     \<and> port_base c = port \<and> (dev_no d = 1) = sl \<and> i < 2 \<and> ch = channel_at (channels s) i \<and> irq_no c = 0x2e + of_nat i
     \<and> sema_value s (disk_done ch) = 0 \<and> list_empty (waiters (disk_done ch)) s = Inr True \<and> \<not> bsy (ctl s port))"

lemma drive_readyE:
  assumes "drive_ready dk ch port sl s"
  obtains d c i where "disks s dk = Some d" "my_channel d = ch" "chans s ch = Some c" "port_base c = port" "(dev_no d = 1) = sl"
    "i < 2" "ch = channel_at (channels s) i" "irq_no c = 0x2e + of_nat i" "sema_value s (disk_done ch) = 0"
    "list_empty (waiters (disk_done ch)) s = Inr True" "\<not> bsy (ctl s port)"
  using assms by (auto simp: drive_ready_def)

lemma drive_ready_cong:
  assumes "drive_ready dk ch port sl s" "disks t = disks s" "channels t = channels s" "sema_value t (disk_done ch) = sema_value s (disk_done ch)"
    and "elems t = elems s" "bsy (ctl t port) = bsy (ctl s port)"
    and "map_option (\<lambda>c. (port_base c, irq_no c)) (chans t ch) = map_option (\<lambda>c. (port_base c, irq_no c)) (chans s ch)"
  shows "drive_ready dk ch port sl t"
proof -
  obtain d c i where d: "disks s dk = Some d" "my_channel d = ch" "chans s ch = Some c" "port_base c = port" "(dev_no d = 1) = sl"
    "i < 2" "ch = channel_at (channels s) i" "irq_no c = 0x2e + of_nat i" "sema_value s (disk_done ch) = 0"
    "list_empty (waiters (disk_done ch)) s = Inr True" "\<not> bsy (ctl s port)" by (rule drive_readyE [OF assms(1)])
  moreover obtain c' where "chans t ch = Some c'" "port_base c' = port" "irq_no c' = irq_no c" using assms(7) d(3,4) by auto
  ultimately show ?thesis using assms(2-6) list_empty_cong [OF assms(5)] by (auto simp: drive_ready_def)
qed

lemma await_disk_ok:
  assumes "drive_ready dk ch port sl s" "chans s ch = Some c" "expecting_intr c"
  shows "await_disk dk s = Inr (s\<lparr>chans := (chans s)(ch \<mapsto> c\<lparr>expecting_intr := False\<rparr>)\<rparr>)"
proof -
  obtain d i where d: "disks s dk = Some d" "my_channel d = ch" "i < 2" "ch = channel_at (channels s) i" "irq_no c = 0x2e + of_nat i"
    "sema_value s (disk_done ch) = 0" "list_empty (waiters (disk_done ch)) s = Inr True"
    using assms(1,2) by (auto elim!: drive_readyE)
  let ?t = "s\<lparr>chans := (chans s)(ch \<mapsto> c\<lparr>expecting_intr := False\<rparr>)\<rparr>"
  have "i = 0 \<or> i = 1" using d(3) by auto
  then have irq: "irq_no c = 0x2e \<or> irq_no c = 0x2f" "unat (irq_no c - 0x2e) = i" using d(5) by auto
  have "sema_up (disk_done ch) ?t = Inr (set_value (disk_done ch) 1 ?t)"
    by (rule sema_up_alone) (use d(6,7) list_empty_cong [of ?t s] in simp_all)
  then have up: "intr_hd_handler (irq_no c) s = Inr (set_value (disk_done ch) 1 ?t)"
    using assms(2,3) irq d(4) by (simp add: intr_hd_handler_def get_chan_def set_chan_def Let_def)
  have "sema_down (disk_done ch) (set_value (disk_done ch) 1 ?t) = Inr (Done (set_value (disk_done ch) 0 (set_value (disk_done ch) 1 ?t)))"
    by (rule sema_down_free) (simp add: set_value_def)
  moreover have "set_value (disk_done ch) 0 (set_value (disk_done ch) 1 ?t) = ?t"
    using d(6) by (simp add: set_value_def fun_upd_idem)
  ultimately show ?thesis using up d(1,2) assms(2) by (simp add: await_disk_def get_disk_def get_chan_def)
qed

lemma busy_wait_ok:
  assumes "drive_ready dk ch port sl s"
  shows "busy_wait dk s = Inr (rbuf (ctl s port) \<noteq> [] \<or> wleft (ctl s port) > 0, s)"
proof -
  have "busy_loop port n s = Inr (rbuf (ctl s port) \<noteq> [] \<or> wleft (ctl s port) > 0, s)" if "\<not> bsy (ctl s port)" "2 \<le> n" for n
    using that by (cases n) (auto simp: ata_status_def)
  then show ?thesis using assms by (auto elim!: drive_readyE simp: busy_wait_def with_channel_def get_disk_def get_chan_def)
qed

lemma sector_count:
  fixes n :: u32
  assumes "1 \<le> unat n" "unat n \<le> 256"
  shows "(if (ucast n :: u8) = 0 then 256 else unat (ucast n :: u8)) = unat n" "size_in_byte (ucast n) = 512 * unat n"
proof -
  have u: "unat (ucast n :: u8) = unat n mod 256" by (simp add: unsigned_ucast_eq take_bit_nat_def)
  have "(ucast n :: u8) = 0 \<longleftrightarrow> unat n mod 256 = 0" by (metis u unat_eq_0)
  moreover have "unat n mod 256 = 0 \<longleftrightarrow> unat n = 256" "unat n < 256 \<Longrightarrow> unat n mod 256 = unat n"
    using assms by (auto simp: mod_eq_0_iff_dvd dvd_def)
  ultimately show 1: "(if (ucast n :: u8) = 0 then 256 else unat (ucast n :: u8)) = unat n" using u assms(2) by auto
  then show "size_in_byte (ucast n) = 512 * unat n" by (auto simp: size_in_byte_def split: if_splits)
qed

definition selected :: "bool \<Rightarrow> u32 \<Rightarrow> u32 \<Rightarrow> ata \<Rightarrow> ata" where
  "selected sl lba n a = a\<lparr>r_cnt := ucast n, r_low := ucast lba, r_mid := ucast (drop_bit 8 lba), r_high := ucast (drop_bit 16 lba),
     r_dev := 0xa0 OR 0x40 OR (if sl then 0x10 else 0) OR ucast (drop_bit 24 lba)\<rparr>"

lemma selected_regs:
  assumes "lba \<le> max_lba" "1 \<le> unat n" "unat n \<le> 256"
  shows "ata_lba (selected sl lba n a) = unat lba" "ata_slave (selected sl lba n a) = sl" "ata_count (selected sl lba n a) = unat n"
proof -
  show "ata_lba (selected sl lba n a) = unat lba" "ata_slave (selected sl lba n a) = sl"
    using sector_regs [OF assms(1)] by (simp_all add: selected_def ata_lba_def ata_slave_def)
  show "ata_count (selected sl lba n a) = unat n"
    using sector_count(1) [OF assms(2,3)] by (auto simp: selected_def ata_count_def split: if_splits)
qed

lemma select_sector_ok:
  assumes "drive_ready dk ch port sl s" "lba \<le> max_lba"
  shows "select_sector dk lba (ucast n) s = Inr (s\<lparr>ctl := (ctl s)(port := selected sl lba n (ctl s port))\<rparr>)"
proof -
  obtain d c where "disks s dk = Some d" "my_channel d = ch" "chans s ch = Some c" "port_base c = port" "(dev_no d = 1) = sl"
    using assms(1) by (auto elim!: drive_readyE)
  then show ?thesis using assms(2)
    by (simp add: select_sector_def with_channel_def get_disk_def get_chan_def set_reg_def selected_def Let_def)
qed

text \<open>Up to the point where the drive has what it needs of the command.\<close>

lemma issue_command:
  assumes r: "drive_ready dk ch port sl s" and lba: "lba \<le> max_lba"
  obtains d c where "disks s dk = Some d" "my_channel d = ch"
    "select_sector dk lba (ucast n) s = Inr (s\<lparr>ctl := (ctl s)(port := selected sl lba n (ctl s port))\<rparr>)"
    "cmd_out ch cmd (s\<lparr>ctl := (ctl s)(port := selected sl lba n (ctl s port))\<rparr>) =
      Inr (ata_command port cmd (s\<lparr>ctl := (ctl s)(port := selected sl lba n (ctl s port)),
        chans := (chans s)(ch \<mapsto> c\<lparr>expecting_intr := True\<rparr>)\<rparr>))"
    "chans s ch = Some c" "port_base c = port"
proof -
  obtain d c where d: "disks s dk = Some d" "my_channel d = ch" "chans s ch = Some c" "port_base c = port"
    using r by (auto elim!: drive_readyE)
  show thesis
    by (rule that [OF d(1,2) select_sector_ok [OF r lba] _ d(3,4)]) (use d in \<open>simp add: cmd_out_def set_chan_def get_chan_def\<close>)
qed

lemma read_step_ok:
  fixes s :: "'a ide_scheme"
  assumes r: "drive_ready dk ch port sl s" and lba: "lba + k \<le> max_lba" and n: "1 \<le> unat n" "unat n \<le> 256"
    and w: "whole_sectors (medium s port sl)" and m: "mapped (ram s) (unat (addr + k * 512)) (512 * unat n)"
  shows "\<exists>C H. ide_read_step dk lba addr k n s =
      Inr (s\<lparr>ram := put_bytes (ram s) (unat (addr + k * 512)) (read_sectors (medium s port sl) (unat (lba + k)) (unat n)), ctl := C, chans := H\<rparr>)
    \<and> drive_ready dk ch port sl (s\<lparr>ram := M, ctl := C, chans := H\<rparr>)"
proof -
  obtain d c where d: "disks s dk = Some d" "my_channel d = ch"
    "select_sector dk (lba + k) (ucast n) s = Inr (s\<lparr>ctl := (ctl s)(port := selected sl (lba + k) n (ctl s port))\<rparr>)"
    "cmd_out ch 0x20 (s\<lparr>ctl := (ctl s)(port := selected sl (lba + k) n (ctl s port))\<rparr>) =
      Inr (ata_command port 0x20 (s\<lparr>ctl := (ctl s)(port := selected sl (lba + k) n (ctl s port)),
        chans := (chans s)(ch \<mapsto> c\<lparr>expecting_intr := True\<rparr>)\<rparr>))" "chans s ch = Some c" "port_base c = port"
    using issue_command [OF r lba] by metis
  let ?bs = "read_sectors (medium s port sl) (unat (lba + k)) (unat n)"
  let ?A = "(selected sl (lba + k) n (ctl s port))\<lparr>rbuf := ?bs, wleft := 0\<rparr>"
  let ?s1 = "s\<lparr>ctl := (ctl s)(port := ?A), chans := (chans s)(ch \<mapsto> c\<lparr>expecting_intr := True\<rparr>)\<rparr>"
  let ?s2 = "s\<lparr>ctl := (ctl s)(port := ?A), chans := (chans s)(ch \<mapsto> c\<lparr>expecting_intr := False\<rparr>)\<rparr>"
  have cmd: "ata_command port 0x20 (s\<lparr>ctl := (ctl s)(port := selected sl (lba + k) n (ctl s port)),
        chans := (chans s)(ch \<mapsto> c\<lparr>expecting_intr := True\<rparr>)\<rparr>) = ?s1"
    using selected_regs [OF lba n, of sl "ctl s port"] by (simp add: ata_command_def read_sectors_def Let_def)
  have b: "bsy ?A = bsy (ctl s port)" by (simp add: selected_def)
  have r1: "drive_ready dk ch port sl ?s1" "drive_ready dk ch port sl ?s2"
    using d(5,6) b by (intro drive_ready_cong [OF r]; simp)+
  have aw: "await_disk dk ?s1 = Inr ?s2" using await_disk_ok [OF r1(1), of "c\<lparr>expecting_intr := True\<rparr>"] by simp
  have "length ?bs = 512 * unat n" using w by simp
  then have ne: "?bs \<noteq> []" "take (512 * unat n) ?bs = ?bs" using n(1) by auto
  have bw: "busy_wait dk ?s2 = Inr (True, ?s2)" using busy_wait_ok [OF r1(2)] ne(1) by simp
  have "ata_in port (512 * unat n) ?s2 = (?bs, ?s2\<lparr>ctl := (ctl s)(port := ?A\<lparr>rbuf := []\<rparr>)\<rparr>)"
    using ne(2) by (simp add: ata_in_def set_reg_def w)
  then have "read_from_sector dk (unat (addr + k * 512)) (ucast n) ?s2 =
      Inr (?s2\<lparr>ctl := (ctl s)(port := ?A\<lparr>rbuf := []\<rparr>), ram := put_bytes (ram s) (unat (addr + k * 512)) ?bs\<rparr>)"
    using d(1,2,5,6) store_bytes_put [of "ram s" "unat (addr + k * 512)" ?bs] m w
    by (simp add: read_from_sector_def with_channel_def get_disk_def get_chan_def sector_count(2) [OF n])
  then have "ide_read_step dk lba addr k n s =
      Inr (s\<lparr>ram := put_bytes (ram s) (unat (addr + k * 512)) ?bs, ctl := (ctl s)(port := ?A\<lparr>rbuf := []\<rparr>),
        chans := (chans s)(ch \<mapsto> c\<lparr>expecting_intr := False\<rparr>)\<rparr>)"
    using d(1-4) cmd aw bw by (simp add: ide_read_step_def get_disk_def)
  moreover have "drive_ready dk ch port sl (s\<lparr>ram := M, ctl := (ctl s)(port := ?A\<lparr>rbuf := []\<rparr>),
      chans := (chans s)(ch \<mapsto> c\<lparr>expecting_intr := False\<rparr>)\<rparr>)"
    using d(5,6) b by (intro drive_ready_cong [OF r]) simp_all
  ultimately show ?thesis by blast
qed

section \<open>Runs of sectors\<close>

lemma unat_sum: "unat a + unat b < 2 ^ 32 \<Longrightarrow> unat (a + b :: u32) = unat a + unat b"
  by (simp add: unat_word_ariths)

lemma secs_op_ok:
  assumes "unat k < unat secs" "unat secs \<le> 163840"
  shows "unat (secs_op k secs) = min 256 (unat secs - unat k)" "unat (k + secs_op k secs) = unat k + min 256 (unat secs - unat k)"
proof -
  have a: "unat (k + 256) = unat k + 256" using assms unat_sum [of k 256] by simp
  have b: "unat (secs - k) = unat secs - unat k" using assms(1) by (simp add: unat_sub word_le_nat_alt)
  show 1: "unat (secs_op k secs) = min 256 (unat secs - unat k)"
    using a b assms(1) by (auto simp: secs_op_def word_le_nat_alt min_def)
  show "unat (k + secs_op k secs) = unat k + min 256 (unat secs - unat k)"
    using unat_sum [of k "secs_op k secs"] 1 assms by simp
qed

lemma sector_addr:
  assumes "unat addr + 512 * unat secs \<le> 2 ^ 32" "unat k < unat secs" "unat lba + unat secs \<le> 163840"
  shows "unat (addr + k * 512 :: u32) = unat addr + 512 * unat k" "unat (lba + k) = unat lba + unat k" "lba + k \<le> max_lba"
proof -
  have "unat (k * 512) = unat k * 512" using assms by (simp add: unat_word_ariths)
  then show "unat (addr + k * 512) = unat addr + 512 * unat k" using unat_sum [of addr "k * 512"] assms by simp
  show 1: "unat (lba + k) = unat lba + unat k" using unat_sum [of lba k] assms by simp
  show "lba + k \<le> max_lba" using assms(2,3) by (simp add: word_le_nat_alt 1 max_lba_def)
qed

lemma read_loop_ok:
  fixes s :: "'a ide_scheme"
  assumes "drive_ready dk ch port sl s" "whole_sectors (medium s port sl)" "mapped (ram s) (unat addr) (512 * unat secs)"
    and "unat lba + unat secs \<le> 163840" "unat k \<le> unat secs"
  shows "\<exists>C H. ide_read_loop dk lba addr secs k s = Some (Inr (s\<lparr>ram := put_bytes (ram s) (unat addr + 512 * unat k)
        (read_sectors (medium s port sl) (unat lba + unat k) (unat secs - unat k)), ctl := C, chans := H\<rparr>))
    \<and> drive_ready dk ch port sl (s\<lparr>ram := M, ctl := C, chans := H\<rparr>)"
  using assms
proof (induction "unat secs - unat k" arbitrary: k s rule: less_induct)
  case less
  show ?case
  proof (cases "unat k < unat secs")
    case False
    then have "ide_read_loop dk lba addr secs k s = Some (Inr s)" by (simp add: ide_read_loop.simps word_less_nat_alt)
    moreover have "drive_ready dk ch port sl (s\<lparr>ram := M\<rparr>)" by (rule drive_ready_cong [OF less.prems(1)]) simp_all
    ultimately show ?thesis using False less.prems(5)
      by (intro exI [of _ "ctl s"] exI [of _ "chans s"]) (simp add: read_sectors_def)
  next
    case True
    let ?n = "secs_op k secs" and ?d = "medium s port sl"
    have al: "unat addr + 512 * unat secs \<le> 2 ^ 32" using less.prems(3) by (simp add: mapped_def)
    note so = secs_op_ok [OF True] and sa = sector_addr [OF al True less.prems(4)]
    have n: "1 \<le> unat ?n" "unat ?n \<le> 256" "unat k + unat ?n \<le> unat secs" "unat (k + ?n) = unat k + unat ?n"
      using so True less.prems(4) by auto
    have mk: "mapped (ram s) (unat addr + 512 * unat k) (512 * unat ?n)"
      using less.prems(3) n(3) mapped_le [of "ram s" "unat addr" "512 * unat secs" "512 * unat k + 512 * unat ?n"]
      by (simp add: mapped_add)
    let ?m = "put_bytes (ram s) (unat addr + 512 * unat k) (read_sectors ?d (unat lba + unat k) (unat ?n))"
    obtain C H where st: "ide_read_step dk lba addr k ?n s = Inr (s\<lparr>ram := ?m, ctl := C, chans := H\<rparr>)"
      "drive_ready dk ch port sl (s\<lparr>ram := ?m, ctl := C, chans := H\<rparr>)"
      using read_step_ok [OF less.prems(1) sa(3) n(1,2) less.prems(2), of addr ?m] mk unfolding sa by blast
    let ?t = "s\<lparr>ram := ?m, ctl := C, chans := H\<rparr>"
    have mt: "mapped (ram ?t) (unat addr) (512 * unat secs)" using less.prems(3) by (simp add: mapped_put_bytes)
    have lt: "unat secs - unat (k + ?n) < unat secs - unat k" using n True by simp
    obtain C' H' where ih: "ide_read_loop dk lba addr secs (k + ?n) ?t = Some (Inr (?t\<lparr>ram := put_bytes (ram ?t)
        (unat addr + 512 * unat (k + ?n)) (read_sectors ?d (unat lba + unat (k + ?n)) (unat secs - unat (k + ?n))), ctl := C', chans := H'\<rparr>))"
      "drive_ready dk ch port sl (?t\<lparr>ram := M, ctl := C', chans := H'\<rparr>)"
      using less.hyps [OF lt st(2) _ mt less.prems(4)] n less.prems(2) by auto
    have rs: "read_sectors ?d (unat lba + unat k) (unat secs - unat k) =
        read_sectors ?d (unat lba + unat k) (unat ?n) @ read_sectors ?d (unat lba + unat (k + ?n)) (unat secs - unat (k + ?n))"
      using read_sectors_add [of ?d "unat lba + unat k" "unat ?n" "unat secs - unat (k + ?n)"] n by (simp add: add.assoc)
    have "ide_read_loop dk lba addr secs k s = ide_read_loop dk lba addr secs (k + ?n) ?t"
      using True st(1) by (subst ide_read_loop.simps) (simp add: word_less_nat_alt)
    then show ?thesis using ih unfolding rs put_bytes_append
      using less.prems(2) n(4) by (auto simp: algebra_simps)
  qed
qed

lemma write_step_ok:
  fixes s :: "'a ide_scheme"
  assumes r: "drive_ready dk ch port sl s" and lba: "lba + k \<le> max_lba" and n: "1 \<le> unat n" "unat n \<le> 256"
    and h: "holds (ram s) (unat (addr + k * 512)) bs" "length bs = 512 * unat n"
  shows "\<exists>C H. ide_write_step dk lba addr k n s = Inr (s\<lparr>ctl := C, chans := H,
      medium := (medium s)(port := (medium s port)(sl := write_sectors (medium s port sl) (unat (lba + k)) bs (unat n)))\<rparr>)
    \<and> drive_ready dk ch port sl (s\<lparr>ctl := C, chans := H, medium := M\<rparr>)"
proof -
  obtain d c where d: "disks s dk = Some d" "my_channel d = ch"
    "select_sector dk (lba + k) (ucast n) s = Inr (s\<lparr>ctl := (ctl s)(port := selected sl (lba + k) n (ctl s port))\<rparr>)"
    "cmd_out ch 0x30 (s\<lparr>ctl := (ctl s)(port := selected sl (lba + k) n (ctl s port))\<rparr>) =
      Inr (ata_command port 0x30 (s\<lparr>ctl := (ctl s)(port := selected sl (lba + k) n (ctl s port)),
        chans := (chans s)(ch \<mapsto> c\<lparr>expecting_intr := True\<rparr>)\<rparr>))" "chans s ch = Some c" "port_base c = port"
    using issue_command [OF r lba] by metis
  note sr = selected_regs [OF lba n, of sl "ctl s port"]
  let ?A = "(selected sl (lba + k) n (ctl s port))\<lparr>rbuf := [], wleft := unat n\<rparr>"
  let ?M = "(medium s)(port := (medium s port)(sl := write_sectors (medium s port sl) (unat (lba + k)) bs (unat n)))"
  let ?s1 = "s\<lparr>ctl := (ctl s)(port := ?A), chans := (chans s)(ch \<mapsto> c\<lparr>expecting_intr := True\<rparr>)\<rparr>"
  let ?s2 = "s\<lparr>ctl := (ctl s)(port := ?A\<lparr>wleft := 0\<rparr>), chans := (chans s)(ch \<mapsto> c\<lparr>expecting_intr := True\<rparr>), medium := ?M\<rparr>"
  have cmd: "ata_command port 0x30 (s\<lparr>ctl := (ctl s)(port := selected sl (lba + k) n (ctl s port)),
        chans := (chans s)(ch \<mapsto> c\<lparr>expecting_intr := True\<rparr>)\<rparr>) = ?s1"
    using sr by (simp add: ata_command_def Let_def)
  have b: "bsy ?A = bsy (ctl s port)" by (simp add: selected_def)
  have r1: "drive_ready dk ch port sl ?s1" "drive_ready dk ch port sl ?s2"
    using d(5,6) b by (intro drive_ready_cong [OF r]; simp)+
  have bw: "busy_wait dk ?s1 = Inr (True, ?s1)" using busy_wait_ok [OF r1(1)] n(1) by simp
  have "ata_slave ?A = sl" "ata_lba ?A = unat (lba + k)" using sr by (simp_all add: ata_slave_def ata_lba_def)
  then have "ata_out port bs ?s1 = ?s2" by (simp add: ata_out_def set_reg_def Let_def)
  then have wr: "write2sector dk (unat (addr + k * 512)) (ucast n) ?s1 = Inr ?s2"
    using d(1,2,6) load_bytes_holds [OF h(1)] h(2)
    by (simp add: write2sector_def with_channel_def get_disk_def get_chan_def sector_count(2) [OF n])
  have aw: "await_disk dk ?s2 = Inr (s\<lparr>ctl := (ctl s)(port := ?A\<lparr>wleft := 0\<rparr>),
      chans := (chans s)(ch \<mapsto> c\<lparr>expecting_intr := False\<rparr>), medium := ?M\<rparr>)"
    using await_disk_ok [OF r1(2), of "c\<lparr>expecting_intr := True\<rparr>"] by simp
  have "ide_write_step dk lba addr k n s = Inr (s\<lparr>ctl := (ctl s)(port := ?A\<lparr>wleft := 0\<rparr>),
      chans := (chans s)(ch \<mapsto> c\<lparr>expecting_intr := False\<rparr>), medium := ?M\<rparr>)"
    using d(1-4) cmd aw bw wr by (simp add: ide_write_step_def get_disk_def)
  moreover have "drive_ready dk ch port sl (s\<lparr>ctl := (ctl s)(port := ?A\<lparr>wleft := 0\<rparr>),
      chans := (chans s)(ch \<mapsto> c\<lparr>expecting_intr := False\<rparr>), medium := M\<rparr>)"
    using d(5,6) b by (intro drive_ready_cong [OF r]) simp_all
  ultimately show ?thesis by blast
qed

lemma holds_slice:
  assumes "holds m p bs" "i + n \<le> length bs"
  shows "holds m (p + i) (take n (drop i bs))"
  using assms by (auto simp: holds_def add.assoc)

lemma write_loop_ok:
  fixes s :: "'a ide_scheme"
  assumes "drive_ready dk ch port sl s" "holds (ram s) (unat addr) bs" "length bs = 512 * unat secs"
    and "unat lba + unat secs \<le> 163840" "unat k \<le> unat secs"
  shows "\<exists>C H. ide_write_loop dk lba addr secs k s = Some (Inr (s\<lparr>ctl := C, chans := H, medium := (medium s)(port := (medium s port)(sl :=
        write_sectors (medium s port sl) (unat lba + unat k) (drop (512 * unat k) bs) (unat secs - unat k)))\<rparr>))
    \<and> drive_ready dk ch port sl (s\<lparr>ctl := C, chans := H, medium := M\<rparr>)"
  using assms
proof (induction "unat secs - unat k" arbitrary: k s rule: less_induct)
  case less
  show ?case
  proof (cases "unat k < unat secs")
    case False
    then have "ide_write_loop dk lba addr secs k s = Some (Inr s)" by (simp add: ide_write_loop.simps word_less_nat_alt)
    moreover have "drive_ready dk ch port sl (s\<lparr>medium := M\<rparr>)" by (rule drive_ready_cong [OF less.prems(1)]) simp_all
    ultimately show ?thesis using False less.prems(5)
      by (intro exI [of _ "ctl s"] exI [of _ "chans s"]) simp
  next
    case True
    let ?n = "secs_op k secs" and ?d = "medium s port sl"
    let ?bs = "take (512 * unat ?n) (drop (512 * unat k) bs)"
    have al: "unat addr + 512 * unat secs \<le> 2 ^ 32" using less.prems(2,3) by (simp add: holds_def)
    note so = secs_op_ok [OF True] and sa = sector_addr [OF al True less.prems(4)]
    have n: "1 \<le> unat ?n" "unat ?n \<le> 256" "unat k + unat ?n \<le> unat secs" "unat (k + ?n) = unat k + unat ?n"
      using so True less.prems(4) by auto
    have hb: "holds (ram s) (unat addr + 512 * unat k) ?bs" "length ?bs = 512 * unat ?n"
      using holds_slice [OF less.prems(2), of "512 * unat k" "512 * unat ?n"] less.prems(3) n(3) by auto
    let ?w = "write_sectors ?d (unat lba + unat k) (drop (512 * unat k) bs) (unat ?n)"
    let ?M = "(medium s)(port := (medium s port)(sl := ?w))"
    have we: "write_sectors ?d (unat lba + unat k) ?bs (unat ?n) = ?w" by (rule write_sectors_take) simp
    obtain C H where st: "ide_write_step dk lba addr k ?n s = Inr (s\<lparr>ctl := C, chans := H, medium := ?M\<rparr>)"
      "drive_ready dk ch port sl (s\<lparr>ctl := C, chans := H, medium := ?M\<rparr>)"
      using write_step_ok [OF less.prems(1) sa(3) n(1,2), of addr ?bs ?M] hb unfolding sa we by blast
    let ?t = "s\<lparr>ctl := C, chans := H, medium := ?M\<rparr>"
    have lt: "unat secs - unat (k + ?n) < unat secs - unat k" using n True by simp
    obtain C' H' where ih: "ide_write_loop dk lba addr secs (k + ?n) ?t = Some (Inr (?t\<lparr>ctl := C', chans := H', medium :=
        (medium ?t)(port := (medium ?t port)(sl := write_sectors (medium ?t port sl) (unat lba + unat (k + ?n))
          (drop (512 * unat (k + ?n)) bs) (unat secs - unat (k + ?n))))\<rparr>))"
      "drive_ready dk ch port sl (?t\<lparr>ctl := C', chans := H', medium := M\<rparr>)"
      using less.hyps [OF lt st(2) _ less.prems(3,4)] n less.prems(2) by auto
    have ws: "write_sectors ?d (unat lba + unat k) (drop (512 * unat k) bs) (unat secs - unat k) =
        write_sectors ?w (unat lba + unat (k + ?n)) (drop (512 * unat (k + ?n)) bs) (unat secs - unat (k + ?n))"
      using write_sectors_add [of ?d "unat lba + unat k" "drop (512 * unat k) bs" "unat ?n" "unat secs - unat (k + ?n)"] n
      by (simp add: algebra_simps)
    have "ide_write_loop dk lba addr secs k s = ide_write_loop dk lba addr secs (k + ?n) ?t"
      using True st(1) by (subst ide_write_loop.simps) (simp add: word_less_nat_alt)
    then show ?thesis using ih unfolding ws by auto
  qed
qed

section \<open>The driver's operations\<close>

lemma locked_ide [simp]:
  "disks (locked l s) = disks s" "chans (locked l s) = chans s" "ctl (locked l s) = ctl s" "channels (locked l s) = channels s"
  "medium (locked l s) = medium s" "ram (locked l s) = ram s" "elems (locked l s) = elems s"
  by (simp_all add: locked_def set_value_def set_holder_def set_repeat_def)

lemma channel_lock_cycle:
  fixes s :: "'a ide_scheme"
  assumes free: "lock_free l s" and t: "t = (locked l s)\<lparr>ram := m, ctl := C, chans := H, medium := M\<rparr>"
  shows "lock_release l t = Inr (s\<lparr>ram := m, ctl := C, chans := H, medium := M\<rparr>)"
proof -
  have "list_empty (waiters (lock_sema l)) t = Inr True"
    using free list_empty_cong [of t s] by (simp add: lock_free_def t)
  moreover have "running_thread t = running_thread s"
    by (simp add: running_thread_def t locked_def set_value_def set_holder_def set_repeat_def)
  ultimately have "lock_release l t = Inr (unlocked l t)" by (intro lock_release_alone) (simp_all add: t)
  then show ?thesis
    using free by (simp add: t unlocked_def locked_def lock_free_def set_value_def set_holder_def set_repeat_def fun_upd_idem)
qed

lemma drive_ready_locked:
  assumes "drive_ready dk ch port sl s"
  shows "drive_ready dk ch port sl (locked (channel_lock ch) s)"
    "drive_ready dk ch port sl ((locked (channel_lock ch) s)\<lparr>ctl := (ctl s)(port := (ctl s port)\<lparr>r_dev := x\<rparr>)\<rparr>)"
  by (rule drive_ready_cong [OF assms];
     simp add: locked_def set_value_def set_holder_def set_repeat_def channel_lock_def disk_done_def lock_sema_def)+

lemma select_disk_ok:
  assumes "drive_ready dk ch port sl s"
  shows "\<exists>x. select_disk dk s = Inr (s\<lparr>ctl := (ctl s)(port := (ctl s port)\<lparr>r_dev := x\<rparr>)\<rparr>)"
  using assms by (auto elim!: drive_readyE simp: select_disk_def with_channel_def get_disk_def get_chan_def set_reg_def Let_def)

text \<open>A drive whose channel nobody holds, and a run of sectors inside the disk.\<close>

definition drive_free :: "nat \<Rightarrow> nat \<Rightarrow> u16 \<Rightarrow> bool \<Rightarrow> 'a ide_scheme \<Rightarrow> bool" where
  "drive_free dk ch port sl s \<longleftrightarrow> drive_ready dk ch port sl s \<and> lock_free (channel_lock ch) s \<and> running_thread s \<noteq> 0
     \<and> whole_sectors (medium s port sl)"

definition sector_run :: "u32 \<Rightarrow> u32 \<Rightarrow> bool" where
  "sector_run lba secs \<longleftrightarrow> 0 < secs \<and> unat lba + unat secs \<le> 163840"

lemma sector_runD: "sector_run lba secs \<Longrightarrow> lba \<le> max_lba" "sector_run lba secs \<Longrightarrow> 0 < secs"
  by (auto simp: sector_run_def max_lba_def word_le_nat_alt word_less_nat_alt)

lemma drive_free_cong:
  assumes "drive_free dk ch port sl s" "drive_ready dk ch port sl (s\<lparr>ctl := C, chans := H\<rparr>)" "whole_sectors (M port sl)"
  shows "drive_free dk ch port sl (s\<lparr>ram := m, ctl := C, chans := H, medium := M\<rparr>)"
proof -
  let ?t = "s\<lparr>ram := m, ctl := C, chans := H, medium := M\<rparr>"
  have "drive_ready dk ch port sl ?t" by (rule drive_ready_cong [OF assms(2)]) simp_all
  then show ?thesis
    using assms(1,3) list_empty_cong [of ?t s] by (simp add: drive_free_def lock_free_def running_thread_def)
qed

lemma ide_read_reads:
  fixes s :: "'a ide_scheme"
  assumes f: "drive_free dk ch port sl s" and run: "sector_run lba secs" and m: "mapped (ram s) (unat addr) (512 * unat secs)"
  shows "\<exists>C H. ide_read dk lba addr secs s = Inr (s\<lparr>ram := put_bytes (ram s) (unat addr)
      (read_sectors (medium s port sl) (unat lba) (unat secs)), ctl := C, chans := H\<rparr>)
    \<and> drive_ready dk ch port sl (s\<lparr>ctl := C, chans := H\<rparr>)"
proof -
  let ?l = "channel_lock ch" and ?bs = "read_sectors (medium s port sl) (unat lba) (unat secs)"
  note df = f [unfolded drive_free_def]
  obtain d where d: "disks s dk = Some d" "my_channel d = ch" using df by (auto elim!: drive_readyE)
  have aq: "acquire_now ?l s = Inr (locked ?l s)" using df by (intro acquire_now_free) simp_all
  have rl: "drive_ready dk ch port sl (locked ?l s)"
    using drive_ready_locked(1) df by blast
  obtain x where x: "select_disk dk (locked ?l s) = Inr ((locked ?l s)\<lparr>ctl := (ctl s)(port := (ctl s port)\<lparr>r_dev := x\<rparr>)\<rparr>)"
    using select_disk_ok [OF rl] by auto
  let ?u = "(locked ?l s)\<lparr>ctl := (ctl s)(port := (ctl s port)\<lparr>r_dev := x\<rparr>)\<rparr>"
  obtain C H where lp: "ide_read_loop dk lba addr secs 0 ?u = Some (Inr (?u\<lparr>ram := put_bytes (ram s) (unat addr) ?bs, ctl := C, chans := H\<rparr>))"
    "drive_ready dk ch port sl (?u\<lparr>ram := ram s, ctl := C, chans := H\<rparr>)"
    using read_loop_ok [of dk ch port sl ?u addr secs lba 0 "ram s"] drive_ready_locked(2) [of dk ch port sl s x] df m run
    by (auto simp: sector_run_def)
  have rel: "lock_release ?l (?u\<lparr>ram := put_bytes (ram s) (unat addr) ?bs, ctl := C, chans := H\<rparr>)
      = Inr (s\<lparr>ram := put_bytes (ram s) (unat addr) ?bs, ctl := C, chans := H, medium := medium s\<rparr>)"
    by (rule channel_lock_cycle) (use df in simp_all)
  have "drive_ready dk ch port sl (s\<lparr>ctl := C, chans := H\<rparr>)"
    by (rule drive_ready_cong [OF lp(2)])
      (simp_all add: locked_def set_value_def set_holder_def set_repeat_def channel_lock_def disk_done_def lock_sema_def)
  then show ?thesis
    using sector_runD [OF run] d aq x lp(1) rel by (auto simp: ide_read_def get_disk_def run_walk_def)
qed

lemma ide_write_writes:
  fixes s :: "'a ide_scheme"
  assumes f: "drive_free dk ch port sl s" and run: "sector_run lba secs"
    and h: "holds (ram s) (unat addr) bs" "length bs = 512 * unat secs"
  shows "\<exists>C H. ide_write dk lba addr secs s = Inr (s\<lparr>ctl := C, chans := H, medium := (medium s)(port := (medium s port)(sl :=
      write_sectors (medium s port sl) (unat lba) bs (unat secs)))\<rparr>)
    \<and> drive_ready dk ch port sl (s\<lparr>ctl := C, chans := H\<rparr>)"
proof -
  let ?l = "channel_lock ch"
  let ?M = "(medium s)(port := (medium s port)(sl := write_sectors (medium s port sl) (unat lba) bs (unat secs)))"
  note df = f [unfolded drive_free_def]
  obtain d where d: "disks s dk = Some d" "my_channel d = ch" using df by (auto elim!: drive_readyE)
  have aq: "acquire_now ?l s = Inr (locked ?l s)" using df by (intro acquire_now_free) simp_all
  have rl: "drive_ready dk ch port sl (locked ?l s)"
    using drive_ready_locked(1) df by blast
  obtain x where x: "select_disk dk (locked ?l s) = Inr ((locked ?l s)\<lparr>ctl := (ctl s)(port := (ctl s port)\<lparr>r_dev := x\<rparr>)\<rparr>)"
    using select_disk_ok [OF rl] by auto
  let ?u = "(locked ?l s)\<lparr>ctl := (ctl s)(port := (ctl s port)\<lparr>r_dev := x\<rparr>)\<rparr>"
  obtain C H where lp: "ide_write_loop dk lba addr secs 0 ?u = Some (Inr (?u\<lparr>ctl := C, chans := H, medium := ?M\<rparr>))"
    "drive_ready dk ch port sl (?u\<lparr>ctl := C, chans := H, medium := medium s\<rparr>)"
    using write_loop_ok [of dk ch port sl ?u addr bs secs lba 0 "medium s"] drive_ready_locked(2) [of dk ch port sl s x] df h run
    by (auto simp: sector_run_def)
  have rel: "lock_release ?l (?u\<lparr>ctl := C, chans := H, medium := ?M\<rparr>) = Inr (s\<lparr>ram := ram s, ctl := C, chans := H, medium := ?M\<rparr>)"
    by (rule channel_lock_cycle) (use df in simp_all)
  have "drive_ready dk ch port sl (s\<lparr>ctl := C, chans := H\<rparr>)"
    by (rule drive_ready_cong [OF lp(2)])
      (simp_all add: locked_def set_value_def set_holder_def set_repeat_def channel_lock_def disk_done_def lock_sema_def)
  then show ?thesis
    using sector_runD [OF run] d aq x lp(1) rel by (auto simp: ide_write_def get_disk_def run_walk_def)
qed

text \<open>
  C10. \<open>ide_read\<close> on a free drive returns, whatever the number of sectors: the buffer holds exactly the contents of the
  sectors from \<open>lba\<close> on, the disk and the rest of memory are unchanged, and the drive is free again.
\<close>

theorem ide_read_correct:
  assumes "drive_free dk ch port sl s" "sector_run lba secs" "mapped (ram s) (unat addr) (512 * unat secs)"
  shows "\<exists>t. ide_read dk lba addr secs s = Inr t \<and> medium t = medium s \<and> drive_free dk ch port sl t
    \<and> ram t = put_bytes (ram s) (unat addr) (read_sectors (medium s port sl) (unat lba) (unat secs))"
proof -
  obtain C H where "ide_read dk lba addr secs s = Inr (s\<lparr>ram := put_bytes (ram s) (unat addr)
      (read_sectors (medium s port sl) (unat lba) (unat secs)), ctl := C, chans := H\<rparr>)"
    "drive_ready dk ch port sl (s\<lparr>ctl := C, chans := H\<rparr>)"
    using ide_read_reads [OF assms] by blast
  then show ?thesis
    using drive_free_cong [OF assms(1), where C = C and H = H and M = "medium s" and m = "put_bytes (ram s) (unat addr)
      (read_sectors (medium s port sl) (unat lba) (unat secs))"] assms(1)
    by (auto simp: drive_free_def)
qed

text \<open>
  C11. What \<open>ide_write\<close> wrote is read back: writing whole sectors and reading the same sectors into another buffer gives
  the same bytes there, and every other sector keeps its contents.
\<close>

theorem ide_write_read:
  assumes "drive_free dk ch port sl s" "sector_run lba secs" "holds (ram s) (unat addr) bs" "length bs = 512 * unat secs"
    and "mapped (ram s) (unat addr') (512 * unat secs)"
  shows "\<exists>t u. ide_write dk lba addr secs s = Inr t \<and> ide_read dk lba addr' secs t = Inr u
    \<and> holds (ram u) (unat addr') bs \<and> medium u = medium t
    \<and> (\<forall>p x l. p \<noteq> port \<or> x \<noteq> sl \<or> l < unat lba \<or> unat lba + unat secs \<le> l \<longrightarrow> medium u p x l = medium s p x l)"
proof -
  let ?w = "write_sectors (medium s port sl) (unat lba) bs (unat secs)"
  let ?M = "(medium s)(port := (medium s port)(sl := ?w))"
  obtain C H where t: "ide_write dk lba addr secs s = Inr (s\<lparr>ctl := C, chans := H, medium := ?M\<rparr>)"
    "drive_ready dk ch port sl (s\<lparr>ctl := C, chans := H\<rparr>)"
    using ide_write_writes [OF assms(1-4)] by blast
  let ?t = "s\<lparr>ctl := C, chans := H, medium := ?M\<rparr>"
  have w: "whole_sectors ?w" using assms(1,4) by (simp add: drive_free_def whole_write)
  have ft: "drive_free dk ch port sl ?t" using drive_free_cong [OF assms(1) t(2), where M = ?M and m = "ram s"] w by simp
  have "mapped (ram ?t) (unat addr') (512 * unat secs)" using assms(5) by simp
  from ide_read_reads [OF ft assms(2) this] obtain C' H' where u: "ide_read dk lba addr' secs ?t =
      Inr (?t\<lparr>ram := put_bytes (ram s) (unat addr') bs, ctl := C', chans := H'\<rparr>)"
    using read_write_sectors [OF assms(4)] by auto
  have "holds (put_bytes (ram s) (unat addr') bs) (unat addr') bs"
    using assms(4,5) by (intro holds_put_bytes) (simp add: mapped_def)
  then show ?thesis using t(1) u by (auto simp: write_sectors_other)
qed

section \<open>Witnesses\<close>

text \<open>
  The first channel at address 5000 with its first drive at 5064, whose sectors all hold 0, and memory from \<open>0x20000\<close> on.
\<close>

definition demo_ide :: ide where
  "demo_ide = dev.extend (demo_dev\<lparr>elems := empty_list 5048 (empty_list 5020 Map.empty), ram := (\<lambda>a. if 0x20000 \<le> a then Some 7 else None),
      sema_value := (\<lambda>_. 1)(5044 := 0)\<rparr>)
    (ide.fields (\<lambda>_. \<lparr>r_cnt = 0, r_low = 0, r_mid = 0, r_high = 0, r_dev = 0, bsy = False, rbuf = [], wleft = 0\<rparr>)
      (\<lambda>_ _ _. replicate 512 0) (\<lambda>_ _. replicate 512 0)
      [5000 \<mapsto> \<lparr>cname = bytes ''ide0'', port_base = 0x1f0, irq_no = 0x2e, expecting_intr = False\<rparr>]
      [5064 \<mapsto> \<lparr>dname = bytes ''sda'', my_channel = 5000, dev_no = 0\<rparr>]
      (\<lambda>_. None) 5000 1 9000 0 0 0 0)"

lemmas demo_ide_simps = demo_ide_def dev.extend_def ide.fields_def demo_dev_simps

lemma demo_ide_free: "drive_free 5064 5000 0x1f0 False demo_ide"
proof -
  have "drive_ready 5064 5000 0x1f0 False demo_ide" unfolding drive_ready_def
    by (rule exI [of _ "\<lparr>dname = bytes ''sda'', my_channel = 5000, dev_no = 0\<rparr>"],
        rule exI [of _ "\<lparr>cname = bytes ''ide0'', port_base = 0x1f0, irq_no = 0x2e, expecting_intr = False\<rparr>"], rule exI [of _ 0])
      (simp add: demo_ide_simps channel_at_def disk_done_def waiters_def list_empty_def get_node_def list_tail_def)
  moreover have "lock_free (channel_lock 5000) demo_ide"
    by (simp add: lock_free_def channel_lock_def lock_sema_def waiters_def list_empty_def get_node_def list_tail_def demo_ide_simps)
  ultimately show ?thesis by (simp add: drive_free_def running_thread_def whole_sectors_def demo_ide_simps)
qed

theorem ide_read_correct_witness:
  "\<exists>t. ide_read 5064 100 0x30000 300 demo_ide = Inr t \<and> medium t = medium demo_ide \<and> drive_free 5064 5000 0x1f0 False t
    \<and> ram t = put_bytes (ram demo_ide) (unat (0x30000 :: u32)) (read_sectors (medium demo_ide 0x1f0 False) (unat (100 :: u32)) (unat (300 :: u32)))"
  by (rule ide_read_correct [OF demo_ide_free]) (auto simp: sector_run_def mapped_def demo_ide_simps)

theorem ide_write_read_witness:
  "\<exists>t u. ide_write 5064 100 0x30000 300 demo_ide = Inr t \<and> ide_read 5064 100 0x80000 300 t = Inr u
    \<and> holds (ram u) (unat (0x80000 :: u32)) (replicate (512 * 300) 7) \<and> medium u = medium t
    \<and> (\<forall>p x l. p \<noteq> 0x1f0 \<or> x \<noteq> False \<or> l < unat (100 :: u32) \<or> unat (100 :: u32) + unat (300 :: u32) \<le> l
        \<longrightarrow> medium u p x l = medium demo_ide p x l)"
  by (rule ide_write_read [OF demo_ide_free]) (auto simp: sector_run_def mapped_def holds_def demo_ide_simps)

end
