(* ===== verification/Inode_Proofs.thy ===== *)
theory Inode_Proofs
  imports Inode Ide_Proofs Memory_Pages
begin

text \<open>
  The layout of the inode table, inodes as bytes, and the effect of \<open>inode_sync\<close> on the bytes of the disk.
\<close>

section \<open>Bytes of a disk\<close>

definition disk_byte :: "(nat \<Rightarrow> u8 list) \<Rightarrow> nat \<Rightarrow> u8" where
  "disk_byte d i = d (i div 512) ! (i mod 512)"

lemma read_sectors_nth:
  assumes "whole_sectors d" "j < 512 * n"
  shows "read_sectors d lba n ! j = disk_byte d (512 * lba + j)"
  using assms(2)
proof (induction n arbitrary: lba j)
  case (Suc n)
  have l: "length (d lba) = 512" using assms(1) by (simp add: whole_sectors_def)
  show ?case
  proof (cases "j < 512")
    case True
    then show ?thesis using l by (simp add: read_sectors_Suc nth_append disk_byte_def)
  next
    case False
    have "read_sectors d (Suc lba) n ! (j - 512) = disk_byte d (512 * Suc lba + (j - 512))"
      using Suc.IH [of "j - 512" "Suc lba"] Suc.prems False by simp
    then show ?thesis using l False by (simp add: read_sectors_Suc nth_append)
  qed
qed simp

lemma write_sectors_nth:
  assumes "lba \<le> l" "l < lba + n"
  shows "write_sectors d lba bs n l = take 512 (drop (512 * (l - lba)) bs)"
  using assms
proof (induction n arbitrary: d lba bs)
  case (Suc n)
  show ?case
  proof (cases "l = lba")
    case False
    then have "write_sectors (d(lba := take 512 bs)) (Suc lba) (drop 512 bs) n l = take 512 (drop (512 * (l - Suc lba)) (drop 512 bs))"
      using Suc by (intro Suc.IH) simp_all
    moreover have "512 * (l - Suc lba) + 512 = 512 * (l - lba)" using False Suc.prems by simp
    ultimately show ?thesis by simp
  qed (simp add: write_sectors_other)
qed simp

lemma disk_byte_write:
  assumes "length bs = 512 * n"
  shows "disk_byte (write_sectors d lba bs n) i =
    (if 512 * lba \<le> i \<and> i < 512 * (lba + n) then bs ! (i - 512 * lba) else disk_byte d i)"
proof -
  let ?l = "i div 512"
  have in_iff: "512 * lba \<le> i \<and> i < 512 * (lba + n) \<longleftrightarrow> lba \<le> ?l \<and> ?l < lba + n"
    by (simp add: less_eq_div_iff_mult_less_eq div_less_iff_less_mult mult.commute)
  show ?thesis
  proof (cases "lba \<le> ?l \<and> ?l < lba + n")
    case True
    have i: "i - 512 * lba = 512 * (?l - lba) + i mod 512" using True by (simp add: diff_mult_distrib2)
    have "Suc (?l - lba) \<le> n" using True by auto
    then have "512 * Suc (?l - lba) \<le> 512 * n" by (rule mult_le_mono2)
    then have "512 * (?l - lba) + 512 \<le> length bs" using assms by simp
    then have "take 512 (drop (512 * (?l - lba)) bs) ! (i mod 512) = bs ! (i - 512 * lba)" unfolding i by simp
    then show ?thesis unfolding in_iff using True write_sectors_nth [of lba ?l n d bs] by (simp add: disk_byte_def)
  next
    case False
    then show ?thesis unfolding in_iff using write_sectors_other [of ?l lba n d bs] by (auto simp: disk_byte_def)
  qed
qed

text \<open>A piece of the sectors replaced by other bytes.\<close>

definition patched :: "u8 list \<Rightarrow> nat \<Rightarrow> u8 list \<Rightarrow> u8 list" where
  "patched bs off e = take off bs @ e @ drop (off + length e) bs"

lemma patched_nth:
  assumes "off + length e \<le> length bs" "j < length bs"
  shows "patched bs off e ! j = (if off \<le> j \<and> j < off + length e then e ! (j - off) else bs ! j)"
  using assms by (auto simp: patched_def nth_append)

lemma put_patched:
  assumes "off + length e \<le> length bs"
  shows "put_bytes (put_bytes m a bs) (a + off) e = put_bytes m a (patched bs off e)"
  using assms by (auto simp: put_bytes_def patched_nth fun_eq_iff patched_def nth_append)

lemma disk_byte_patch:
  assumes "whole_sectors d" "off + length e \<le> 512 * n"
  shows "disk_byte (write_sectors d lba (patched (read_sectors d lba n) off e) n) i =
    (if 512 * lba + off \<le> i \<and> i < 512 * lba + off + length e then e ! (i - (512 * lba + off)) else disk_byte d i)"
proof -
  let ?bs = "read_sectors d lba n"
  have l: "length ?bs = 512 * n" using assms(1) by simp
  have lp: "length (patched ?bs off e) = 512 * n" using l assms(2) by (simp add: patched_def)
  show ?thesis
  proof (cases "512 * lba \<le> i \<and> i < 512 * (lba + n)")
    case True
    let ?j = "i - 512 * lba"
    have j: "?j < 512 * n" using True by (simp add: less_diff_conv2 add.commute)
    have "patched ?bs off e ! ?j = (if off \<le> ?j \<and> ?j < off + length e then e ! (?j - off) else ?bs ! ?j)"
      using patched_nth [of off e ?bs ?j] l assms(2) j by simp
    moreover have "?bs ! ?j = disk_byte d i" using read_sectors_nth [OF assms(1) j, of lba] True by simp
    ultimately show ?thesis using disk_byte_write [OF lp, of d lba i] True by auto
  next
    case False
    then show ?thesis using disk_byte_write [OF lp, of d lba i] assms(2) by auto
  qed
qed

section \<open>Inodes as bytes\<close>

lemma bytes_of_word_nth:
  "length (bytes_of_word w) = 4" "word_of_bytes (bytes_of_word w ! 0) (bytes_of_word w ! 1) (bytes_of_word w ! 2) (bytes_of_word w ! 3) = w"
  using word_bytes [of w] by (simp_all add: bytes_of_word_def)

lemma word_at_append:
  "word_at (bytes_of_word w @ bs) 0 = w" "word_at (bytes_of_word w @ bs) (k + 4) = word_at bs k"
  using word_bytes [of w] by (simp_all add: word_at_def bytes_of_word_def add.commute)

lemma word_at_words: "k < length ws \<Longrightarrow> word_at (concat (map bytes_of_word ws) @ bs) (4 * k) = ws ! k"
proof (induction ws arbitrary: k)
  case (Cons w ws)
  show ?case
  proof (cases k)
    case 0
    then show ?thesis using word_at_append(1) by simp
  next
    case (Suc j)
    then show ?thesis using Cons word_at_append(2) [of w "concat (map bytes_of_word ws) @ bs" "4 * j"] by (simp add: add.commute)
  qed
qed simp

lemma length_encode: "length (i_sectors i) = 13 \<Longrightarrow> length (encode_inode i e) = 76"
proof -
  have "length (concat (map bytes_of_word ws)) = 4 * length ws" for ws by (induction ws) (simp_all add: bytes_of_word_nth)
  then show "length (i_sectors i) = 13 \<Longrightarrow> length (encode_inode i e) = 76" by (simp add: encode_inode_def bytes_of_word_nth)
qed

lemma decode_encode:
  assumes "length (i_sectors i) = 13"
  shows "decode_inode (encode_inode i e) = i"
proof -
  let ?rest = "concat (map bytes_of_word (i_sectors i)) @ bytes_of_word (of_nat (prev e)) @ bytes_of_word (of_nat (next e))"
  let ?d = "bytes_of_word (if write_deny i then 1 else 0)"
  have enc: "encode_inode i e = bytes_of_word (i_no i) @ bytes_of_word (i_size i) @ bytes_of_word (i_open_cnts i) @ ?d @ ?rest"
    by (simp add: encode_inode_def)
  have sk: "word_at (bytes_of_word w @ bs) k = word_at bs (k - 4)" if "4 \<le> k" for w bs k using word_at_append(2) [of w bs "k - 4"] that by simp
  have f: "word_at (encode_inode i e) 0 = i_no i" "word_at (encode_inode i e) 4 = i_size i"
    "word_at (encode_inode i e) 8 = i_open_cnts i" "word_at (encode_inode i e) 12 = (if write_deny i then 1 else 0)"
    "word_at (encode_inode i e) (16 + 4 * k) = word_at ?rest (4 * k)" for k
    unfolding enc by (simp_all only: sk word_at_append(1)) (simp_all add: sk word_at_append(1))
  have "map (\<lambda>k. word_at (encode_inode i e) (16 + 4 * k)) [0..<13] = i_sectors i"
    using assms word_at_words [of _ "i_sectors i"] by (intro nth_equalityI) (simp_all add: f)
  then show ?thesis unfolding decode_inode_def f by simp
qed

section \<open>The inode table\<close>

lemma inode_locate_ok:
  assumes "parts s part = Some p" "sbs s (sb p) = Some b" "unat no < 4096" "unat (inode_table_lba b) + 608 < 2 ^ 32"
  shows "\<exists>pos. inode_locate part no s = Inr pos \<and> 512 * unat (sec_lba pos) + unat (off_size pos) = 512 * unat (inode_table_lba b) + 76 * unat no
    \<and> unat (sec_lba pos) = unat (inode_table_lba b) + 76 * unat no div 512
    \<and> unat (off_size pos) < 512 \<and> (two_sec pos \<longleftrightarrow> 512 < unat (off_size pos) + 76)"
proof -
  let ?off = "no * of_nat sizeof_inode" and ?k = "76 * unat no"
  have off: "unat ?off = ?k" using assms(3) by (simp add: sizeof_inode_def unat_word_ariths mult.commute)
  have d: "unat (?off div 512) = ?k div 512" "unat (?off mod 512) = ?k mod 512"
    using off by (simp_all add: unat_div unat_mod)
  have "?k div 512 \<le> 608" using assms(3) by simp
  then have sec: "unat (inode_table_lba b + ?off div 512) = unat (inode_table_lba b) + ?k div 512"
    using unat_sum [of "inode_table_lba b" "?off div 512"] d(1) assms(4) by simp
  have "?off mod 512 \<le> 512" using d(2) by (simp add: word_le_nat_alt)
  then have left: "unat (512 - ?off mod 512) = 512 - ?k mod 512" using d(2) by (simp add: unat_sub)
  have two: "512 - ?off mod 512 < of_nat sizeof_inode \<longleftrightarrow> 512 < ?k mod 512 + 76"
    using left by (auto simp: word_less_nat_alt sizeof_inode_def)
  let ?pos = "\<lparr>two_sec = 512 - ?off mod 512 < of_nat sizeof_inode, sec_lba = inode_table_lba b + ?off div 512, off_size = ?off mod 512\<rparr>"
  have "inode_locate part no s = Inr ?pos"
    using assms(1,2,3) by (simp add: inode_locate_def part_sb_def get_part_def get_sb_def word_less_nat_alt Let_def)
  moreover have "512 * (unat (inode_table_lba b) + ?k div 512) + ?k mod 512 = 512 * unat (inode_table_lba b) + ?k"
    using mult_div_mod_eq [of 512 ?k] by (simp add: distrib_left)
  ultimately show ?thesis using sec d two by (intro exI [of _ ?pos]) simp
qed

lemma update_inode_ok:
  fixes s :: "'a fs_scheme"
  assumes f: "drive_free dk ch port sl s" and pos: "unat (off_size pos) < 512" "two_sec pos \<longleftrightarrow> 512 < unat (off_size pos) + 76"
    and run: "unat (sec_lba pos) + 2 \<le> 163840" and m: "mapped (ram s) (unat iob) 1024" and e: "length e = 76"
  defines "lba \<equiv> unat (sec_lba pos)" and "d \<equiv> medium s port sl" and "n \<equiv> (if two_sec pos then 2 else 1)"
  shows "\<exists>C H. update_inode_bytes dk pos e iob s = Inr (s\<lparr>ram := put_bytes (ram s) (unat iob) (patched (read_sectors d lba n) (unat (off_size pos)) e),
      ctl := C, chans := H, medium := (medium s)(port := (medium s port)(sl := write_sectors d lba (patched (read_sectors d lba n) (unat (off_size pos)) e) n))\<rparr>)
    \<and> drive_ready dk ch port sl (s\<lparr>ctl := C, chans := H\<rparr>)"
proof -
  let ?n = "if two_sec pos then 2 else 1 :: u32" and ?off = "unat (off_size pos)"
  have n: "unat ?n = n" "n \<le> 2" "?off + 76 \<le> 512 * n" using pos by (auto simp: n_def)
  have sr: "sector_run (sec_lba pos) ?n" using run by (auto simp: sector_run_def word_less_nat_alt n_def)
  have w: "whole_sectors d" using f by (simp add: drive_free_def d_def)
  let ?bs = "read_sectors d lba n"
  have lb: "length ?bs = 512 * n" using w by simp
  have mn: "mapped (ram s) (unat iob) (512 * unat ?n)" using mapped_le [OF m] n by simp
  obtain C H where r: "ide_read dk (sec_lba pos) iob ?n s = Inr (s\<lparr>ram := put_bytes (ram s) (unat iob) ?bs, ctl := C, chans := H\<rparr>)"
    "drive_ready dk ch port sl (s\<lparr>ctl := C, chans := H\<rparr>)"
    using ide_read_reads [OF f sr mn] n(1) by (auto simp: d_def lba_def)
  let ?s1 = "s\<lparr>ram := put_bytes (ram s) (unat iob) ?bs, ctl := C, chans := H\<rparr>"
  have "unat iob + 1024 \<le> 2 ^ 32" using m by (simp add: mapped_def)
  then have ao: "unat (iob + off_size pos) = unat iob + ?off" using unat_sum [of iob "off_size pos"] pos(1) by simp
  have "mapped (ram ?s1) (unat iob + ?off) (length e)"
    using mapped_le [OF m, of "?off + 76"] pos(1) n e by (simp add: mapped_put_bytes mapped_add)
  then have st: "store_bytes (ram ?s1) (unat (iob + off_size pos)) e = Inr (put_bytes (ram s) (unat iob) (patched ?bs ?off e))"
    using store_bytes_put put_patched [of ?off e ?bs "ram s" "unat iob"] lb n e ao by simp
  let ?s2 = "s\<lparr>ram := put_bytes (ram s) (unat iob) (patched ?bs ?off e), ctl := C, chans := H\<rparr>"
  have lp: "length (patched ?bs ?off e) = 512 * n" using lb n e by (simp add: patched_def)
  have f2: "drive_free dk ch port sl ?s2"
    using drive_free_cong [OF f r(2), where M = "medium s" and m = "put_bytes (ram s) (unat iob) (patched ?bs ?off e)"] w by (simp add: d_def)
  have "holds (ram ?s2) (unat iob) (patched ?bs ?off e)"
    using holds_put_bytes [of "unat iob" "patched ?bs ?off e" "ram s"] lp m n by (auto simp: mapped_def)
  from ide_write_writes [OF f2 sr this] obtain C' H' where wr: "ide_write dk (sec_lba pos) iob ?n ?s2 = Inr (?s2\<lparr>ctl := C', chans := H',
      medium := (medium s)(port := (medium s port)(sl := write_sectors d lba (patched ?bs ?off e) n))\<rparr>)"
    "drive_ready dk ch port sl (?s2\<lparr>ctl := C', chans := H'\<rparr>)"
    using lp n(1) by (auto simp: d_def lba_def)
  have "drive_ready dk ch port sl (s\<lparr>ctl := C', chans := H'\<rparr>)" by (rule drive_ready_cong [OF wr(2)]) simp_all
  moreover have "?s1\<lparr>ram := put_bytes (ram s) (unat iob) (patched ?bs ?off e)\<rparr> = ?s2" by simp
  then have "update_inode_bytes dk pos e iob s = ide_write dk (sec_lba pos) iob ?n ?s2"
    by (simp only: update_inode_bytes_def Let_def r(1) andThen_simps st)
  then have "update_inode_bytes dk pos e iob s = Inr (s\<lparr>ram := put_bytes (ram s) (unat iob) (patched ?bs ?off e),
      ctl := C', chans := H', medium := (medium s)(port := (medium s port)(sl := write_sectors d lba (patched ?bs ?off e) n))\<rparr>)"
    unfolding wr(1) by simp
  ultimately show ?thesis by blast
qed

text \<open>The bytes of a disk where a piece of them was replaced.\<close>

definition disk_patched :: "(nat \<Rightarrow> u8 list) \<Rightarrow> (nat \<Rightarrow> u8 list) \<Rightarrow> nat \<Rightarrow> u8 list \<Rightarrow> bool" where
  "disk_patched d d' base e \<longleftrightarrow> (\<forall>i. disk_byte d' i = (if base \<le> i \<and> i < base + length e then e ! (i - base) else disk_byte d i))"

definition disk_bytes :: "(nat \<Rightarrow> u8 list) \<Rightarrow> nat \<Rightarrow> nat \<Rightarrow> u8 list" where
  "disk_bytes d base n = map (disk_byte d) [base..<base + n]"

lemma disk_patched_read: "disk_patched d d' base e \<Longrightarrow> disk_bytes d' base (length e) = e"
  by (rule nth_equalityI) (simp_all add: disk_patched_def disk_bytes_def)

lemma update_inode_patches:
  fixes s :: "'a fs_scheme"
  assumes p: "parts s part = Some p" "sbs s (sb p) = Some b" and no: "unat no < 4096"
    and f: "drive_free (my_disk p) ch port sl s" and table: "unat (inode_table_lba b) + 610 \<le> 163840"
    and m: "mapped (ram s) (unat iob) 1024" and e: "length e = 76"
  shows "\<exists>pos t. inode_locate part no s = Inr pos \<and> unat (sec_lba pos) \<le> unat (inode_table_lba b) + 76 * unat no div 512
    \<and> update_inode_bytes (my_disk p) pos e iob s = Inr t
    \<and> disk_patched (medium s port sl) (medium t port sl) (512 * unat (inode_table_lba b) + 76 * unat no) e
    \<and> (\<forall>q x. q \<noteq> port \<or> x \<noteq> sl \<longrightarrow> medium t q x = medium s q x) \<and> inodes t = inodes s
    \<and> (\<forall>a. a < unat iob \<or> unat iob + 1024 \<le> a \<longrightarrow> ram t a = ram s a)"
proof -
  obtain pos where pos: "inode_locate part no s = Inr pos"
    "512 * unat (sec_lba pos) + unat (off_size pos) = 512 * unat (inode_table_lba b) + 76 * unat no"
    "unat (sec_lba pos) = unat (inode_table_lba b) + 76 * unat no div 512"
    "unat (off_size pos) < 512" "two_sec pos \<longleftrightarrow> 512 < unat (off_size pos) + 76"
    using inode_locate_ok [OF p no] table by auto
  have "76 * unat no div 512 \<le> 608" using no by simp
  then have run: "unat (sec_lba pos) + 2 \<le> 163840" using pos(3) table by simp
  let ?d = "medium s port sl" and ?n = "if two_sec pos then 2 else 1" and ?off = "unat (off_size pos)" and ?lba = "unat (sec_lba pos)"
  let ?bs = "patched (read_sectors ?d ?lba ?n) ?off e"
  obtain C H where u: "update_inode_bytes (my_disk p) pos e iob s = Inr (s\<lparr>ram := put_bytes (ram s) (unat iob) ?bs,
      ctl := C, chans := H, medium := (medium s)(port := (medium s port)(sl := write_sectors ?d ?lba ?bs ?n))\<rparr>)"
    using update_inode_ok [OF f pos(4,5) run m e] by blast
  have w: "whole_sectors ?d" using f by (simp add: drive_free_def)
  have n: "?off + length e \<le> 512 * ?n" using pos(4,5) e by auto
  have "disk_patched ?d (write_sectors ?d ?lba ?bs ?n) (512 * unat (inode_table_lba b) + 76 * unat no) e"
    using disk_byte_patch [OF w n, of ?lba] unfolding disk_patched_def pos(2) by blast
  moreover have "length ?bs = 512 * ?n" using w n by (simp add: patched_def)
  then have "put_bytes (ram s) (unat iob) ?bs a = ram s a" if "a < unat iob \<or> unat iob + 1024 \<le> a" for a
    using that by (auto simp: put_bytes_def split: if_splits)
  ultimately show ?thesis using pos(1,3) u by auto
qed


text \<open>A partition at 6000 on the first drive with its inode table from sector 100 on, and the inode 5 at 7000.\<close>

definition demo_part :: partition where
  "demo_part = \<lparr>start_lba = 63, sec_cnt = 5000, my_disk = 5064, pname = bytes ''sda1'', sb = 6500,
     block_bitmap = \<lparr>bm_len = 512, bm_bits = 0x40000\<rparr>, inode_bitmap = \<lparr>bm_len = 512, bm_bits = 0x41000\<rparr>\<rparr>"

definition demo_sb :: super_block where
  "demo_sb = \<lparr>sb_magic = 0x12345678, sb_sec_cnt = 5000, inode_cnt = 4096, part_lba_base = 63, block_bitmap_lba = 65, block_bitmap_sects = 2,
     inode_bitmap_lba = 67, inode_bitmap_sects = 1, inode_table_lba = 100, inode_table_sects = 608, data_start_lba = 708,
     root_inode_no = 0, dir_entry_size = 24\<rparr>"

definition demo_inode :: inode where
  "demo_inode = \<lparr>i_no = 5, i_size = 100, i_open_cnts = 1, write_deny = True, i_sectors = 900 # replicate 12 0\<rparr>"

definition demo_fs :: fs where
  "demo_fs = ide.extend (demo_ide\<lparr>parts := [6000 \<mapsto> demo_part]\<rparr>)
     (fs.fields [6500 \<mapsto> demo_sb] [7000 \<mapsto> demo_inode] Map.empty [] 6000 0)"

lemmas demo_fs_simps = demo_fs_def ide.extend_def fs.fields_def demo_part_def demo_sb_def demo_inode_def demo_ide_simps

lemma demo_fs_free: "drive_free 5064 5000 0x1f0 False demo_fs"
proof -
  have "drive_ready 5064 5000 0x1f0 False demo_fs" unfolding drive_ready_def
    by (rule exI [of _ "\<lparr>dname = bytes ''sda'', my_channel = 5000, dev_no = 0\<rparr>"],
        rule exI [of _ "\<lparr>cname = bytes ''ide0'', port_base = 0x1f0, irq_no = 0x2e, expecting_intr = False\<rparr>"], rule exI [of _ 0])
      (simp add: demo_fs_simps channel_at_def disk_done_def waiters_def list_empty_def get_node_def list_tail_def)
  moreover have "lock_free (channel_lock 5000) demo_fs"
    by (simp add: lock_free_def channel_lock_def lock_sema_def waiters_def list_empty_def get_node_def list_tail_def demo_fs_simps)
  ultimately show ?thesis by (simp add: drive_free_def running_thread_def whole_sectors_def demo_fs_simps)
qed


end
