(* ===== verification/File_Proofs.thy ===== *)
theory File_Proofs
  imports Files Inode_Proofs
begin

text \<open>
  Files as sequences of bytes: the loops that read and write the data move exactly the bytes of the file between memory and the
  blocks of the disk, whatever the position in the blocks.
\<close>

section \<open>Single sectors\<close>

lemma load32_holds:
  assumes "holds m a (bytes_of_word w)"
  shows "load32 m a = Inr w"
proof -
  have "load m (a + i) = Inr (bytes_of_word w ! i)" if "i < 4" for i using holds_load [OF assms] that by (simp add: bytes_of_word_nth)
  from this [of 0] this [of 1] this [of 2] this [of 3] show ?thesis
    using word_bytes [of w] by (simp add: load32_def bytes_of_word_def)
qed

lemma unat_addr: "mapped m a n \<Longrightarrow> 0 < n \<Longrightarrow> unat (of_nat a :: u32) = a"
  by (rule unat_u32) (simp add: mapped_def)

text \<open>A drive stays free as long as its own structures stay the same.\<close>

lemma drive_free_same:
  fixes s :: "'a ide_scheme" and t :: "'b ide_scheme"
  assumes "drive_free dk ch port sl s" "disks t = disks s" "channels t = channels s" "chans t = chans s" "ctl t = ctl s"
    and "medium t = medium s" "elems t = elems s" "sema_value t = sema_value s" "lock_holder t = lock_holder s" "esp t = esp s"
    and "holder_repeat_nr t = holder_repeat_nr s"
  shows "drive_free dk ch port sl t"
proof -
  have "list_empty l t = list_empty l s" for l using assms(7) by (simp add: list_empty_def get_node_def)
  then show ?thesis
    using assms by (simp add: drive_free_def drive_ready_def lock_free_def running_thread_def)
qed

lemma sector_read:
  fixes s :: "'a ide_scheme"
  assumes "drive_free dk ch port sl s" "unat lba < 163840" "mapped (ram s) a 512"
  shows "\<exists>C H. ide_read dk lba (of_nat a) 1 s = Inr (s\<lparr>ram := put_bytes (ram s) a (medium s port sl (unat lba)), ctl := C, chans := H\<rparr>)
    \<and> drive_free dk ch port sl (s\<lparr>ram := put_bytes (ram s) a (medium s port sl (unat lba)), ctl := C, chans := H\<rparr>)"
proof -
  have a: "unat (of_nat a :: u32) = a" using unat_addr assms(3) by simp
  have run: "sector_run lba 1" using assms(2) by (simp add: sector_run_def)
  have "mapped (ram s) (unat (of_nat a :: u32)) (512 * unat (1 :: u32))" using assms(3) a by simp
  from ide_read_reads [OF assms(1) run this] obtain C H where r: "ide_read dk lba (of_nat a) 1 s =
      Inr (s\<lparr>ram := put_bytes (ram s) a (medium s port sl (unat lba)), ctl := C, chans := H\<rparr>)"
    "drive_ready dk ch port sl (s\<lparr>ctl := C, chans := H\<rparr>)"
    using a by (auto simp: read_sectors_def)
  have "drive_free dk ch port sl (s\<lparr>ram := put_bytes (ram s) a (medium s port sl (unat lba)), ctl := C, chans := H\<rparr>)"
    using drive_free_cong [OF assms(1) r(2), where M = "medium s"] assms(1) by (simp add: drive_free_def)
  then show ?thesis using r(1) by blast
qed

definition set_sector_of :: "u16 \<Rightarrow> bool \<Rightarrow> nat \<Rightarrow> u8 list \<Rightarrow> 'a ide_scheme \<Rightarrow> u16 \<Rightarrow> bool \<Rightarrow> nat \<Rightarrow> u8 list" where
  "set_sector_of port sl l bs s = (medium s)(port := (medium s port)(sl := (medium s port sl)(l := bs)))"

lemma sector_write:
  fixes s :: "'a ide_scheme"
  assumes "drive_free dk ch port sl s" "unat lba < 163840" "holds (ram s) a bs" "length bs = 512"
  shows "\<exists>C H. ide_write dk lba (of_nat a) 1 s = Inr (s\<lparr>ctl := C, chans := H, medium := set_sector_of port sl (unat lba) bs s\<rparr>)
    \<and> drive_free dk ch port sl (s\<lparr>ctl := C, chans := H, medium := set_sector_of port sl (unat lba) bs s\<rparr>)"
proof -
  have a: "unat (of_nat a :: u32) = a" using unat_addr holds_mapped [OF assms(3)] assms(4) by simp
  have run: "sector_run lba 1" using assms(2) by (simp add: sector_run_def)
  from ide_write_writes [OF assms(1) run, of "of_nat a" bs] obtain C H where r: "ide_write dk lba (of_nat a) 1 s =
      Inr (s\<lparr>ctl := C, chans := H, medium := set_sector_of port sl (unat lba) bs s\<rparr>)"
    "drive_ready dk ch port sl (s\<lparr>ctl := C, chans := H\<rparr>)"
    using a assms(3,4) by (auto simp: set_sector_of_def)
  have "whole_sectors (set_sector_of port sl (unat lba) bs s port sl)"
    using assms(1,4) by (simp add: drive_free_def whole_sectors_def set_sector_of_def)
  then have "drive_free dk ch port sl (s\<lparr>ctl := C, chans := H, medium := set_sector_of port sl (unat lba) bs s\<rparr>)"
    using drive_free_cong [OF assms(1) r(2), where M = "set_sector_of port sl (unat lba) bs s" and m = "ram s"] by simp
  then show ?thesis using r(1) by blast
qed

section \<open>Chunks\<close>

lemma put_bytes_same: "length xs = length ys \<Longrightarrow> put_bytes (put_bytes m p xs) p ys = put_bytes m p ys"
  by (auto simp: put_bytes_def fun_eq_iff)

lemma holds_sub: "holds m p bs \<Longrightarrow> off + c \<le> length bs \<Longrightarrow> holds m (p + off) (take c (drop off bs))"
  by (auto simp: holds_def add.assoc)

lemma holds_put_other: "holds m p bs \<Longrightarrow> region p (length bs) \<inter> region q (length cs) = {} \<Longrightarrow> holds (put_bytes m q cs) p bs"
  by (subst holds_cong [of _ _ _ m]) (auto intro!: put_bytes_other)

text \<open>The size of a chunk at a position of the file: the rest of the block, or what is left if that is less.\<close>

definition chunk :: "u32 \<Rightarrow> u32 \<Rightarrow> u32" where
  "chunk left pos = (if left < 512 - pos mod 512 then left else 512 - pos mod 512)"

lemma unat_div_mod_512: "unat (pos div 512 :: u32) = unat pos div 512" "unat (pos mod 512 :: u32) = unat pos mod 512"
  by (simp_all add: unat_div unat_mod)

lemma unat_chunk: "unat (chunk left pos) = min (unat left) (512 - unat pos mod 512)"
proof -
  have "pos mod 512 \<le> 512" by (simp add: word_le_nat_alt unat_div_mod_512)
  then have "unat (512 - pos mod 512) = 512 - unat pos mod 512" by (simp add: unat_sub unat_div_mod_512)
  then show ?thesis by (simp add: chunk_def word_less_nat_alt)
qed

lemma read_chunk_ok:
  fixes s :: "'a fs_scheme"
  assumes p: "parts s (cur_part s) = Some p" and d: "drive_free (my_disk p) ch port sl s"
    and f: "f < length (file_table s)" "file_table s ! f = x" and lba: "holds (ram s) (ab + 4 * (unat (fd_pos x) div 512)) (bytes_of_word lba)" "unat lba < 163840"
    and io: "io \<noteq> 0" "mapped (ram s) io 512" and dst: "dst \<noteq> 0" "mapped (ram s) dst (unat (chunk left (fd_pos x)))"
    and dj: "region dst (unat (chunk left (fd_pos x))) \<inter> region io 512 = {}"
  defines "sec \<equiv> medium s port sl (unat lba)" and "c \<equiv> chunk left (fd_pos x)"
  shows "\<exists>C H. let t = s\<lparr>ram := put_bytes (put_bytes (ram s) io sec) dst (take (unat c) (drop (unat (fd_pos x) mod 512) sec)), ctl := C, chans := H,
      file_table := (file_table s)[f := x\<lparr>fd_pos := fd_pos x + c\<rparr>]\<rparr> in
    read_chunk f ab io dst left s = Inr (c, t) \<and> drive_free (my_disk p) ch port sl t"
proof -
  let ?off = "unat (fd_pos x) mod 512" and ?m0 = "put_bytes (ram s) io (replicate 512 0)" and ?m1 = "put_bytes (ram s) io sec"
  have w: "length sec = 512" using d by (simp add: drive_free_def whole_sectors_def sec_def)
  have cl: "?off + unat c \<le> 512" by (simp add: c_def unat_chunk)
  have d0: "drive_free (my_disk p) ch port sl (s\<lparr>ram := ?m0\<rparr>)" by (rule drive_free_same [OF d]) simp_all
  obtain C H where r: "ide_read (my_disk p) lba (of_nat io) 1 (s\<lparr>ram := ?m0\<rparr>) = Inr (s\<lparr>ram := ?m1, ctl := C, chans := H\<rparr>)"
    "drive_free (my_disk p) ch port sl (s\<lparr>ram := ?m1, ctl := C, chans := H\<rparr>)"
    using sector_read [OF d0 lba(2), of io] io(2) w by (auto simp: mapped_put_bytes put_bytes_same sec_def)
  let ?bs = "take (unat c) (drop ?off sec)"
  have lb: "length ?bs = unat c" using w cl by simp
  have "holds ?m1 io sec" using io(2) w by (intro holds_put_bytes) (simp add: mapped_def)
  then have "holds ?m1 (io + ?off) ?bs" using w cl by (intro holds_sub) simp_all
  moreover have "region dst (length ?bs) \<inter> region (io + ?off) (length ?bs) = {}"
    using dj cl unfolding lb c_def [symmetric] by (auto simp: region_def)
  ultimately have cp: "memcpy ?m1 dst (io + ?off) (unat c) = Inr (put_bytes ?m1 dst ?bs)"
    using memcpy_spec [of dst "io + ?off" ?m1 ?bs] dst io(1) lb by (simp add: mapped_put_bytes c_def)
  have gb: "get_block ab (unat (fd_pos x div 512)) s = Inr lba" using load32_holds [OF lba(1)] by (simp add: get_block_def unat_div_mod_512)
  have ms: "memset (ram s) io 0 512 = Inr ?m0" using io by (simp add: memset_spec)
  have "read_chunk f ab io dst left s = Inr (c, s\<lparr>ram := put_bytes ?m1 dst ?bs, ctl := C, chans := H,
      file_table := (file_table s)[f := x\<lparr>fd_pos := fd_pos x + c\<rparr>]\<rparr>)"
    using f p gb ms r(1) cp unfolding c_def chunk_def
    by (simp add: read_chunk_def get_file_def set_file_def clear_ram_def on_ram_def get_part_def Let_def unat_div_mod_512)
  moreover have "drive_free (my_disk p) ch port sl (s\<lparr>ram := put_bytes ?m1 dst ?bs, ctl := C, chans := H,
      file_table := (file_table s)[f := x\<lparr>fd_pos := fd_pos x + c\<rparr>]\<rparr>)"
    by (rule drive_free_same [OF r(2)]) simp_all
  ultimately show ?thesis unfolding Let_def by blast
qed

section \<open>Reading\<close>

text \<open>
  The byte at a position of a file whose blocks are given by a function, and the table of the addresses of the blocks from the
  one of position \<open>a\<close> up to position \<open>b\<close>.
\<close>

definition file_byte :: "(nat \<Rightarrow> u8 list) \<Rightarrow> (nat \<Rightarrow> u32) \<Rightarrow> nat \<Rightarrow> u8" where
  "file_byte d bl j = d (unat (bl (j div 512))) ! (j mod 512)"

definition block_table :: "mem \<Rightarrow> nat \<Rightarrow> (nat \<Rightarrow> u32) \<Rightarrow> nat \<Rightarrow> nat \<Rightarrow> bool" where
  "block_table m ab bl a b \<longleftrightarrow> b \<le> 71680 \<and>
     (\<forall>k. a div 512 \<le> k \<and> 512 * k < b \<longrightarrow> holds m (ab + 4 * k) (bytes_of_word (bl k)) \<and> unat (bl k) < 163840)"

lemma block_tableD:
  assumes "block_table m ab bl a b" "a \<le> j" "j < b"
  shows "holds m (ab + 4 * (j div 512)) (bytes_of_word (bl (j div 512)))" "unat (bl (j div 512)) < 163840"
proof -
  have "a div 512 \<le> j div 512 \<and> 512 * (j div 512) < b" using assms(2,3) mult_div_mod_eq [of 512 j] by (simp add: div_le_mono)
  then show "holds m (ab + 4 * (j div 512)) (bytes_of_word (bl (j div 512)))" "unat (bl (j div 512)) < 163840"
    using assms(1) by (auto simp: block_table_def)
qed

lemma block_table_cong:
  assumes "block_table m ab bl a b" "\<And>x. x \<in> region ab 560 \<Longrightarrow> m' x = m x" "a \<le> a'"
  shows "block_table m' ab bl a' b"
proof -
  have "holds m' (ab + 4 * k) (bytes_of_word (bl k)) \<and> unat (bl k) < 163840" if k: "a' div 512 \<le> k" "512 * k < b" for k
  proof -
    have "a div 512 \<le> k" using k(1) div_le_mono [OF assms(3), of 512] by simp
    then have h: "holds m (ab + 4 * k) (bytes_of_word (bl k))" "unat (bl k) < 163840" using assms(1) k(2) by (auto simp: block_table_def)
    have "512 * k < 71680" using assms(1) k(2) by (simp add: block_table_def)
    then have "region (ab + 4 * k) (length (bytes_of_word (bl k))) \<subseteq> region ab 560" by (auto simp: region_def bytes_of_word_nth)
    then show ?thesis using holds_cong [of "ab + 4 * k" "bytes_of_word (bl k)" m' m] assms(2) h by blast
  qed
  then show ?thesis using assms(1) by (simp add: block_table_def)
qed

lemma block_table_put:
  assumes "block_table m ab bl a b" "region ab 560 \<inter> region q (length cs) = {}" "a \<le> a'"
  shows "block_table (put_bytes m q cs) ab bl a' b"
  using assms(1) _ assms(3) by (rule block_table_cong) (use assms(2) in \<open>auto intro!: put_bytes_other\<close>)

lemma file_bytes_chunk:
  assumes "whole_sectors d" "j mod 512 + c \<le> 512"
  shows "take c (drop (j mod 512) (d (unat (bl (j div 512))))) = map (file_byte d bl) [j..<j + c]"
proof (rule nth_equalityI)
  have l: "length (d (unat (bl (j div 512)))) = 512" using assms(1) by (simp add: whole_sectors_def)
  show "length (take c (drop (j mod 512) (d (unat (bl (j div 512)))))) = length (map (file_byte d bl) [j..<j + c])" using l assms(2) by simp
  fix i assume "i < length (take c (drop (j mod 512) (d (unat (bl (j div 512))))))"
  then have i: "i < c" "j mod 512 + i < 512" using l assms(2) by simp_all
  have "(j + i) div 512 = j div 512" "(j + i) mod 512 = j mod 512 + i"
    using i(2) div_add1_eq [of j i 512] mod_add_eq [of j 512 i] by (simp_all add: div_eq_0_iff [THEN iffD2] mod_less)
  then show "take c (drop (j mod 512) (d (unat (bl (j div 512))))) ! i = map (file_byte d bl) [j..<j + c] ! i"
    using i l by (simp add: file_byte_def)
qed

lemma put_bytes_at: "m a = m' a \<Longrightarrow> put_bytes m q cs a = put_bytes m' q cs a"
  by (simp add: put_bytes_def)

text \<open>
  What a read of \<open>n\<close> bytes at the position of the open file \<open>f\<close> relies on: the drive of the current partition is free, the table has
  the addresses of the blocks, and the buffers are mapped and do not overlap.
\<close>

definition can_read :: "partition \<Rightarrow> nat \<Rightarrow> u16 \<Rightarrow> bool \<Rightarrow> nat \<Rightarrow> open_file \<Rightarrow> nat \<Rightarrow> (nat \<Rightarrow> u32) \<Rightarrow> nat \<Rightarrow> nat \<Rightarrow> nat \<Rightarrow> 'a fs_scheme \<Rightarrow> bool" where
  "can_read p ch port sl f x ab bl io dst n s \<longleftrightarrow> parts s (cur_part s) = Some p \<and> drive_free (my_disk p) ch port sl s
     \<and> f < length (file_table s) \<and> file_table s ! f = x \<and> block_table (ram s) ab bl (unat (fd_pos x)) (unat (fd_pos x) + n)
     \<and> io \<noteq> 0 \<and> mapped (ram s) io 512 \<and> dst \<noteq> 0 \<and> mapped (ram s) dst n
     \<and> region dst n \<inter> region io 512 = {} \<and> region ab 560 \<inter> region io 512 = {} \<and> region ab 560 \<inter> region dst n = {}"

text \<open>One round of the loop, and what it leaves for the next one.\<close>

lemma read_round:
  fixes s :: "'a fs_scheme"
  assumes "can_read p ch port sl f x ab bl io dst (unat left) s" "left \<noteq> 0"
  defines "c \<equiv> chunk left (fd_pos x)" and "d \<equiv> medium s port sl"
  shows "\<exists>m C H. let u = s\<lparr>ram := m, ctl := C, chans := H, file_table := (file_table s)[f := x\<lparr>fd_pos := fd_pos x + c\<rparr>]\<rparr> in
    read_chunk f ab io dst left s = Inr (c, u) \<and> can_read p ch port sl f (x\<lparr>fd_pos := fd_pos x + c\<rparr>) ab bl io (dst + unat c) (unat (left - c)) u
    \<and> (\<forall>a. a \<notin> region io 512 \<longrightarrow> m a = put_bytes (ram s) dst (map (file_byte d bl) [unat (fd_pos x)..<unat (fd_pos x) + unat c]) a)"
proof -
  let ?pos = "unat (fd_pos x)" and ?x = "x\<lparr>fd_pos := fd_pos x + c\<rparr>"
  note cr = assms(1) [unfolded can_read_def]
  have c: "0 < unat c" "unat c \<le> unat left" "?pos mod 512 + unat c \<le> 512"
    using assms(2) unat_eq_0 [of left] unat_chunk [of left "fd_pos x"] by (auto simp: c_def)
  have bt: "holds (ram s) (ab + 4 * (?pos div 512)) (bytes_of_word (bl (?pos div 512)))" "unat (bl (?pos div 512)) < 163840"
    using block_tableD [of "ram s" ab bl ?pos "?pos + unat left" ?pos] cr c(1,2) by auto
  have small: "?pos + unat left \<le> 71680" using cr by (simp add: block_table_def)
  let ?sec = "d (unat (bl (?pos div 512)))"
  let ?bs = "take (unat c) (drop (?pos mod 512) ?sec)"
  have w: "whole_sectors d" using cr by (simp add: drive_free_def d_def)
  then have lb: "length ?bs = unat c" "length ?sec = 512" using c(3) by (simp_all add: whole_sectors_def)
  have dj: "region dst (unat c) \<inter> region io 512 = {}" using cr c(2) by (auto simp: region_def)
  have md: "mapped (ram s) dst (unat c)" using mapped_le [OF _ c(2)] cr by blast
  let ?m1 = "put_bytes (put_bytes (ram s) io ?sec) dst ?bs"
  obtain C H where t: "read_chunk f ab io dst left s = Inr (c, s\<lparr>ram := ?m1, ctl := C, chans := H, file_table := (file_table s)[f := ?x]\<rparr>)"
    "drive_free (my_disk p) ch port sl (s\<lparr>ram := ?m1, ctl := C, chans := H, file_table := (file_table s)[f := ?x]\<rparr>)"
    using read_chunk_ok [OF _ _ _ _ bt _ _ _ md [unfolded c_def] dj [unfolded c_def], of p ch port sl f] cr
    unfolding Let_def c_def [symmetric] d_def by blast
  have un: "unat (left - c) = unat left - unat c" "unat (fd_pos ?x) = ?pos + unat c"
    using c(2) unat_sum [of "fd_pos x" c] small by (simp_all add: unat_sub word_le_nat_alt)
  have "block_table (put_bytes (ram s) io ?sec) ab bl ?pos (?pos + unat left)" by (rule block_table_put) (use cr lb in auto)
  then have "block_table ?m1 ab bl (?pos + unat c) (?pos + unat left)"
    by (rule block_table_put) (use cr lb c(2) in \<open>auto simp: region_def\<close>)
  moreover have "mapped ?m1 (dst + unat c) (unat (left - c))" "mapped ?m1 io 512"
    using cr mapped_add [of "ram s" dst "unat c" "unat (left - c)"] un c(2) by (simp_all add: mapped_put_bytes)
  moreover have "region (dst + unat c) (unat (left - c)) \<subseteq> region dst (unat left)" using un c(2) by (auto simp: region_def)
  ultimately have "can_read p ch port sl f ?x ab bl io (dst + unat c) (unat (left - c))
      (s\<lparr>ram := ?m1, ctl := C, chans := H, file_table := (file_table s)[f := ?x]\<rparr>)"
    using cr t(2) un c(2) unfolding can_read_def by (auto simp del: fun_upd_apply)
  moreover have "?m1 a = put_bytes (ram s) dst (map (file_byte d bl) [?pos..<?pos + unat c]) a" if "a \<notin> region io 512" for a
    using that lb(2) unfolding file_bytes_chunk [OF w c(3)] by (intro put_bytes_at) (simp add: put_bytes_other)
  ultimately show ?thesis using t(1) unfolding Let_def by blast
qed

lemma file_read_loop_ok:
  fixes s :: "'a fs_scheme"
  assumes "can_read p ch port sl f x ab bl io dst (unat left) s" "unat br + unat left = unat sz"
  shows "\<exists>m C H. let t = s\<lparr>ram := m, ctl := C, chans := H, file_table := (file_table s)[f := x\<lparr>fd_pos := fd_pos x + left\<rparr>]\<rparr> in
    Files.read_loop f ab io dst br left sz s = Some (Inr (sz, t)) \<and> drive_free (my_disk p) ch port sl t
    \<and> (\<forall>a. a \<notin> region io 512 \<longrightarrow> m a = put_bytes (ram s) dst (map (file_byte (medium s port sl) bl)
          [unat (fd_pos x)..<unat (fd_pos x) + unat left]) a)"
  using assms
proof (induction "unat left" arbitrary: s x br left dst rule: less_induct)
  case (less left s x br dst)
  let ?pos = "unat (fd_pos x)" and ?d = "medium s port sl"
  note cr = less.prems(1) [unfolded can_read_def]
  show ?case
  proof (cases "left = 0")
    case True
    then have "br = sz" using less.prems(2) by (simp add: word_unat_eq_iff)
    then have "Files.read_loop f ab io dst br left sz s = Some (Inr (sz, s))" by (simp add: Files.read_loop.simps)
    moreover have "s\<lparr>ram := ram s, ctl := ctl s, chans := chans s, file_table := (file_table s)[f := x\<lparr>fd_pos := fd_pos x + left\<rparr>]\<rparr> = s"
      using True cr by auto
    ultimately show ?thesis using True cr
      by (intro exI [of _ "ram s"] exI [of _ "ctl s"] exI [of _ "chans s"]) simp
  next
    case False
    define c where "c = chunk left (fd_pos x)"
    have c: "0 < unat c" "unat c \<le> unat left"
      using False unat_eq_0 [of left] unat_chunk [of left "fd_pos x"] by (auto simp: c_def)
    let ?x = "x\<lparr>fd_pos := fd_pos x + c\<rparr>"
    obtain m C H u where u: "u = s\<lparr>ram := m, ctl := C, chans := H, file_table := (file_table s)[f := ?x]\<rparr>"
      "read_chunk f ab io dst left s = Inr (c, u)" "can_read p ch port sl f ?x ab bl io (dst + unat c) (unat (left - c)) u"
      "\<forall>a. a \<notin> region io 512 \<longrightarrow> m a = put_bytes (ram s) dst (map (file_byte ?d bl) [?pos..<?pos + unat c]) a"
      using read_round [OF less.prems(1) False] unfolding Let_def c_def [symmetric] by blast
    have "unat sz < 2 ^ 32" "?pos + unat left \<le> 71680" using unsigned_less [of sz] cr by (simp_all add: block_table_def)
    then have un: "unat (left - c) = unat left - unat c" "unat (br + c) = unat br + unat c" "unat (fd_pos ?x) = ?pos + unat c"
      using c(2) less.prems(2) unat_sum [of br c] unat_sum [of "fd_pos x" c] by (simp_all add: unat_sub word_le_nat_alt)
    have "unat (left - c) < unat left" "unat (br + c) + unat (left - c) = unat sz" using un c less.prems(2) by simp_all
    from less.hyps [OF this(1) u(3) this(2)] obtain m' C' H' where ih: "Files.read_loop f ab io (dst + unat c) (br + c) (left - c) sz u =
        Some (Inr (sz, u\<lparr>ram := m', ctl := C', chans := H', file_table := (file_table u)[f := ?x\<lparr>fd_pos := fd_pos ?x + (left - c)\<rparr>]\<rparr>))"
      "drive_free (my_disk p) ch port sl (u\<lparr>ram := m', ctl := C', chans := H', file_table := (file_table u)[f := ?x\<lparr>fd_pos := fd_pos ?x + (left - c)\<rparr>]\<rparr>)"
      "\<forall>a. a \<notin> region io 512 \<longrightarrow> m' a = put_bytes (ram u) (dst + unat c) (map (file_byte (medium u port sl) bl)
          [unat (fd_pos ?x)..<unat (fd_pos ?x) + unat (left - c)]) a"
      unfolding Let_def by blast
    have fin: "u\<lparr>ram := m', ctl := C', chans := H', file_table := (file_table u)[f := ?x\<lparr>fd_pos := fd_pos ?x + (left - c)\<rparr>]\<rparr>
        = s\<lparr>ram := m', ctl := C', chans := H', file_table := (file_table s)[f := x\<lparr>fd_pos := fd_pos x + left\<rparr>]\<rparr>" by (simp add: u(1))
    have cat: "[?pos..<?pos + unat left] = [?pos..<?pos + unat c] @ [?pos + unat c..<?pos + unat left]"
      using upt_add_eq_append [of ?pos "?pos + unat c" "unat left - unat c"] c(2) by simp
    have "m' a = put_bytes (ram s) dst (map (file_byte ?d bl) [?pos..<?pos + unat left]) a" if "a \<notin> region io 512" for a
      using ih(3) u(4) that un c(2) unfolding cat map_append put_bytes_append by (auto simp: u(1) intro!: put_bytes_at)
    moreover have "br < sz" using less.prems(2) c by (simp add: word_less_nat_alt)
    then have "Files.read_loop f ab io dst br left sz s = Files.read_loop f ab io (dst + unat c) (br + c) (left - c) sz u"
      by (subst Files.read_loop.simps) (simp add: u(2))
    ultimately show ?thesis using ih(1,2) unfolding Let_def fin
      by (intro exI [of _ m'] exI [of _ C'] exI [of _ H'] conjI allI impI) simp_all
  qed
qed

section \<open>Writing\<close>

text \<open>The contents of a file of \<open>n\<close> bytes.\<close>

definition file_content :: "(nat \<Rightarrow> u8 list) \<Rightarrow> (nat \<Rightarrow> u32) \<Rightarrow> nat \<Rightarrow> u8 list" where
  "file_content d bl n = map (file_byte d bl) [0..<n]"

lemma length_file_content [simp]: "length (file_content d bl n) = n"
  by (simp add: file_content_def)

lemma file_content_append:
  assumes w: "length (d (unat (bl (sz div 512)))) = 512" and len: "sz mod 512 + length bs \<le> 512" "0 < length bs"
    and old: "length old = 512" "sz mod 512 = 0 \<or> old = d (unat (bl (sz div 512)))"
    and inj: "inj_on bl {k. 512 * k < sz + length bs}"
  shows "file_content (d(unat (bl (sz div 512)) := patched old (sz mod 512) bs)) bl (sz + length bs) = file_content d bl sz @ bs"
    (is "file_content ?d bl _ = _")
proof (rule nth_equalityI)
  fix j assume "j < length (file_content ?d bl (sz + length bs))"
  then have j: "j < sz + length bs" by simp
  have "file_byte ?d bl j = (if j < sz then file_byte d bl j else bs ! (j - sz))"
  proof (cases "j div 512 = sz div 512")
    case True
    have eq: "j = 512 * (sz div 512) + j mod 512" "sz = 512 * (sz div 512) + sz mod 512" using True mult_div_mod_eq [of 512 j] by simp_all
    obtain q a b where q: "j = 512 * q + a" "sz = 512 * q + b" "a = j mod 512" "b = sz mod 512" using eq by blast
    have "j < sz \<longleftrightarrow> a < b" "j - sz = a - b" unfolding q(1,2) by simp_all
    then have lt: "j < sz \<longleftrightarrow> j mod 512 < sz mod 512" "j - sz = j mod 512 - sz mod 512" unfolding q(3,4) .
    have "j < sz + length bs \<longleftrightarrow> a < b + length bs" unfolding q(1,2) by simp
    then have jl: "j mod 512 < sz mod 512 + length bs" using j unfolding q(3,4) by blast
    have "file_byte ?d bl j = patched old (sz mod 512) bs ! (j mod 512)" using True by (simp add: file_byte_def)
    also have "\<dots> = (if j mod 512 < sz mod 512 then old ! (j mod 512) else bs ! (j mod 512 - sz mod 512))"
      using patched_nth [of "sz mod 512" bs old "j mod 512"] old(1) len(1) jl by auto
    finally show ?thesis using old(2) True lt by (auto simp: file_byte_def)
  next
    case False
    have in_file: "j div 512 \<in> {k. 512 * k < sz + length bs}" "sz div 512 \<in> {k. 512 * k < sz + length bs}"
      using times_div_less_eq_dividend [of 512 j] times_div_less_eq_dividend [of 512 sz] j len(2) unfolding mem_Collect_eq by linarith+
    have "bl (j div 512) \<noteq> bl (sz div 512)" using inj_onD [OF inj _ in_file] False by blast
    then have "unat (bl (j div 512)) \<noteq> unat (bl (sz div 512))" by (simp add: word_unat_eq_iff)
    moreover have "j < sz"
    proof (rule ccontr)
      assume "\<not> j < sz"
      then have "j = sz + (j - sz)" "j - sz < length bs" using j by simp_all
      then have "j div 512 = sz div 512" using len(1) div_add1_eq [of sz "j - sz" 512] by simp
      then show False using False by simp
    qed
    ultimately show ?thesis by (simp add: file_byte_def)
  qed
  then show "file_content ?d bl (sz + length bs) ! j = (file_content d bl sz @ bs) ! j"
    using j by (auto simp: file_content_def nth_append)
qed simp

lemma write_chunk_ok:
  fixes s :: "'a fs_scheme" and first :: bool
  assumes p: "parts s (cur_part s) = Some p" and d: "drive_free (my_disk p) ch port sl s"
    and f: "f < length (file_table s)" "file_table s ! f = x" "inodes s (fd_inode x) = Some i"
    and lba: "holds (ram s) (ab + 4 * (unat (i_size i) div 512)) (bytes_of_word lba)" "unat lba < 163840"
    and io: "io \<noteq> 0" "mapped (ram s) io 512" and src: "src \<noteq> 0" "holds (ram s) src bs" "length bs = unat (chunk left (i_size i))"
    and dj: "region src (length bs) \<inter> region io 512 = {}" "region ab 560 \<inter> region io 512 = {}" "unat (i_size i) < 71680"
  defines "old \<equiv> (if first then medium s port sl (unat lba) else replicate 512 0)" and "c \<equiv> chunk left (i_size i)"
  shows "\<exists>C H. let new = patched old (unat (i_size i) mod 512) bs;
      t = s\<lparr>ram := put_bytes (ram s) io new, ctl := C, chans := H, medium := set_sector_of port sl (unat lba) new s,
        inodes := (inodes s)(fd_inode x \<mapsto> i\<lparr>i_size := i_size i + c\<rparr>), file_table := (file_table s)[f := x\<lparr>fd_pos := fd_pos x + c\<rparr>]\<rparr> in
    write_chunk f ab io src first left s = Inr (c, t) \<and> drive_free (my_disk p) ch port sl t"
proof -
  let ?off = "unat (i_size i) mod 512" and ?m0 = "put_bytes (ram s) io (replicate 512 0)" and ?m1 = "put_bytes (ram s) io old"
  let ?new = "patched old ?off bs"
  have w: "length old = 512" using d by (simp add: drive_free_def whole_sectors_def old_def)
  have cl: "?off + length bs \<le> 512" "length bs = unat c" using src(3) by (simp_all add: c_def unat_chunk)
  have ln: "length ?new = 512" using w cl(1) by (simp add: patched_def)
  have d0: "drive_free (my_disk p) ch port sl (s\<lparr>ram := ?m0\<rparr>)" by (rule drive_free_same [OF d]) simp_all
  obtain C H where r: "(if first then ide_read (my_disk p) lba (of_nat io) 1 (s\<lparr>ram := ?m0\<rparr>) else Inr (s\<lparr>ram := ?m0\<rparr>))
        = Inr (s\<lparr>ram := ?m1, ctl := C, chans := H\<rparr>)"
    "drive_free (my_disk p) ch port sl (s\<lparr>ram := ?m1, ctl := C, chans := H\<rparr>)"
  proof (cases first)
    case True
    then show ?thesis using that sector_read [OF d0 lba(2), of io] io(2) w by (auto simp: mapped_put_bytes put_bytes_same old_def)
  next
    case False
    then show ?thesis using that [of "chans s" "ctl s"] d0 by (auto simp: old_def)
  qed
  have "holds ?m1 src bs" using holds_put_other [OF src(2)] dj(1) w by simp
  moreover have "region (io + ?off) (length bs) \<inter> region src (length bs) = {}" using dj(1) cl(1) by (auto simp: region_def)
  moreover have "mapped ?m1 (io + ?off) (length bs)"
    using mapped_put_bytes [of "ram s" io "?off + length bs"] mapped_le [OF io(2) cl(1)] by (simp add: mapped_add)
  ultimately have cp: "memcpy ?m1 (io + ?off) src (unat c) = Inr (put_bytes (ram s) io ?new)"
    using memcpy_spec [of "io + ?off" src ?m1 bs] src(1) io(1) cl put_patched [of ?off bs old "ram s" io] w by simp
  let ?s2 = "s\<lparr>ram := ?m1, ctl := C, chans := H\<rparr>\<lparr>ram := put_bytes (ram s) io ?new\<rparr>"
  have d2: "drive_free (my_disk p) ch port sl ?s2" by (rule drive_free_same [OF r(2)]) simp_all
  have hn: "holds (ram ?s2) io ?new" using holds_put_bytes [of io ?new "ram s"] io(2) ln by (simp add: mapped_def)
  obtain C' H' where wr: "ide_write (my_disk p) lba (of_nat io) 1 ?s2 = Inr (?s2\<lparr>ctl := C', chans := H', medium := set_sector_of port sl (unat lba) ?new ?s2\<rparr>)"
    "drive_free (my_disk p) ch port sl (?s2\<lparr>ctl := C', chans := H', medium := set_sector_of port sl (unat lba) ?new ?s2\<rparr>)"
    using sector_write [OF d2 lba(2) hn ln] by blast
  have me: "set_sector_of port sl (unat lba) ?new ?s2 = set_sector_of port sl (unat lba) ?new s" by (simp add: set_sector_of_def)
  let ?t = "s\<lparr>ram := put_bytes (ram s) io ?new, ctl := C', chans := H', medium := set_sector_of port sl (unat lba) ?new s,
        inodes := (inodes s)(fd_inode x \<mapsto> i\<lparr>i_size := i_size i + c\<rparr>), file_table := (file_table s)[f := x\<lparr>fd_pos := fd_pos x + c\<rparr>]\<rparr>"
  have blk: "unat (i_size i) div 512 < 140" using dj(3) by (simp add: div_less_iff_less_mult)
  have "holds ?m0 (ab + 4 * (unat (i_size i) div 512)) (bytes_of_word lba)"
    by (rule holds_put_other [OF lba(1)]) (use dj(2) blk in \<open>auto simp: region_def bytes_of_word_nth\<close>)
  then have gb: "load32 ?m0 (ab + 4 * (unat (i_size i) div 512)) = Inr lba" by (rule load32_holds)
  have ms: "memset (ram s) io 0 512 = Inr ?m0" using io by (simp add: memset_spec)
  have "write_chunk f ab io src first left s = Inr (c, ?t)"
    using f p gb ms r(1) cp wr(1) unfolding c_def chunk_def me
    by (simp add: write_chunk_def get_file_def set_file_def get_inode_def set_inode_def file_inode_def clear_ram_def on_ram_def get_block_def
        get_part_def Let_def unat_div_mod_512)
  moreover have "drive_free (my_disk p) ch port sl ?t" by (rule drive_free_same [OF wr(2) [unfolded me]]) simp_all
  ultimately show ?thesis unfolding Let_def by blast
qed

text \<open>What a write of the bytes \<open>bs\<close> at the end of the open file \<open>f\<close> relies on; the blocks of the file are different sectors.\<close>

definition can_write ::
  "partition \<Rightarrow> nat \<Rightarrow> u16 \<Rightarrow> bool \<Rightarrow> nat \<Rightarrow> open_file \<Rightarrow> inode \<Rightarrow> nat \<Rightarrow> (nat \<Rightarrow> u32) \<Rightarrow> nat \<Rightarrow> nat \<Rightarrow> u8 list \<Rightarrow> 'a fs_scheme \<Rightarrow> bool" where
  "can_write p ch port sl f x i ab bl io src bs s \<longleftrightarrow> parts s (cur_part s) = Some p \<and> drive_free (my_disk p) ch port sl s
     \<and> f < length (file_table s) \<and> file_table s ! f = x \<and> inodes s (fd_inode x) = Some i
     \<and> block_table (ram s) ab bl (unat (i_size i)) (unat (i_size i) + length bs) \<and> inj_on bl {k. 512 * k < unat (i_size i) + length bs}
     \<and> io \<noteq> 0 \<and> mapped (ram s) io 512 \<and> src \<noteq> 0 \<and> holds (ram s) src bs
     \<and> region src (length bs) \<inter> region io 512 = {} \<and> region ab 560 \<inter> region io 512 = {}"

text \<open>The sectors of the blocks from the one of position \<open>a\<close> up to position \<open>b\<close>.\<close>

definition sectors_between :: "(nat \<Rightarrow> u32) \<Rightarrow> nat \<Rightarrow> nat \<Rightarrow> nat set" where
  "sectors_between bl a b = (\<lambda>k. unat (bl k)) ` {k. a div 512 \<le> k \<and> 512 * k < b}"

lemma sectors_between_mono: "a \<le> a' \<Longrightarrow> sectors_between bl a' b \<subseteq> sectors_between bl a b"
  unfolding sectors_between_def by (rule image_mono) (auto dest: div_le_mono [of a a' 512])

lemma write_round:
  fixes s :: "'a fs_scheme"
  assumes "can_write p ch port sl f x i ab bl io src bs s" "unat left = length bs" "bs \<noteq> []" "first \<or> unat (i_size i) mod 512 = 0"
  defines "c \<equiv> chunk left (i_size i)"
  shows "\<exists>m C H M. let x' = x\<lparr>fd_pos := fd_pos x + c\<rparr>; i' = i\<lparr>i_size := i_size i + c\<rparr>;
      u = s\<lparr>ram := m, ctl := C, chans := H, medium := M, inodes := (inodes s)(fd_inode x \<mapsto> i'), file_table := (file_table s)[f := x']\<rparr> in
    write_chunk f ab io src first left s = Inr (c, u) \<and> can_write p ch port sl f x' i' ab bl io (src + unat c) (drop (unat c) bs) u
    \<and> (\<forall>a. a \<notin> region io 512 \<longrightarrow> m a = ram s a)
    \<and> file_content (M port sl) bl (unat (i_size i) + unat c) = file_content (medium s port sl) bl (unat (i_size i)) @ take (unat c) bs
    \<and> (\<forall>q y l. q \<noteq> port \<or> y \<noteq> sl \<or> l \<notin> sectors_between bl (unat (i_size i)) (unat (i_size i) + unat c) \<longrightarrow> M q y l = medium s q y l)"
proof -
  let ?sz = "unat (i_size i)" and ?x = "x\<lparr>fd_pos := fd_pos x + c\<rparr>" and ?i = "i\<lparr>i_size := i_size i + c\<rparr>" and ?d = "medium s port sl"
  note cw = assms(1) [unfolded can_write_def]
  have c: "0 < unat c" "unat c \<le> length bs" "?sz mod 512 + unat c \<le> 512"
    using assms(2,3) unat_chunk [of left "i_size i"] by (auto simp: c_def)
  let ?bs = "take (unat c) bs" and ?lba = "bl (?sz div 512)"
  let ?new = "patched (if first then ?d (unat ?lba) else replicate 512 0) (?sz mod 512) ?bs"
  let ?M = "set_sector_of port sl (unat ?lba) ?new s"
  have small: "?sz + length bs \<le> 71680" using cw by (simp add: block_table_def)
  have bt: "holds (ram s) (ab + 4 * (?sz div 512)) (bytes_of_word ?lba)" "unat ?lba < 163840"
    using block_tableD [of "ram s" ab bl ?sz "?sz + length bs" ?sz] cw assms(3) by auto
  have hb: "holds (ram s) src ?bs" "holds (ram s) (src + unat c) (drop (unat c) bs)"
    using cw holds_append [of "ram s" src ?bs "drop (unat c) bs"] c(2) by auto
  have w: "whole_sectors ?d" using cw by (simp add: drive_free_def)
  then have lw: "length (?d (unat ?lba)) = 512" "length ?new = 512" using c by (simp_all add: whole_sectors_def patched_def)
  have len: "length ?bs = unat (chunk left (i_size i))" "region src (length ?bs) \<inter> region io 512 = {}" "?sz < 71680"
    using c small cw by (auto simp: c_def region_def)
  obtain C H u where u: "u = s\<lparr>ram := put_bytes (ram s) io ?new, ctl := C, chans := H, medium := ?M,
      inodes := (inodes s)(fd_inode x \<mapsto> ?i), file_table := (file_table s)[f := ?x]\<rparr>"
    "write_chunk f ab io src first left s = Inr (c, u)" "drive_free (my_disk p) ch port sl u"
    using write_chunk_ok [OF _ _ _ _ _ bt _ _ _ hb(1) len(1) len(2), of p ch port sl f x first] cw len(3)
    unfolding Let_def c_def [symmetric] by blast
  have un: "unat (i_size ?i) = ?sz + unat c" using unat_sum [of "i_size i" c] small c(2) by simp
  have "block_table (put_bytes (ram s) io ?new) ab bl (?sz + unat c) (?sz + length bs)" by (rule block_table_put) (use cw lw in auto)
  moreover have "holds (put_bytes (ram s) io ?new) (src + unat c) (drop (unat c) bs)"
    by (rule holds_put_other [OF hb(2)]) (use cw lw c in \<open>auto simp: region_def\<close>)
  moreover have "region (src + unat c) (length (drop (unat c) bs)) \<subseteq> region src (length bs)" by (auto simp: region_def)
  ultimately have "can_write p ch port sl f ?x ?i ab bl io (src + unat c) (drop (unat c) bs) u"
    using cw u(3) un c(2) unfolding can_write_def u(1) by (auto simp: mapped_put_bytes)
  moreover have "inj_on bl {k. 512 * k < ?sz + length ?bs}" by (rule inj_on_subset [of _ "{k. 512 * k < ?sz + length bs}"]) (use cw in auto)
  then have fc: "file_content (?d(unat ?lba := ?new)) bl (?sz + length ?bs) = file_content ?d bl ?sz @ ?bs"
    by (intro file_content_append) (use lw(1) c assms(4) in auto)
  have "file_content (?M port sl) bl (?sz + unat c) = file_content ?d bl ?sz @ ?bs"
    using fc c(2) by (simp add: set_sector_of_def)
  moreover have "unat ?lba \<in> sectors_between bl ?sz (?sz + unat c)"
    using times_div_less_eq_dividend [of 512 ?sz] c(1) unfolding sectors_between_def by (intro imageI) (simp add: le_less_trans)
  then have "\<forall>q y l. q \<noteq> port \<or> y \<noteq> sl \<or> l \<notin> sectors_between bl ?sz (?sz + unat c) \<longrightarrow> ?M q y l = medium s q y l"
    by (auto simp: set_sector_of_def)
  moreover have "\<forall>a. a \<notin> region io 512 \<longrightarrow> put_bytes (ram s) io ?new a = ram s a" using lw(2) by (simp add: put_bytes_other)
  ultimately show ?thesis using u(2) unfolding Let_def u(1) by blast
qed

text \<open>What a write of the bytes \<open>bs\<close> has done: the state \<open>t\<close> after it, seen from the state \<open>s\<close> before.\<close>

definition has_written ::
  "nat \<Rightarrow> u16 \<Rightarrow> bool \<Rightarrow> nat \<Rightarrow> open_file \<Rightarrow> inode \<Rightarrow> (nat \<Rightarrow> u32) \<Rightarrow> nat \<Rightarrow> u8 list \<Rightarrow> 'a fs_scheme \<Rightarrow> 'a fs_scheme \<Rightarrow> bool" where
  "has_written ch port sl f x i bl io bs s t \<longleftrightarrow> (let n = of_nat (length bs); sz = unat (i_size i) in
     t = s\<lparr>ram := ram t, ctl := ctl t, chans := chans t, medium := medium t, inodes := (inodes s)(fd_inode x \<mapsto> i\<lparr>i_size := i_size i + n\<rparr>),
       file_table := (file_table s)[f := x\<lparr>fd_pos := fd_pos x + n\<rparr>]\<rparr>
   \<and> file_content (medium t port sl) bl (sz + length bs) = file_content (medium s port sl) bl sz @ bs
   \<and> (\<forall>q y l. q \<noteq> port \<or> y \<noteq> sl \<or> l \<notin> sectors_between bl sz (sz + length bs) \<longrightarrow> medium t q y l = medium s q y l)
   \<and> (\<forall>a. a \<notin> region io 512 \<longrightarrow> ram t a = ram s a))"

lemma to_block_end: "(n + (512 - n mod 512)) mod 512 = (0 :: nat)"
proof -
  obtain q r where "n = 512 * q + r" "r < 512" using mult_div_mod_eq [of 512 n] mod_less_divisor [of 512 n] by (metis zero_less_numeral)
  then show ?thesis by simp
qed

text \<open>Two writes one after the other are one write of all the bytes.\<close>

lemma has_written_trans:
  assumes "has_written ch port sl f x i bl io bs s u" "unat (i_size i) + length (bs @ cs) < 2 ^ 32" "f < length (file_table s)"
    and "has_written ch port sl f (x\<lparr>fd_pos := fd_pos x + of_nat (length bs)\<rparr>) (i\<lparr>i_size := i_size i + of_nat (length bs)\<rparr>) bl io cs u t"
  shows "has_written ch port sl f x i bl io (bs @ cs) s t"
proof -
  let ?sz = "unat (i_size i)" and ?i = "i\<lparr>i_size := i_size i + of_nat (length bs)\<rparr>"
  have n: "unat (of_nat (length bs) :: u32) = length bs" using assms(2) by (intro unat_u32) simp
  have sz: "unat (i_size ?i) = ?sz + length bs" using unat_sum [of "i_size i" "of_nat (length bs)"] n assms(2) by simp
  note 1 = assms(1) [unfolded has_written_def Let_def] and 2 = assms(4) [unfolded has_written_def Let_def sz]
  have su: "u = s\<lparr>ram := ram u, ctl := ctl u, chans := chans u, medium := medium u, inodes := (inodes s)(fd_inode x \<mapsto> ?i),
      file_table := (file_table s)[f := x\<lparr>fd_pos := fd_pos x + of_nat (length bs)\<rparr>]\<rparr>" using 1 by blast
  have u: "inodes u = (inodes s)(fd_inode x \<mapsto> ?i)" "file_table u = (file_table s)[f := x\<lparr>fd_pos := fd_pos x + of_nat (length bs)\<rparr>]"
    using arg_cong [OF su, of inodes] arg_cong [OF su, of file_table] by simp_all
  have tu: "t = u\<lparr>ram := ram t, ctl := ctl t, chans := chans t, medium := medium t,
      inodes := (inodes s)(fd_inode x \<mapsto> i\<lparr>i_size := i_size i + of_nat (length (bs @ cs))\<rparr>),
      file_table := (file_table s)[f := x\<lparr>fd_pos := fd_pos x + of_nat (length (bs @ cs))\<rparr>]\<rparr>"
    using 2 assms(3) unfolding u by (simp add: add.assoc)
  have ts: "t = s\<lparr>ram := ram t, ctl := ctl t, chans := chans t, medium := medium t,
      inodes := (inodes s)(fd_inode x \<mapsto> i\<lparr>i_size := i_size i + of_nat (length (bs @ cs))\<rparr>),
      file_table := (file_table s)[f := x\<lparr>fd_pos := fd_pos x + of_nat (length (bs @ cs))\<rparr>]\<rparr>"
    by (subst tu, subst su) simp
  have fc: "file_content (medium t port sl) bl (?sz + length (bs @ cs)) = file_content (medium s port sl) bl ?sz @ bs @ cs"
    using 1 2 by (simp add: add.assoc)
  have sub: "sectors_between bl ?sz (?sz + length bs) \<subseteq> sectors_between bl ?sz (?sz + length (bs @ cs))"
    "sectors_between bl (?sz + length bs) (?sz + length bs + length cs) \<subseteq> sectors_between bl ?sz (?sz + length (bs @ cs))"
    using sectors_between_mono [of ?sz "?sz + length bs" bl "?sz + length bs + length cs"] by (auto simp: sectors_between_def add.assoc)
  have md: "q \<noteq> port \<or> y \<noteq> sl \<or> l \<notin> sectors_between bl (?sz + length bs) (?sz + length bs + length cs) \<Longrightarrow> medium t q y l = medium u q y l"
    "q \<noteq> port \<or> y \<noteq> sl \<or> l \<notin> sectors_between bl ?sz (?sz + length bs) \<Longrightarrow> medium u q y l = medium s q y l" for q y l
    using 1 2 by blast+
  have "medium t q y l = medium s q y l" if "q \<noteq> port \<or> y \<noteq> sl \<or> l \<notin> sectors_between bl ?sz (?sz + length (bs @ cs))" for q y l
  proof -
    have "q \<noteq> port \<or> y \<noteq> sl \<or> l \<notin> sectors_between bl (?sz + length bs) (?sz + length bs + length cs)"
      "q \<noteq> port \<or> y \<noteq> sl \<or> l \<notin> sectors_between bl ?sz (?sz + length bs)" using that sub by blast+
    then show ?thesis using md by metis
  qed
  then show ?thesis using 1 2 ts fc unfolding has_written_def Let_def by simp
qed

lemma file_write_loop_ok:
  fixes s :: "'a fs_scheme"
  assumes "can_write p ch port sl f x i ab bl io src bs s" "unat left = length bs" "unat bw + unat left = unat count"
    and "bs = [] \<or> first \<or> unat (i_size i) mod 512 = 0"
  shows "\<exists>t. Files.write_loop f ab io src first bw left count s = Some (Inr (count, t)) \<and> drive_free (my_disk p) ch port sl t
    \<and> has_written ch port sl f x i bl io bs s t \<and> mapped (ram t) io 512"
  using assms
proof (induction "length bs" arbitrary: s x i bw left src bs first rule: less_induct)
  case (less bs s x i bw left src first)
  let ?sz = "unat (i_size i)" and ?d = "medium s port sl"
  note cw = less.prems(1) [unfolded can_write_def]
  show ?case
  proof (cases "bs = []")
    case True
    then have "left = 0" using less.prems(2) unat_eq_0 [of left] by simp
    then have "bw = count" using less.prems(3) by (simp add: word_unat_eq_iff)
    then have "Files.write_loop f ab io src first bw left count s = Some (Inr (count, s))" by (simp add: Files.write_loop.simps)
    moreover have "has_written ch port sl f x i bl io bs s s" using True cw by (auto simp: has_written_def Let_def fun_upd_idem)
    ultimately show ?thesis using cw by blast
  next
    case False
    define c where "c = chunk left (i_size i)"
    have c: "unat c = min (length bs) (512 - ?sz mod 512)" "0 < unat c" "unat c \<le> length bs"
      using False less.prems(2) unat_chunk [of left "i_size i"] by (auto simp: c_def)
    let ?x = "x\<lparr>fd_pos := fd_pos x + c\<rparr>" and ?i = "i\<lparr>i_size := i_size i + c\<rparr>"
    have fs: "first \<or> ?sz mod 512 = 0" using less.prems(4) False by simp
    obtain m C H M u where u: "u = s\<lparr>ram := m, ctl := C, chans := H, medium := M, inodes := (inodes s)(fd_inode x \<mapsto> ?i), file_table := (file_table s)[f := ?x]\<rparr>"
      "write_chunk f ab io src first left s = Inr (c, u)" "can_write p ch port sl f ?x ?i ab bl io (src + unat c) (drop (unat c) bs) u"
      "\<forall>a. a \<notin> region io 512 \<longrightarrow> m a = ram s a"
      "file_content (M port sl) bl (?sz + unat c) = file_content ?d bl ?sz @ take (unat c) bs"
      "\<forall>q y l. q \<noteq> port \<or> y \<noteq> sl \<or> l \<notin> sectors_between bl ?sz (?sz + unat c) \<longrightarrow> M q y l = medium s q y l"
      using write_round [OF less.prems(1,2) False fs] unfolding Let_def c_def [symmetric] by blast
    have "unat count < 2 ^ 32" "?sz + length bs \<le> 71680" using unsigned_less [of count] cw by (simp_all add: block_table_def)
    then have un: "unat (left - c) = length bs - unat c" "unat (bw + c) = unat bw + unat c" "unat (i_size ?i) = ?sz + unat c"
      using c(3) less.prems(2,3) unat_sum [of bw c] unat_sum [of "i_size i" c] by (simp_all add: unat_sub word_le_nat_alt)
    have "drop (unat c) bs = [] \<or> unat (i_size ?i) mod 512 = 0" using un(3) c(1) to_block_end [of ?sz] by (auto simp: min_def split: if_splits)
    then obtain t where t: "Files.write_loop f ab io (src + unat c) False (bw + c) (left - c) count u = Some (Inr (count, t))"
      "drive_free (my_disk p) ch port sl t" "has_written ch port sl f ?x ?i bl io (drop (unat c) bs) u t" "mapped (ram t) io 512"
      using less.hyps [OF _ u(3), of "left - c" "bw + c" False] un c(2,3) less.prems(2,3) by auto
    have "bw < count" using less.prems(2,3) c(2,3) by (simp add: word_less_nat_alt)
    then have "Files.write_loop f ab io src first bw left count s = Some (Inr (count, t))"
      using t(1) by (subst Files.write_loop.simps) (simp add: u(2))
    moreover have cc: "of_nat (unat c) = c" "length (take (unat c) bs) = unat c" using c(3) by simp_all
    have "has_written ch port sl f x i bl io (take (unat c) bs) s u"
      unfolding has_written_def Let_def cc using u(4-6) by (simp add: u(1))
    then have "has_written ch port sl f x i bl io (take (unat c) bs @ drop (unat c) bs) s t"
      by (rule has_written_trans) (use t(3) cw cc in \<open>simp_all add: block_table_def\<close>)
    ultimately show ?thesis using t(2,4) by auto
  qed
qed

section \<open>Appending and reading back\<close>

text \<open>
  C13. The loop of \<open>file_write\<close> returns and appends: whatever the size of the file and the number of bytes, the contents of the file
  afterwards are its old contents followed by the bytes of the buffer, the size in the inode grows by their number, sectors outside the
  blocks written and memory outside the I/O buffer keep their contents.
\<close>

theorem write_loop_appends:
  assumes "can_write p ch port sl f x i ab bl io src bs s" "length bs = unat count"
  shows "\<exists>t. run_walk (Files.write_loop f ab io src True 0 count count s) = Inr (count, t)
    \<and> drive_free (my_disk p) ch port sl t \<and> inodes t (fd_inode x) = Some (i\<lparr>i_size := i_size i + count\<rparr>)
    \<and> file_content (medium t port sl) bl (unat (i_size i) + length bs) = file_content (medium s port sl) bl (unat (i_size i)) @ bs
    \<and> (\<forall>q y l. q \<noteq> port \<or> y \<noteq> sl \<or> l \<notin> sectors_between bl (unat (i_size i)) (unat (i_size i) + length bs)
        \<longrightarrow> medium t q y l = medium s q y l)
    \<and> (\<forall>a. a \<notin> region io 512 \<longrightarrow> ram t a = ram s a)"
proof -
  obtain t where t: "Files.write_loop f ab io src True 0 count count s = Some (Inr (count, t))" "drive_free (my_disk p) ch port sl t"
    "has_written ch port sl f x i bl io bs s t"
    using file_write_loop_ok [OF assms(1), of count 0 count True] assms(2) by auto
  note h = t(3) [unfolded has_written_def Let_def]
  have n: "of_nat (length bs) = count" using assms(2) by simp
  have "inodes t = (inodes s)(fd_inode x \<mapsto> i\<lparr>i_size := i_size i + count\<rparr>)"
    using arg_cong [OF conjunct1 [OF h], of inodes] by (simp add: n)
  then show ?thesis using t(1,2) h by (simp add: run_walk_def)
qed

text \<open>The state in which a program that has written \<open>count\<close> bytes reads them: the position is set back to where they start.\<close>

definition seek_back :: "nat \<Rightarrow> u32 \<Rightarrow> 'a fs_scheme \<Rightarrow> 'a fs_scheme" where
  "seek_back f pos s = s\<lparr>file_table := (file_table s)[f := (file_table s ! f)\<lparr>fd_pos := pos\<rparr>]\<rparr>"

text \<open>
  C12. What was written is read back: after the loop of \<open>file_write\<close>, the loop of \<open>file_read\<close> from the old end of the file returns the
  same number of bytes and stores the same bytes in another buffer; it leaves the disk as it is.
\<close>

theorem file_write_read:
  fixes s :: "'a fs_scheme"
  assumes w: "can_write p ch port sl f x i ab bl io src bs s" "length bs = unat count"
    and b: "dst \<noteq> 0" "mapped (ram s) dst (length bs)" "region dst (length bs) \<inter> region io 512 = {}" "region ab 560 \<inter> region dst (length bs) = {}"
  shows "\<exists>t u. run_walk (Files.write_loop f ab io src True 0 count count s) = Inr (count, t)
    \<and> run_walk (Files.read_loop f ab io dst 0 count count (seek_back f (i_size i) t)) = Inr (count, u)
    \<and> holds (ram u) dst bs \<and> medium u = medium t"
proof -
  let ?sz = "unat (i_size i)"
  note cw = w(1) [unfolded can_write_def]
  obtain t where t: "Files.write_loop f ab io src True 0 count count s = Some (Inr (count, t))" "drive_free (my_disk p) ch port sl t"
    "has_written ch port sl f x i bl io bs s t" "mapped (ram t) io 512"
    using file_write_loop_ok [OF w(1), of count 0 count True] w(2) by auto
  note h = t(3) [unfolded has_written_def Let_def]
  have e: "t = s\<lparr>ram := ram t, ctl := ctl t, chans := chans t, medium := medium t, inodes := (inodes s)(fd_inode x \<mapsto> i\<lparr>i_size := i_size i + of_nat (length bs)\<rparr>),
       file_table := (file_table s)[f := x\<lparr>fd_pos := fd_pos x + of_nat (length bs)\<rparr>]\<rparr>" using h by blast
  have ft: "file_table t = (file_table s)[f := x\<lparr>fd_pos := fd_pos x + of_nat (length bs)\<rparr>]" "parts t = parts s" "cur_part t = cur_part s"
    using arg_cong [OF e, of file_table] arg_cong [OF e, of parts] arg_cong [OF e, of cur_part] by simp_all
  let ?x = "x\<lparr>fd_pos := i_size i\<rparr>" and ?v = "seek_back f (i_size i) t"
  have v: "file_table ?v = (file_table s)[f := ?x]" "ram ?v = ram t" using ft cw by (simp_all add: seek_back_def)
  have same: "ram t a = ram s a" if "a \<notin> region io 512" for a using h that by blast
  have "block_table (ram t) ab bl ?sz (?sz + length bs)"
    by (rule block_table_cong) (use cw same in blast)+
  moreover have "mapped (ram t) dst (length bs)"
    unfolding mapped_def
  proof (intro conjI allI impI)
    show "dst + length bs \<le> addr_limit" using b(2) by (simp add: mapped_def)
    fix j assume "j < length bs"
    then have "dst + j \<notin> region io 512" "ram s (dst + j) \<noteq> None" using b(2,3) by (auto simp: mapped_def region_def)
    then show "ram t (dst + j) \<noteq> None" using same by simp
  qed
  moreover have "drive_free (my_disk p) ch port sl ?v" by (rule drive_free_same [OF t(2)]) (simp_all add: seek_back_def)
  ultimately have cr: "can_read p ch port sl f ?x ab bl io dst (unat count) ?v"
    using cw b t(4) v ft w(2) by (simp add: can_read_def seek_back_def)
  obtain m C H where r: "Files.read_loop f ab io dst 0 count count ?v
      = Some (Inr (count, ?v\<lparr>ram := m, ctl := C, chans := H, file_table := (file_table ?v)[f := ?x\<lparr>fd_pos := fd_pos ?x + count\<rparr>]\<rparr>))"
    "\<forall>a. a \<notin> region io 512 \<longrightarrow> m a = put_bytes (ram t) dst (map (file_byte (medium t port sl) bl) [?sz..<?sz + unat count]) a"
    using file_read_loop_ok [OF cr, of 0 count] v(2) by (auto simp: Let_def seek_back_def)
  have "map (file_byte (medium t port sl) bl) [?sz..<?sz + unat count] = drop ?sz (file_content (medium t port sl) bl (?sz + length bs))"
    by (simp add: file_content_def drop_map w(2))
  also have "\<dots> = bs" using h by simp
  finally have "holds (put_bytes (ram t) dst bs) dst bs" "\<forall>a. a \<notin> region io 512 \<longrightarrow> m a = put_bytes (ram t) dst bs a"
    using b(2) r(2) by (simp_all add: holds_put_bytes mapped_def)
  then have "holds m dst bs" using holds_cong [of dst bs m "put_bytes (ram t) dst bs"] b(3) by blast
  then show ?thesis using t(1) r(1) by (simp add: run_walk_def seek_back_def)
qed

text \<open>
  The witnesses write three bytes to a file of 510 bytes, whose end is two bytes before the end of its first block.
\<close>

definition demo_files :: fs where
  "demo_files = demo_fs\<lparr>file_table := [\<lparr>fd_pos = 510, fd_flag = 2, fd_inode = 7000\<rparr>],
     inodes := [7000 \<mapsto> demo_inode\<lparr>i_size := 510, i_sectors := [900, 901] @ replicate 11 0\<rparr>],
     ram := put_bytes (put_bytes (ram demo_fs) 0x30000 (bytes_of_word 900 @ bytes_of_word 901)) 0x32000 (bytes ''abc'')\<rparr>"

lemma demo_files_free: "drive_free 5064 5000 0x1f0 False demo_files"
  by (rule drive_free_same [OF demo_fs_free]) (simp_all add: demo_files_def)

lemma demo_files_table: "block_table (ram demo_files) 0x30000 (\<lambda>k. 900 + of_nat k) 510 513"
proof -
  have "holds (ram demo_files) 0x30000 (bytes_of_word 900 @ bytes_of_word 901)"
    unfolding demo_files_def by (simp add: holds_put_other holds_put_bytes bytes_of_word_nth region_def bytes_def)
  then have h: "holds (ram demo_files) 0x30000 (bytes_of_word 900)" "holds (ram demo_files) 0x30004 (bytes_of_word 901)"
    by (simp_all add: holds_append bytes_of_word_nth)
  have "holds (ram demo_files) (0x30000 + 4 * k) (bytes_of_word (900 + of_nat k)) \<and> unat (900 + of_nat k :: u32) < 163840"
    if "512 * k < 513" for k :: nat
  proof -
    have "k = 0 \<or> k = 1" using that by auto
    then show ?thesis using h by auto
  qed
  then show ?thesis by (simp add: block_table_def)
qed

lemma demo_files_mapped: "0x20000 \<le> a \<Longrightarrow> a + n \<le> addr_limit \<Longrightarrow> mapped (ram demo_files) a n"
proof -
  assume "0x20000 \<le> a" "a + n \<le> addr_limit"
  then have "mapped (ram demo_fs) a n" by (simp add: demo_fs_simps mapped_def)
  then show ?thesis by (simp add: demo_files_def mapped_put_bytes)
qed

lemma demo_can_write:
  "can_write demo_part 5000 0x1f0 False 0 \<lparr>fd_pos = 510, fd_flag = 2, fd_inode = 7000\<rparr>
     (demo_inode\<lparr>i_size := 510, i_sectors := [900, 901] @ replicate 11 0\<rparr>) 0x30000 (\<lambda>k. 900 + of_nat k) 0x31000 0x32000 (bytes ''abc'') demo_files"
proof -
  have "inj_on (\<lambda>k. 900 + of_nat k :: u32) {k. 512 * k < 513}"
  proof (rule inj_onI)
    fix a b :: nat assume "a \<in> {k. 512 * k < 513}" "b \<in> {k. 512 * k < 513}" "900 + of_nat a = (900 + of_nat b :: u32)"
    then have "a \<in> {0, 1}" "b \<in> {0, 1}" "of_nat a = (of_nat b :: u32)" by auto
    then show "a = b" by auto
  qed
  moreover have "holds (ram demo_files) 0x32000 (bytes ''abc'')"
    unfolding demo_files_def by (simp add: holds_put_bytes bytes_def)
  moreover have "mapped (ram demo_files) 0x31000 512" by (rule demo_files_mapped) simp_all
  moreover have "my_disk demo_part = 5064" "parts demo_files (cur_part demo_files) = Some demo_part" by (simp_all add: demo_files_def demo_fs_simps)
  moreover have "length (bytes ''abc'') = 3" by (simp add: bytes_def)
  ultimately show ?thesis using demo_files_free demo_files_table
    by (simp add: can_write_def region_def) (simp add: demo_files_def demo_fs_simps)
qed


theorem write_loop_appends_witness:
  "\<exists>t. run_walk (Files.write_loop 0 0x30000 0x31000 0x32000 True 0 3 3 demo_files) = Inr (3, t)
    \<and> file_content (medium t 0x1f0 False) (\<lambda>k. 900 + of_nat k) 513
        = file_content (medium demo_files 0x1f0 False) (\<lambda>k. 900 + of_nat k) 510 @ bytes ''abc''"
  using write_loop_appends [OF demo_can_write, of 3] by (auto simp: bytes_def)

theorem file_write_read_witness:
  "\<exists>t u. run_walk (Files.write_loop 0 0x30000 0x31000 0x32000 True 0 3 3 demo_files) = Inr (3, t)
    \<and> run_walk (Files.read_loop 0 0x30000 0x31000 0x33000 0 3 3 (seek_back 0 510 t)) = Inr (3, u)
    \<and> holds (ram u) 0x33000 (bytes ''abc'') \<and> medium u = medium t"
  using file_write_read [OF demo_can_write, of 3 "0x33000"] demo_files_mapped [of "0x33000" "length (bytes ''abc'')"]
  by (simp add: bytes_def region_def)

text \<open>
  C34. A file cannot grow to the size that the check at the start of \<open>file_write\<close> allows. Of the sizes that pass the check (at most
  \<open>BLOCK_SIZE * 140 = 71680\<close> bytes), every one below the limit passes the assertion \<open>file_will_use_blocks <= 140\<close> on the number of blocks,
  and the limit itself fails it, because the number of blocks is the size divided by the block size, plus one.
\<close>

theorem file_size_limit:
  assumes "f < length (file_table s)" "inodes s (fd_inode (file_table s ! f)) = Some i" "\<not> i_size i + count > 512 * 140"
  shows "write_blocks f all_blocks count s =
    (if i_size i + count = 512 * 140 then Inl AssertFail
     else if (i_size i + count) div 512 = i_size i div 512 then
       andThen (same_block f all_blocks (unat (i_size i div 512 + 1)) s) (\<lambda>s. Inr (Some (), s))
     else more_blocks f all_blocks (unat (i_size i div 512 + 1)) (unat ((i_size i + count) div 512 + 1)) s)"
proof -
  have n: "unat (w div 512 + 1 :: u32) = unat w div 512 + 1" for w :: u32
  proof -
    have "unat w < 2 ^ 32" using unsigned_less [of w] by simp
    then show ?thesis using unat_sum [of "w div 512" 1] by (simp add: unat_div_mod_512)
  qed
  have "unat (i_size i + count) \<le> 71680" using assms(3) by (simp add: word_le_nat_alt not_less)
  then have "unat ((i_size i + count) div 512 + 1) \<le> 140 \<longleftrightarrow> i_size i + count \<noteq> 71680"
    by (auto simp: n word_unat_eq_iff)
  moreover have "unat ((i_size i + count) div 512 + 1) = unat (i_size i div 512 + 1) \<longleftrightarrow> (i_size i + count) div 512 = i_size i div 512"
    by (simp add: n word_unat_eq_iff [of "_ div _"] unat_div_mod_512)
  ultimately show ?thesis using assms(1,2) by (simp add: write_blocks_def file_inode_def get_file_def get_inode_def ASSERT_def)
qed

theorem file_size_limit_witness:
  "write_blocks 0 0x30000 71170 demo_files = Inl AssertFail"
  using file_size_limit [of 0 demo_files "demo_inode\<lparr>i_size := 510, i_sectors := [900, 901] @ replicate 11 0\<rparr>" 71170 "0x30000"]
  by (simp add: demo_files_def)

end
