(* ===== verification/Directory_Proofs.thy ===== *)
theory Directory_Proofs
  imports File_Proofs
begin

text \<open>
  Directories as sequences of entries: adding an entry to a block that has a free place changes exactly that place, and taking the last
  entry out of an indirect block never comes to an end.
\<close>

section \<open>The entries of a sector\<close>

definition entry_at :: "u8 list \<Rightarrow> nat \<Rightarrow> u8 list" where
  "entry_at d k = take sizeof_dir_entry (drop (sizeof_dir_entry * k) d)"

definition is_free :: "u8 list \<Rightarrow> nat \<Rightarrow> bool" where
  "is_free d k \<longleftrightarrow> word_at d (sizeof_dir_entry * k + 20) = FT_UNKNOWN"

lemma load32_word_at:
  assumes "holds m p d" "k + 4 \<le> length d"
  shows "load32 m (p + k) = Inr (word_at d k)"
proof -
  have "load m (p + (k + i)) = Inr (d ! (k + i))" if "i < 4" for i using holds_load [OF assms(1)] assms(2) that by simp
  from this [of 0] this [of 1] this [of 2] this [of 3] show ?thesis by (simp add: load32_def word_at_def add.assoc)
qed

lemma find_free_entry_ok:
  assumes "holds m p d" "length d = 512" "k + n \<le> 21"
  shows "find_free_entry m (p + 24 * k) n = Inr (map_option (\<lambda>j. p + 24 * j) (find (is_free d) [k..<k + n]))"
  using assms(3)
proof (induction n arbitrary: k)
  case (Suc n)
  have "load32 m (p + (24 * k + 20)) = Inr (word_at d (24 * k + 20))" using load32_word_at [OF assms(1)] assms(2) Suc.prems by simp
  moreover have "[k..<k + Suc n] = k # [Suc k..<Suc k + n]" by (simp add: upt_conv_Cons)
  ultimately show ?case using Suc.IH [of "Suc k"] Suc.prems
    by (simp add: entry_f_type_def sizeof_dir_entry_def is_free_def add.assoc add.commute [of 24] del: upt_Suc)
qed simp

lemma entry_at_patched:
  assumes "length d = 512" "length e = 24" "j < 21" "k < 21"
  shows "entry_at (patched d (24 * j) e) k = (if k = j then e else entry_at d k)"
proof -
  have L: "length (patched d (24 * j) e) = 512" using assms by (simp add: patched_def)
  show ?thesis
  proof (rule nth_equalityI)
    show "length (entry_at (patched d (24 * j) e) k) = length (if k = j then e else entry_at d k)"
      using assms L by (simp add: entry_at_def sizeof_dir_entry_def)
    fix i assume "i < length (entry_at (patched d (24 * j) e) k)"
    then have i: "i < 24" using assms L by (simp add: entry_at_def sizeof_dir_entry_def)
    then have "entry_at (patched d (24 * j) e) k ! i = patched d (24 * j) e ! (24 * k + i)"
      using assms L by (simp add: entry_at_def sizeof_dir_entry_def)
    moreover have "entry_at d k ! i = d ! (24 * k + i)" using i assms by (simp add: entry_at_def sizeof_dir_entry_def)
    ultimately show "entry_at (patched d (24 * j) e) k ! i = (if k = j then e else entry_at d k) ! i"
      using patched_nth [of "24 * j" e d "24 * k + i"] assms i by auto
  qed
qed

section \<open>Adding an entry\<close>

text \<open>
  What adding an entry relies on: the drive of the current partition is free, entries have 24 bytes, and the buffers of the sector and
  of the entry are mapped and do not overlap.
\<close>

definition can_add :: "partition \<Rightarrow> super_block \<Rightarrow> nat \<Rightarrow> u16 \<Rightarrow> bool \<Rightarrow> u32 \<Rightarrow> nat \<Rightarrow> u8 list \<Rightarrow> nat \<Rightarrow> 'a fs_scheme \<Rightarrow> bool" where
  "can_add p b ch port sl lba p_de e io s \<longleftrightarrow> parts s (cur_part s) = Some p \<and> sbs s (sb p) = Some b \<and> dir_entry_size b = 24
     \<and> drive_free (my_disk p) ch port sl s \<and> unat lba < 163840 \<and> io \<noteq> 0 \<and> mapped (ram s) io 512 \<and> p_de \<noteq> 0
     \<and> holds (ram s) p_de e \<and> length e = 24 \<and> region p_de 24 \<inter> region io 512 = {}"

lemma copy_entry:
  assumes "mapped m io 512" "io \<noteq> 0" "p_de \<noteq> 0" "holds m p_de e" "length e = 24" "region p_de 24 \<inter> region io 512 = {}" "length d = 512" "j < 21"
  shows "memcpy (put_bytes m io d) (io + 24 * j) p_de 24 = Inr (put_bytes m io (patched d (24 * j) e))"
proof -
  have "holds (put_bytes m io d) p_de e" using assms by (simp add: holds_put_other)
  moreover have "mapped (put_bytes m io d) io (24 * j + 24)" using mapped_le [OF mapped_put_bytes [OF assms(1)]] assms(8) by simp
  then have "mapped (put_bytes m io d) (io + 24 * j) (length e)" unfolding assms(5) by (simp only: mapped_add)
  moreover have "region (io + 24 * j) (length e) \<inter> region p_de (length e) = {}" using assms by (auto simp: region_def)
  ultimately have "memcpy (put_bytes m io d) (io + 24 * j) p_de (length e) = Inr (put_bytes (put_bytes m io d) (io + 24 * j) e)"
    using assms(2,3) by (intro memcpy_spec) simp_all
  then show ?thesis using assms by (simp add: put_patched)
qed

text \<open>
  C15. Adding an entry to a block of a directory: when the sector has a free entry, the first free one becomes the new entry, all other
  entries of the sector and all other sectors stay as they are, and the size of the directory grows by one entry; when it has none,
  nothing changes on the disk or in the directory and the code is told to go on with the next block.
\<close>

theorem sync_in_block_adds:
  fixes s :: "'a fs_scheme"
  assumes "can_add p b ch port sl lba p_de e io s" "inodes s inode = Some i" "medium s port sl (unat lba) = d" 
  shows "case find (is_free d) [0..<21] of
      Some j \<Rightarrow> \<exists>t d'. sync_in_block inode p_de io lba s = Inr (True, t) \<and> medium t = set_sector_of port sl (unat lba) d' s
        \<and> entry_at d' j = e \<and> (\<forall>k<21. k \<noteq> j \<longrightarrow> entry_at d' k = entry_at d k)
        \<and> inodes t = (inodes s)(inode \<mapsto> i\<lparr>i_size := i_size i + 24\<rparr>)
    | None \<Rightarrow> \<exists>t. sync_in_block inode p_de io lba s = Inr (False, t) \<and> medium t = medium s \<and> inodes t = inodes s"
proof -
  note ca = assms(1) [unfolded can_add_def]
  have ld: "length d = 512" using ca assms(3) by (auto simp: drive_free_def whole_sectors_def)
  obtain C H where r: "ide_read (my_disk p) lba (of_nat io) 1 s = Inr (s\<lparr>ram := put_bytes (ram s) io d, ctl := C, chans := H\<rparr>)"
    "drive_free (my_disk p) ch port sl (s\<lparr>ram := put_bytes (ram s) io d, ctl := C, chans := H\<rparr>)"
    using sector_read [of "my_disk p" ch port sl s lba io] ca assms(3) by blast
  let ?s = "s\<lparr>ram := put_bytes (ram s) io d, ctl := C, chans := H\<rparr>"
  have h: "holds (ram ?s) io d" using ca ld by (simp add: holds_put_bytes mapped_def)
  have f: "find_free_entry (ram ?s) io 21 = Inr (map_option (\<lambda>j. io + 24 * j) (find (is_free d) [0..<21]))"
    using find_free_entry_ok [OF h ld, of 0 21] by simp
  have start: "sync_in_block inode p_de io lba s = andThen (find_free_entry (ram ?s) io 21) (\<lambda>r. case r of
       None \<Rightarrow> Inr (False, ?s)
     | Some dir_e \<Rightarrow> andThen (on_ram (\<lambda>m. memcpy m dir_e p_de 24) ?s) (\<lambda>s.
         andThen (ide_write (my_disk p) lba (of_nat io) 1 s) (\<lambda>s. andThen (grow_dir inode 24 s) (\<lambda>s. Inr (True, s)))))"
    using ca r(1) by (simp add: sync_in_block_def part_sb_def get_part_def get_sb_def)
  show ?thesis
  proof (cases "find (is_free d) [0..<21]")
    case None
    then show ?thesis using start f by simp
  next
    case (Some j)
    then have j: "j < 21" by (auto simp: find_Some_iff)
    have c: "on_ram (\<lambda>m. memcpy m (io + 24 * j) p_de 24) ?s = Inr (?s\<lparr>ram := put_bytes (ram s) io (patched d (24 * j) e)\<rparr>)"
      using copy_entry [of "ram s" io p_de e d j] ca ld j by (simp add: on_ram_def)
    let ?d = "patched d (24 * j) e" and ?t = "?s\<lparr>ram := put_bytes (ram s) io (patched d (24 * j) e)\<rparr>"
    have "length ?d = 512" "holds (ram ?t) io ?d" using ca ld j by (simp_all add: patched_def holds_put_bytes mapped_def)
    moreover have "drive_free (my_disk p) ch port sl ?t" by (rule drive_free_same [OF r(2)]) simp_all
    ultimately obtain C' H' where w: "ide_write (my_disk p) lba (of_nat io) 1 ?t = Inr (?t\<lparr>ctl := C', chans := H', medium := set_sector_of port sl (unat lba) ?d ?t\<rparr>)"
      using sector_write [of "my_disk p" ch port sl ?t lba io ?d] ca by blast
    let ?u = "?t\<lparr>ctl := C', chans := H', medium := set_sector_of port sl (unat lba) ?d ?t\<rparr>"
    have "sync_in_block inode p_de io lba s = Inr (True, ?u\<lparr>inodes := (inodes s)(inode \<mapsto> i\<lparr>i_size := i_size i + 24\<rparr>)\<rparr>)"
      using start f Some c w assms(2) by (simp add: grow_dir_def set_inode_def get_inode_def)
    moreover have "\<forall>k<21. k \<noteq> j \<longrightarrow> entry_at ?d k = entry_at d k" "entry_at ?d j = e"
      using entry_at_patched [OF ld, of e] ca j by simp_all
    moreover have "set_sector_of port sl (unat lba) ?d ?t = set_sector_of port sl (unat lba) ?d s" by (simp add: set_sector_of_def)
    ultimately show ?thesis using Some by auto
  qed
qed

theorem sync_in_block_adds_witness:
  "\<exists>t d'. sync_in_block 7000 0x32000 0x31000 900 demo_fs = Inr (True, t) \<and> medium t = set_sector_of 0x1f0 False 900 d' demo_fs
    \<and> entry_at d' 0 = replicate 24 7 \<and> (\<forall>k<21. k \<noteq> 0 \<longrightarrow> entry_at d' k = entry_at (replicate 512 0) k)
    \<and> inodes t = (inodes demo_fs)(7000 \<mapsto> demo_inode\<lparr>i_size := 124\<rparr>)"
proof -
  have c: "can_add demo_part demo_sb 5000 0x1f0 False 900 0x32000 (replicate 24 7) 0x31000 demo_fs"
    using demo_fs_free by (simp add: can_add_def demo_fs_simps mapped_def holds_def region_def)
  have i: "inodes demo_fs 7000 = Some demo_inode" "medium demo_fs 0x1f0 False (unat (900 :: u32)) = replicate 512 0" by (simp_all add: demo_fs_simps)
  have "is_free (replicate 512 0) 0" by (simp add: is_free_def word_at_def sizeof_dir_entry_def word_of_bytes_def)
  then have "find (is_free (replicate 512 0)) [0..<21] = Some 0" by (simp add: upt_conv_Cons del: upt_Suc)
  then show ?thesis using sync_in_block_adds [OF c i] by (simp add: demo_inode_def)
qed

section \<open>Taking a block out of a directory\<close>

text \<open>The loop that counts the indirect blocks does not change its index: it ends only with an unmapped table.\<close>

lemma count_indirect_never:
  assumes "k < 140" "get_block all_blocks k s = Inr v"
  shows "count_indirect all_blocks k n s = None"
proof (rule ccontr)
  assume "count_indirect all_blocks k n s \<noteq> None"
  then obtain r where "count_indirect all_blocks k n s = Some r" by blast
  then have "\<not> (k < 140 \<and> get_block all_blocks k s = Inr v)"
    by (rule count_indirect.raw_induct [rotated]) (auto split: if_splits)
  then show False using assms by blast
qed


lemma demo_free_block: "\<exists>t. free_block_bit 6000 900 demo_fs = Inr t \<and> (\<forall>a. a \<noteq> 0x40018 \<longrightarrow> ram t a = ram demo_fs a)"
proof -
  have ps: "part_sb 6000 demo_fs = Inr (demo_part, demo_sb)" by (simp add: part_sb_def get_part_def get_sb_def demo_fs_simps)
  obtain v where b: "bitmap_set_mem (block_bitmap demo_part) 192 0 demo_fs = Inr (demo_fs\<lparr>ram := (ram demo_fs)(0x40018 \<mapsto> v)\<rparr>)"
    by (simp add: bitmap_set_mem_def bitmap_view_def bitmap_set_def store_def demo_fs_simps)
  let ?s = "demo_fs\<lparr>ram := (ram demo_fs)(0x40018 \<mapsto> v)\<rparr>"
  have f: "drive_free 5064 5000 0x1f0 False ?s" by (rule drive_free_same [OF demo_fs_free]) simp_all
  have h: "holds (ram ?s) 0x40000 ((replicate 512 7)[24 := v])" by (auto simp: holds_def nth_list_update demo_fs_simps)
  obtain C H where w: "ide_write 5064 65 (of_nat 0x40000) 1 ?s = Inr (?s\<lparr>ctl := C, chans := H, medium := set_sector_of 0x1f0 False 65 ((replicate 512 7)[24 := v]) ?s\<rparr>)"
    using sector_write [OF f, of 65 "0x40000" "(replicate 512 7)[24 := v]"] h by auto
  have "bitmap_sync 6000 192 BLOCK_BITMAP ?s = ide_write 5064 65 (of_nat 0x40000) 1 ?s"
    by (simp add: bitmap_sync_def part_sb_def get_part_def get_sb_def demo_fs_simps)
  moreover have "cur_part demo_fs = 6000" by (simp add: demo_fs_simps)
  ultimately show ?thesis using ps b w by (auto simp: free_block_bit_def demo_sb_def demo_part_def)
qed


end
