(* ===== verification/File_Calls.thy ===== *)
theory File_Calls
  imports Files
begin

text \<open>
  The system calls on files and directories of \<^verbatim>\<open>fs/fs.c\<close> and the pipes of \<^verbatim>\<open>shell/pipe.c\<close>. Path names are C strings in memory;
  local arrays and string literals are named by their addresses, which are collected in a record. A call that would wait for
  input ends with \<open>Blocks\<close>.
\<close>

section \<open>Descriptors\<close>

definition fd_local2global :: "u32 \<Rightarrow> 'a fs_scheme \<Rightarrow> nat outcome" where
  "fd_local2global local_fd s =
     andThen (get_task (running_thread s) s) (\<lambda>t.
     if unat local_fd < length (fd_table t) then
       let global_fd = fd_table t ! unat local_fd in
       ASSERT (sint global_fd \<ge> 0 \<and> sint global_fd < int MAX_FILE_OPEN) (Inr (unat global_fd))
     else Inl BadAccess)"

section \<open>Pipes\<close>

definition PIPE_FLAG :: u32 where
  "PIPE_FLAG = 0xFFFF"

definition is_pipe :: "u32 \<Rightarrow> 'a fs_scheme \<Rightarrow> bool outcome" where
  "is_pipe local_fd s =
     andThen (fd_local2global local_fd s) (\<lambda>global_fd. andThen (get_file global_fd s) (\<lambda>x. Inr (fd_flag x = PIPE_FLAG)))"

text \<open>A cleared page that is used as a ring buffer.\<close>

definition zero_ioqueue :: ioqueue where
  "zero_ioqueue = \<lparr>producer = 0, consumer = 0, buf = replicate bufsize 0, head = 0, tail = 0\<rparr>"

definition new_ioqueue :: "nat \<Rightarrow> 'a io_scheme \<Rightarrow> 'a io_scheme" where
  "new_ioqueue q s = (if q \<noteq> 0 then s\<lparr>ioqs := (ioqs s)(q \<mapsto> zero_ioqueue)\<rparr> else s)"

definition sys_pipe :: "nat \<Rightarrow> 'a fs_scheme \<Rightarrow> (int \<times> 'a fs_scheme) outcome" where
  "sys_pipe pipefd s =
     andThen (get_free_slot_in_global s) (\<lambda>(global_fd, s).
     if global_fd < 0 then Inl BadAccess
     else
       andThen (get_kernel_pages 1 s) (\<lambda>(page, s).
       let q = unat page; s = new_ioqueue q s in
       andThen (set_file (nat global_fd) (\<lambda>x. x\<lparr>fd_inode := q\<rparr>) s) (\<lambda>s.
       andThen (ioqueue_init q s) (\<lambda>s.
       if q = 0 then Inr (- 1, s)
       else
         andThen (set_file (nat global_fd) (\<lambda>x. x\<lparr>fd_flag := PIPE_FLAG, fd_pos := 2\<rparr>) s) (\<lambda>s.
         andThen (pcb_fd_install global_fd s) (\<lambda>(fd0, s).
         andThen (on_ram (\<lambda>m. store32 m pipefd (of_int fd0)) s) (\<lambda>s.
         andThen (pcb_fd_install global_fd s) (\<lambda>(fd1, s).
         andThen (on_ram (\<lambda>m. store32 m (pipefd + 4) (of_int fd1)) s) (\<lambda>s.
         Inr (0, s))))))))))"

text \<open>The loops that move bytes between a ring buffer and memory.\<close>

fun get_bytes :: "nat \<Rightarrow> nat \<Rightarrow> nat \<Rightarrow> 'a io_scheme \<Rightarrow> 'a io_scheme outcome" where
  "get_bytes ioq bufp 0 s = Inr s"
| "get_bytes ioq bufp (Suc n) s =
     andThen (ioq_getchar ioq s) (\<lambda>r.
     case r of
       Asleep _ \<Rightarrow> Inl Blocks
     | Finished b s \<Rightarrow> andThen (on_ram (\<lambda>m. store m bufp b) s) (get_bytes ioq (Suc bufp) n))"

fun put_bytes_to :: "nat \<Rightarrow> nat \<Rightarrow> nat \<Rightarrow> 'a io_scheme \<Rightarrow> 'a io_scheme outcome" where
  "put_bytes_to ioq bufp 0 s = Inr s"
| "put_bytes_to ioq bufp (Suc n) s =
     andThen (load (ram s) bufp) (\<lambda>b.
     andThen (ioq_putchar ioq b s) (\<lambda>r.
     case r of
       Asleep _ \<Rightarrow> Inl Blocks
     | Finished _ s \<Rightarrow> put_bytes_to ioq (Suc bufp) n s))"

definition pipe_read :: "u32 \<Rightarrow> nat \<Rightarrow> u32 \<Rightarrow> 'a fs_scheme \<Rightarrow> (u32 \<times> 'a fs_scheme) outcome" where
  "pipe_read fd bufp count s =
     andThen (fd_local2global fd s) (\<lambda>global_fd.
     andThen (get_file global_fd s) (\<lambda>x.
     andThen (ioq_length (fd_inode x) s) (\<lambda>ioq_len.
     let sz = (if ioq_len > unat count then unat count else ioq_len) in
     andThen (get_bytes (fd_inode x) bufp sz s) (\<lambda>s. Inr (of_nat sz, s)))))"

definition pipe_write :: "u32 \<Rightarrow> nat \<Rightarrow> u32 \<Rightarrow> 'a fs_scheme \<Rightarrow> (u32 \<times> 'a fs_scheme) outcome" where
  "pipe_write fd bufp count s =
     andThen (fd_local2global fd s) (\<lambda>global_fd.
     andThen (get_file global_fd s) (\<lambda>x.
     andThen (ioq_length (fd_inode x) s) (\<lambda>ioq_len.
     let ioq_left = bufsize - ioq_len;
         sz = (if ioq_left > unat count then unat count else ioq_left) in
     andThen (put_bytes_to (fd_inode x) bufp sz s) (\<lambda>s. Inr (of_nat sz, s)))))"

section \<open>Searching paths\<close>

text \<open>
  The addresses of local variables and literals: the name and the entry in \<open>search_file\<close>, \<open>searched_path\<close> of the search record,
  the name in \<open>path_depth_cnt\<close>, the inode in \<open>sys_mkdir\<close>, the copy of the output in \<open>sys_write\<close> and the reversed path in \<open>sys_getcwd\<close>.
\<close>

record fs_frames = file_frames +
  lit_slash_dot :: nat
  lit_slash_dotdot :: nat
  fr_name :: nat
  fr_dir_e :: nat
  fr_path :: nat
  fr_depth_name :: nat
  fr_inode :: nat
  fr_tmp :: nat
  fr_reverse :: nat

record path_search_record =
  searched_path :: nat
  sr_parent_dir :: nat
  sr_file_type :: u32

definition load_str :: "mem \<Rightarrow> nat \<Rightarrow> u8 list outcome" where
  "load_str m a = andThen (strlen m a) (load_bytes m a)"

text \<open>\<open>printk\<close> with a string in the message, and with two.\<close>

definition printk_str :: "string \<Rightarrow> nat \<Rightarrow> string \<Rightarrow> 'a dev_scheme \<Rightarrow> 'a dev_scheme outcome" where
  "printk_str pre a post s = andThen (load_str (ram s) a) (\<lambda>x. printk (bytes pre @ x @ bytes post @ [10]) s)"

definition printk_str2 :: "string \<Rightarrow> nat \<Rightarrow> string \<Rightarrow> nat \<Rightarrow> string \<Rightarrow> 'a dev_scheme \<Rightarrow> 'a dev_scheme outcome" where
  "printk_str2 pre a mid b post s =
     andThen (load_str (ram s) a) (\<lambda>x.
     andThen (load_str (ram s) b) (\<lambda>y. printk (bytes pre @ x @ bytes mid @ y @ bytes post @ [10]) s))"

definition is_root_path :: "fs_frames \<Rightarrow> nat \<Rightarrow> mem \<Rightarrow> bool outcome" where
  "is_root_path fr pathname m =
     andThen (strcmp m pathname (lit_slash fr)) (\<lambda>a. if a = 0 then Inr True else
     andThen (strcmp m pathname (lit_slash_dot fr)) (\<lambda>b. if b = 0 then Inr True else
     andThen (strcmp m pathname (lit_slash_dotdot fr)) (\<lambda>c. Inr (c = 0))))"

text \<open>A round of the loop of \<open>search_file\<close> goes on or returns.\<close>

datatype search_next = Go nat u32 path_search_record | Stop int path_search_record

definition record_name :: "fs_frames \<Rightarrow> nat \<Rightarrow> 'a io_scheme \<Rightarrow> 'a io_scheme outcome" where
  "record_name fr path s =
     andThen (strlen (ram s) path) (\<lambda>n. ASSERT (n < 512)
    (andThen (on_ram (\<lambda>m. andThen (strcat m path (lit_slash fr)) (\<lambda>(_, m). Inr m)) s)
       (on_ram (\<lambda>m. andThen (strcat m path (fr_name fr)) (\<lambda>(_, m). Inr m)))))"

definition search_step :: "fs_frames \<Rightarrow> nat \<Rightarrow> u32 \<Rightarrow> path_search_record \<Rightarrow> 'a fs_scheme \<Rightarrow> (search_next \<times> 'a fs_scheme) outcome" where
  "search_step fr sub_path parent_inode_no r s =
     andThen (record_name fr (searched_path r) s) (\<lambda>s.
     andThen (search_dir_entry (cur_part s) (sr_parent_dir r) (fr_name fr) (fr_dir_e fr) s) (\<lambda>(found, s).
     if \<not> found then Inr (Stop (- 1) r, s)
     else
       andThen (clear_ram (fr_name fr) 16 s) (\<lambda>s.
       andThen (if sub_path \<noteq> 0 then andThen (path_parse (ram s) sub_path (fr_name fr)) (\<lambda>(q, m). Inr (q, s\<lparr>ram := m\<rparr>))
                else Inr (sub_path, s)) (\<lambda>(sub_path, s).
       andThen (entry_f_type (ram s) (fr_dir_e fr)) (\<lambda>t.
       andThen (entry_i_no (ram s) (fr_dir_e fr)) (\<lambda>no.
       if t = FT_DIRECTORY then
         andThen (dir_inode_of (sr_parent_dir r) s) (\<lambda>(_, i).
         andThen (dir_close (sr_parent_dir r) s) (\<lambda>s.
         andThen (dir_open (cur_part s) no s) (\<lambda>(parent_dir, s).
         Inr (Go sub_path (i_no i) (r\<lparr>sr_parent_dir := parent_dir\<rparr>), s))))
       else if t = FT_REGULAR then Inr (Stop (sint no) (r\<lparr>sr_file_type := FT_REGULAR\<rparr>), s)
       else Inr (Go sub_path parent_inode_no r, s)))))))"

text \<open>The loop; \<open>None\<close> is its end with the whole path gone through.\<close>

partial_function (option) search_loop ::
  "fs_frames \<Rightarrow> nat \<Rightarrow> u32 \<Rightarrow> path_search_record \<Rightarrow> 'a fs_scheme \<Rightarrow> (int option \<times> u32 \<times> path_search_record \<times> 'a fs_scheme) outcome option" where
  "search_loop fr sub_path parent_inode_no r s =
     (case load (ram s) (fr_name fr) of
        Inl t \<Rightarrow> Some (Inl t)
      | Inr c \<Rightarrow>
          if c = 0 then Some (Inr (None, parent_inode_no, r, s))
          else (case search_step fr sub_path parent_inode_no r s of
             Inl t \<Rightarrow> Some (Inl t)
           | Inr n \<Rightarrow> (case fst n of
                Stop v r \<Rightarrow> Some (Inr (Some v, parent_inode_no, r, snd n))
              | Go sub_path parent_inode_no r \<Rightarrow> search_loop fr sub_path parent_inode_no r (snd n))))"

definition search_file :: "fs_frames \<Rightarrow> nat \<Rightarrow> path_search_record \<Rightarrow> 'a fs_scheme \<Rightarrow> (int \<times> path_search_record \<times> 'a fs_scheme) outcome" where
  "search_file fr pathname r s =
     andThen (is_root_path fr pathname (ram s)) (\<lambda>root.
     if root then
       andThen (on_ram (\<lambda>m. store m (searched_path r) 0) s) (\<lambda>s.
       Inr (0, r\<lparr>sr_parent_dir := root_dir s, sr_file_type := FT_DIRECTORY\<rparr>, s))
     else
       andThen (strlen (ram s) pathname) (\<lambda>path_len.
       andThen (load (ram s) pathname) (\<lambda>c. ASSERT (c = 47 \<and> path_len > 1 \<and> path_len < MAX_PATH_LEN)
      (andThen (clear_ram (fr_name fr) 16 s) (\<lambda>s.
       let r = r\<lparr>sr_parent_dir := root_dir s, sr_file_type := FT_UNKNOWN\<rparr> in
       andThen (path_parse (ram s) pathname (fr_name fr)) (\<lambda>(sub_path, m).
       andThen (run_walk (search_loop fr sub_path 0 r (s\<lparr>ram := m\<rparr>))) (\<lambda>(res, parent_inode_no, r, s).
       case res of
         Some v \<Rightarrow> Inr (v, r, s)
       | None \<Rightarrow>
           andThen (dir_close (sr_parent_dir r) s) (\<lambda>s.
           andThen (dir_open (cur_part s) parent_inode_no s) (\<lambda>(parent_dir, s).
           andThen (entry_i_no (ram s) (fr_dir_e fr)) (\<lambda>no.
           Inr (sint no, r\<lparr>sr_parent_dir := parent_dir, sr_file_type := FT_DIRECTORY\<rparr>, s)))))))))))"

text \<open>A search with a search record that was just cleared, as all callers make it.\<close>

definition fresh_search :: "fs_frames \<Rightarrow> nat \<Rightarrow> 'a fs_scheme \<Rightarrow> (int \<times> path_search_record \<times> 'a fs_scheme) outcome" where
  "fresh_search fr pathname s =
     andThen (clear_ram (fr_path fr) 512 s) (search_file fr pathname \<lparr>searched_path = fr_path fr, sr_parent_dir = 0, sr_file_type = 0\<rparr>)"

definition depth_of :: "fs_frames \<Rightarrow> nat \<Rightarrow> 'a io_scheme \<Rightarrow> (u32 \<times> 'a io_scheme) outcome" where
  "depth_of fr path s = andThen (path_depth_cnt (ram s) path (fr_depth_name fr)) (\<lambda>(n, m). Inr (n, s\<lparr>ram := m\<rparr>))"

section \<open>Files\<close>

text \<open>Leaves a call with -1 after closing the directory of the search.\<close>

definition close_fail :: "path_search_record \<Rightarrow> 'a fs_scheme \<Rightarrow> (int \<times> 'a fs_scheme) outcome" where
  "close_fail r s = andThen (dir_close (sr_parent_dir r) s) (\<lambda>s. Inr (- 1, s))"

definition sys_open :: "fs_frames \<Rightarrow> nat \<Rightarrow> u8 \<Rightarrow> 'a fs_scheme \<Rightarrow> (int \<times> 'a fs_scheme) outcome" where
  "sys_open fr pathname flags s =
     andThen (strlen (ram s) pathname) (\<lambda>n.
     andThen (load (ram s) (pathname + n - 1)) (\<lambda>c.
     if c = 47 then andThen (printk_str ''can`t open a directory '' pathname '''' s) (\<lambda>s. Inr (- 1, s))
     else ASSERT (flags \<le> 7)
    (andThen (depth_of fr pathname s) (\<lambda>(pathname_depth, s).
     andThen (fresh_search fr pathname s) (\<lambda>(inode_no, r, s).
     let found = (inode_no \<noteq> - 1); creat = (unat flags AND O_CREAT \<noteq> 0) in
     if sr_file_type r = FT_DIRECTORY then
       andThen (printk (bytes ''can`t open a direcotry with open(), use opendir() to instead'' @ [10]) s) (close_fail r)
     else
       andThen (depth_of fr (searched_path r) s) (\<lambda>(path_searched_depth, s).
       if pathname_depth \<noteq> path_searched_depth then
         andThen (printk_str2 ''cannot access '' pathname '': Not a directory, subpath '' (searched_path r) '' is`t exist'' s) (close_fail r)
       else if \<not> found \<and> \<not> creat then
         andThen (strrchr (ram s) (searched_path r) 47) (\<lambda>slash.
         andThen (printk_str2 ''in path '' (searched_path r) '', file '' (slash + 1) '' is`t exist'' s) (close_fail r))
       else if found \<and> creat then
         andThen (printk_str '''' pathname '' has already exist!'' s) (close_fail r)
       else if creat then
         andThen (printk (bytes ''creating file'' @ [10]) s) (\<lambda>s.
         andThen (strrchr (ram s) pathname 47) (\<lambda>slash.
         andThen (file_create (file_frames.truncate fr) (sr_parent_dir r) (slash + 1) flags s) (\<lambda>(fd, s).
         andThen (dir_close (sr_parent_dir r) s) (\<lambda>s. Inr (fd, s)))))
       else file_open (of_int inode_no) flags s))))))"

definition set_fd :: "nat \<Rightarrow> u32 \<Rightarrow> 'a fs_scheme \<Rightarrow> 'a fs_scheme outcome" where
  "set_fd fd v s = set_task (running_thread s) (\<lambda>t. t\<lparr>fd_table := (fd_table t)[fd := v]\<rparr>) s"

text \<open>One end of a pipe is closed; the ring buffer of a pipe without open ends is given back.\<close>

definition drop_pipe :: "nat \<Rightarrow> 'a fs_scheme \<Rightarrow> 'a fs_scheme outcome" where
  "drop_pipe global_fd s =
     andThen (set_file global_fd (\<lambda>x. x\<lparr>fd_pos := fd_pos x - 1\<rparr>) s) (\<lambda>s.
     andThen (get_file global_fd s) (\<lambda>x.
     if fd_pos x = 0 then
       andThen (mfree_page PF_KERNEL (of_nat (fd_inode x)) 1 s) (\<lambda>s.
       set_file global_fd (\<lambda>x. x\<lparr>fd_inode := 0\<rparr>) (s\<lparr>ioqs := (ioqs s)(fd_inode x := None)\<rparr>))
     else Inr s))"

definition sys_close :: "int \<Rightarrow> 'a fs_scheme \<Rightarrow> (int \<times> 'a fs_scheme) outcome" where
  "sys_close fd s =
     (if fd > 2 then
        andThen (fd_local2global (of_int fd) s) (\<lambda>global_fd.
        andThen (is_pipe (of_int fd) s) (\<lambda>pipe.
        andThen
          (if pipe then andThen (drop_pipe global_fd s) (\<lambda>s. Inr (0, s))
           else file_close (Some global_fd) s) (\<lambda>(ret, s).
        andThen (set_fd (nat fd) (- 1) s) (\<lambda>s. Inr (ret, s)))))
      else Inr (- 1, s))"

definition sys_write :: "fs_frames \<Rightarrow> int \<Rightarrow> nat \<Rightarrow> u32 \<Rightarrow> 'a fs_scheme \<Rightarrow> (int \<times> 'a fs_scheme) outcome" where
  "sys_write fr fd bufp count s =
     (if fd < 0 then andThen (printk (bytes ''sys_write: fd error'' @ [10]) s) (\<lambda>s. Inr (- 1, s))
      else
        andThen (is_pipe (of_int fd) s) (\<lambda>pipe.
        if pipe then andThen (pipe_write (of_int fd) bufp count s) (\<lambda>(n, s). Inr (sint n, s))
        else if fd = 1 then
          andThen (clear_ram (fr_tmp fr) 1024 s) (\<lambda>s.
          andThen (on_ram (\<lambda>m. memcpy m (fr_tmp fr) bufp (unat count)) s) (\<lambda>s.
          andThen (load_str (ram s) (fr_tmp fr)) (\<lambda>str.
          andThen (console_put_str str s) (\<lambda>s. Inr (sint count, s)))))
        else
          andThen (fd_local2global (of_int fd) s) (\<lambda>global_fd.
          andThen (get_file global_fd s) (\<lambda>x.
          if fd_flag x AND 1 \<noteq> 0 \<or> fd_flag x AND 2 \<noteq> 0 then file_write global_fd bufp count s
          else
            andThen (console_put_str (bytes ''sys_write: not allowed to write file without flag O_RDWR or O_WRONLY'' @ [10]) s)
              (\<lambda>s. Inr (- 1, s))))))"

definition sys_read :: "int \<Rightarrow> nat \<Rightarrow> u32 \<Rightarrow> 'a fs_scheme \<Rightarrow> (int \<times> 'a fs_scheme) outcome" where
  "sys_read fd bufp count s = ASSERT (bufp \<noteq> 0)
     (if fd < 0 \<or> fd = 1 \<or> fd = 2 then andThen (printk (bytes ''sys_read: fd error'' @ [10]) s) (\<lambda>s. Inr (- 1, s))
      else
        andThen (is_pipe (of_int fd) s) (\<lambda>pipe.
        if pipe then andThen (pipe_read (of_int fd) bufp count s) (\<lambda>(n, s). Inr (sint n, s))
        else if fd = 0 then
          andThen (get_bytes (kbd_buf s) bufp (unat count) s) (\<lambda>s. Inr (if count = 0 then - 1 else sint count, s))
        else andThen (fd_local2global (of_int fd) s) (\<lambda>global_fd. file_read global_fd bufp count s)))"

definition sys_lseek :: "int \<Rightarrow> u32 \<Rightarrow> u8 \<Rightarrow> 'a fs_scheme \<Rightarrow> (int \<times> 'a fs_scheme) outcome" where
  "sys_lseek fd offset whence s =
     (if fd < 0 then andThen (printk (bytes ''sys_lseek: fd error'' @ [10]) s) (\<lambda>s. Inr (- 1, s))
      else ASSERT (whence > 0 \<and> whence < 4)
     (andThen (fd_local2global (of_int fd) s) (\<lambda>global_fd.
      andThen (get_file global_fd s) (\<lambda>x.
      andThen (get_inode (fd_inode x) s) (\<lambda>i.
      let file_size = i_size i;
          new_pos = (if whence = 1 then offset else if whence = 2 then fd_pos x + offset else file_size + offset) in
      if sint new_pos < 0 \<or> sint new_pos > sint (file_size - 1) then Inr (- 1, s)
      else andThen (set_file global_fd (\<lambda>x. x\<lparr>fd_pos := new_pos\<rparr>) s) (\<lambda>s. Inr (sint new_pos, s)))))))"

text \<open>The first element of the file table that has the inode open, or the size of the table.\<close>

fun find_open_file :: "u32 \<Rightarrow> nat \<Rightarrow> nat \<Rightarrow> 'a fs_scheme \<Rightarrow> nat outcome" where
  "find_open_file no file_idx 0 s = Inr file_idx"
| "find_open_file no file_idx (Suc n) s =
     andThen (get_file file_idx s) (\<lambda>x.
     if fd_inode x \<noteq> 0 then
       andThen (get_inode (fd_inode x) s) (\<lambda>i. if no = i_no i then Inr file_idx else find_open_file no (Suc file_idx) n s)
     else find_open_file no (Suc file_idx) n s)"

definition sys_unlink :: "fs_frames \<Rightarrow> nat \<Rightarrow> 'a fs_scheme \<Rightarrow> (int \<times> 'a fs_scheme) outcome" where
  "sys_unlink fr pathname s =
     andThen (strlen (ram s) pathname) (\<lambda>n. ASSERT (n < MAX_PATH_LEN)
    (andThen (fresh_search fr pathname s) (\<lambda>(inode_no, r, s). ASSERT (inode_no \<noteq> 0)
    (if inode_no = - 1 then andThen (printk_str ''file '' pathname '' not found!'' s) (close_fail r)
     else if sr_file_type r = FT_DIRECTORY then
       andThen (printk (bytes ''can`t delete a direcotry with unlink(), use rmdir() to instead'' @ [10]) s) (close_fail r)
     else
       andThen (find_open_file (of_int inode_no) 0 MAX_FILE_OPEN s) (\<lambda>file_idx.
       if file_idx < MAX_FILE_OPEN then
         andThen (dir_close (sr_parent_dir r) s) (\<lambda>s.
         andThen (printk_str ''file '' pathname '' is in use, not allow to delete!'' s) (\<lambda>s. Inr (- 1, s)))
       else
         andThen (sys_malloc 1024 s) (\<lambda>(io_buf, s).
         if io_buf = 0 then
           andThen (dir_close (sr_parent_dir r) s) (\<lambda>s.
           andThen (printk (bytes ''sys_unlink: malloc for io_buf failed'' @ [10]) s) (\<lambda>s. Inr (- 1, s)))
         else
           andThen (delete_dir_entry (frames.truncate fr) (cur_part s) (sr_parent_dir r) (of_int inode_no) io_buf s) (\<lambda>(_, s).
           andThen (inode_release (cur_part s) (of_int inode_no) (of_nat (fr_blocks fr)) s) (\<lambda>s.
           andThen (sys_free io_buf s) (\<lambda>s.
           andThen (dir_close (sr_parent_dir r) s) (\<lambda>s. Inr (0, s)))))))))))"

section \<open>Directories\<close>

text \<open>The first two entries of a new directory, in the cleared buffer.\<close>

definition dot_entries :: "nat \<Rightarrow> u32 \<Rightarrow> u32 \<Rightarrow> mem \<Rightarrow> mem outcome" where
  "dot_entries io_buf self parent m =
     andThen (store_bytes m io_buf (bytes ''.'')) (\<lambda>m.
     andThen (store32 m (io_buf + 16) self) (\<lambda>m.
     andThen (store32 m (io_buf + 20) FT_DIRECTORY) (\<lambda>m.
     andThen (store_bytes m (io_buf + 24) (bytes ''..'')) (\<lambda>m.
     andThen (store32 m (io_buf + 40) parent) (\<lambda>m.
     store32 m (io_buf + 44) FT_DIRECTORY)))))"

definition mkdir_rollback :: "nat \<Rightarrow> int \<Rightarrow> path_search_record \<Rightarrow> nat \<Rightarrow> 'a fs_scheme \<Rightarrow> (int \<times> 'a fs_scheme) outcome" where
  "mkdir_rollback rollback_step inode_no r io_buf s =
     andThen (if rollback_step = 2 then
         andThen (get_part (cur_part s) s) (\<lambda>p. bitmap_set_mem (inode_bitmap p) (nat inode_no) 0 s) else Inr s) (\<lambda>s.
     andThen (dir_close (sr_parent_dir r) s) (\<lambda>s.
     andThen (sys_free io_buf s) (\<lambda>s. Inr (- 1, s))))"

text \<open>The part of \<open>sys_mkdir\<close> after the inode was allocated; the inode is a local variable.\<close>

definition make_dir :: "fs_frames \<Rightarrow> nat \<Rightarrow> int \<Rightarrow> path_search_record \<Rightarrow> nat \<Rightarrow> 'a fs_scheme \<Rightarrow> (int \<times> 'a fs_scheme) outcome" where
  "make_dir fr dirname inode_no r io_buf s =
     (let new_dir_inode = fr_inode fr;
          s = s\<lparr>inodes := (inodes s)(new_dir_inode \<mapsto> inode_init (of_int inode_no) fresh_inode)\<rparr> in
      andThen (block_bitmap_alloc (cur_part s) s) (\<lambda>(block_lba, s).
      if block_lba = - 1 then
        andThen (printk (bytes ''sys_mkdir: block_bitmap_alloc for create directory failed'' @ [10]) s) (mkdir_rollback 2 inode_no r io_buf)
      else
        andThen (set_sector new_dir_inode 0 (of_int block_lba) s) (\<lambda>s.
        andThen (part_sb (cur_part s) s) (\<lambda>(p, b).
        let block_bitmap_idx = of_int block_lba - data_start_lba b in
        ASSERT (block_bitmap_idx \<noteq> 0)
       (andThen (bitmap_sync (cur_part s) block_bitmap_idx BLOCK_BITMAP s) (\<lambda>s.
        andThen (clear_ram io_buf 1024 s) (\<lambda>s.
        andThen (dir_inode_of (sr_parent_dir r) s) (\<lambda>(parent_inode, pi).
        andThen (on_ram (dot_entries io_buf (of_int inode_no) (i_no pi)) s) (\<lambda>s.
        andThen (ide_write (my_disk p) (of_int block_lba) (of_nat io_buf) 1 s) (\<lambda>s.
        andThen (set_inode new_dir_inode (\<lambda>i. i\<lparr>i_size := 2 * dir_entry_size b\<rparr>) s) (\<lambda>s.
        andThen (clear_ram (fr_entry fr) sizeof_dir_entry s) (\<lambda>s.
        andThen (create_dir_entry dirname (of_int inode_no) 2 (fr_entry fr) s) (\<lambda>s.
        andThen (clear_ram io_buf 1024 s) (\<lambda>s.
        andThen (sync_dir_entry (frames.truncate fr) (sr_parent_dir r) (fr_entry fr) io_buf s) (\<lambda>(ok, s).
        if \<not> ok then
          andThen (printk (bytes ''sys_mkdir: sync_dir_entry to disk failed!'' @ [10]) s) (mkdir_rollback 2 inode_no r io_buf)
        else
          andThen (clear_ram io_buf 1024 s) (\<lambda>s.
          andThen (inode_sync (cur_part s) parent_inode (of_nat io_buf) s) (\<lambda>s.
          andThen (clear_ram io_buf 1024 s) (\<lambda>s.
          andThen (inode_sync (cur_part s) new_dir_inode (of_nat io_buf) s) (\<lambda>s.
          andThen (bitmap_sync (cur_part s) (of_int inode_no) INODE_BITMAP s) (\<lambda>s.
          andThen (sys_free io_buf s) (\<lambda>s.
          andThen (dir_close (sr_parent_dir r) s) (\<lambda>s. Inr (0, s)))))))))))))))))))))))"

definition sys_mkdir :: "fs_frames \<Rightarrow> nat \<Rightarrow> 'a fs_scheme \<Rightarrow> (int \<times> 'a fs_scheme) outcome" where
  "sys_mkdir fr pathname s =
     andThen (sys_malloc 1024 s) (\<lambda>(io_buf, s).
     if io_buf = 0 then
       andThen (printk (bytes ''sys_mkdir: sys_malloc for io_buf failed'' @ [10]) s) (\<lambda>s. Inr (- 1, s))
     else
       andThen (fresh_search fr pathname s) (\<lambda>(inode_no, r, s).
       if inode_no \<noteq> - 1 then
         andThen (printk_str ''sys_mkdir: file or directory '' pathname '' exist!'' s) (mkdir_rollback 1 inode_no r io_buf)
       else
         andThen (depth_of fr pathname s) (\<lambda>(pathname_depth, s).
         andThen (depth_of fr (searched_path r) s) (\<lambda>(path_searched_depth, s).
         if pathname_depth \<noteq> path_searched_depth then
           andThen (printk_str2 ''sys_mkdir: can`t access '' pathname '', subpath '' (searched_path r) '' is`t exist'' s)
             (mkdir_rollback 1 inode_no r io_buf)
         else
           andThen (strrchr (ram s) (searched_path r) 47) (\<lambda>slash.
           andThen (inode_bitmap_alloc (cur_part s) s) (\<lambda>(inode_no, s).
           if inode_no = - 1 then
             andThen (printk (bytes ''sys_mkdir: allocate inode failed'' @ [10]) s) (mkdir_rollback 1 inode_no r io_buf)
           else make_dir fr (slash + 1) inode_no r io_buf s))))))"

text \<open>The test for the root directory looks at the first byte twice.\<close>

definition sys_opendir :: "fs_frames \<Rightarrow> nat \<Rightarrow> 'a fs_scheme \<Rightarrow> (nat \<times> 'a fs_scheme) outcome" where
  "sys_opendir fr name s =
     andThen (strlen (ram s) name) (\<lambda>n. ASSERT (n < MAX_PATH_LEN)
    (andThen (load (ram s) name) (\<lambda>c0.
     andThen (if c0 = 47 then load (ram s) (name + 1) else Inr 0) (\<lambda>c1.
     if c0 = 47 \<and> (c1 = 0 \<or> c0 = 46) then Inr (root_dir s, s)
     else
       andThen (fresh_search fr name s) (\<lambda>(inode_no, r, s).
       andThen
         (if inode_no = - 1 then
            andThen (printk_str2 ''In '' name '', sub path '' (searched_path r) '' not exist'' s) (\<lambda>s. Inr (0, s))
          else if sr_file_type r = FT_REGULAR then andThen (printk_str '''' name '' is regular file!'' s) (\<lambda>s. Inr (0, s))
          else if sr_file_type r = FT_DIRECTORY then dir_open (cur_part s) (of_int inode_no) s
          else Inr (0, s)) (\<lambda>(ret, s).
       andThen (dir_close (sr_parent_dir r) s) (\<lambda>s. Inr (ret, s))))))))"

definition sys_closedir :: "nat \<Rightarrow> 'a fs_scheme \<Rightarrow> (int \<times> 'a fs_scheme) outcome" where
  "sys_closedir dir s = (if dir \<noteq> 0 then andThen (dir_close dir s) (\<lambda>s. Inr (0, s)) else Inr (- 1, s))"

definition sys_readdir :: "frames \<Rightarrow> nat \<Rightarrow> 'a fs_scheme \<Rightarrow> (nat \<times> 'a fs_scheme) outcome" where
  "sys_readdir fr dir s = ASSERT (dir \<noteq> 0) (dir_read fr dir s)"

definition sys_rewinddir :: "nat \<Rightarrow> 'a fs_scheme \<Rightarrow> 'a fs_scheme outcome" where
  "sys_rewinddir dir s = set_dir dir (\<lambda>d. d\<lparr>dir_pos := 0\<rparr>) s"

definition sys_rmdir :: "fs_frames \<Rightarrow> nat \<Rightarrow> 'a fs_scheme \<Rightarrow> (int \<times> 'a fs_scheme) outcome" where
  "sys_rmdir fr pathname s =
     andThen (fresh_search fr pathname s) (\<lambda>(inode_no, r, s). ASSERT (inode_no \<noteq> 0)
    (andThen
       (if inode_no = - 1 then
          andThen (printk_str2 ''In '' pathname '', sub path '' (searched_path r) '' not exist'' s) (\<lambda>s. Inr (- 1, s))
        else if sr_file_type r = FT_REGULAR then andThen (printk_str '''' pathname '' is regular file!'' s) (\<lambda>s. Inr (- 1, s))
        else
          andThen (dir_open (cur_part s) (of_int inode_no) s) (\<lambda>(dir, s).
          andThen (dir_is_empty dir s) (\<lambda>empty.
          andThen
            (if \<not> empty then
               andThen (printk_str ''dir '' pathname '' is not empty, it is not allowed to delete a nonempty directory!'' s) (\<lambda>s. Inr (- 1, s))
             else
               andThen (dir_remove (frames.truncate fr) (sr_parent_dir r) dir s) (\<lambda>(e, s). Inr (if e = 0 then 0 else - 1, s))) (\<lambda>(retval, s).
          andThen (dir_close dir s) (\<lambda>s. Inr (retval, s)))))) (\<lambda>(retval, s).
     andThen (dir_close (sr_parent_dir r) s) (\<lambda>s. Inr (retval, s)))))"

section \<open>The working directory\<close>

definition get_parent_dir_inode_nr :: "u32 \<Rightarrow> nat \<Rightarrow> 'a fs_scheme \<Rightarrow> (u32 \<times> 'a fs_scheme) outcome" where
  "get_parent_dir_inode_nr child_inode_nr io_buf s =
     andThen (inode_open (cur_part s) child_inode_nr s) (\<lambda>(inode, s).
     andThen (get_inode inode s) (\<lambda>i.
     andThen (sector_at i 0) (\<lambda>block_lba.
     andThen (part_sb (cur_part s) s) (\<lambda>(p, b). ASSERT (block_lba \<ge> data_start_lba b)
    (andThen (inode_close inode s) (\<lambda>s.
     andThen (ide_read (my_disk p) block_lba (of_nat io_buf) 1 s) (\<lambda>s.
     andThen (entry_i_no (ram s) (io_buf + sizeof_dir_entry)) (\<lambda>no.
     andThen (entry_f_type (ram s) (io_buf + sizeof_dir_entry)) (\<lambda>t. ASSERT (no < 4096 \<and> t = FT_DIRECTORY) (Inr (no, s)))))))))))"

fun find_child_entry :: "mem \<Rightarrow> nat \<Rightarrow> u32 \<Rightarrow> nat \<Rightarrow> nat option outcome" where
  "find_child_entry m dir_e no 0 = Inr None"
| "find_child_entry m dir_e no (Suc n) =
     andThen (entry_i_no m dir_e) (\<lambda>k. if k = no then Inr (Some dir_e) else find_child_entry m (dir_e + sizeof_dir_entry) no n)"

fun child_name_loop :: "literals \<Rightarrow> nat \<Rightarrow> u32 \<Rightarrow> nat \<Rightarrow> nat \<Rightarrow> nat \<Rightarrow> nat \<Rightarrow> 'a fs_scheme \<Rightarrow> (int \<times> 'a fs_scheme) outcome" where
  "child_name_loop lits all_blocks no path io_buf block_idx 0 s = Inr (- 1, s)"
| "child_name_loop lits all_blocks no path io_buf block_idx (Suc n) s =
     andThen (get_block all_blocks block_idx s) (\<lambda>lba.
     if lba \<noteq> 0 then
       andThen (part_sb (cur_part s) s) (\<lambda>(p, b).
       andThen (ide_read (my_disk p) lba (of_nat io_buf) 1 s) (\<lambda>s.
       andThen (find_child_entry (ram s) io_buf no (unat (512 div dir_entry_size b))) (\<lambda>e.
       case e of
         Some dir_e \<Rightarrow>
           andThen (on_ram (\<lambda>m. andThen (strcat m path (lit_slash lits)) (\<lambda>(_, m). Inr m)) s) (\<lambda>s.
           andThen (on_ram (\<lambda>m. andThen (strcat m path dir_e) (\<lambda>(_, m). Inr m)) s) (\<lambda>s. Inr (0, s)))
       | None \<Rightarrow> child_name_loop lits all_blocks no path io_buf (Suc block_idx) n s)))
     else child_name_loop lits all_blocks no path io_buf (Suc block_idx) n s)"

definition get_child_dir_name :: "frames \<Rightarrow> u32 \<Rightarrow> u32 \<Rightarrow> nat \<Rightarrow> nat \<Rightarrow> 'a fs_scheme \<Rightarrow> (int \<times> 'a fs_scheme) outcome" where
  "get_child_dir_name fr p_inode_nr c_inode_nr path io_buf s =
     andThen (inode_open (cur_part s) p_inode_nr s) (\<lambda>(inode, s).
     andThen (get_inode inode s) (\<lambda>i.
     andThen (zero_blocks (fr_blocks fr) s) (\<lambda>s.
     andThen (collect_blocks (cur_part s) i (fr_blocks fr) s) (\<lambda>(indirect, s).
     andThen (inode_close inode s) (\<lambda>s.
     andThen (part_sb (cur_part s) s) (\<lambda>(_, b).
     if dir_entry_size b = 0 then Inl DivError
     else child_name_loop (literals.truncate fr) (fr_blocks fr) c_inode_nr path io_buf 0 (if indirect then 140 else 12) s))))))"

text \<open>From the working directory up to the root: the names are appended, innermost first. \<open>False\<close> when a name is not found.\<close>

partial_function (option) cwd_loop :: "frames \<Rightarrow> nat \<Rightarrow> u32 \<Rightarrow> nat \<Rightarrow> 'a fs_scheme \<Rightarrow> (bool \<times> 'a fs_scheme) outcome option" where
  "cwd_loop fr path child_inode_nr io_buf s =
     (if child_inode_nr = 0 then Some (Inr (True, s))
      else (case get_parent_dir_inode_nr child_inode_nr io_buf s of
         Inl t \<Rightarrow> Some (Inl t)
       | Inr r \<Rightarrow> (case get_child_dir_name fr (fst r) child_inode_nr path io_buf (snd r) of
            Inl t \<Rightarrow> Some (Inl t)
          | Inr q \<Rightarrow> if fst q = - 1 then Some (Inr (False, snd q)) else cwd_loop fr path (fst r) io_buf (snd q))))"

text \<open>The components of the reversed path are moved, the last first, to the end of the buffer.\<close>

partial_function (option) reverse_loop :: "nat \<Rightarrow> nat \<Rightarrow> mem \<Rightarrow> mem outcome option" where
  "reverse_loop bufp path m =
     (case strrchr m path 47 of
        Inl t \<Rightarrow> Some (Inl t)
      | Inr last_slash \<Rightarrow>
          if last_slash = 0 then Some (Inr m)
          else (case strlen m bufp of
             Inl t \<Rightarrow> Some (Inl t)
           | Inr n \<Rightarrow> (case strcpy m (bufp + unat (of_nat n :: u16)) last_slash of
                Inl t \<Rightarrow> Some (Inl t)
              | Inr r \<Rightarrow> (case store (snd r) last_slash 0 of
                   Inl t \<Rightarrow> Some (Inl t)
                 | Inr m \<Rightarrow> reverse_loop bufp path m))))"

definition sys_getcwd :: "fs_frames \<Rightarrow> nat \<Rightarrow> u32 \<Rightarrow> 'a fs_scheme \<Rightarrow> (nat \<times> 'a fs_scheme) outcome" where
  "sys_getcwd fr bufp sz s = ASSERT (bufp \<noteq> 0)
     (andThen (sys_malloc 512 s) (\<lambda>(io_buf, s).
      if io_buf = 0 then Inr (0, s)
      else
        andThen (get_task (running_thread s) s) (\<lambda>t.
        let child_inode_nr = cwd_inode_nr t in
        ASSERT (sint child_inode_nr \<ge> 0 \<and> sint child_inode_nr < 4096)
       (if child_inode_nr = 0 then
          andThen (on_ram (\<lambda>m. andThen (store m bufp 47) (\<lambda>m. store m (bufp + 1) 0)) s) (\<lambda>s.
          andThen (sys_free io_buf s) (\<lambda>s. Inr (bufp, s)))
        else
          andThen (clear_ram bufp (unat sz) s) (\<lambda>s.
          andThen (clear_ram (fr_reverse fr) MAX_PATH_LEN s) (\<lambda>s.
          andThen (run_walk (cwd_loop (frames.truncate fr) (fr_reverse fr) child_inode_nr io_buf s)) (\<lambda>(ok, s).
          if \<not> ok then andThen (sys_free io_buf s) (\<lambda>s. Inr (0, s))
          else
            andThen (strlen (ram s) (fr_reverse fr)) (\<lambda>n. ASSERT (n \<le> unat sz)
           (andThen (on_ram (\<lambda>m. run_walk (reverse_loop bufp (fr_reverse fr) m)) s) (\<lambda>s.
            andThen (sys_free io_buf s) (\<lambda>s. Inr (bufp, s))))))))))))"

definition sys_chdir :: "fs_frames \<Rightarrow> nat \<Rightarrow> 'a fs_scheme \<Rightarrow> (int \<times> 'a fs_scheme) outcome" where
  "sys_chdir fr path s =
     andThen (fresh_search fr path s) (\<lambda>(inode_no, r, s).
     andThen
       (if inode_no \<noteq> - 1 then
          if sr_file_type r = FT_DIRECTORY then
            andThen (set_task (running_thread s) (\<lambda>t. t\<lparr>cwd_inode_nr := of_int inode_no\<rparr>) s) (\<lambda>s. Inr (0, s))
          else andThen (printk_str ''sys_chdir: '' path '' is regular file or other!'' s) (\<lambda>s. Inr (- 1, s))
        else Inr (- 1, s)) (\<lambda>(ret, s).
     andThen (dir_close (sr_parent_dir r) s) (\<lambda>s. Inr (ret, s))))"

text \<open>\<open>struct stat\<close> has the words \<open>st_ino\<close>, \<open>st_size\<close> and \<open>st_filetype\<close>.\<close>

definition sys_stat :: "fs_frames \<Rightarrow> nat \<Rightarrow> nat \<Rightarrow> 'a fs_scheme \<Rightarrow> (int \<times> 'a fs_scheme) outcome" where
  "sys_stat fr path bufp s =
     andThen (is_root_path fr path (ram s)) (\<lambda>root.
     if root then
       andThen (on_ram (\<lambda>m. store32 m (bufp + 8) FT_DIRECTORY) s) (\<lambda>s.
       andThen (on_ram (\<lambda>m. store32 m bufp 0) s) (\<lambda>s.
       andThen (dir_inode_of (root_dir s) s) (\<lambda>(_, i).
       andThen (on_ram (\<lambda>m. store32 m (bufp + 4) (i_size i)) s) (\<lambda>s. Inr (0, s)))))
     else
       andThen (fresh_search fr path s) (\<lambda>(inode_no, r, s).
       andThen
         (if inode_no \<noteq> - 1 then
            andThen (inode_open (cur_part s) (of_int inode_no) s) (\<lambda>(obj_inode, s).
            andThen (get_inode obj_inode s) (\<lambda>i.
            andThen (on_ram (\<lambda>m. store32 m (bufp + 4) (i_size i)) s) (\<lambda>s.
            andThen (inode_close obj_inode s) (\<lambda>s.
            andThen (on_ram (\<lambda>m. store32 m (bufp + 8) (sr_file_type r)) s) (\<lambda>s.
            andThen (on_ram (\<lambda>m. store32 m bufp (of_int inode_no)) s) (\<lambda>s. Inr (0, s)))))))
          else andThen (printk_str ''sys_stat: '' path '' not found'' s) (\<lambda>s. Inr (- 1, s))) (\<lambda>(ret, s).
       andThen (dir_close (sr_parent_dir r) s) (\<lambda>s. Inr (ret, s)))))"

definition sys_putchar :: "u8 \<Rightarrow> 'a dev_scheme \<Rightarrow> 'a dev_scheme outcome" where
  "sys_putchar char_asci s = console_put_char char_asci s"

end
