(* ===== verification/Fs_Init.thy ===== *)
theory Fs_Init
  imports File_Calls
begin

text \<open>
  Creating and mounting file systems: \<open>partition_format\<close>, \<open>mount_partition\<close> and \<open>filesys_init\<close> of \<^verbatim>\<open>fs/fs.c\<close>. The layout of a
  partition is computed as a super block, which is written to the disk as its 13 words followed by padding.
\<close>

section \<open>Super blocks\<close>

definition encode_sb :: "super_block \<Rightarrow> u8 list" where
  "encode_sb b = concat (map bytes_of_word [sb_magic b, sb_sec_cnt b, inode_cnt b, part_lba_base b, block_bitmap_lba b, block_bitmap_sects b,
     inode_bitmap_lba b, inode_bitmap_sects b, inode_table_lba b, inode_table_sects b, data_start_lba b, root_inode_no b, dir_entry_size b])"

definition decode_sb :: "u8 list \<Rightarrow> super_block" where
  "decode_sb bs = \<lparr>sb_magic = word_at bs 0, sb_sec_cnt = word_at bs 4, inode_cnt = word_at bs 8, part_lba_base = word_at bs 12,
     block_bitmap_lba = word_at bs 16, block_bitmap_sects = word_at bs 20, inode_bitmap_lba = word_at bs 24,
     inode_bitmap_sects = word_at bs 28, inode_table_lba = word_at bs 32, inode_table_sects = word_at bs 36,
     data_start_lba = word_at bs 40, root_inode_no = word_at bs 44, dir_entry_size = word_at bs 48\<rparr>"

abbreviation FS_MAGIC :: u32 where
  "FS_MAGIC \<equiv> 0x19590318"

definition DIV_ROUND_UP :: "u32 \<Rightarrow> u32 \<Rightarrow> u32" where
  "DIV_ROUND_UP x step = (x + step - 1) div step"

text \<open>The layout of a partition, with the number of blocks of data.\<close>

definition format_layout :: "partition \<Rightarrow> super_block \<times> u32" where
  "format_layout p =
     (let boot_sector_sects = 1;
          super_block_sects = 1;
          inode_bitmap_sects = DIV_ROUND_UP 4096 4096;
          inode_table_sects = DIV_ROUND_UP (of_nat sizeof_inode * 4096) 512;
          used_sects = boot_sector_sects + super_block_sects + inode_bitmap_sects + inode_table_sects;
          free_sects = sec_cnt p - used_sects;
          block_bitmap_sects = DIV_ROUND_UP free_sects 4096;
          block_bitmap_bit_len = free_sects - block_bitmap_sects;
          block_bitmap_sects = DIV_ROUND_UP block_bitmap_bit_len 4096;
          block_bitmap_lba = start_lba p + 2;
          inode_bitmap_lba = block_bitmap_lba + block_bitmap_sects;
          inode_table_lba = inode_bitmap_lba + inode_bitmap_sects in
      (\<lparr>sb_magic = FS_MAGIC, sb_sec_cnt = sec_cnt p, inode_cnt = 4096, part_lba_base = start_lba p,
        block_bitmap_lba = block_bitmap_lba, block_bitmap_sects = block_bitmap_sects,
        inode_bitmap_lba = inode_bitmap_lba, inode_bitmap_sects = inode_bitmap_sects,
        inode_table_lba = inode_table_lba, inode_table_sects = inode_table_sects,
        data_start_lba = inode_table_lba + inode_table_sects, root_inode_no = 0, dir_entry_size = of_nat sizeof_dir_entry\<rparr>,
       block_bitmap_bit_len))"

section \<open>Formatting\<close>

definition or_byte :: "nat \<Rightarrow> u8 \<Rightarrow> mem \<Rightarrow> mem outcome" where
  "or_byte a v m = andThen (load m a) (\<lambda>b. store m a (b OR v))"

text \<open>The loop that clears the bits from \<open>bit_idx\<close> on of a byte.\<close>

fun clear_low_bits :: "nat \<Rightarrow> nat \<Rightarrow> nat \<Rightarrow> mem \<Rightarrow> mem outcome" where
  "clear_low_bits a bit_idx 0 m = Inr m"
| "clear_low_bits a bit_idx (Suc n) m =
     andThen (load m a) (\<lambda>b. andThen (store m a (b AND NOT (push_bit bit_idx 1))) (clear_low_bits a (Suc bit_idx) n))"

text \<open>The bitmap of blocks: the first block is used, and so are the bits behind the last block up to the end of its sector.\<close>

definition format_block_bitmap :: "nat \<Rightarrow> u32 \<Rightarrow> mem \<Rightarrow> mem outcome" where
  "format_block_bitmap bufp block_bitmap_bit_len m =
     (let block_bitmap_last_byte = unat (block_bitmap_bit_len div 8);
          block_bitmap_last_bit = unat (block_bitmap_bit_len mod 8);
          last_size = 512 - block_bitmap_last_byte mod 512 in
      andThen (or_byte bufp 1 m) (\<lambda>m.
      andThen (memset m (bufp + block_bitmap_last_byte) 0xff last_size)
        (clear_low_bits (bufp + block_bitmap_last_byte) 0 (block_bitmap_last_bit + 1))))"

definition hex :: "u32 \<Rightarrow> u8 list" where
  "hex w = num_str 16 (unat w)"

definition print_layout :: "partition \<Rightarrow> super_block \<Rightarrow> 'a dev_scheme \<Rightarrow> 'a dev_scheme outcome" where
  "print_layout p b s =
     andThen (printk (pname p @ bytes '' info:'' @ [10]) s)
       (printk (bytes ''   magic:0x'' @ hex (sb_magic b) @ [10] @ bytes ''   part_lba_base:0x'' @ hex (part_lba_base b) @ [10]
         @ bytes ''   all_sectors:0x'' @ hex (sb_sec_cnt b) @ [10] @ bytes ''   inode_cnt:0x'' @ hex (inode_cnt b) @ [10]
         @ bytes ''   block_bitmap_lba:0x'' @ hex (block_bitmap_lba b) @ [10] @ bytes ''   block_bitmap_sectors:0x'' @ hex (block_bitmap_sects b) @ [10]
         @ bytes ''   inode_bitmap_lba:0x'' @ hex (inode_bitmap_lba b) @ [10] @ bytes ''   inode_bitmap_sectors:0x'' @ hex (inode_bitmap_sects b) @ [10]
         @ bytes ''   inode_table_lba:0x'' @ hex (inode_table_lba b) @ [10] @ bytes ''   inode_table_sectors:0x'' @ hex (inode_table_sects b) @ [10]
         @ bytes ''   data_start_lba:0x'' @ hex (data_start_lba b) @ [10]))"

text \<open>The first inode, for the root directory, in the cleared buffer.\<close>

definition root_inode_bytes :: "nat \<Rightarrow> super_block \<Rightarrow> mem \<Rightarrow> mem outcome" where
  "root_inode_bytes bufp b m =
     andThen (store32 m (bufp + 4) (dir_entry_size b * 2)) (\<lambda>m.
     andThen (store32 m bufp 0) (\<lambda>m.
     store32 m (bufp + 16) (data_start_lba b)))"

text \<open>\<open>fr_sb\<close> is the address of the local variable \<open>sb\<close>; its padding has the value the stack has there.\<close>

definition partition_format :: "nat \<Rightarrow> nat \<Rightarrow> 'a fs_scheme \<Rightarrow> 'a fs_scheme outcome" where
  "partition_format fr_sb part s =
     andThen (get_part part s) (\<lambda>p.
     let (b, block_bitmap_bit_len) = format_layout p; dk = my_disk p in
     andThen (on_ram (\<lambda>m. store_bytes m fr_sb (encode_sb b)) s) (\<lambda>s.
     andThen (print_layout p b s) (\<lambda>s.
     andThen (ide_write dk (start_lba p + 1) (of_nat fr_sb) 1 s) (\<lambda>s.
     andThen (printk (bytes ''   super_block_lba:0x'' @ hex (start_lba p + 1) @ [10]) s) (\<lambda>s.
     let buf_size = (if block_bitmap_sects b \<ge> inode_bitmap_sects b then block_bitmap_sects b else inode_bitmap_sects b);
         buf_size = (if buf_size \<ge> inode_table_sects b then buf_size else inode_table_sects b) * 512 in
     andThen (sys_malloc (unat buf_size) s) (\<lambda>(bufp, s).
     andThen (on_ram (format_block_bitmap bufp block_bitmap_bit_len) s) (\<lambda>s.
     andThen (ide_write dk (block_bitmap_lba b) (of_nat bufp) (block_bitmap_sects b) s) (\<lambda>s.
     andThen (clear_ram bufp (unat buf_size) s) (\<lambda>s.
     andThen (on_ram (or_byte bufp 1) s) (\<lambda>s.
     andThen (ide_write dk (inode_bitmap_lba b) (of_nat bufp) (inode_bitmap_sects b) s) (\<lambda>s.
     andThen (clear_ram bufp (unat buf_size) s) (\<lambda>s.
     andThen (on_ram (root_inode_bytes bufp b) s) (\<lambda>s.
     andThen (ide_write dk (inode_table_lba b) (of_nat bufp) (inode_table_sects b) s) (\<lambda>s.
     andThen (clear_ram bufp (unat buf_size) s) (\<lambda>s.
     andThen (on_ram (dot_entries bufp 0 0) s) (\<lambda>s.
     andThen (ide_write dk (data_start_lba b) (of_nat bufp) 1 s) (\<lambda>s.
     andThen (printk (bytes ''   root_dir_lba:0x'' @ hex (data_start_lba b) @ [10]) s) (\<lambda>s.
     andThen (printk (pname p @ bytes '' format done'' @ [10]) s) (sys_free bufp)))))))))))))))))))"

section \<open>Mounting\<close>

text \<open>Reads a bitmap of \<open>sects\<close> sectors into new memory; there must be some.\<close>

definition load_bitmap :: "nat \<Rightarrow> u32 \<Rightarrow> u32 \<Rightarrow> 'a fs_scheme \<Rightarrow> (bitmap_at \<times> 'a fs_scheme) outcome" where
  "load_bitmap dk lba sects s =
     andThen (sys_malloc (unat (sects * 512)) s) (\<lambda>(a, s).
     if a = 0 then Inl Panic
     else andThen (ide_read dk lba (of_nat a) sects s) (\<lambda>s. Inr (\<lparr>bm_len = unat (sects * 512), bm_bits = a\<rparr>, s)))"

definition mount_partition :: "u8 list \<Rightarrow> nat \<Rightarrow> int \<Rightarrow> 'a fs_scheme \<Rightarrow> (bool \<times> 'a fs_scheme) outcome" where
  "mount_partition part_name pelem arg s =
     (let part = entry_of_part pelem in
      andThen (get_part part s) (\<lambda>p.
      if pname p \<noteq> part_name then Inr (False, s)
      else
        let s = s\<lparr>cur_part := part\<rparr>; dk = my_disk p in
        andThen (sys_malloc 512 s) (\<lambda>(sb_buf, s).
        andThen (sys_malloc 512 s) (\<lambda>(sb_at, s).
        andThen (set_part part (\<lambda>p. p\<lparr>sb := sb_at\<rparr>) s) (\<lambda>s.
        if sb_at = 0 then Inl Panic
        else
          andThen (clear_ram sb_buf 512 s) (\<lambda>s.
          andThen (ide_read dk (start_lba p + 1) (of_nat sb_buf) 1 s) (\<lambda>s.
          andThen (load_bytes (ram s) sb_buf 512) (\<lambda>bs.
          let b = decode_sb bs; s = s\<lparr>sbs := (sbs s)(sb_at \<mapsto> b)\<rparr> in
          andThen (load_bitmap dk (block_bitmap_lba b) (block_bitmap_sects b) s) (\<lambda>(bb, s).
          andThen (set_part part (\<lambda>p. p\<lparr>block_bitmap := bb\<rparr>) s) (\<lambda>s.
          andThen (load_bitmap dk (inode_bitmap_lba b) (inode_bitmap_sects b) s) (\<lambda>(ib, s).
          andThen (set_part part (\<lambda>p. p\<lparr>inode_bitmap := ib\<rparr>) s) (\<lambda>s.
          andThen (list_init (open_inodes part) s) (\<lambda>s.
          andThen (printk (bytes ''mount '' @ pname p @ bytes '' done!'' @ [10]) s) (\<lambda>s.
          Inr (True, s)))))))))))))))"

section \<open>Start-up\<close>

definition init_partition :: "nat \<Rightarrow> nat \<Rightarrow> nat \<Rightarrow> nat \<Rightarrow> 'a fs_scheme \<Rightarrow> 'a fs_scheme outcome" where
  "init_partition fr_sb sb_buf dk part s =
     andThen (get_part part s) (\<lambda>p.
     if sec_cnt p \<noteq> 0 then
       andThen (clear_ram sb_buf 512 s) (\<lambda>s.
       andThen (ide_read dk (start_lba p + 1) (of_nat sb_buf) 1 s) (\<lambda>s.
       andThen (load32 (ram s) sb_buf) (\<lambda>magic.
       if magic = FS_MAGIC then printk (pname p @ bytes '' has filesystem'' @ [10]) s
       else
         andThen (get_disk dk s) (\<lambda>d.
         andThen (printk (bytes ''formatting '' @ dname d @ bytes ''`s partition '' @ pname p @ bytes ''......'' @ [10]) s)
           (partition_format fr_sb part)))))
     else Inr s)"

text \<open>The partitions of a disk from \<open>part_idx\<close> on: four primary ones and eight logical ones.\<close>

fun init_partitions :: "nat \<Rightarrow> nat \<Rightarrow> nat \<Rightarrow> nat \<Rightarrow> nat \<Rightarrow> 'a fs_scheme \<Rightarrow> 'a fs_scheme outcome" where
  "init_partitions fr_sb sb_buf dk part_idx 0 s = Inr s"
| "init_partitions fr_sb sb_buf dk part_idx (Suc n) s =
     andThen (init_partition fr_sb sb_buf dk (if part_idx < 4 then prim_part dk part_idx else logic_part dk (part_idx - 4)) s)
       (init_partitions fr_sb sb_buf dk (Suc part_idx) n)"

text \<open>
  The disks: only the second of a channel is looked at, and \<open>part_idx\<close> is not reset, so that the partitions of later channels
  are passed over.
\<close>

fun init_disks :: "nat \<Rightarrow> nat \<Rightarrow> nat \<Rightarrow> nat \<Rightarrow> nat \<Rightarrow> 'a fs_scheme \<Rightarrow> 'a fs_scheme outcome" where
  "init_disks fr_sb sb_buf part_idx channel_no 0 s = Inr s"
| "init_disks fr_sb sb_buf part_idx channel_no (Suc n) s =
     andThen (init_partitions fr_sb sb_buf (device_at (channel_at (channels s) channel_no) 1) part_idx (12 - part_idx) s)
       (init_disks fr_sb sb_buf 12 (Suc channel_no) n)"

definition filesys_init :: "nat \<Rightarrow> 'a fs_scheme \<Rightarrow> 'a fs_scheme outcome" where
  "filesys_init fr_sb s =
     andThen (sys_malloc 512 s) (\<lambda>(sb_buf, s).
     if sb_buf = 0 then Inl Panic
     else
       andThen (printk (bytes ''searching filesystem......'' @ [10]) s) (\<lambda>s.
       andThen (init_disks fr_sb sb_buf 0 0 (unat (channel_cnt s)) s) (\<lambda>s.
       andThen (sys_free sb_buf s) (\<lambda>s.
       andThen (list_traversal (partition_list s) (mount_partition (bytes ''sdb1'')) 0 s) (\<lambda>(_, s).
       andThen (open_root_dir (cur_part s) s) (\<lambda>s.
       Inr (s\<lparr>file_table := map (\<lambda>x. x\<lparr>fd_inode := 0\<rparr>) (file_table s)\<rparr>)))))))"

end
