(* ===== verification/Fs_Proofs.thy ===== *)
theory Fs_Proofs
  imports Fs_Init Inode_Proofs
begin

text \<open>
  What \<open>partition_format\<close> puts on a partition: the areas of the layout follow one another and fit, the super block that is written is the one
  \<open>mount_partition\<close> reads, and the bits of the block bitmap.
\<close>

section \<open>The layout of a partition\<close>

lemma unat_DIV_ROUND_UP:
  assumes "unat x + 4096 < 2 ^ 32"
  shows "unat (DIV_ROUND_UP x 4096) = (unat x + 4095) div 4096"
proof -
  have "unat (x + 4095) = unat x + 4095" using unat_sum [of x 4095] assms by simp
  moreover have "x + 4096 - 1 = x + 4095" by simp
  ultimately have "unat (x + 4096 - 1) = unat x + 4095" by (simp only:)
  then show ?thesis by (simp add: DIV_ROUND_UP_def unat_div)
qed

lemma round_up_bounds: "n \<le> 4096 * ((n + 4095) div 4096)" "4096 * ((n + 4095) div 4096) < n + 4096" for n :: nat
  using mult_div_mod_eq [of 4096 "n + 4095"] mod_less_divisor [of 4096 "n + 4095"] by linarith+

text \<open>
  C35. The areas of a formatted partition (boot sector, super block, block bitmap, inode bitmap, inode table, data) follow one another
  without gaps; the block bitmap has a bit for every data block and the inode table room for its 4096 inodes of 76 bytes; the last data
  block lies inside the partition and at most one sector behind it is unused. This is for every partition of more than 611 and at most
  \<open>2 ^ 24\<close> sectors (8 GB) whose end has a 32 bit sector number, so none of the sums of the code wraps around.
\<close>

theorem format_layout_fits:
  assumes "611 < unat (sec_cnt p)" "unat (sec_cnt p) \<le> 2 ^ 24" "unat (start_lba p) + unat (sec_cnt p) < 2 ^ 32" "format_layout p = (b, n)"
  shows "unat (block_bitmap_lba b) = unat (start_lba p) + 2
    \<and> unat (inode_bitmap_lba b) = unat (block_bitmap_lba b) + unat (block_bitmap_sects b)
    \<and> unat (inode_table_lba b) = unat (inode_bitmap_lba b) + unat (inode_bitmap_sects b)
    \<and> unat (data_start_lba b) = unat (inode_table_lba b) + unat (inode_table_sects b)
    \<and> unat n \<le> 4096 * unat (block_bitmap_sects b) \<and> unat (inode_bitmap_sects b) = 1 \<and> unat (inode_table_sects b) * 512 = 4096 * sizeof_inode
    \<and> unat (data_start_lba b) + unat n \<le> unat (start_lba p) + unat (sec_cnt p)
    \<and> unat (start_lba p) + unat (sec_cnt p) \<le> unat (data_start_lba b) + unat n + 1"
proof -
  define free where "free = sec_cnt p - 611"
  define b1 where "b1 = DIV_ROUND_UP free 4096"
  define b2 where "b2 = DIV_ROUND_UP n 4096"
  have free: "unat free = unat (sec_cnt p) - 611" using assms(1) by (simp add: free_def unat_sub word_le_nat_alt)
  have f4: "unat free + 4096 < 2 ^ 32" using free assms(2) by simp
  have n: "n = free - b1" and b: "block_bitmap_lba b = start_lba p + 2" "inode_bitmap_lba b = start_lba p + 2 + b2" "block_bitmap_sects b = b2"
    "inode_table_lba b = start_lba p + 2 + b2 + 1" "data_start_lba b = start_lba p + 2 + b2 + 1 + 608" "inode_bitmap_sects b = 1" "inode_table_sects b = 608"
    using assms(4) by (auto simp: format_layout_def free_def b1_def b2_def Let_def DIV_ROUND_UP_def sizeof_inode_def)
  have b1: "unat b1 = (unat free + 4095) div 4096" using unat_DIV_ROUND_UP [OF f4] by (simp add: b1_def)
  have b1n: "unat b1 \<le> unat free" using round_up_bounds(2) [of "unat free"] b1 free assms(1) by linarith
  then have un: "unat n = unat free - unat b1" by (simp add: n unat_sub word_le_nat_alt)
  have b2: "unat b2 = (unat n + 4095) div 4096" using unat_DIV_ROUND_UP [of n] un f4 by (simp add: b2_def)
  have k: "unat b2 \<le> unat b1" "unat b1 \<le> unat b2 + 1" "unat n \<le> 4096 * unat b2"
  proof -
    have r: "unat free \<le> 4096 * unat b1" "4096 * unat b1 < unat free + 4096" "unat n \<le> 4096 * unat b2" "4096 * unat b2 < unat n + 4096"
      using round_up_bounds [of "unat n"] round_up_bounds [of "unat free"] unfolding b1 b2 by blast+
    have "unat b1 \<le> 4096" using r(2) free assms(2) by simp
    then show "unat b2 \<le> unat b1" "unat b1 \<le> unat b2 + 1" "unat n \<le> 4096 * unat b2" using r un b1n by linarith+
  qed
  have s: "unat (start_lba p + 2) = unat (start_lba p) + 2" using unat_sum [of "start_lba p" 2] assms(1,3) by simp
  moreover have "unat (start_lba p + 2 + b2) = unat (start_lba p) + 2 + unat b2" using unat_sum [of "start_lba p + 2" b2] s k un b1n free assms(1,2,3) by simp
  moreover have "unat (start_lba p + 2 + b2 + 1) = unat (start_lba p) + 2 + unat b2 + 1"
    using unat_sum [of "start_lba p + 2 + b2" 1] calculation k un b1n free assms(1,2,3) by simp
  moreover have "unat (start_lba p + 2 + b2 + 1 + 608) = unat (start_lba p) + 2 + unat b2 + 1 + 608"
    using unat_sum [of "start_lba p + 2 + b2 + 1" 608] calculation k un b1n free assms(1,2,3) by simp
  moreover have "unat (start_lba p) + 2 + unat b2 + 1 + 608 + unat n \<le> unat (start_lba p) + unat (sec_cnt p)"
    "unat (start_lba p) + unat (sec_cnt p) \<le> unat (start_lba p) + 2 + unat b2 + 1 + 608 + unat n + 1"
    using k un b1n free assms(1) by linarith+
  ultimately show ?thesis unfolding b using k by (simp add: sizeof_inode_def)
qed

theorem format_layout_fits_witness:
  "unat (data_start_lba (fst (format_layout demo_part))) + unat (snd (format_layout demo_part)) \<le> 63 + 5000"
  using format_layout_fits [of demo_part "fst (format_layout demo_part)" "snd (format_layout demo_part)"] by (simp add: demo_part_def)

section \<open>The block bitmap\<close>

lemma clear_low_bits_ok:
  assumes "a < addr_limit" "m a = Some b"
  shows "\<exists>c. clear_low_bits a i n m = Inr (m(a \<mapsto> c)) \<and> (\<forall>j<8. bit c j \<longleftrightarrow> bit b j \<and> \<not> (i \<le> j \<and> j < i + n))"
  using assms
proof (induction n arbitrary: i m b)
  case 0
  then show ?case by (auto intro!: exI [of _ b] simp: fun_upd_idem)
next
  case (Suc n)
  let ?b = "b AND NOT (push_bit i 1)"
  have "(m(a \<mapsto> ?b)) a = Some ?b" by simp
  then obtain c where c: "clear_low_bits a (Suc i) n (m(a \<mapsto> ?b)) = Inr ((m(a \<mapsto> ?b))(a \<mapsto> c))"
    "\<forall>j<8. bit c j \<longleftrightarrow> bit ?b j \<and> \<not> (Suc i \<le> j \<and> j < Suc i + n)"
    using Suc.IH [OF Suc.prems(1), of "m(a \<mapsto> ?b)" ?b "Suc i"] by blast
  have "bit ?b j \<longleftrightarrow> bit b j \<and> j \<noteq> i" if "j < 8" for j
    using that by (auto simp: bit_and_iff bit_not_iff bit_exp_iff)
  then have "\<forall>j<8. bit c j \<longleftrightarrow> bit b j \<and> \<not> (i \<le> j \<and> j < i + Suc n)" using c(2) by auto
  moreover have "clear_low_bits a i (Suc n) m = Inr (m(a \<mapsto> c))" using c(1) Suc.prems by (simp add: load_def store_def)
  ultimately show ?case by blast
qed

lemma bit_ff: "j < 8 \<Longrightarrow> bit (0xff :: u8) j"
proof -
  assume "j < 8"
  moreover have "(0xff :: u8) = - 1" by simp
  ultimately show ?thesis by (simp only: bit_minus_1_iff) simp
qed

text \<open>
  C36. The block bitmap of a formatted partition of \<open>n\<close> data blocks: of the bits of its sectors, up to the end of the sector with bit \<open>n\<close>,
  the bit of block 0 (the root directory) and the bits behind bit \<open>n\<close> are set, and all others are clear. Bit \<open>n\<close>, which is the bit of no
  block, is clear too: the loop clears one bit more than the last byte has blocks.
\<close>

theorem format_block_bitmap_bits:
  assumes "holds m bufp (replicate sz 0)" "bufp \<noteq> 0" "8 \<le> unat n" "512 * (unat n div 4096 + 1) \<le> sz"
  shows "\<exists>m'. format_block_bitmap bufp n m = Inr m' \<and>
    (\<forall>k < 4096 * (unat n div 4096 + 1). \<exists>b. m' (bufp + k div 8) = Some b \<and> (bit b (k mod 8) \<longleftrightarrow> k = 0 \<or> unat n < k))"
proof -
  define q r l e where d: "q = unat n div 8" "r = unat n mod 8" "l = 512 - q mod 512" "e = 512 * (unat n div 4096 + 1)"
  have "unat n div 4096 = q div 512" by (simp add: d(1) div_mult2_eq [symmetric])
  then have "q = 512 * (unat n div 4096) + q mod 512" "q mod 512 < 512" using mult_div_mod_eq [of 512 q] by simp_all
  moreover have "q + (512 - j) = 512 * (i + 1) \<and> q < 512 * (i + 1)" if "q = 512 * i + j" "j < 512" for i j using that by simp
  ultimately have e: "q + l = e" "q < e" "e \<le> sz" unfolding d(3,4) using assms(4) by blast+
  have un: "unat (n div 8) = q" "unat (n mod 8) = r" "unat n = 8 * q + r" "r < 8" by (simp_all add: unat_div unat_mod d)
  have q: "0 < q" using assms(3) by (simp add: d)
  have m: "bufp + sz \<le> addr_limit" "j < sz \<Longrightarrow> m (bufp + j) = Some 0" for j using assms(1) by (simp_all add: holds_def)
  define m1 where "m1 = m(bufp \<mapsto> 1)"
  define m2 where "m2 = put_bytes m1 (bufp + q) (replicate l 0xff)"
  have "or_byte bufp 1 m = Inr m1" using m(2) [of 0] e m(1) by (simp add: or_byte_def load_def store_def m1_def)
  moreover have "mapped m1 (bufp + q) l" using e m by (auto simp: mapped_def m1_def add.assoc)
  then have "memset m1 (bufp + q) 0xff l = Inr m2" using assms(2) by (simp add: memset_spec m2_def)
  moreover have "m2 (bufp + q) = Some 0xff" "bufp + q < addr_limit" using e m(1) by (auto simp: m2_def put_bytes_def)
  then obtain c where c: "clear_low_bits (bufp + q) 0 (r + 1) m2 = Inr (m2(bufp + q \<mapsto> c))"
    "\<forall>j<8. bit c j \<longleftrightarrow> bit (0xff :: u8) j \<and> \<not> (0 \<le> j \<and> j < 0 + (r + 1))"
    using clear_low_bits_ok by blast
  ultimately have "format_block_bitmap bufp n m = Inr (m2(bufp + q \<mapsto> c))"
    by (simp add: format_block_bitmap_def un d(3) [symmetric])
  moreover have "\<exists>b. (m2(bufp + q \<mapsto> c)) (bufp + k div 8) = Some b \<and> (bit b (k mod 8) \<longleftrightarrow> k = 0 \<or> unat n < k)" if "k < 8 * e" for k
  proof -
    define j i where "j = k div 8" "i = k mod 8"
    then have k: "k = 8 * j + i" "i < 8" "j < e" "k div 8 = j" "k mod 8 = i" using that by simp_all
    consider "j = q" | "j < q" | "q < j" by linarith
    then show ?thesis unfolding k(4,5)
    proof cases
      case 1
      then have "bit c i \<longleftrightarrow> r < i" using c(2) bit_ff k(2) by auto
      moreover have "k \<noteq> 0" "unat n < k \<longleftrightarrow> r < i" using 1 q un(3) k(1) by auto
      ultimately show "\<exists>b. (m2(bufp + q \<mapsto> c)) (bufp + j) = Some b \<and> (bit b i \<longleftrightarrow> k = 0 \<or> unat n < k)" using 1 by simp
    next
      case 2
      then have "(m2(bufp + q \<mapsto> c)) (bufp + j) = Some (if j = 0 then 1 else 0)" "\<not> unat n < k"
        using m(2) [of j] k(1,2) un(3) e by (auto simp: m2_def m1_def put_bytes_def)
      then show "\<exists>b. (m2(bufp + q \<mapsto> c)) (bufp + j) = Some b \<and> (bit b i \<longleftrightarrow> k = 0 \<or> unat n < k)" using k(1) by (auto simp: bit_1_iff)
    next
      case 3
      then have "(m2(bufp + q \<mapsto> c)) (bufp + j) = Some 0xff" "unat n < k"
        using k(1,3) un(3,4) e by (auto simp: m2_def put_bytes_def)
      then show "\<exists>b. (m2(bufp + q \<mapsto> c)) (bufp + j) = Some b \<and> (bit b i \<longleftrightarrow> k = 0 \<or> unat n < k)" using bit_ff k(2) by auto
    qed
  qed
  ultimately show ?thesis by (auto simp: d(4))
qed

theorem format_block_bitmap_bits_witness:
  "\<exists>m'. format_block_bitmap 0x1000 4100 (\<lambda>_. Some 0) = Inr m' \<and>
    (\<forall>k < 8192. \<exists>b. m' (0x1000 + k div 8) = Some b \<and> (bit b (k mod 8) \<longleftrightarrow> k = 0 \<or> 4100 < k))"
  using format_block_bitmap_bits [of "\<lambda>_. Some 0" "0x1000" 1024 4100] by (simp add: holds_def)

text \<open>
  Formatting and mounting agree on the super block: the words that \<open>partition_format\<close> writes, whatever follows them in the sector,
  are read by \<open>mount_partition\<close> as the super block they were written from.
\<close>

theorem super_block_roundtrip: "decode_sb (encode_sb b @ pad) = b"
proof -
  note w = word_at_words [where ws = "[sb_magic b, sb_sec_cnt b, inode_cnt b, part_lba_base b, block_bitmap_lba b, block_bitmap_sects b,
     inode_bitmap_lba b, inode_bitmap_sects b, inode_table_lba b, inode_table_sects b, data_start_lba b, root_inode_no b, dir_entry_size b]" and bs = pad,
     folded encode_sb_def]
  show ?thesis unfolding decode_sb_def
    using w [of 0] w [of 1] w [of 2] w [of 3] w [of 4] w [of 5] w [of 6] w [of 7] w [of 8] w [of 9] w [of 10] w [of 11] w [of 12] by simp
qed

end
