(* ===== verification/Ioqueue_Trace.thy ===== *)
theory Ioqueue_Trace
  imports Ioqueue
begin

text \<open>
  The ring buffer under any interleaving of its users. A run is a sequence of calls, of continuations of calls that slept, and of
  arbitrary other code that does not touch the queue; it records the bytes accepted and the bytes delivered. The invariant says
  that these are the same bytes, in the same order, up to those still in the buffer.
\<close>

section \<open>Code that leaves the queues alone\<close>

named_theorems ioqs_frame \<open>operations that do not change the queues\<close>

lemma ioqs_intr [simp]:
  fixes s :: "'a io_scheme"
  shows "ioqs (snd (intr_set_status st s)) = ioqs s" "ioqs (snd (intr_disable s)) = ioqs s" "ioqs (resume_switch st s) = ioqs s"
  by (simp_all add: intr_set_status_def intr_enable_def intr_disable_def resume_switch_def)

lemma ioqs_disable [ioqs_frame]: "intr_disable s = (st, t) \<Longrightarrow> ioqs t = ioqs s" for s :: "'a io_scheme"
  using ioqs_intr(2) [of s] by simp

lemma ASSERT_Inr: "ASSERT b r = Inr t \<longleftrightarrow> b \<and> r = Inr t"
  by (simp add: ASSERT_def)

lemmas ioqs_run = andThen_eq_Inr ASSERT_Inr Let_def

lemma ioqs_nodes [ioqs_frame]:
  fixes s :: "'a io_scheme"
  shows "set_prev a v s = Inr t \<Longrightarrow> ioqs t = ioqs s" "set_next a v s = Inr t \<Longrightarrow> ioqs t = ioqs s"
  by (auto simp: set_prev_def set_next_def ioqs_run)

lemma ioqs_lists [ioqs_frame]:
  fixes s :: "'a io_scheme"
  shows "list_init l s = Inr t \<Longrightarrow> ioqs t = ioqs s"
    and "list_insert_before b e s = Inr t \<Longrightarrow> ioqs t = ioqs s"
    and "list_remove e s = Inr t \<Longrightarrow> ioqs t = ioqs s"
  by (auto simp: list_init_def list_insert_before_def list_remove_def ioqs_run dest!: ioqs_frame split: prod.splits)

lemma ioqs_ends [ioqs_frame]:
  fixes s :: "'a io_scheme"
  shows "list_push l e s = Inr t \<Longrightarrow> ioqs t = ioqs s"
    and "list_append l e s = Inr t \<Longrightarrow> ioqs t = ioqs s"
    and "list_pop l s = Inr (e, t) \<Longrightarrow> ioqs t = ioqs s"
  by (auto simp: list_push_def list_append_def list_pop_def ioqs_run dest!: ioqs_frame)

lemma ioqs_tasks [ioqs_frame]:
  fixes s :: "'a io_scheme"
  shows "set_task p f s = Inr t \<Longrightarrow> ioqs t = ioqs s"
    and "process_activate p s = Inr t \<Longrightarrow> ioqs t = ioqs s"
    and "switch_to c p s = Inr t \<Longrightarrow> ioqs t = ioqs s"
  by (auto simp: set_task_def process_activate_def page_dir_activate_def update_tss_esp_def switch_to_def ioqs_run split: if_splits)

lemma ioqs_unblock [ioqs_frame]: "thread_unblock p s = Inr t \<Longrightarrow> ioqs t = ioqs s" for s :: "'a io_scheme"
  by (auto simp: thread_unblock_def ioqs_run dest!: ioqs_frame split: prod.splits if_splits)

lemma ioqs_schedule [ioqs_frame]: "schedule s = Inr t \<Longrightarrow> ioqs t = ioqs s" for s :: "'a io_scheme"
  by (auto simp: schedule_def ioqs_run dest!: ioqs_frame split: prod.splits if_splits)

lemma ioqs_block [ioqs_frame]: "thread_block st s = Inr (old, t) \<Longrightarrow> ioqs t = ioqs s" for s :: "'a io_scheme"
  by (auto simp: thread_block_def ioqs_run dest!: ioqs_frame split: prod.splits)

lemma ioqs_fields [simp]:
  fixes s :: "'a io_scheme"
  shows "ioqs (set_value p v s) = ioqs s" "ioqs (set_holder p h s) = ioqs s" "ioqs (set_repeat p n s) = ioqs s"
  by (simp_all add: set_value_def set_holder_def set_repeat_def)

lemma ioqs_up [ioqs_frame]: "sema_up p s = Inr t \<Longrightarrow> ioqs t = ioqs s" for s :: "'a io_scheme"
  by (auto simp: sema_up_def ioqs_run dest!: ioqs_frame split: prod.splits if_splits)

lemma ioqs_release [ioqs_frame]: "lock_release p s = Inr t \<Longrightarrow> ioqs t = ioqs s" for s :: "'a io_scheme"
  by (auto simp: lock_release_def ioqs_run dest!: ioqs_frame split: if_splits)

lemma acquire_now_Done: "acquire_now p s = Inr t \<longleftrightarrow> lock_acquire p s = Inr (Done t)"
  by (auto simp: acquire_now_def ioqs_run split: progress.split_asm)

lemma after_down_Done: "after_down p r = Inr (Done t) \<longleftrightarrow> (\<exists>u. r = Done u \<and> lock_take p u = Inr t)"
  by (cases r) (auto simp: after_down_def ioqs_run)

lemma ioqs_down [ioqs_frame]: "sema_down p s = Inr (Done t) \<Longrightarrow> ioqs t = ioqs s" for s :: "'a io_scheme"
  by (auto simp: sema_down_def sema_enter_def ioqs_run dest!: ioqs_frame split: prod.splits if_splits)

lemma ioqs_acquire [ioqs_frame]: "acquire_now p s = Inr t \<Longrightarrow> ioqs t = ioqs s" for s :: "'a io_scheme"
  by (auto simp: acquire_now_Done lock_acquire_def after_down_Done lock_take_def ioqs_run dest!: ioqs_frame split: if_splits)

lemma ioqs_init [ioqs_frame]: "lock_init p s = Inr t \<Longrightarrow> ioqs t = ioqs s" for s :: "'a io_scheme"
  by (auto simp: lock_init_def sema_init_def dest!: ioqs_frame)

section \<open>What a call does to its queue\<close>

text \<open>The record of the sleeping threads has no influence on the bytes.\<close>

lemma waiter_contents [simp]:
  "contents (set_waiter sd p i) = contents i" "ioq_wf (set_waiter sd p i) = ioq_wf i"
  by (cases sd; simp add: contents_def used_def ioq_wf_def)+

lemma set_ioq_Inr: "set_ioq q f s = Inr t \<longleftrightarrow> (\<exists>i. ioqs s q = Some i \<and> t = s\<lparr>ioqs := (ioqs s)(q \<mapsto> f i)\<rparr>)"
  by (auto simp: set_ioq_def get_ioq_def ioqs_run split: option.splits)

lemma get_ioq_Inr: "get_ioq q s = Inr i \<longleftrightarrow> ioqs s q = Some i"
  by (simp add: get_ioq_def split: option.splits)

text \<open>The queue \<open>q\<close> is well formed with the bytes \<open>bs\<close> in it.\<close>

definition queue_holds :: "nat \<Rightarrow> u8 list \<Rightarrow> 'a io_scheme \<Rightarrow> bool" where
  "queue_holds q bs s \<longleftrightarrow> (\<exists>i. ioqs s q = Some i \<and> ioq_wf i \<and> contents i = bs)"

lemma queue_holds_cong: "ioqs t = ioqs s \<Longrightarrow> queue_holds q bs t \<longleftrightarrow> queue_holds q bs s"
  by (simp add: queue_holds_def)

lemma wakeup_holds: "wakeup sd q s = Inr t \<Longrightarrow> queue_holds q bs t \<longleftrightarrow> queue_holds q bs s"
  by (auto simp: wakeup_def ioqs_run get_ioq_Inr set_ioq_Inr queue_holds_def dest!: ioqs_frame)

lemma wait_holds: "ioq_wait sd q s = Inr (st, t) \<Longrightarrow> queue_holds q bs t \<longleftrightarrow> queue_holds q bs s"
  by (auto simp: ioq_wait_def ioqs_run get_ioq_Inr set_ioq_Inr queue_holds_def dest!: ioqs_frame)

lemma add_holds:
  assumes "ioq_add q b s = Inr t" "queue_holds q bs s" "length bs < bufsize - 1"
  shows "queue_holds q (bs @ [b]) t"
proof -
  obtain i where i: "ioqs s q = Some i" "ioq_wf i" "contents i = bs" using assms(2) by (auto simp: queue_holds_def)
  have u: "used i < bufsize - 1" using assms(3) i(3) length_contents [of i] by simp
  let ?s = "s\<lparr>ioqs := (ioqs s)(q \<mapsto> i\<lparr>buf := (buf i)[head i := b], head := next_pos (head i)\<rparr>)\<rparr>"
  have "queue_holds q (bs @ [b]) ?s" using put_contents(1,3) [OF i(2) u refl, of b] i(3) by (simp add: queue_holds_def)
  moreover have "t = ?s \<or> wakeup Consumer q ?s = Inr t"
    using assms(1) i(1) by (auto simp: ioq_add_def ioqs_run get_ioq_Inr set_ioq_Inr split: if_splits)
  ultimately show ?thesis using wakeup_holds by blast
qed

lemma take_holds:
  assumes "ioq_take q s = Inr (b, t)" "queue_holds q bs s" "bs \<noteq> []"
  shows "\<exists>rest. bs = b # rest \<and> queue_holds q rest t"
proof -
  obtain i where i: "ioqs s q = Some i" "ioq_wf i" "contents i = bs" using assms(2) by (auto simp: queue_holds_def)
  let ?j = "i\<lparr>tail := next_pos (tail i)\<rparr>" and ?s = "s\<lparr>ioqs := (ioqs s)(q \<mapsto> i\<lparr>tail := next_pos (tail i)\<rparr>)\<rparr>"
  have "head i \<noteq> tail i" using contents_Nil [OF i(2)] i(3) assms(3) by simp
  then have j: "ioq_wf ?j" "bs = buf i ! tail i # contents ?j" using get_contents [OF i(2) _ refl] i(3) by simp_all
  have "b = buf i ! tail i" "t = ?s \<or> wakeup Producer q ?s = Inr t"
    using assms(1) i(1) by (auto simp: ioq_take_def ioqs_run get_ioq_Inr set_ioq_Inr split: if_splits)
  moreover have "queue_holds q (contents ?j) ?s" using j(1) by (simp add: queue_holds_def)
  ultimately show ?thesis using wakeup_holds j(2) by blast
qed

lemma full_holds: "ioq_full q s = Inr full \<Longrightarrow> queue_holds q bs s \<Longrightarrow> full \<longleftrightarrow> length bs = bufsize - 1"
  by (auto simp: ioq_full_def ioqs_run get_ioq_Inr queue_holds_def full_iff)

lemma empty_holds: "ioq_empty q s = Inr none \<Longrightarrow> queue_holds q bs s \<Longrightarrow> none \<longleftrightarrow> bs = []"
  by (auto simp: ioq_empty_def ioqs_run get_ioq_Inr queue_holds_def contents_Nil)

lemma holds_bound:
  assumes "queue_holds q bs s"
  shows "length bs \<le> bufsize - 1"
proof -
  obtain i where "contents i = bs" using assms by (auto simp: queue_holds_def)
  then show ?thesis using ioq_used_bound [of i] length_contents [of i] by simp
qed

text \<open>What one pass of the loop of a call accepts or delivers.\<close>

lemma sleep_holds:
  assumes "andThen (acquire_now q s) (\<lambda>s. andThen (ioq_wait sd q s) (\<lambda>(_, s). Inr (Asleep s))) = Inr r" "queue_holds q bs s"
  shows "\<exists>t. r = Asleep t \<and> queue_holds q bs t"
  using assms wait_holds queue_holds_cong [OF ioqs_acquire] by (fastforce simp: ioqs_run)

lemma put_loop_holds:
  assumes "ioq_put_loop q b s = Inr r" "queue_holds q bs s"
  shows "case r of Finished _ t \<Rightarrow> queue_holds q (bs @ [b]) t | Asleep t \<Rightarrow> queue_holds q bs t"
proof -
  obtain full where f: "ioq_full q s = Inr full" using assms(1) by (auto simp: ioq_put_loop_def ioqs_run)
  show ?thesis
  proof (cases full)
    case True
    then show ?thesis using assms f sleep_holds [of q s Producer r bs] by (auto simp: ioq_put_loop_def)
  next
    case False
    then have "length bs < bufsize - 1" using full_holds [OF f assms(2)] holds_bound [OF assms(2)] by simp
    then show ?thesis using False assms f add_holds [of q b s _ bs] by (auto simp: ioq_put_loop_def ioqs_run)
  qed
qed

lemma get_loop_holds:
  assumes "ioq_get_loop q s = Inr r" "queue_holds q bs s"
  shows "case r of Finished b t \<Rightarrow> \<exists>rest. bs = b # rest \<and> queue_holds q rest t | Asleep t \<Rightarrow> queue_holds q bs t"
proof -
  obtain none where f: "ioq_empty q s = Inr none" using assms(1) by (auto simp: ioq_get_loop_def ioqs_run)
  show ?thesis
  proof (cases none)
    case True
    then show ?thesis using assms f sleep_holds [of q s Consumer r bs] by (auto simp: ioq_get_loop_def)
  next
    case False
    then have "bs \<noteq> []" using empty_holds [OF f assms(2)] by simp
    then show ?thesis using False assms f take_holds [of q s _ _ bs] by (auto simp: ioq_get_loop_def ioqs_run)
  qed
qed

section \<open>Runs\<close>

text \<open>
  \<open>ioq_run q s0 ins outs s\<close>: from \<open>s0\<close> the system can come to \<open>s\<close> with the calls on \<open>q\<close> having accepted the bytes \<open>ins\<close> and delivered
  the bytes \<open>outs\<close>. A call that sleeps is continued, from whatever state the system is in then, by a resumption.
\<close>

inductive ioq_run :: "nat \<Rightarrow> 'a io_scheme \<Rightarrow> u8 list \<Rightarrow> u8 list \<Rightarrow> 'a io_scheme \<Rightarrow> bool" for q s0 where
  start: "ioqueue_init q s0 = Inr s \<Longrightarrow> ioq_run q s0 [] [] s"
| put: "ioq_run q s0 ins outs s \<Longrightarrow> ioq_putchar q b s = Inr (Finished () t) \<Longrightarrow> ioq_run q s0 (ins @ [b]) outs t"
| put_sleeps: "ioq_run q s0 ins outs s \<Longrightarrow> ioq_putchar q b s = Inr (Asleep t) \<Longrightarrow> ioq_run q s0 ins outs t"
| put_resumes: "ioq_run q s0 ins outs s \<Longrightarrow> ioq_putchar_resume q b s = Inr (Finished () t) \<Longrightarrow> ioq_run q s0 (ins @ [b]) outs t"
| put_again: "ioq_run q s0 ins outs s \<Longrightarrow> ioq_putchar_resume q b s = Inr (Asleep t) \<Longrightarrow> ioq_run q s0 ins outs t"
| get: "ioq_run q s0 ins outs s \<Longrightarrow> ioq_getchar q s = Inr (Finished b t) \<Longrightarrow> ioq_run q s0 ins (outs @ [b]) t"
| get_sleeps: "ioq_run q s0 ins outs s \<Longrightarrow> ioq_getchar q s = Inr (Asleep t) \<Longrightarrow> ioq_run q s0 ins outs t"
| get_resumes: "ioq_run q s0 ins outs s \<Longrightarrow> ioq_getchar_resume q s = Inr (Finished b t) \<Longrightarrow> ioq_run q s0 ins (outs @ [b]) t"
| get_again: "ioq_run q s0 ins outs s \<Longrightarrow> ioq_getchar_resume q s = Inr (Asleep t) \<Longrightarrow> ioq_run q s0 ins outs t"
| other: "ioq_run q s0 ins outs s \<Longrightarrow> ioqs t q = ioqs s q \<Longrightarrow> ioq_run q s0 ins outs t"

lemma putchar_holds:
  assumes "ioq_putchar q b s = Inr r \<or> ioq_putchar_resume q b s = Inr r" "queue_holds q bs s"
  shows "case r of Finished _ t \<Rightarrow> queue_holds q (bs @ [b]) t | Asleep t \<Rightarrow> queue_holds q bs t"
proof -
  obtain u where u: "ioq_put_loop q b u = Inr r" "ioqs u = ioqs s"
    using assms(1) by (auto simp: ioq_putchar_def ioq_putchar_resume_def ioqs_run dest!: ioqs_frame)
  show ?thesis by (rule put_loop_holds [OF u(1)]) (simp add: queue_holds_cong [OF u(2)] assms(2))
qed

lemma getchar_holds:
  assumes "ioq_getchar q s = Inr r \<or> ioq_getchar_resume q s = Inr r" "queue_holds q bs s"
  shows "case r of Finished b t \<Rightarrow> \<exists>rest. bs = b # rest \<and> queue_holds q rest t | Asleep t \<Rightarrow> queue_holds q bs t"
proof -
  obtain u where u: "ioq_get_loop q u = Inr r" "ioqs u = ioqs s"
    using assms(1) by (auto simp: ioq_getchar_def ioq_getchar_resume_def ioqs_run dest!: ioqs_frame)
  show ?thesis by (rule get_loop_holds [OF u(1)]) (simp add: queue_holds_cong [OF u(2)] assms(2))
qed

lemma init_holds:
  assumes "ioqueue_init q s0 = Inr s" "\<forall>i. ioqs s0 q = Some i \<longrightarrow> length (buf i) = bufsize"
  shows "queue_holds q [] s"
  using assms
  by (auto simp: ioqueue_init_def ioqs_run set_ioq_Inr queue_holds_def ioq_wf_def contents_def used_def dest!: ioqs_frame)

lemmas call_holds =
  putchar_holds [where r = "Finished () t" for t, simplified] putchar_holds [where r = "Asleep t" for t, simplified]
  getchar_holds [where r = "Finished b t" for b t, simplified] getchar_holds [where r = "Asleep t" for t, simplified]

lemma run_holds:
  assumes "ioq_run q s0 ins outs s" "\<forall>i. ioqs s0 q = Some i \<longrightarrow> length (buf i) = bufsize"
  shows "\<exists>bs. ins = outs @ bs \<and> queue_holds q bs s"
  using assms(1)
proof induction
  case (start s)
  then show ?case using init_holds [OF _ assms(2)] by simp
next
  case (other ins outs s t)
  then show ?case by (simp add: queue_holds_def)
qed (fastforce dest: call_holds [OF disjI1] call_holds [OF disjI2])+

text \<open>
  C4. The ring buffer neither loses nor invents nor reorders a byte, whoever uses it: after any sequence of calls of \<open>ioq_putchar\<close> and
  \<open>ioq_getchar\<close> by any threads, with calls that sleep and are resumed and with other code in between, the bytes delivered are a prefix of
  the bytes accepted, the rest are the contents of the buffer, in order, and the indices and the length stay in their bounds.
\<close>

theorem ioq_run_invariant:
  assumes "ioq_run q s0 ins outs s" "\<forall>i. ioqs s0 q = Some i \<longrightarrow> length (buf i) = bufsize"
  shows "\<exists>i. ioqs s q = Some i \<and> ins = outs @ contents i \<and> head i < bufsize \<and> tail i < bufsize
    \<and> ioq_length q s = Inr (length ins - length outs) \<and> length ins - length outs < bufsize"
proof -
  obtain i where i: "ioqs s q = Some i" "ioq_wf i" "ins = outs @ contents i"
    using run_holds [OF assms] by (auto simp: queue_holds_def)
  then show ?thesis using ioq_length_contents [OF i(1,2)] ioq_used_bound [of i] by (auto simp: ioq_wf_def)
qed

text \<open>In the concrete state two bytes are written to the queue and one is read.\<close>

lemma demo_init: "\<exists>s. ioqueue_init 300 (demo_io 0) = Inr s \<and> quiet_queue 300 [] s"
  by (simp add: ioqueue_init_def lock_init_def sema_init_def list_init_def set_prev_def set_next_def get_node_def waiters_def lock_sema_def
      list_tail_def set_value_def set_holder_def set_repeat_def demo_io_def demo_nodes_def set_ioq_Some)
    (simp add: quiet_queue_def intr_get_status_def ioq_wf_def demo_queue_def contents_def used_def)

theorem ioq_run_invariant_witness:
  "\<exists>s i. ioq_run 300 (demo_io 0) [104, 105] [104] s \<and> ioqs s 300 = Some i \<and> contents i = [105] \<and> ioq_length 300 s = Inr 1"
proof -
  obtain s1 where s1: "ioqueue_init 300 (demo_io 0) = Inr s1" "quiet_queue 300 [] s1" using demo_init by blast
  obtain s2 where s2: "ioq_putchar 300 104 s1 = Inr (Finished () s2)" "quiet_queue 300 [104] s2"
    using quiet_put [OF s1(2), of 104] by auto
  obtain s3 where s3: "ioq_putchar 300 105 s2 = Inr (Finished () s3)" "quiet_queue 300 [104, 105] s3"
    using quiet_put [OF s2(2), of 105] by auto
  obtain s4 where s4: "ioq_getchar 300 s3 = Inr (Finished 104 s4)" "quiet_queue 300 [105] s4"
    using quiet_get [OF s3(2)] by auto
  have r: "ioq_run 300 (demo_io 0) [104, 105] [104] s4"
    using ioq_run.get [OF ioq_run.put [OF ioq_run.put [OF ioq_run.start [OF s1(1)] s2(1)] s3(1)] s4(1)] by simp
  have "\<forall>i. ioqs (demo_io 0) 300 = Some i \<longrightarrow> length (buf i) = bufsize" by (simp add: demo_io_def demo_queue_def)
  from ioq_run_invariant [OF r this] show ?thesis using r by auto
qed

end
