(* ===== verification/Fork_Exit.thy ===== *)
theory Fork_Exit
  imports File_Calls
begin

text \<open>
  Copying and ending processes: \<^verbatim>\<open>userprog/fork.c\<close> and the end of a process in \<^verbatim>\<open>userprog/wait_exit.c\<close>. The pages of a process and its
  kernel stack are words read and written through the page tables; the fields of its control block are a record. \<open>intr_exit\<close>, the
  address of an assembly routine, is an argument.
\<close>

section \<open>The control block of the child\<close>

text \<open>
  \<open>memcpy(child_thread, parent_thread, PG_SIZE)\<close>: the words of the page, the fields of the control block, and the list nodes and
  block descriptors inside it.
\<close>

definition copy_task_page :: "nat \<Rightarrow> nat \<Rightarrow> 'a proc_scheme \<Rightarrow> 'a proc_scheme outcome" where
  "copy_task_page child parent s = ASSERT (child \<noteq> 0 \<and> parent \<noteq> 0)
     (andThen (copy_words (of_nat child) (of_nat parent) 1024 s) (\<lambda>s.
      andThen (get_task parent s) (\<lambda>t.
      Inr (s\<lparr>tcb := (tcb s)(child \<mapsto> t), user_bits := (user_bits s)(child := user_bits s parent),
        elems := (\<lambda>a. if a \<in> task_nodes child then elems s (parent + (a - child)) else elems s a),
        descs_at := (\<lambda>d. if \<exists>i<DESC_CNT. d = desc_at (u_block_desc child) i then descs_at s (parent + (d - child)) else descs_at s d)\<rparr>))))"

definition clear_tag :: "nat \<Rightarrow> 'a kheap_scheme \<Rightarrow> 'a kheap_scheme outcome" where
  "clear_tag a s = andThen (set_next a 0 s) (set_prev a 0)"

text \<open>
  The bits of the user's virtual pages are part of the control block, so that the copy of the control block has copied them; what is
  left of the copy of the bitmap are the pages it takes and the pointer to them.
\<close>

definition copy_pcb_vaddrbitmap_stack0 :: "nat \<Rightarrow> nat \<Rightarrow> 'a proc_scheme \<Rightarrow> (int \<times> 'a proc_scheme) outcome" where
  "copy_pcb_vaddrbitmap_stack0 child_thread parent_thread s =
     andThen (copy_task_page child_thread parent_thread s) (\<lambda>s.
     andThen (fork_pid s) (\<lambda>(p, s).
     andThen (get_task parent_thread s) (\<lambda>par.
     andThen (set_task child_thread (\<lambda>t. t\<lparr>pid := p, elapsed_ticks := 0, status := TASK_READY, ticks := priority t, parent_pid := pid par\<rparr>) s) (\<lambda>s.
     andThen (clear_tag (general_tag child_thread) s) (\<lambda>s.
     andThen (clear_tag (all_list_tag child_thread) s) (\<lambda>s.
     andThen (block_desc_init (u_block_desc child_thread) s) (\<lambda>s.
     andThen (get_kernel_pages user_bitmap_pages s) (\<lambda>(vaddr_btmp, s).
     if vaddr_btmp = 0 then Inr (- 1, s)
     else Inr (0, s\<lparr>user_bits := (user_bits s)(child_thread := vaddr_btmp)\<rparr>)))))))))"

section \<open>The pages of the child\<close>

text \<open>One page goes from the parent's address space through the kernel's buffer to the child's.\<close>

definition copy_page :: "nat \<Rightarrow> nat \<Rightarrow> u32 \<Rightarrow> u32 \<Rightarrow> 'a proc_scheme \<Rightarrow> 'a proc_scheme outcome" where
  "copy_page child_thread parent_thread buf_page prog_vaddr s = ASSERT (buf_page \<noteq> 0 \<and> prog_vaddr \<noteq> 0)
     (andThen (copy_words buf_page prog_vaddr 1024 s) (\<lambda>s.
      andThen (page_dir_activate child_thread s) (\<lambda>s.
      andThen (get_a_page_without_opvaddrbitmap PF_USER prog_vaddr s) (\<lambda>(_, s).
      andThen (copy_words prog_vaddr buf_page 1024 s) (\<lambda>s.
      page_dir_activate parent_thread s)))))"

fun copy_bits :: "nat \<Rightarrow> nat \<Rightarrow> u32 \<Rightarrow> u32 \<Rightarrow> u8 \<Rightarrow> nat \<Rightarrow> nat \<Rightarrow> nat \<Rightarrow> 'a proc_scheme \<Rightarrow> 'a proc_scheme outcome" where
  "copy_bits child parent buf_page start b idx_byte idx_bit 0 s = Inr s"
| "copy_bits child parent buf_page start b idx_byte idx_bit (Suc n) s =
     andThen (if push_bit idx_bit 1 AND b \<noteq> 0
       then copy_page child parent buf_page (of_nat (idx_byte * 8 + idx_bit) * 4096 + start) s else Inr s)
       (copy_bits child parent buf_page start b idx_byte (Suc idx_bit) n)"

fun copy_bytes :: "nat \<Rightarrow> nat \<Rightarrow> u32 \<Rightarrow> virtual_addr \<Rightarrow> nat \<Rightarrow> nat \<Rightarrow> 'a proc_scheme \<Rightarrow> 'a proc_scheme outcome" where
  "copy_bytes child parent buf_page va idx_byte 0 s = Inr s"
| "copy_bytes child parent buf_page va idx_byte (Suc n) s =
     andThen (let b = bits (vaddr_bitmap va) idx_byte in
       if b \<noteq> 0 then copy_bits child parent buf_page (vaddr_start va) b idx_byte 0 8 s else Inr s)
       (copy_bytes child parent buf_page va (Suc idx_byte) n)"

definition copy_body_stack3 :: "nat \<Rightarrow> nat \<Rightarrow> u32 \<Rightarrow> 'a proc_scheme \<Rightarrow> 'a proc_scheme outcome" where
  "copy_body_stack3 child_thread parent_thread buf_page s =
     andThen (get_task parent_thread s) (\<lambda>par.
     copy_bytes child_thread parent_thread buf_page (userprog_vaddr par) 0 (btmp_bytes_len (vaddr_bitmap (userprog_vaddr par))) s)"

section \<open>The stack of the child\<close>

text \<open>The frame \<open>struct intr_stack\<close> at the end of the page of a control block, and the offsets of its fields.\<close>

definition intr_frame :: "nat \<Rightarrow> u32" where
  "intr_frame p = of_nat p + 4096 - sizeof_intr_stack"

definition build_child_stack :: "u32 \<Rightarrow> nat \<Rightarrow> 'a proc_scheme \<Rightarrow> 'a proc_scheme outcome" where
  "build_child_stack intr_exit child_thread s =
     (let f = intr_frame child_thread in
      andThen (vstores [(f + 32, 0), (f - 4, intr_exit), (f - 8, 0), (f - 12, 0), (f - 16, 0), (f - 20, 0)] s)
        (set_task child_thread (\<lambda>t. t\<lparr>self_kstack := f - 20\<rparr>)))"

section \<open>Open files\<close>

fun open_cnts_loop :: "nat \<Rightarrow> nat \<Rightarrow> nat \<Rightarrow> 'a fs_scheme \<Rightarrow> 'a fs_scheme outcome" where
  "open_cnts_loop thread local_fd 0 s = Inr s"
| "open_cnts_loop thread local_fd (Suc n) s =
     andThen (get_task thread s) (\<lambda>t.
     if local_fd < length (fd_table t) then
       let global_fd = fd_table t ! local_fd in
       ASSERT (sint global_fd < int MAX_FILE_OPEN)
      (andThen (if global_fd \<noteq> - 1 then
          andThen (is_pipe (of_nat local_fd) s) (\<lambda>pipe.
          if pipe then set_file (unat global_fd) (\<lambda>x. x\<lparr>fd_pos := fd_pos x + 1\<rparr>) s
          else andThen (get_file (unat global_fd) s) (\<lambda>x. set_inode (fd_inode x) (\<lambda>i. i\<lparr>i_open_cnts := i_open_cnts i + 1\<rparr>) s))
        else Inr s)
        (open_cnts_loop thread (Suc local_fd) n))
     else Inl BadAccess)"

definition update_inode_open_cnts :: "nat \<Rightarrow> 'a fs_scheme \<Rightarrow> 'a fs_scheme outcome" where
  "update_inode_open_cnts thread s = open_cnts_loop thread 3 (MAX_FILES_OPEN_PER_PROC - 3) s"

section \<open>Forking\<close>

definition copy_process :: "u32 \<Rightarrow> nat \<Rightarrow> nat \<Rightarrow> 'a fs_scheme \<Rightarrow> (int \<times> 'a fs_scheme) outcome" where
  "copy_process intr_exit child_thread parent_thread s =
     andThen (get_kernel_pages 1 s) (\<lambda>(buf_page, s).
     if buf_page = 0 then Inr (- 1, s)
     else
       andThen (copy_pcb_vaddrbitmap_stack0 child_thread parent_thread s) (\<lambda>(r, s).
       if r = - 1 then Inr (- 1, s)
       else
         andThen (create_page_dir s) (\<lambda>(d, s).
         andThen (set_task child_thread (\<lambda>t. t\<lparr>pgdir := d\<rparr>) s) (\<lambda>s.
         if d = 0 then Inr (- 1, s)
         else
           andThen (copy_body_stack3 child_thread parent_thread buf_page s) (\<lambda>s.
           andThen (build_child_stack intr_exit child_thread s) (\<lambda>s.
           andThen (update_inode_open_cnts child_thread s) (\<lambda>s.
           andThen (mfree_page PF_KERNEL buf_page 1 s) (\<lambda>s. Inr (0, s)))))))))"

definition sys_fork :: "u32 \<Rightarrow> 'a fs_scheme \<Rightarrow> (int \<times> 'a fs_scheme) outcome" where
  "sys_fork intr_exit s =
     (let parent_thread = running_thread s in
      andThen (get_kernel_pages 1 s) (\<lambda>(child, s).
      if child = 0 then Inr (- 1, s)
      else
        let child_thread = unat child in
        andThen (get_task parent_thread s) (\<lambda>par. ASSERT (INTR_OFF = intr_get_status s \<and> pgdir par \<noteq> 0)
       (andThen (copy_process intr_exit child_thread parent_thread s) (\<lambda>(r, s).
        if r = - 1 then Inr (- 1, s)
        else
          andThen (enlist_ready child_thread s) (\<lambda>s.
          andThen (enlist_all child_thread s) (\<lambda>s.
          andThen (get_task child_thread s) (\<lambda>t. Inr (sint (pid t), s)))))))))"

section \<open>The end of a process\<close>

text \<open>The frames of the pages of one page table, and of all page tables of the user's part of the directory.\<close>

fun release_ptes :: "u32 \<Rightarrow> nat \<Rightarrow> nat \<Rightarrow> 'a kmem_scheme \<Rightarrow> 'a kmem_scheme outcome" where
  "release_ptes first_pte pte_idx 0 s = Inr s"
| "release_ptes first_pte pte_idx (Suc n) s =
     andThen (vload s (first_pte + 4 * of_nat pte_idx)) (\<lambda>pte.
     andThen (if pte AND 1 \<noteq> 0 then free_a_phy_page (pte AND 0xfffff000) s else Inr s)
       (release_ptes first_pte (Suc pte_idx) n))"

fun release_pdes :: "u32 \<Rightarrow> nat \<Rightarrow> nat \<Rightarrow> 'a kmem_scheme \<Rightarrow> 'a kmem_scheme outcome" where
  "release_pdes pgdir_vaddr pde_idx 0 s = Inr s"
| "release_pdes pgdir_vaddr pde_idx (Suc n) s =
     andThen (vload s (pgdir_vaddr + 4 * of_nat pde_idx)) (\<lambda>pde.
     andThen (if pde AND 1 \<noteq> 0 then
         andThen (release_ptes (pte_ptr (of_nat pde_idx * 0x400000)) 0 1024 s) (free_a_phy_page (pde AND 0xfffff000))
       else Inr s)
       (release_pdes pgdir_vaddr (Suc pde_idx) n))"

fun close_files :: "nat \<Rightarrow> nat \<Rightarrow> nat \<Rightarrow> 'a fs_scheme \<Rightarrow> 'a fs_scheme outcome" where
  "close_files thread local_fd 0 s = Inr s"
| "close_files thread local_fd (Suc n) s =
     andThen (get_task thread s) (\<lambda>t.
     if local_fd < length (fd_table t) then
       andThen (if fd_table t ! local_fd \<noteq> - 1 then
           andThen (is_pipe (of_nat local_fd) s) (\<lambda>pipe.
           if pipe then andThen (fd_local2global (of_nat local_fd) s) (\<lambda>global_fd. drop_pipe global_fd s)
           else andThen (sys_close (int local_fd) s) (\<lambda>(_, s). Inr s))
         else Inr s)
         (close_files thread (Suc local_fd) n)
     else Inl BadAccess)"

definition release_prog_resource :: "nat \<Rightarrow> 'a fs_scheme \<Rightarrow> 'a fs_scheme outcome" where
  "release_prog_resource release_thread s =
     andThen (get_task release_thread s) (\<lambda>t.
     andThen (release_pdes (pgdir t) 0 768 s) (\<lambda>s.
     andThen (mfree_page PF_KERNEL (user_bits s release_thread) (btmp_bytes_len (vaddr_bitmap (userprog_vaddr t)) div PG_SIZE) s) (\<lambda>s.
     close_files release_thread 3 (MAX_FILES_OPEN_PER_PROC - 3) s)))"

text \<open>\<open>sys_exit\<close> ends in the state of the thread that runs next; the exiting thread does not run again.\<close>

definition sys_exit :: "int \<Rightarrow> 'a fs_scheme \<Rightarrow> 'a fs_scheme outcome" where
  "sys_exit code s =
     (let child_thread = running_thread s in
      andThen (set_task child_thread (\<lambda>t. t\<lparr>exit_status := of_int code\<rparr>) s) (\<lambda>s.
      andThen (get_task child_thread s) (\<lambda>t.
      if parent_pid t = - 1 then Inl Panic
      else
        andThen (list_traversal (thread_all_list s) init_adopt_a_child (sint (pid t)) s) (\<lambda>(_, s).
        andThen (release_prog_resource child_thread s) (\<lambda>s.
        andThen (get_task child_thread s) (\<lambda>t.
        andThen (pid2thread (sint (parent_pid t)) s) (\<lambda>parent_thread.
        andThen (get_task parent_thread s) (\<lambda>par.
        andThen (if status par = TASK_WAITING then thread_unblock parent_thread s else Inr s) (\<lambda>s.
        andThen (thread_block TASK_HANGING s) (\<lambda>(_, s). Inr s))))))))))"

end
