(* ===== verification/Exec.thy ===== *)
theory Exec
  imports Fork_Exit
begin

text \<open>
  Loading programs: \<^verbatim>\<open>userprog/exec.c\<close>. The ELF header and the program header are local variables, read as the bytes the file has; the
  bytes of a segment go where \<open>sys_read\<close> puts them.
\<close>

section \<open>Headers\<close>

record Elf32_Ehdr =
  e_type :: u16
  e_machine :: u16
  e_version :: u32
  e_entry :: u32
  e_phoff :: u32
  e_phentsize :: u16
  e_phnum :: u16

record Elf32_Phdr =
  p_type :: u32
  p_offset :: u32
  p_vaddr :: u32
  p_filesz :: u32

definition load16 :: "mem \<Rightarrow> nat \<Rightarrow> u16 outcome" where
  "load16 m a = andThen (load m a) (\<lambda>b0. andThen (load m (a + 1)) (\<lambda>b1. Inr (ucast b0 OR push_bit 8 (ucast b1))))"

definition sizeof_ehdr :: nat where
  "sizeof_ehdr = 52"

definition sizeof_phdr :: nat where
  "sizeof_phdr = 32"

text \<open>The fields of the structures that the code reads.\<close>

definition load_ehdr :: "mem \<Rightarrow> nat \<Rightarrow> Elf32_Ehdr outcome" where
  "load_ehdr m a =
     andThen (load16 m (a + 16)) (\<lambda>ty.
     andThen (load16 m (a + 18)) (\<lambda>mach.
     andThen (load32 m (a + 20)) (\<lambda>ver.
     andThen (load32 m (a + 24)) (\<lambda>ent.
     andThen (load32 m (a + 28)) (\<lambda>off.
     andThen (load16 m (a + 42)) (\<lambda>entsize.
     andThen (load16 m (a + 44)) (\<lambda>num.
     Inr \<lparr>e_type = ty, e_machine = mach, e_version = ver, e_entry = ent, e_phoff = off, e_phentsize = entsize, e_phnum = num\<rparr>)))))))"

definition load_phdr :: "mem \<Rightarrow> nat \<Rightarrow> Elf32_Phdr outcome" where
  "load_phdr m a =
     andThen (load32 m a) (\<lambda>ty.
     andThen (load32 m (a + 4)) (\<lambda>off.
     andThen (load32 m (a + 8)) (\<lambda>va.
     andThen (load32 m (a + 16)) (\<lambda>sz.
     Inr \<lparr>p_type = ty, p_offset = off, p_vaddr = va, p_filesz = sz\<rparr>))))"

text \<open>The literal that the identification is compared with, and the addresses of the two headers.\<close>

record exec_frames = fs_frames +
  lit_ident :: nat
  fr_elf :: nat
  fr_prog :: nat

section \<open>Segments\<close>

definition occupied_pages :: "u32 \<Rightarrow> u32 \<Rightarrow> u32" where
  "occupied_pages filesz vaddr =
     (let size_in_first_page = 4096 - (vaddr AND 0xfff) in
      if filesz > size_in_first_page then (filesz - size_in_first_page + 4096 - 1) div 4096 + 1 else 1)"

text \<open>Allocates the pages that are not mapped; the entry of the page table is only read when there is a table.\<close>

fun segment_pages :: "u32 \<Rightarrow> nat \<Rightarrow> 'a kmem_scheme \<Rightarrow> (bool \<times> 'a kmem_scheme) outcome" where
  "segment_pages vaddr_page 0 s = Inr (True, s)"
| "segment_pages vaddr_page (Suc n) s =
     andThen (vload s (pde_ptr vaddr_page)) (\<lambda>pde.
     andThen (if pde AND 1 = 0 then Inr True else andThen (vload s (pte_ptr vaddr_page)) (\<lambda>pte. Inr (pte AND 1 = 0))) (\<lambda>missing.
     if missing then
       andThen (get_a_page PF_USER vaddr_page s) (\<lambda>(v, s).
       if v = 0 then Inr (False, s) else segment_pages (vaddr_page + 4096) n s)
     else segment_pages (vaddr_page + 4096) n s))"

definition segment_load :: "int \<Rightarrow> u32 \<Rightarrow> u32 \<Rightarrow> u32 \<Rightarrow> 'a fs_scheme \<Rightarrow> (bool \<times> 'a fs_scheme) outcome" where
  "segment_load fd offset filesz vaddr s =
     andThen (segment_pages (vaddr AND 0xfffff000) (unat (occupied_pages filesz vaddr)) s) (\<lambda>(ok, s).
     if \<not> ok then Inr (False, s)
     else
       andThen (sys_lseek fd offset 1 s) (\<lambda>(_, s).
       andThen (sys_read fd (unat vaddr) filesz s) (\<lambda>(_, s). Inr (True, s))))"

section \<open>Programs\<close>

definition bad_header :: "nat \<Rightarrow> nat \<Rightarrow> mem \<Rightarrow> bool outcome" where
  "bad_header lit elf m =
     andThen (memcmp m elf lit 7) (\<lambda>c.
     andThen (load_ehdr m elf) (\<lambda>h.
     Inr (c \<noteq> 0 \<or> e_type h \<noteq> 2 \<or> e_machine h \<noteq> 3 \<or> e_version h \<noteq> 1 \<or> e_phnum h > 1024 \<or> e_phentsize h \<noteq> of_nat sizeof_phdr)))"

text \<open>The walk over the program headers; \<open>False\<close> when a header cannot be read or a segment not loaded.\<close>

fun load_segments :: "exec_frames \<Rightarrow> int \<Rightarrow> u16 \<Rightarrow> u32 \<Rightarrow> nat \<Rightarrow> 'a fs_scheme \<Rightarrow> (bool \<times> 'a fs_scheme) outcome" where
  "load_segments fr fd sz prog_header_offset 0 s = Inr (True, s)"
| "load_segments fr fd sz prog_header_offset (Suc n) s =
     andThen (clear_ram (fr_prog fr) (unat sz) s) (\<lambda>s.
     andThen (sys_lseek fd prog_header_offset 1 s) (\<lambda>(_, s).
     andThen (sys_read fd (fr_prog fr) (ucast sz) s) (\<lambda>(r, s).
     if r \<noteq> uint sz then Inr (False, s)
     else
       andThen (load_phdr (ram s) (fr_prog fr)) (\<lambda>ph.
       andThen (if p_type ph = 1 then segment_load fd (p_offset ph) (p_filesz ph) (p_vaddr ph) s else Inr (True, s)) (\<lambda>(ok, s).
       if \<not> ok then Inr (False, s)
       else load_segments fr fd sz (prog_header_offset + ucast sz) n s)))))"

definition load_headers :: "exec_frames \<Rightarrow> int \<Rightarrow> 'a fs_scheme \<Rightarrow> (int \<times> 'a fs_scheme) outcome" where
  "load_headers fr fd s =
     andThen (sys_read fd (fr_elf fr) (of_nat sizeof_ehdr) s) (\<lambda>(r, s).
     if r \<noteq> int sizeof_ehdr then Inr (- 1, s)
     else
       andThen (bad_header (lit_ident fr) (fr_elf fr) (ram s)) (\<lambda>bad.
       if bad then Inr (- 1, s)
       else
         andThen (load_ehdr (ram s) (fr_elf fr)) (\<lambda>h.
         andThen (load_segments fr fd (e_phentsize h) (e_phoff h) (unat (e_phnum h)) s) (\<lambda>(ok, s).
         Inr (if ok then sint (e_entry h) else - 1, s)))))"

definition load_program :: "exec_frames \<Rightarrow> nat \<Rightarrow> 'a fs_scheme \<Rightarrow> (int \<times> 'a fs_scheme) outcome" where
  "load_program fr pathname s =
     andThen (clear_ram (fr_elf fr) sizeof_ehdr s) (\<lambda>s.
     andThen (sys_open (fs_frames.truncate fr) pathname 0 s) (\<lambda>(fd, s).
     if fd = - 1 then Inr (- 1, s)
     else
       andThen (load_headers fr fd s) (\<lambda>(ret, s).
       andThen (sys_close fd s) (\<lambda>(_, s). Inr (ret, s)))))"

text \<open>The number of arguments: the words of \<open>argv\<close> up to the first that is 0.\<close>

partial_function (option) count_args :: "nat \<Rightarrow> nat \<Rightarrow> mem \<Rightarrow> nat outcome option" where
  "count_args argv argc m =
     (case load32 m (argv + 4 * argc) of
        Inl t \<Rightarrow> Some (Inl t)
      | Inr v \<Rightarrow> if v = 0 then Some (Inr argc) else count_args argv (Suc argc) m)"

text \<open>
  \<open>sys_execv\<close> changes the frame that \<open>intr_exit\<close> pops and jumps there: \<open>None\<close> is that jump, with the stack pointer at the frame, and
  \<open>Some r\<close> is a return.
\<close>

definition sys_execv :: "exec_frames \<Rightarrow> nat \<Rightarrow> nat \<Rightarrow> 'a fs_scheme \<Rightarrow> (int option \<times> 'a fs_scheme) outcome" where
  "sys_execv fr path argv s =
     andThen (run_walk (count_args argv 0 (ram s))) (\<lambda>argc.
     andThen (load_program fr path s) (\<lambda>(entry_point, s).
     if entry_point = - 1 then Inr (Some (- 1), s)
     else
       let cur = running_thread s; f = intr_frame cur in
       ASSERT (path \<noteq> 0)
      (andThen (load_bytes (ram s) path TASK_NAME_LEN) (\<lambda>nm.
       andThen (set_task cur (\<lambda>t. t\<lparr>tname := nm\<rparr>) s) (\<lambda>s.
       andThen (vstores [(f + 20, of_nat argv), (f + 28, of_nat argc), (f + 56, of_int entry_point), (f + 68, 0xc0000000)] s) (\<lambda>s.
       Inr (None, s\<lparr>esp := f\<rparr>)))))))"

end
