(* ===== verification/Syscalls.thy ===== *)
theory Syscalls
  imports Exec Fs_Init
begin

text \<open>
  The list of tasks (\<open>sys_ps\<close> of \<^verbatim>\<open>thread/thread.c\<close>), the table of system calls (\<^verbatim>\<open>userprog/syscall-init.c\<close>), the entry for interrupt
  0x80 (\<open>syscall_handler\<close> of \<^verbatim>\<open>kernel/kernel.S\<close>) and the functions that user programs call (\<^verbatim>\<open>lib/user/syscall.c\<close>).
\<close>

section \<open>The list of tasks\<close>

record ps_frames = exec_frames +
  lit_ps_title :: nat
  lit_newline :: nat
  fr_out_pad :: nat

text \<open>
  \<open>sprintf\<close> with the text it formats given: the text is stored without a terminating 0, and the result is the length of the string
  that is then in the buffer.
\<close>

definition sprintf_text :: "nat \<Rightarrow> u8 list \<Rightarrow> mem \<Rightarrow> (nat \<times> mem) outcome" where
  "sprintf_text bufp out m = andThen (store_bytes m bufp out) (\<lambda>m. andThen (strlen m bufp) (\<lambda>n. Inr (n, m)))"

text \<open>
  The argument of \<open>pad_print\<close> with its format: a string, a signed 16 bit number with the word at its address, or a word. The case of
  the signed number goes on into the case of the word.
\<close>

datatype pad_arg = PadS "u8 list" | PadD u16 u32 | PadX u32

definition pad_text :: "nat \<Rightarrow> pad_arg \<Rightarrow> mem \<Rightarrow> (nat \<times> mem) outcome" where
  "pad_text bufp arg m =
     (case arg of
       PadS str \<Rightarrow> sprintf_text bufp str m
     | PadD d x \<Rightarrow> andThen (sprintf_text bufp (dec_str (scast d)) m) (\<lambda>(_, m). sprintf_text bufp (hex x) m)
     | PadX x \<Rightarrow> sprintf_text bufp (hex x) m)"

definition pad_print :: "fs_frames \<Rightarrow> nat \<Rightarrow> nat \<Rightarrow> pad_arg \<Rightarrow> 'a fs_scheme \<Rightarrow> 'a fs_scheme outcome" where
  "pad_print fr bufp buf_len arg s =
     andThen (clear_ram bufp buf_len s) (\<lambda>s.
     andThen (pad_text bufp arg (ram s)) (\<lambda>(n, m).
     let idx = unat (of_nat n :: u8) in
     andThen (store_bytes m (bufp + idx) (replicate (buf_len - idx) 32)) (\<lambda>m.
     andThen (sys_write fr 1 bufp (of_nat (buf_len - 1)) (s\<lparr>ram := m\<rparr>)) (\<lambda>(_, s). Inr s))))"

definition status_text :: "task_status \<Rightarrow> u8 list" where
  "status_text st = bytes (case st of TASK_RUNNING \<Rightarrow> ''RUNNING'' | TASK_READY \<Rightarrow> ''READY'' | TASK_BLOCKED \<Rightarrow> ''BLOCKED''
     | TASK_WAITING \<Rightarrow> ''WAITING'' | TASK_HANGING \<Rightarrow> ''HANGING'' | TASK_DIED \<Rightarrow> ''DIED'')"

text \<open>
  The words at the addresses of \<open>pid\<close>, which is followed by padding, and of \<open>parent_pid\<close>, which is followed by \<open>exit_status\<close> and padding.
\<close>

definition pid_word :: "task_struct \<Rightarrow> u32" where
  "pid_word t = ucast (pid t)"

definition parent_pid_word :: "task_struct \<Rightarrow> u32" where
  "parent_pid_word t = ucast (parent_pid t) OR push_bit 16 (ucast (exit_status t))"

text \<open>The name of a task with a line break; a name without a terminating 0 runs over the end of its field.\<close>

definition print_name :: "ps_frames \<Rightarrow> task_struct \<Rightarrow> 'a fs_scheme \<Rightarrow> 'a fs_scheme outcome" where
  "print_name fr t s =
     andThen (clear_ram (fr_out_pad fr) 16 s) (\<lambda>s.
     if 0 \<notin> set (tname t) then Inl BadAccess
     else
       let nm = takeWhile (\<lambda>c. c \<noteq> 0) (tname t) in
       ASSERT (length nm < 17)
      (andThen (on_ram (\<lambda>m. store_bytes m (fr_out_pad fr) nm) s) (\<lambda>s.
       andThen (on_ram (\<lambda>m. andThen (strcat m (fr_out_pad fr) (lit_newline fr)) (\<lambda>(_, m). Inr m)) s) (\<lambda>s.
       andThen (strlen (ram s) (fr_out_pad fr)) (\<lambda>n.
       andThen (sys_write (fs_frames.truncate fr) 1 (fr_out_pad fr) (of_nat n) s) (\<lambda>(_, s). Inr s))))))"

definition elem2thread_info :: "ps_frames \<Rightarrow> nat \<Rightarrow> int \<Rightarrow> 'a fs_scheme \<Rightarrow> (bool \<times> 'a fs_scheme) outcome" where
  "elem2thread_info fr pelem arg s =
     (let pad = pad_print (fs_frames.truncate fr) (fr_out_pad fr) 16 in
      andThen (get_task (entry_of_all pelem) s) (\<lambda>t.
      andThen (clear_ram (fr_out_pad fr) 16 s) (\<lambda>s.
      andThen (pad (PadD (pid t) (pid_word t)) s) (\<lambda>s.
      andThen (pad (if parent_pid t = - 1 then PadS (bytes ''NULL'') else PadD (parent_pid t) (parent_pid_word t)) s) (\<lambda>s.
      andThen (pad (PadS (status_text (status t))) s) (\<lambda>s.
      andThen (pad (PadX (elapsed_ticks t)) s) (\<lambda>s.
      andThen (print_name fr t s) (\<lambda>s. Inr (False, s)))))))))"

definition sys_ps :: "ps_frames \<Rightarrow> 'a fs_scheme \<Rightarrow> 'a fs_scheme outcome" where
  "sys_ps fr s =
     andThen (strlen (ram s) (lit_ps_title fr)) (\<lambda>n.
     andThen (sys_write (fs_frames.truncate fr) 1 (lit_ps_title fr) (of_nat n) s) (\<lambda>(_, s).
     andThen (list_traversal (thread_all_list s) (elem2thread_info fr) 0 s) (\<lambda>(_, s). Inr s)))"

definition sys_getpid :: "'a sched_scheme \<Rightarrow> u32 outcome" where
  "sys_getpid s = andThen (get_task (running_thread s) s) (\<lambda>t. Inr (scast (pid t)))"

section \<open>The table\<close>

datatype SYSCALL_NR = SYS_GETPID | SYS_WRITE | SYS_MALLOC | SYS_FREE | SYS_FORK | SYS_READ | SYS_PUTCHAR | SYS_CLEAR | SYS_GETCWD
  | SYS_OPEN | SYS_CLOSE | SYS_LSEEK | SYS_UNLINK | SYS_MKDIR | SYS_OPENDIR | SYS_CLOSEDIR | SYS_CHDIR | SYS_RMDIR | SYS_READDIR
  | SYS_REWINDDIR | SYS_STAT | SYS_PS | SYS_EXECV | SYS_EXIT | SYS_WAIT | SYS_PIPE

fun nr :: "SYSCALL_NR \<Rightarrow> nat" where
  "nr SYS_GETPID = 0"
| "nr SYS_WRITE = 1"
| "nr SYS_MALLOC = 2"
| "nr SYS_FREE = 3"
| "nr SYS_FORK = 4"
| "nr SYS_READ = 5"
| "nr SYS_PUTCHAR = 6"
| "nr SYS_CLEAR = 7"
| "nr SYS_GETCWD = 8"
| "nr SYS_OPEN = 9"
| "nr SYS_CLOSE = 10"
| "nr SYS_LSEEK = 11"
| "nr SYS_UNLINK = 12"
| "nr SYS_MKDIR = 13"
| "nr SYS_OPENDIR = 14"
| "nr SYS_CLOSEDIR = 15"
| "nr SYS_CHDIR = 16"
| "nr SYS_RMDIR = 17"
| "nr SYS_READDIR = 18"
| "nr SYS_REWINDDIR = 19"
| "nr SYS_STAT = 20"
| "nr SYS_PS = 21"
| "nr SYS_EXECV = 22"
| "nr SYS_EXIT = 23"
| "nr SYS_WAIT = 24"
| "nr SYS_PIPE = 25"

text \<open>The kernel functions whose addresses are in the table.\<close>

datatype kernel_fun = F_getpid | F_write | F_malloc | F_free | F_fork | F_read | F_putchar | F_cls_screen | F_getcwd
  | F_open | F_close | F_lseek | F_unlink | F_mkdir | F_opendir | F_closedir | F_chdir | F_rmdir | F_readdir
  | F_rewinddir | F_stat | F_ps | F_execv | F_exit | F_wait | F_pipe

abbreviation syscall_nr :: nat where
  "syscall_nr \<equiv> 32"

definition fill_table :: "kernel_fun option list \<Rightarrow> kernel_fun option list" where
  "fill_table t = foldl (\<lambda>t (k, f). t[nr k := Some f]) t
     [(SYS_GETPID, F_getpid), (SYS_WRITE, F_write), (SYS_MALLOC, F_malloc), (SYS_FREE, F_free), (SYS_FORK, F_fork), (SYS_READ, F_read),
      (SYS_PUTCHAR, F_putchar), (SYS_CLEAR, F_cls_screen), (SYS_GETCWD, F_getcwd), (SYS_OPEN, F_open), (SYS_CLOSE, F_close),
      (SYS_LSEEK, F_lseek), (SYS_UNLINK, F_unlink), (SYS_MKDIR, F_mkdir), (SYS_OPENDIR, F_opendir), (SYS_CLOSEDIR, F_closedir),
      (SYS_CHDIR, F_chdir), (SYS_RMDIR, F_rmdir), (SYS_READDIR, F_readdir), (SYS_REWINDDIR, F_rewinddir), (SYS_STAT, F_stat),
      (SYS_PS, F_ps), (SYS_EXECV, F_execv), (SYS_EXIT, F_exit), (SYS_WAIT, F_wait), (SYS_PIPE, F_pipe)]"

section \<open>Calls\<close>

text \<open>
  A call returns a value, goes on in another thread because the caller sleeps or ends, or enters a new program.
\<close>

datatype 's sysret = Returns u32 's | Switched 's | Enters 's

definition returns :: "(u32 \<times> 's) outcome \<Rightarrow> 's sysret outcome" where
  "returns r = andThen r (\<lambda>(v, s). Inr (Returns v s))"

definition returns_int :: "(int \<times> 's) outcome \<Rightarrow> 's sysret outcome" where
  "returns_int r = andThen r (\<lambda>(v, s). Inr (Returns (of_int v) s))"

definition returns_ptr :: "(nat \<times> 's) outcome \<Rightarrow> 's sysret outcome" where
  "returns_ptr r = andThen r (\<lambda>(v, s). Inr (Returns (of_nat v) s))"

text \<open>A function without a result leaves some value in \<open>eax\<close>, which no caller uses; it is given as \<open>junk\<close>.\<close>

definition returns_void :: "u32 \<Rightarrow> 's outcome \<Rightarrow> 's sysret outcome" where
  "returns_void junk r = andThen r (\<lambda>s. Inr (Returns junk s))"

definition wait_call :: "nat \<Rightarrow> 'a fs_scheme \<Rightarrow> 'a fs_scheme sysret outcome" where
  "wait_call stat s =
     andThen (sys_wait s) (\<lambda>r.
     case r of
       Reaped p code s \<Rightarrow> andThen (on_ram (\<lambda>m. store32 m stat (of_int code)) s) (\<lambda>s. Inr (Returns (scast p) s))
     | NoChild s \<Rightarrow> Inr (Returns (- 1) s)
     | Waiting _ s \<Rightarrow> Inr (Switched s))"

text \<open>
  The functions with their arguments as the C code declares them. \<open>cls\<close> stands for \<open>cls_screen\<close>, which is assembly code.
\<close>

fun call_kernel ::
  "ps_frames \<Rightarrow> u32 \<Rightarrow> ('a fs_scheme \<Rightarrow> 'a fs_scheme) \<Rightarrow> u32 \<Rightarrow> kernel_fun \<Rightarrow> u32 \<Rightarrow> u32 \<Rightarrow> u32 \<Rightarrow> 'a fs_scheme \<Rightarrow> 'a fs_scheme sysret outcome" where
  "call_kernel fr intr_exit cls junk F_getpid a b c s = andThen (sys_getpid s) (\<lambda>v. Inr (Returns v s))"
| "call_kernel fr intr_exit cls junk F_write a b c s = returns_int (sys_write (fs_frames.truncate fr) (sint a) (unat b) c s)"
| "call_kernel fr intr_exit cls junk F_malloc a b c s = returns_ptr (sys_malloc (unat a) s)"
| "call_kernel fr intr_exit cls junk F_free a b c s = returns_void junk (sys_free (unat a) s)"
| "call_kernel fr intr_exit cls junk F_fork a b c s = returns_int (sys_fork intr_exit s)"
| "call_kernel fr intr_exit cls junk F_read a b c s = returns_int (sys_read (sint a) (unat b) c s)"
| "call_kernel fr intr_exit cls junk F_putchar a b c s = returns_void junk (sys_putchar (ucast a) s)"
| "call_kernel fr intr_exit cls junk F_cls_screen a b c s = Inr (Returns junk (cls s))"
| "call_kernel fr intr_exit cls junk F_getcwd a b c s = returns_ptr (sys_getcwd (fs_frames.truncate fr) (unat a) b s)"
| "call_kernel fr intr_exit cls junk F_open a b c s = returns_int (sys_open (fs_frames.truncate fr) (unat a) (ucast b) s)"
| "call_kernel fr intr_exit cls junk F_close a b c s = returns_int (sys_close (sint a) s)"
| "call_kernel fr intr_exit cls junk F_lseek a b c s = returns_int (sys_lseek (sint a) b (ucast c) s)"
| "call_kernel fr intr_exit cls junk F_unlink a b c s = returns_int (sys_unlink (fs_frames.truncate fr) (unat a) s)"
| "call_kernel fr intr_exit cls junk F_mkdir a b c s = returns_int (sys_mkdir (fs_frames.truncate fr) (unat a) s)"
| "call_kernel fr intr_exit cls junk F_opendir a b c s = returns_ptr (sys_opendir (fs_frames.truncate fr) (unat a) s)"
| "call_kernel fr intr_exit cls junk F_closedir a b c s = returns_int (sys_closedir (unat a) s)"
| "call_kernel fr intr_exit cls junk F_chdir a b c s = returns_int (sys_chdir (fs_frames.truncate fr) (unat a) s)"
| "call_kernel fr intr_exit cls junk F_rmdir a b c s = returns_int (sys_rmdir (fs_frames.truncate fr) (unat a) s)"
| "call_kernel fr intr_exit cls junk F_readdir a b c s = returns_ptr (sys_readdir (frames.truncate fr) (unat a) s)"
| "call_kernel fr intr_exit cls junk F_rewinddir a b c s = returns_void junk (sys_rewinddir (unat a) s)"
| "call_kernel fr intr_exit cls junk F_stat a b c s = returns_int (sys_stat (fs_frames.truncate fr) (unat a) (unat b) s)"
| "call_kernel fr intr_exit cls junk F_ps a b c s = returns_void junk (sys_ps fr s)"
| "call_kernel fr intr_exit cls junk F_execv a b c s =
     andThen (sys_execv (exec_frames.truncate fr) (unat a) (unat b) s) (\<lambda>(r, s).
     Inr (case r of None \<Rightarrow> Enters s | Some v \<Rightarrow> Returns (of_int v) s))"
| "call_kernel fr intr_exit cls junk F_exit a b c s = andThen (sys_exit (sint a) s) (\<lambda>s. Inr (Switched s))"
| "call_kernel fr intr_exit cls junk F_wait a b c s = wait_call (unat a) s"
| "call_kernel fr intr_exit cls junk F_pipe a b c s = returns_int (sys_pipe (unat a) s)"

end
