(* ===== verification/Kernel_Init.thy ===== *)
theory Kernel_Init
  imports Syscalls
begin

text \<open>
  The tables the processor uses and the start of the kernel: \<open>tss_init\<close> of \<^verbatim>\<open>userprog/tss.c\<close>, \<open>idt_init\<close> of \<^verbatim>\<open>kernel/interrupt.c\<close>,
  \<open>syscall_init\<close> of \<^verbatim>\<open>userprog/syscall-init.c\<close> and \<open>init_all\<close> of \<^verbatim>\<open>kernel/init.c\<close>; then the entry for interrupt 0x80 of
  \<^verbatim>\<open>kernel/kernel.S\<close> and the functions of \<^verbatim>\<open>lib/user/syscall.c\<close> that raise it. The addresses of tables and of assembly routines, the
  amount of memory and the contents of the memory of the bitmaps before they are cleared are arguments.
\<close>

record kern = fs +
  syscall_table :: "kernel_fun option list"
  idt :: "gate_desc list"
  idtr :: "64 word"
  intr_name :: "string list"
  gdt :: "u32 \<Rightarrow> gdt_desc option"
  gdtr :: "64 word"
  tss :: "u32 list"
  task_register :: u16

record boot_env =
  be_entries :: "nat \<Rightarrow> u32"
  be_syscall_handler :: u32
  be_general_handler :: u32
  be_idt :: u32
  be_tss :: u32
  be_mem_bits :: "nat \<Rightarrow> u8"
  be_mem_total :: u32
  be_fr_sb :: nat

section \<open>Descriptor tables\<close>

definition idt_init :: "boot_env \<Rightarrow> 'a kern_scheme \<Rightarrow> 'a kern_scheme" where
  "idt_init e s =
     (let s = put_str (bytes ''idt_init start'' @ [10]) s;
          s = put_str (bytes ''   idt_desc_init done'' @ [10]) (s\<lparr>idt := idt_desc_init (be_entries e) (be_syscall_handler e)\<rparr>);
          (handlers, names) = exception_init (be_general_handler e);
          s = s\<lparr>idt_table := handlers, intr_name := names\<rparr>;
          s = put_str (bytes ''   pic_init done'' @ [10]) (s\<lparr>outs := outs s @ pic_init\<rparr>) in
      put_str (bytes ''idt_init done'' @ [10])
        (s\<lparr>idtr := of_nat (IDT_DESC_CNT * 8 - 1) OR push_bit 16 (ucast (be_idt e))\<rparr>))"

definition SELECTOR_K_STACK :: u32 where
  "SELECTOR_K_STACK = push_bit 3 2"

definition SELECTOR_TSS :: u16 where
  "SELECTOR_TSS = push_bit 3 4"

definition TSS_ATTR_HIGH :: u8 where
  "TSS_ATTR_HIGH = push_bit 7 1"

definition TSS_ATTR_LOW :: u8 where
  "TSS_ATTR_LOW = push_bit 7 1 + push_bit 5 0 + push_bit 4 0 + 9"

definition GDT_ATTR_HIGH :: u8 where
  "GDT_ATTR_HIGH = push_bit 7 1 + push_bit 6 1"

definition GDT_CODE_ATTR_LOW_DPL3 :: u8 where
  "GDT_CODE_ATTR_LOW_DPL3 = push_bit 7 1 + push_bit 5 3 + push_bit 4 1 + 8"

definition GDT_DATA_ATTR_LOW_DPL3 :: u8 where
  "GDT_DATA_ATTR_LOW_DPL3 = push_bit 7 1 + push_bit 5 3 + push_bit 4 1 + 2"

text \<open>\<open>struct tss\<close> has 27 words; \<open>esp0\<close>, its second, is kept as \<open>tss_esp0\<close> for the scheduler.\<close>

definition sizeof_tss :: nat where
  "sizeof_tss = 108"

definition tss_init :: "u32 \<Rightarrow> 'a kern_scheme \<Rightarrow> 'a kern_scheme" where
  "tss_init tss_at s =
     (let s = put_str (bytes ''tss_init start'' @ [10]) s;
          s = s\<lparr>tss_esp0 := 0, tss := (replicate 27 0)[2 := SELECTOR_K_STACK, 26 := of_nat sizeof_tss]\<rparr>;
          s = s\<lparr>gdt := (gdt s)(0xc0000920 \<mapsto> make_gdt_desc tss_at (of_nat sizeof_tss - 1) TSS_ATTR_LOW TSS_ATTR_HIGH,
            0xc0000928 \<mapsto> make_gdt_desc 0 0xfffff GDT_CODE_ATTR_LOW_DPL3 GDT_ATTR_HIGH,
            0xc0000930 \<mapsto> make_gdt_desc 0 0xfffff GDT_DATA_ATTR_LOW_DPL3 GDT_ATTR_HIGH)\<rparr> in
      put_str (bytes ''tss_init and ltr done'' @ [10])
        (s\<lparr>gdtr := of_nat (8 * 7 - 1) OR push_bit 16 0xc0000900, task_register := SELECTOR_TSS\<rparr>))"

definition syscall_init :: "'a kern_scheme \<Rightarrow> 'a kern_scheme" where
  "syscall_init s =
     (let s = put_str (bytes ''syscall_init start'' @ [10]) s in
      put_str (bytes ''syscall_init done'' @ [10]) (s\<lparr>syscall_table := fill_table (syscall_table s)\<rparr>))"

section \<open>Start-up\<close>

definition init_all :: "boot_env \<Rightarrow> 'a kern_scheme \<Rightarrow> 'a kern_scheme outcome" where
  "init_all e s =
     (let s = put_str (bytes ''init_all'' @ [10]) s;
          s = idt_init e s in
      andThen (mem_init (be_mem_bits e) (be_mem_total e) s) (\<lambda>s.
      andThen (thread_init s) (\<lambda>s.
      andThen (timer_init s) (\<lambda>s.
      andThen (console_init s) (\<lambda>s.
      andThen (keyboard_init s) (\<lambda>s.
      let s = syscall_init (tss_init (be_tss e) s);
          s = snd (intr_enable s) in
      andThen (ide_init s) (\<lambda>s.
      filesys_init (be_fr_sb e) s)))))))"

section \<open>System calls\<close>

text \<open>
  What a call depends on besides its arguments: the addresses of local variables, the address of \<open>intr_exit\<close>, \<open>cls_screen\<close>, the value
  that a function without result leaves, and the registers that a call with fewer than three arguments does not set.
\<close>

record 's call_env =
  ce_frames :: ps_frames
  ce_intr_exit :: u32
  ce_cls :: "'s \<Rightarrow> 's"
  ce_junk :: u32
  ce_ebx :: u32
  ce_ecx :: u32
  ce_edx :: u32

definition syscall_handler :: "'a kern_scheme call_env \<Rightarrow> u32 \<Rightarrow> u32 \<Rightarrow> u32 \<Rightarrow> u32 \<Rightarrow> 'a kern_scheme \<Rightarrow> 'a kern_scheme sysret outcome" where
  "syscall_handler e eax ebx ecx edx s =
     (if unat eax < length (syscall_table s) then
        (case syscall_table s ! unat eax of
           Some f \<Rightarrow> call_kernel (ce_frames e) (ce_intr_exit e) (ce_cls e) (ce_junk e) f ebx ecx edx s
         | None \<Rightarrow> Inl BadAccess)
      else Inl BadAccess)"

definition syscall0 :: "'a kern_scheme call_env \<Rightarrow> SYSCALL_NR \<Rightarrow> 'a kern_scheme \<Rightarrow> 'a kern_scheme sysret outcome" where
  "syscall0 e k s = syscall_handler e (of_nat (nr k)) (ce_ebx e) (ce_ecx e) (ce_edx e) s"

definition syscall1 :: "'a kern_scheme call_env \<Rightarrow> SYSCALL_NR \<Rightarrow> u32 \<Rightarrow> 'a kern_scheme \<Rightarrow> 'a kern_scheme sysret outcome" where
  "syscall1 e k a s = syscall_handler e (of_nat (nr k)) a (ce_ecx e) (ce_edx e) s"

definition syscall2 :: "'a kern_scheme call_env \<Rightarrow> SYSCALL_NR \<Rightarrow> u32 \<Rightarrow> u32 \<Rightarrow> 'a kern_scheme \<Rightarrow> 'a kern_scheme sysret outcome" where
  "syscall2 e k a b s = syscall_handler e (of_nat (nr k)) a b (ce_edx e) s"

definition syscall3 :: "'a kern_scheme call_env \<Rightarrow> SYSCALL_NR \<Rightarrow> u32 \<Rightarrow> u32 \<Rightarrow> u32 \<Rightarrow> 'a kern_scheme \<Rightarrow> 'a kern_scheme sysret outcome" where
  "syscall3 e k a b c s = syscall_handler e (of_nat (nr k)) a b c s"

text \<open>The result of a function of type \<open>pid_t\<close> is cut to 16 bits.\<close>

definition as_pid :: "'s sysret \<Rightarrow> 's sysret" where
  "as_pid r = (case r of Returns v s \<Rightarrow> Returns (scast (ucast v :: u16)) s | _ \<Rightarrow> r)"

text \<open>The functions of the library; names that HOL uses for other things have a suffix.\<close>

definition getpid :: "'a kern_scheme call_env \<Rightarrow> 'a kern_scheme \<Rightarrow> 'a kern_scheme sysret outcome" where
  "getpid e s = syscall0 e SYS_GETPID s"

definition write_u :: "'a kern_scheme call_env \<Rightarrow> u32 \<Rightarrow> u32 \<Rightarrow> u32 \<Rightarrow> 'a kern_scheme \<Rightarrow> 'a kern_scheme sysret outcome" where
  "write_u e fd bufp count s = syscall3 e SYS_WRITE fd bufp count s"

definition malloc :: "'a kern_scheme call_env \<Rightarrow> u32 \<Rightarrow> 'a kern_scheme \<Rightarrow> 'a kern_scheme sysret outcome" where
  "malloc e sz s = syscall1 e SYS_MALLOC sz s"

definition free_u :: "'a kern_scheme call_env \<Rightarrow> u32 \<Rightarrow> 'a kern_scheme \<Rightarrow> 'a kern_scheme sysret outcome" where
  "free_u e ptr s = syscall1 e SYS_FREE ptr s"

definition fork :: "'a kern_scheme call_env \<Rightarrow> 'a kern_scheme \<Rightarrow> 'a kern_scheme sysret outcome" where
  "fork e s = andThen (syscall0 e SYS_FORK s) (\<lambda>r. Inr (as_pid r))"

definition read_u :: "'a kern_scheme call_env \<Rightarrow> u32 \<Rightarrow> u32 \<Rightarrow> u32 \<Rightarrow> 'a kern_scheme \<Rightarrow> 'a kern_scheme sysret outcome" where
  "read_u e fd bufp count s = syscall3 e SYS_READ fd bufp count s"

definition putchar :: "'a kern_scheme call_env \<Rightarrow> u8 \<Rightarrow> 'a kern_scheme \<Rightarrow> 'a kern_scheme sysret outcome" where
  "putchar e char_asci s = syscall1 e SYS_PUTCHAR (scast char_asci) s"

definition clear :: "'a kern_scheme call_env \<Rightarrow> 'a kern_scheme \<Rightarrow> 'a kern_scheme sysret outcome" where
  "clear e s = syscall0 e SYS_CLEAR s"

definition getcwd :: "'a kern_scheme call_env \<Rightarrow> u32 \<Rightarrow> u32 \<Rightarrow> 'a kern_scheme \<Rightarrow> 'a kern_scheme sysret outcome" where
  "getcwd e bufp sz s = syscall2 e SYS_GETCWD bufp sz s"

definition open_u :: "'a kern_scheme call_env \<Rightarrow> u32 \<Rightarrow> u8 \<Rightarrow> 'a kern_scheme \<Rightarrow> 'a kern_scheme sysret outcome" where
  "open_u e pathname flag s = syscall2 e SYS_OPEN pathname (ucast flag) s"

definition close_u :: "'a kern_scheme call_env \<Rightarrow> u32 \<Rightarrow> 'a kern_scheme \<Rightarrow> 'a kern_scheme sysret outcome" where
  "close_u e fd s = syscall1 e SYS_CLOSE fd s"

definition lseek :: "'a kern_scheme call_env \<Rightarrow> u32 \<Rightarrow> u32 \<Rightarrow> u8 \<Rightarrow> 'a kern_scheme \<Rightarrow> 'a kern_scheme sysret outcome" where
  "lseek e fd offset whence s = syscall3 e SYS_LSEEK fd offset (ucast whence) s"

definition unlink :: "'a kern_scheme call_env \<Rightarrow> u32 \<Rightarrow> 'a kern_scheme \<Rightarrow> 'a kern_scheme sysret outcome" where
  "unlink e pathname s = syscall1 e SYS_UNLINK pathname s"

definition mkdir :: "'a kern_scheme call_env \<Rightarrow> u32 \<Rightarrow> 'a kern_scheme \<Rightarrow> 'a kern_scheme sysret outcome" where
  "mkdir e pathname s = syscall1 e SYS_MKDIR pathname s"

definition opendir :: "'a kern_scheme call_env \<Rightarrow> u32 \<Rightarrow> 'a kern_scheme \<Rightarrow> 'a kern_scheme sysret outcome" where
  "opendir e name s = syscall1 e SYS_OPENDIR name s"

definition closedir :: "'a kern_scheme call_env \<Rightarrow> u32 \<Rightarrow> 'a kern_scheme \<Rightarrow> 'a kern_scheme sysret outcome" where
  "closedir e d s = syscall1 e SYS_CLOSEDIR d s"

definition rmdir :: "'a kern_scheme call_env \<Rightarrow> u32 \<Rightarrow> 'a kern_scheme \<Rightarrow> 'a kern_scheme sysret outcome" where
  "rmdir e pathname s = syscall1 e SYS_RMDIR pathname s"

definition readdir :: "'a kern_scheme call_env \<Rightarrow> u32 \<Rightarrow> 'a kern_scheme \<Rightarrow> 'a kern_scheme sysret outcome" where
  "readdir e d s = syscall1 e SYS_READDIR d s"

definition rewinddir :: "'a kern_scheme call_env \<Rightarrow> u32 \<Rightarrow> 'a kern_scheme \<Rightarrow> 'a kern_scheme sysret outcome" where
  "rewinddir e d s = syscall1 e SYS_REWINDDIR d s"

definition stat_u :: "'a kern_scheme call_env \<Rightarrow> u32 \<Rightarrow> u32 \<Rightarrow> 'a kern_scheme \<Rightarrow> 'a kern_scheme sysret outcome" where
  "stat_u e path bufp s = syscall2 e SYS_STAT path bufp s"

definition chdir :: "'a kern_scheme call_env \<Rightarrow> u32 \<Rightarrow> 'a kern_scheme \<Rightarrow> 'a kern_scheme sysret outcome" where
  "chdir e path s = syscall1 e SYS_CHDIR path s"

definition ps :: "'a kern_scheme call_env \<Rightarrow> 'a kern_scheme \<Rightarrow> 'a kern_scheme sysret outcome" where
  "ps e s = syscall0 e SYS_PS s"

definition execv :: "'a kern_scheme call_env \<Rightarrow> u32 \<Rightarrow> u32 \<Rightarrow> 'a kern_scheme \<Rightarrow> 'a kern_scheme sysret outcome" where
  "execv e pathname argv s = syscall2 e SYS_EXECV pathname argv s"

definition exit_u :: "'a kern_scheme call_env \<Rightarrow> u32 \<Rightarrow> 'a kern_scheme \<Rightarrow> 'a kern_scheme sysret outcome" where
  "exit_u e code s = syscall1 e SYS_EXIT code s"

definition wait_u :: "'a kern_scheme call_env \<Rightarrow> u32 \<Rightarrow> 'a kern_scheme \<Rightarrow> 'a kern_scheme sysret outcome" where
  "wait_u e stat s = andThen (syscall1 e SYS_WAIT stat s) (\<lambda>r. Inr (as_pid r))"

definition pipe_u :: "'a kern_scheme call_env \<Rightarrow> u32 \<Rightarrow> 'a kern_scheme \<Rightarrow> 'a kern_scheme sysret outcome" where
  "pipe_u e pipefd s = syscall1 e SYS_PIPE pipefd s"

end
