(* ===== verification/Kernel_Proofs.thy ===== *)
theory Kernel_Proofs
  imports Kernel_Init Fs_Proofs
begin

text \<open>
  System calls reach the kernel functions they are named after; what the list of tasks prints; and the pages that loading a program
  allocates.
\<close>

section \<open>Dispatch\<close>

text \<open>The kernel function with the name of a call.\<close>

fun named_fun :: "SYSCALL_NR \<Rightarrow> kernel_fun" where
  "named_fun SYS_GETPID = F_getpid"
| "named_fun SYS_WRITE = F_write"
| "named_fun SYS_MALLOC = F_malloc"
| "named_fun SYS_FREE = F_free"
| "named_fun SYS_FORK = F_fork"
| "named_fun SYS_READ = F_read"
| "named_fun SYS_PUTCHAR = F_putchar"
| "named_fun SYS_CLEAR = F_cls_screen"
| "named_fun SYS_GETCWD = F_getcwd"
| "named_fun SYS_OPEN = F_open"
| "named_fun SYS_CLOSE = F_close"
| "named_fun SYS_LSEEK = F_lseek"
| "named_fun SYS_UNLINK = F_unlink"
| "named_fun SYS_MKDIR = F_mkdir"
| "named_fun SYS_OPENDIR = F_opendir"
| "named_fun SYS_CLOSEDIR = F_closedir"
| "named_fun SYS_CHDIR = F_chdir"
| "named_fun SYS_RMDIR = F_rmdir"
| "named_fun SYS_READDIR = F_readdir"
| "named_fun SYS_REWINDDIR = F_rewinddir"
| "named_fun SYS_STAT = F_stat"
| "named_fun SYS_PS = F_ps"
| "named_fun SYS_EXECV = F_execv"
| "named_fun SYS_EXIT = F_exit"
| "named_fun SYS_WAIT = F_wait"
| "named_fun SYS_PIPE = F_pipe"

lemma nr_less: "nr k < 26"
  by (cases k) simp_all

lemma fill_table_at: "length t = 32 \<Longrightarrow> fill_table t ! nr k = Some (named_fun k)"
  by (cases k) (simp_all add: fill_table_def)

lemma fill_table_rest: "26 \<le> n \<Longrightarrow> fill_table t ! n = t ! n"
  by (simp add: fill_table_def)

lemma length_fill_table [simp]: "length (fill_table t) = length t"
  by (simp add: fill_table_def)


definition demo_kern :: kern where
  "demo_kern = fs.extend demo_fs (kern.fields (replicate syscall_nr None) [] 0 [] Map.empty 0 [] 0)"


section \<open>The pages of a segment\<close>

lemma unat_page_offset: "unat (v AND 0xfff :: u32) = unat v mod 4096"
proof -
  have "(0xfff :: u32) = mask 12" by (simp add: mask_eq_exp_minus_1)
  then have "v AND 0xfff = take_bit 12 v" by (simp add: take_bit_eq_mask)
  then show ?thesis by (simp add: take_bit_eq_mod unat_mod)
qed

lemma unat_page_start: "unat (v AND 0xfffff000 :: u32) = unat v - unat v mod 4096"
proof -
  have "frame v = push_bit 12 (drop_bit 12 v)"
    by (rule bit_word_eqI) (auto simp: frame_bit bit_push_bit_iff bit_drop_bit_eq)
  then have "v AND 0xfffff000 = push_bit 12 (drop_bit 12 v)" by (simp add: frame_def)
  moreover have "push_bit 12 (drop_bit 12 v) + take_bit 12 v = v" by (rule bits_ident)
  ultimately have "v AND 0xfffff000 = v - take_bit 12 v" by (simp add: algebra_simps)
  moreover have "unat (take_bit 12 v) = unat v mod 4096" by (simp add: take_bit_eq_mod unat_mod)
  ultimately show ?thesis by (simp add: unat_sub word_le_nat_alt)
qed

text \<open>
  C38. The pages that \<open>segment_load\<close> makes sure of, from the page of \<open>p_vaddr\<close> on, are exactly those that the bytes from \<open>p_vaddr\<close> to
  \<open>p_vaddr + p_filesz\<close> of the file touch, for every segment that ends below 4 GB; a segment without bytes gets the page of its address.
\<close>

theorem occupied_pages_exact:
  assumes "unat vaddr + unat filesz + 4096 < 2 ^ 32"
  shows "unat (vaddr AND 0xfffff000) \<le> unat vaddr
    \<and> unat vaddr + unat filesz \<le> unat (vaddr AND 0xfffff000) + 4096 * unat (occupied_pages filesz vaddr)
    \<and> (filesz \<noteq> 0 \<longrightarrow> unat (vaddr AND 0xfffff000) + 4096 * (unat (occupied_pages filesz vaddr) - 1) < unat vaddr + unat filesz)
    \<and> (filesz = 0 \<longrightarrow> occupied_pages filesz vaddr = 1)"
proof -
  define q r where d: "q = unat vaddr div 4096" "r = unat vaddr mod 4096"
  have v: "unat vaddr = 4096 * q + r" "r < 4096" by (simp_all add: d)
  have start: "unat (vaddr AND 0xfffff000) = 4096 * q" by (simp add: unat_page_start d minus_mod_eq_mult_div)
  have first: "unat (4096 - (vaddr AND 0xfff)) = 4096 - r"
    using v(2) by (simp add: unat_sub word_le_nat_alt unat_page_offset d)
  show ?thesis
  proof (cases "r + unat filesz \<le> 4096")
    case True
    then have "\<not> filesz > 4096 - (vaddr AND 0xfff)" using first v(2) unfolding word_less_nat_alt by linarith
    then have "occupied_pages filesz vaddr = 1" by (simp only: occupied_pages_def Let_def if_False)
    then show ?thesis using True start v by (auto simp: unat_eq_0 [symmetric] simp del: unat_eq_0)
  next
    case False
    define left where "left = filesz - (4096 - (vaddr AND 0xfff))"
    have left: "unat left = unat filesz - (4096 - r)" using False first by (simp add: left_def unat_sub word_le_nat_alt)
    have "unat left + 4095 < 2 ^ 32" using left assms v by simp
    then have "unat (left + 4095) = unat left + 4095" using unat_sum [of left 4095] by simp
    moreover have "left + 4096 - 1 = left + 4095" by simp
    ultimately have n: "unat ((left + 4096 - 1) div 4096) = (unat left + 4095) div 4096" by (simp only: unat_div) simp
    have "filesz > 4096 - (vaddr AND 0xfff)" using False first v(2) unfolding word_less_nat_alt by linarith
    then have "occupied_pages filesz vaddr = (left + 4096 - 1) div 4096 + 1"
      by (simp only: occupied_pages_def Let_def left_def if_True)
    moreover have "unat ((left + 4096 - 1) div 4096 + 1) = (unat left + 4095) div 4096 + 1"
      using n left assms unat_sum [of "(left + 4096 - 1) div 4096" 1] by simp
    ultimately have "unat (occupied_pages filesz vaddr) = (unat left + 4095) div 4096 + 1" by simp
    then obtain k where "unat (occupied_pages filesz vaddr) = k + 1" "unat left \<le> 4096 * k" "4096 * k < unat left + 4096"
      using round_up_bounds [of "unat left"] by blast
    then show ?thesis using False left start v by auto
  qed
qed

theorem occupied_pages_exact_witness:
  "unat (0x8048f00 AND 0xfffff000 :: u32) = 0x8048000 \<and> unat (occupied_pages 0x200 0x8048f00) = 2"
proof -
  have "0x8048f00 + 0x200 \<le> 0x8048000 + 4096 * unat (occupied_pages 0x200 0x8048f00)
    \<and> 0x8048000 + 4096 * (unat (occupied_pages 0x200 0x8048f00) - 1) < 0x8048f00 + 0x200"
    using occupied_pages_exact [of "0x8048f00" "0x200"] by simp
  then have "unat (occupied_pages 0x200 0x8048f00) = 2" by linarith
  then show ?thesis by simp
qed

section \<open>The list of tasks\<close>

lemma digit_char_nonzero: "d < 16 \<Longrightarrow> digit_char d \<noteq> 0"
proof -
  assume "d < 16"
  then have "digit_char d = of_nat (if d < 10 then d + 48 else d + 55)" by (auto simp: digit_char_def)
  moreover have "unat (of_nat (if d < 10 then d + 48 else d + 55) :: u8) = (if d < 10 then d + 48 else d + 55)"
    using \<open>d < 16\<close> by (simp add: unat_of_nat)
  ultimately show ?thesis by (metis add_is_0 unsigned_0 zero_neq_numeral)
qed

lemma num_str_nonzero: "2 \<le> base \<Longrightarrow> base \<le> 16 \<Longrightarrow> 0 \<notin> set (num_str base v)"
  using digits_below digit_char_nonzero by (fastforce simp: num_str_def)

lemma dec_str_nonzero: "0 \<notin> set (dec_str w)"
  using num_str_nonzero [of 10] by (simp add: dec_str_def)

lemma sprintf_text_ok:
  assumes b: "holds m bufp b" "bufp \<noteq> 0" and out: "0 \<notin> set out" "length out \<le> length b" "0 \<in> set (drop (length out) b)"
  shows "sprintf_text bufp out m = Inr (length out + length (takeWhile (\<lambda>c. c \<noteq> 0) (drop (length out) b)), put_bytes m bufp out)"
    and "holds (put_bytes m bufp out) bufp (out @ drop (length out) b)"
proof -
  let ?w = "takeWhile (\<lambda>c. c \<noteq> 0) (drop (length out) b)"
  show h: "holds (put_bytes m bufp out) bufp (out @ drop (length out) b)"
    using b(1) out(2) by (auto simp: holds_def put_bytes_def nth_append)
  have "dropWhile (\<lambda>c. c \<noteq> 0) (drop (length out) b) \<noteq> []" using out(3) by (auto simp: dropWhile_eq_Nil_conv)
  then obtain r where "dropWhile (\<lambda>c. c \<noteq> 0) (drop (length out) b) = 0 # r" using hd_dropWhile list.exhaust_sel by (metis (mono_tags))
  then have "drop (length out) b = ?w @ 0 # r" using takeWhile_dropWhile_id [of "\<lambda>c. c \<noteq> 0" "drop (length out) b"] by simp
  then have "holds (put_bytes m bufp out) bufp ((out @ ?w @ [0]) @ r)" using h by simp
  then have "holds (put_bytes m bufp out) bufp ((out @ ?w) @ [0])" unfolding holds_append by (simp add: add.assoc)
  moreover have "0 \<notin> set ?w" using set_takeWhileD by fastforce
  ultimately have "cstr (put_bytes m bufp out) bufp (out @ ?w)" using out(1) by (simp add: cstr_def)
  then have "strlen (put_bytes m bufp out) bufp = Inr (length (out @ ?w))" using b(2) strlen_spec by blast
  moreover have "store_bytes m bufp out = Inr (put_bytes m bufp out)"
    using store_bytes_put mapped_le [OF holds_mapped [OF b(1)] out(2)] by blast
  ultimately show "sprintf_text bufp out m = Inr (length out + length ?w, put_bytes m bufp out)" by (simp add: sprintf_text_def)
qed

text \<open>
  C39. A process number is not printed as \<open>sys_ps\<close> means to: the case \<open>'d'\<close> of \<open>pad_print\<close> goes on into the case \<open>'x'\<close>, so that the
  hexadecimal digits of the word are written over the first digits of the decimal number, and the rest of the decimal digits stays.
\<close>

theorem pad_text_overwrites:
  assumes "holds m bufp (replicate 16 0)" "bufp \<noteq> 0" "length (hex x) \<le> length (dec_str (scast d))" "length (dec_str (scast d)) < 16"
  shows "\<exists>m'. pad_text bufp (PadD d x) m = Inr (length (dec_str (scast d)), m')
    \<and> cstr m' bufp (hex x @ drop (length (hex x)) (dec_str (scast d)))"
proof -
  let ?d = "dec_str (scast d)" and ?h = "hex x"
  let ?z = "replicate (16 - length ?d) (0 :: u8)"
  have nz: "0 \<notin> set ?d" "0 \<notin> set ?h" using dec_str_nonzero num_str_nonzero [of 16] by (auto simp: hex_def)
  have drop: "drop (length ?d) (replicate 16 (0 :: u8)) = ?z" by simp
  note 1 = sprintf_text_ok [OF assms(1,2) nz(1), unfolded drop]
  have b1: "holds (put_bytes m bufp ?d) bufp (?d @ ?z)" using 1(2) assms(4) by simp
  have dh: "drop (length ?h) (?d @ ?z) = drop (length ?h) ?d @ ?z" using assms(3) by simp
  have tw: "takeWhile (\<lambda>c. c \<noteq> 0) (drop (length ?h) ?d @ ?z) = drop (length ?h) ?d"
    using nz(1) assms(4) in_set_dropD [of _ "length ?h" ?d] by (subst takeWhile_append2) (auto simp: takeWhile_eq_Nil_iff)
  note 2 = sprintf_text_ok [OF b1 assms(2) nz(2), unfolded dh tw]
  have "holds (put_bytes (put_bytes m bufp ?d) bufp ?h) bufp ((?h @ drop (length ?h) ?d) @ 0 # replicate (15 - length ?d) 0)"
  proof -
    have "16 - length ?d = Suc (15 - length ?d)" using assms(4) by simp
    then have "?z = 0 # replicate (15 - length ?d) 0" by (simp only: replicate_Suc)
    then show ?thesis using 2(2) assms(3,4) by simp
  qed
  then have "cstr (put_bytes (put_bytes m bufp ?d) bufp ?h) bufp (?h @ drop (length ?h) ?d)"
    unfolding cstr_def using nz in_set_dropD [of _ "length ?h" ?d] by (auto simp: holds_append holds_Cons)
  moreover have "pad_text bufp (PadD d x) m = Inr (length ?d, put_bytes (put_bytes m bufp ?d) bufp ?h)"
    using 1(1) 2(1) assms(3,4) by (simp add: pad_text_def)
  ultimately show ?thesis by blast
qed

theorem pad_text_overwrites_witness:
  "\<exists>m'. pad_text 0x1000 (PadD 10 10) (\<lambda>_. Some 0) = Inr (2, m') \<and> cstr m' 0x1000 (bytes ''A0'')"
proof -
  have d: "dec_str 10 = bytes ''10''"
    by (simp add: dec_str_def num_str_def digits.simps [of 10 10] digits.simps [of 10 "Suc 0"] digit_char_def bytes_def)
  have h: "hex 10 = bytes ''A''" by (simp add: hex_def num_str_def digits.simps [of 16 10] digit_char_def bytes_def)
  show ?thesis using pad_text_overwrites [of "\<lambda>_. Some 0" "0x1000" 10 10] by (simp add: d h holds_def bytes_def numeral_2_eq_2)
qed

section \<open>Privilege levels of the descriptors\<close>

text \<open>The fields of a gate and of a segment descriptor, as the processor reads them.\<close>

definition gate_dpl :: "gate_desc \<Rightarrow> u8" where
  "gate_dpl g = drop_bit 5 (attribute g) AND 3"

definition interrupt_gate :: "gate_desc \<Rightarrow> bool" where
  "interrupt_gate g \<longleftrightarrow> bit (attribute g) 7 \<and> attribute g AND 0x1f = 0xe"

definition seg_dpl :: "gdt_desc \<Rightarrow> u8" where
  "seg_dpl d = drop_bit 5 (attr_low_byte d) AND 3"

definition seg_limit :: "gdt_desc \<Rightarrow> u32" where
  "seg_limit d = push_bit 16 (ucast (limit_high_attr_high d AND 0xf)) OR ucast (limit_low_word d)"

definition gate_to :: "u8 \<Rightarrow> u32 \<Rightarrow> gate_desc \<Rightarrow> bool" where
  "gate_to dpl f g \<longleftrightarrow> interrupt_gate g \<and> selector g = SELECTOR_K_CODE \<and> gate_dpl g = dpl \<and> gate_target g = f"

definition segment_of :: "u8 \<Rightarrow> u32 \<Rightarrow> u32 \<Rightarrow> gdt_desc option \<Rightarrow> bool" where
  "segment_of dpl b n d \<longleftrightarrow> (\<exists>x. d = Some x \<and> seg_dpl x = dpl \<and> desc_base x = b \<and> seg_limit x = n)"

lemma idt_gate:
  "gate_to 0 f (make_idt_desc IDT_DESC_ATTR_DPL0 f)" "gate_to 3 f (make_idt_desc IDT_DESC_ATTR_DPL3 f)"
proof -
  have "interrupt_gate (make_idt_desc IDT_DESC_ATTR_DPL0 f)" "interrupt_gate (make_idt_desc IDT_DESC_ATTR_DPL3 f)"
    by (simp_all add: interrupt_gate_def make_idt_desc_def IDT_DESC_ATTR_DPL0_def IDT_DESC_ATTR_DPL3_def push_bit_eq_mult bit_iff_odd)
  moreover have "gate_dpl (make_idt_desc IDT_DESC_ATTR_DPL0 f) = 0" "gate_dpl (make_idt_desc IDT_DESC_ATTR_DPL3 f) = 3"
    by (simp_all add: gate_dpl_def make_idt_desc_def IDT_DESC_ATTR_DPL0_def IDT_DESC_ATTR_DPL3_def push_bit_eq_mult drop_bit_eq_div)
  ultimately show "gate_to 0 f (make_idt_desc IDT_DESC_ATTR_DPL0 f)" "gate_to 3 f (make_idt_desc IDT_DESC_ATTR_DPL3 f)"
    using make_idt_desc_target [of _ f] by (simp_all add: gate_to_def) (simp_all add: make_idt_desc_def)
qed

lemma gdt_segments:
  "segment_of 0 a 107 (Some (make_gdt_desc a (of_nat sizeof_tss - 1) TSS_ATTR_LOW TSS_ATTR_HIGH))"
  "segment_of 3 0 0xfffff (Some (make_gdt_desc 0 0xfffff GDT_CODE_ATTR_LOW_DPL3 GDT_ATTR_HIGH))"
  "segment_of 3 0 0xfffff (Some (make_gdt_desc 0 0xfffff GDT_DATA_ATTR_LOW_DPL3 GDT_ATTR_HIGH))"
  unfolding segment_of_def
  by (simp_all add: make_gdt_desc_base)
    (simp_all add: make_gdt_desc_def seg_dpl_def seg_limit_def sizeof_tss_def TSS_ATTR_LOW_def TSS_ATTR_HIGH_def GDT_CODE_ATTR_LOW_DPL3_def
      GDT_DATA_ATTR_LOW_DPL3_def GDT_ATTR_HIGH_def push_bit_eq_mult drop_bit_eq_div)



end
