(* ===== verification/Shell.thy ===== *)
theory Shell
  imports Kernel_Init
begin

text \<open>
  The shell: the line editor and the command loop of \<^verbatim>\<open>shell/shell.c\<close> and the built-in commands of \<^verbatim>\<open>shell/buildin_cmd.c\<close>, over the
  system calls. \<open>printf\<close> takes the text that its format and arguments stand for. The two sides of a \<open>fork\<close> are two definitions: the
  parent goes on with the pid that the call returns, and the child with 0 when it is scheduled.
\<close>

section \<open>Calls and output\<close>

text \<open>The addresses of the shell's arrays, of local variables and of literals.\<close>

record sh_frames = literals +
  cmd_line :: nat
  final_path :: nat
  cwd_cache :: nat
  argv_at :: nat
  fr_printf :: nat
  fr_abs_path :: nat
  fr_wash_name :: nat
  fr_stat :: nat
  fr_status :: nat
  fr_sub_path :: nat
  lit_ls :: nat
  lit_cd :: nat
  lit_pwd :: nat
  lit_ps :: nat
  lit_clear :: nat
  lit_mkdir :: nat
  lit_rmdir :: nat
  lit_rm :: nat
  lit_opt_l :: nat
  lit_opt_h :: nat

text \<open>A system call that returns to its caller; one that sleeps is not followed further.\<close>

definition call :: "'s sysret outcome \<Rightarrow> (u32 \<Rightarrow> 's \<Rightarrow> 'b outcome) \<Rightarrow> 'b outcome" where
  "call r f = andThen r (\<lambda>x. case x of Returns v s \<Rightarrow> f v s | _ \<Rightarrow> Inl Blocks)"

definition printf :: "'a kern_scheme call_env \<Rightarrow> sh_frames \<Rightarrow> u8 list \<Rightarrow> 'a kern_scheme \<Rightarrow> 'a kern_scheme outcome" where
  "printf e fr txt s =
     andThen (clear_ram (fr_printf fr) 1024 s) (\<lambda>s.
     andThen (sprintf_text (fr_printf fr) txt (ram s)) (\<lambda>(_, m).
     andThen (strlen m (fr_printf fr)) (\<lambda>n.
     call (write_u e 1 (of_nat (fr_printf fr)) (of_nat n) (s\<lparr>ram := m\<rparr>)) (\<lambda>_ s. Inr s))))"

definition printf_str :: "'a kern_scheme call_env \<Rightarrow> sh_frames \<Rightarrow> string \<Rightarrow> nat \<Rightarrow> u8 list \<Rightarrow> 'a kern_scheme \<Rightarrow> 'a kern_scheme outcome" where
  "printf_str e fr pre a post s = andThen (load_str (ram s) a) (\<lambda>x. printf e fr (bytes pre @ x @ post) s)"

definition print_prompt :: "'a kern_scheme call_env \<Rightarrow> sh_frames \<Rightarrow> 'a kern_scheme \<Rightarrow> 'a kern_scheme outcome" where
  "print_prompt e fr s = printf_str e fr ''[rabbit@localhost '' (cwd_cache fr) (bytes '']$ '') s"

section \<open>Reading a line\<close>

text \<open>Pointers to characters wrap around at 0.\<close>

definition before :: "nat \<Rightarrow> nat" where
  "before p = (if p = 0 then addr_limit - 1 else p - 1)"

partial_function (option) erase_line ::
  "'a kern_scheme call_env \<Rightarrow> nat \<Rightarrow> nat \<Rightarrow> 'a kern_scheme \<Rightarrow> 'a kern_scheme outcome option" where
  "erase_line e bufp pos s =
     (if bufp = pos then Some (Inr s)
      else
        (case call (putchar e 8 s) (\<lambda>_ s. on_ram (\<lambda>m. store m pos 0) s) of
           Inl t \<Rightarrow> Some (Inl t)
         | Inr s \<Rightarrow> erase_line e bufp (before pos) s))"

text \<open>
  What the loop does with the character at \<open>pos\<close>: \<open>None\<close> when the line is complete, and otherwise the new position. \<open>'l' - 'a'\<close> is 11
  and \<open>'u' - 'a'\<close> is 20.
\<close>

definition line_key :: "'a kern_scheme call_env \<Rightarrow> sh_frames \<Rightarrow> nat \<Rightarrow> nat \<Rightarrow> 'a kern_scheme \<Rightarrow> (nat option \<times> 'a kern_scheme) outcome" where
  "line_key e fr bufp pos s =
     andThen (load (ram s) pos) (\<lambda>c.
     if c = 10 \<or> c = 13 then
       andThen (on_ram (\<lambda>m. store m pos 0) s) (\<lambda>s. call (putchar e 10 s) (\<lambda>_ s. Inr (None, s)))
     else if c = 8 then
       andThen (load (ram s) (cmd_line fr)) (\<lambda>c0.
       if c0 \<noteq> 8 then call (putchar e 8 s) (\<lambda>_ s. Inr (Some (before pos), s)) else Inr (Some pos, s))
     else if c = 11 then
       andThen (on_ram (\<lambda>m. store m pos 0) s) (\<lambda>s.
       call (clear e s) (\<lambda>_ s.
       andThen (print_prompt e fr s) (\<lambda>s.
       andThen (printf_str e fr '''' bufp [] s) (\<lambda>s. Inr (Some pos, s)))))
     else if c = 20 then andThen (run_walk (erase_line e bufp pos s)) (\<lambda>s. Inr (Some bufp, s))
     else call (putchar e c s) (\<lambda>_ s. Inr (Some (Suc pos), s)))"

partial_function (option) readline_loop ::
  "'a kern_scheme call_env \<Rightarrow> sh_frames \<Rightarrow> nat \<Rightarrow> nat \<Rightarrow> int \<Rightarrow> 'a kern_scheme \<Rightarrow> (bool \<times> 'a kern_scheme) outcome option" where
  "readline_loop e fr bufp pos count s =
     (case call (read_u e 0 (of_nat pos) 1 s) (\<lambda>v s. Inr (v, s)) of
        Inl t \<Rightarrow> Some (Inl t)
      | Inr r \<Rightarrow>
          if fst r \<noteq> - 1 \<and> int pos - int bufp < count then
            (case line_key e fr bufp pos (snd r) of
               Inl t \<Rightarrow> Some (Inl t)
             | Inr k \<Rightarrow> (case fst k of
                  None \<Rightarrow> Some (Inr (True, snd k))
                | Some pos \<Rightarrow> readline_loop e fr bufp pos count (snd k)))
          else Some (Inr (False, snd r)))"

definition readline :: "'a kern_scheme call_env \<Rightarrow> sh_frames \<Rightarrow> nat \<Rightarrow> int \<Rightarrow> 'a kern_scheme \<Rightarrow> 'a kern_scheme outcome" where
  "readline e fr bufp count s = ASSERT (bufp \<noteq> 0 \<and> count > 0)
     (andThen (run_walk (readline_loop e fr bufp bufp count s)) (\<lambda>(ok, s).
      if ok then Inr s
      else printf e fr (bytes ''readline: can`t find enter_key in the cmd_line, max num of char is 128'' @ [10]) s))"

section \<open>Built-in commands\<close>

text \<open>\<open>make_clear_abs_path\<close> with the system call \<open>getcwd\<close>.\<close>

definition on_strcat :: "nat \<Rightarrow> nat \<Rightarrow> 'a io_scheme \<Rightarrow> 'a io_scheme outcome" where
  "on_strcat dst src = on_ram (\<lambda>m. andThen (strcat m dst src) (\<lambda>(_, m). Inr m))"

definition prepend_cwd :: "'a kern_scheme call_env \<Rightarrow> sh_frames \<Rightarrow> nat \<Rightarrow> 'a kern_scheme \<Rightarrow> 'a kern_scheme outcome" where
  "prepend_cwd e fr abs_path s =
     andThen (clear_ram abs_path MAX_PATH_LEN s) (\<lambda>s.
     call (getcwd e (of_nat abs_path) (of_nat MAX_PATH_LEN) s) (\<lambda>r s.
     if r \<noteq> 0 then
       andThen (load (ram s) abs_path) (\<lambda>c0. andThen (load (ram s) (abs_path + 1)) (\<lambda>c1.
       if \<not> (c0 = 47 \<and> c1 = 0) then on_strcat abs_path (lit_slash fr) s else Inr s))
     else Inr s))"

definition clear_abs_path :: "'a kern_scheme call_env \<Rightarrow> sh_frames \<Rightarrow> nat \<Rightarrow> 'a kern_scheme \<Rightarrow> 'a kern_scheme outcome" where
  "clear_abs_path e fr path s =
     (let abs_path = fr_abs_path fr in
      andThen (clear_ram abs_path MAX_PATH_LEN s) (\<lambda>s.
      andThen (load (ram s) path) (\<lambda>c.
      andThen (if c \<noteq> 47 then prepend_cwd e fr abs_path s else Inr s) (\<lambda>s.
      andThen (on_strcat abs_path path s)
        (on_ram (\<lambda>m. wash_path (literals.truncate fr) m abs_path (final_path fr) (fr_wash_name fr)))))))"

definition buildin_pwd :: "'a kern_scheme call_env \<Rightarrow> sh_frames \<Rightarrow> nat \<Rightarrow> 'a kern_scheme \<Rightarrow> 'a kern_scheme outcome" where
  "buildin_pwd e fr argc s =
     (if argc \<noteq> 1 then printf e fr (bytes ''pwd: no argument support!'' @ [10]) s
      else call (getcwd e (of_nat (final_path fr)) (of_nat MAX_PATH_LEN) s) (\<lambda>r s.
        if r \<noteq> 0 then printf_str e fr '''' (final_path fr) [10] s
        else printf e fr (bytes ''pwd: get current work directory failed.'' @ [10]) s))"

text \<open>\<open>argv[i]\<close>, and a call with a path made absolute in \<open>final_path\<close>.\<close>

definition arg :: "nat list \<Rightarrow> nat \<Rightarrow> nat outcome" where
  "arg argv i = (if i < length argv then Inr (argv ! i) else Inl BadAccess)"

definition buildin_cd :: "'a kern_scheme call_env \<Rightarrow> sh_frames \<Rightarrow> nat \<Rightarrow> nat list \<Rightarrow> 'a kern_scheme \<Rightarrow> (nat \<times> 'a kern_scheme) outcome" where
  "buildin_cd e fr argc argv s =
     (if argc > 2 then andThen (printf e fr (bytes ''cd: only support 1 argument!'' @ [10]) s) (\<lambda>s. Inr (0, s))
      else
        andThen
          (if argc = 1 then on_ram (\<lambda>m. andThen (store m (final_path fr) 47) (\<lambda>m. store m (final_path fr + 1) 0)) s
           else andThen (arg argv 1) (\<lambda>a. clear_abs_path e fr a s)) (\<lambda>s.
        call (chdir e (of_nat (final_path fr)) s) (\<lambda>r s.
        if r = - 1 then andThen (printf_str e fr ''cd: no such directory '' (final_path fr) [10] s) (\<lambda>s. Inr (0, s))
        else Inr (final_path fr, s))))"

text \<open>The commands with one path: \<open>mkdir\<close>, \<open>rmdir\<close> and \<open>rm\<close>. Each returns 0 or -1.\<close>

definition path_command ::
  "'a kern_scheme call_env \<Rightarrow> sh_frames \<Rightarrow> string \<Rightarrow> string \<Rightarrow> (u32 \<Rightarrow> 'a kern_scheme \<Rightarrow> 'a kern_scheme sysret outcome)
    \<Rightarrow> nat \<Rightarrow> nat list \<Rightarrow> 'a kern_scheme \<Rightarrow> (int \<times> 'a kern_scheme) outcome" where
  "path_command e fr name failed sys argc argv s =
     (if argc \<noteq> 2 then andThen (printf e fr (bytes name @ bytes '': only support 1 argument!'' @ [10]) s) (\<lambda>s. Inr (- 1, s))
      else
        andThen (arg argv 1) (\<lambda>a.
        andThen (clear_abs_path e fr a s) (\<lambda>s.
        andThen (strcmp (ram s) (lit_slash fr) (final_path fr)) (\<lambda>c.
        if c \<noteq> 0 then
          call (sys (of_nat (final_path fr)) s) (\<lambda>r s.
          if r = 0 then Inr (0, s)
          else andThen (printf_str e fr (name @ failed) a (bytes '' failed.'' @ [10]) s) (\<lambda>s. Inr (- 1, s)))
        else Inr (- 1, s)))))"

definition buildin_mkdir :: "'a kern_scheme call_env \<Rightarrow> sh_frames \<Rightarrow> nat \<Rightarrow> nat list \<Rightarrow> 'a kern_scheme \<Rightarrow> (int \<times> 'a kern_scheme) outcome" where
  "buildin_mkdir e fr argc argv s = path_command e fr ''mkdir'' '': create directory '' (mkdir e) argc argv s"

definition buildin_rmdir :: "'a kern_scheme call_env \<Rightarrow> sh_frames \<Rightarrow> nat \<Rightarrow> nat list \<Rightarrow> 'a kern_scheme \<Rightarrow> (int \<times> 'a kern_scheme) outcome" where
  "buildin_rmdir e fr argc argv s = path_command e fr ''rmdir'' '': remove '' (rmdir e) argc argv s"

definition buildin_rm :: "'a kern_scheme call_env \<Rightarrow> sh_frames \<Rightarrow> nat \<Rightarrow> nat list \<Rightarrow> 'a kern_scheme \<Rightarrow> (int \<times> 'a kern_scheme) outcome" where
  "buildin_rm e fr argc argv s = path_command e fr ''rm'' '': delete '' (unlink e) argc argv s"

definition buildin_ps :: "'a kern_scheme call_env \<Rightarrow> sh_frames \<Rightarrow> nat \<Rightarrow> 'a kern_scheme \<Rightarrow> 'a kern_scheme outcome" where
  "buildin_ps e fr argc s =
     (if argc \<noteq> 1 then printf e fr (bytes ''ps: no argument support!'' @ [10]) s else call (ps e s) (\<lambda>_ s. Inr s))"

definition buildin_clear :: "'a kern_scheme call_env \<Rightarrow> sh_frames \<Rightarrow> nat \<Rightarrow> 'a kern_scheme \<Rightarrow> 'a kern_scheme outcome" where
  "buildin_clear e fr argc s =
     (if argc \<noteq> 1 then printf e fr (bytes ''clear: no argument support!'' @ [10]) s else call (clear e s) (\<lambda>_ s. Inr s))"

section \<open>Listing a directory\<close>

text \<open>The options and the path: \<open>None\<close> when the command has printed a message and is over.\<close>

definition ls_usage :: "u8 list" where
  "ls_usage = bytes ''usage: -l list all infomation about the file.'' @ [10] @ bytes ''-h for help'' @ [10]
     @ bytes ''list all files in the current dirctory if no option'' @ [10]"

fun ls_options ::
  "'a kern_scheme call_env \<Rightarrow> sh_frames \<Rightarrow> nat list \<Rightarrow> bool \<Rightarrow> nat \<Rightarrow> 'a kern_scheme \<Rightarrow> ((bool \<times> nat) option \<times> 'a kern_scheme) outcome" where
  "ls_options e fr [] long_info pathname s = Inr (Some (long_info, pathname), s)"
| "ls_options e fr (a # as) long_info pathname s =
     andThen (load (ram s) a) (\<lambda>c.
     if c = 45 then
       andThen (strcmp (ram s) (lit_opt_l fr) a) (\<lambda>l.
       if l = 0 then ls_options e fr as True pathname s
       else
         andThen (strcmp (ram s) (lit_opt_h fr) a) (\<lambda>h.
         if h = 0 then andThen (printf e fr ls_usage s) (\<lambda>s. Inr (None, s))
         else
           andThen (printf_str e fr ''ls: invalid option '' a ([10] @ bytes ''Try `ls -h'' @ [39] @ bytes '' for more information.'' @ [10]) s)
             (\<lambda>s. Inr (None, s))))
     else if pathname = 0 then ls_options e fr as long_info a s
     else andThen (printf e fr (bytes ''ls: only support one path'' @ [10]) s) (\<lambda>s. Inr (None, s)))"

text \<open>The path to list, in \<open>final_path\<close>.\<close>

definition ls_path :: "'a kern_scheme call_env \<Rightarrow> sh_frames \<Rightarrow> nat \<Rightarrow> 'a kern_scheme \<Rightarrow> (bool \<times> 'a kern_scheme) outcome" where
  "ls_path e fr pathname s =
     (if pathname = 0 then
        call (getcwd e (of_nat (final_path fr)) (of_nat MAX_PATH_LEN) s) (\<lambda>r s.
        if r \<noteq> 0 then Inr (True, s)
        else andThen (printf e fr (bytes ''ls: getcwd for default path failed'' @ [10]) s) (\<lambda>s. Inr (False, s)))
      else andThen (clear_abs_path e fr pathname s) (\<lambda>s. Inr (True, s)))"

definition no_such :: "'a kern_scheme call_env \<Rightarrow> sh_frames \<Rightarrow> string \<Rightarrow> nat \<Rightarrow> 'a kern_scheme \<Rightarrow> 'a kern_scheme outcome" where
  "no_such e fr who a s = printf_str e fr (who @ '': cannot access '') a (bytes '': No such file or directory'' @ [10]) s"

text \<open>One line of the long listing, for the entry at \<open>dir_e\<close>; \<open>False\<close> when the entry has no file.\<close>

definition ls_long_entry :: "'a kern_scheme call_env \<Rightarrow> sh_frames \<Rightarrow> nat \<Rightarrow> nat \<Rightarrow> 'a kern_scheme \<Rightarrow> (bool \<times> 'a kern_scheme) outcome" where
  "ls_long_entry e fr pathname_len dir_e s =
     andThen (entry_f_type (ram s) dir_e) (\<lambda>t.
     let ftype = (if t = FT_REGULAR then 45 else 100 :: u8) in
     andThen (on_ram (\<lambda>m. store m (fr_sub_path fr + pathname_len) 0) s) (\<lambda>s.
     andThen (on_strcat (fr_sub_path fr) dir_e s) (\<lambda>s.
     andThen (clear_ram (fr_stat fr) 12 s) (\<lambda>s.
     call (stat_u e (of_nat (fr_sub_path fr)) (of_nat (fr_stat fr)) s) (\<lambda>r s.
     if r = - 1 then andThen (no_such e fr ''ls'' dir_e s) (\<lambda>s. Inr (False, s))
     else
       andThen (entry_i_no (ram s) dir_e) (\<lambda>i_no.
       andThen (load32 (ram s) (fr_stat fr + 4)) (\<lambda>st_size.
       andThen (load_str (ram s) dir_e) (\<lambda>name.
       andThen (printf e fr ([ftype] @ bytes ''  '' @ dec_str i_no @ bytes ''  '' @ dec_str st_size @ bytes ''  '' @ name @ [10]) s)
         (\<lambda>s. Inr (True, s))))))))))"

partial_function (option) ls_entries ::
  "'a kern_scheme call_env \<Rightarrow> sh_frames \<Rightarrow> bool \<Rightarrow> nat \<Rightarrow> u32 \<Rightarrow> 'a kern_scheme \<Rightarrow> (bool \<times> 'a kern_scheme) outcome option" where
  "ls_entries e fr long_info pathname_len pdir s =
     (case call (readdir e pdir s) (\<lambda>v s. Inr (v, s)) of
        Inl t \<Rightarrow> Some (Inl t)
      | Inr r \<Rightarrow>
          if fst r = 0 then Some (Inr (True, snd r))
          else
            (case (if long_info then ls_long_entry e fr pathname_len (unat (fst r)) (snd r)
                   else andThen (printf_str e fr '''' (unat (fst r)) (bytes '' '') (snd r)) (\<lambda>s. Inr (True, s))) of
               Inl t \<Rightarrow> Some (Inl t)
             | Inr k \<Rightarrow> if fst k then ls_entries e fr long_info pathname_len pdir (snd k) else Some (Inr (False, snd k))))"

text \<open>The prefix of the entries' paths, \<open>pathname\<close> with a slash at its end, in \<open>sub_pathname\<close>.\<close>

definition ls_prefix :: "sh_frames \<Rightarrow> 'a kern_scheme \<Rightarrow> (nat \<times> 'a kern_scheme) outcome" where
  "ls_prefix fr s =
     (let sub_pathname = fr_sub_path fr in
      andThen (clear_ram sub_pathname MAX_PATH_LEN s) (\<lambda>s.
      andThen (strlen (ram s) (final_path fr)) (\<lambda>pathname_len.
      andThen (on_ram (\<lambda>m. memcpy m sub_pathname (final_path fr) pathname_len) s) (\<lambda>s.
      andThen (if pathname_len = 0 then Inl BadAccess else load (ram s) (sub_pathname + (pathname_len - 1))) (\<lambda>c.
      if c \<noteq> 47 then
        andThen (on_ram (\<lambda>m. store m (sub_pathname + pathname_len) 47) s) (\<lambda>s. Inr (Suc pathname_len, s))
      else Inr (pathname_len, s))))))"

definition ls_directory :: "'a kern_scheme call_env \<Rightarrow> sh_frames \<Rightarrow> bool \<Rightarrow> 'a kern_scheme \<Rightarrow> 'a kern_scheme outcome" where
  "ls_directory e fr long_info s =
     call (opendir e (of_nat (final_path fr)) s) (\<lambda>pdir s.
     andThen (ls_prefix fr s) (\<lambda>(pathname_len, s).
     call (rewinddir e pdir s) (\<lambda>_ s.
     andThen
       (if long_info then
          andThen (load32 (ram s) (fr_stat fr + 4)) (\<lambda>st_size. printf e fr (bytes ''total: '' @ dec_str st_size @ [10]) s)
        else Inr s) (\<lambda>s.
     andThen (run_walk (ls_entries e fr long_info pathname_len pdir s)) (\<lambda>(ok, s).
     if \<not> ok then Inr s
     else
       andThen (if long_info then Inr s else printf e fr [10] s) (\<lambda>s.
       call (closedir e pdir s) (\<lambda>_ s. Inr s)))))))"

definition buildin_ls :: "'a kern_scheme call_env \<Rightarrow> sh_frames \<Rightarrow> nat \<Rightarrow> nat list \<Rightarrow> 'a kern_scheme \<Rightarrow> 'a kern_scheme outcome" where
  "buildin_ls e fr argc argv s =
     andThen (clear_ram (fr_stat fr) 12 s) (\<lambda>s.
     if argc > length argv then Inl BadAccess
     else
       andThen (ls_options e fr (drop 1 (take argc argv)) False 0 s) (\<lambda>(opts, s).
       case opts of
         None \<Rightarrow> Inr s
       | Some (long_info, pathname) \<Rightarrow>
           andThen (ls_path e fr pathname s) (\<lambda>(ok, s).
           if \<not> ok then Inr s
           else
             call (stat_u e (of_nat (final_path fr)) (of_nat (fr_stat fr)) s) (\<lambda>r s.
             if r = - 1 then no_such e fr ''ls'' (final_path fr) s
             else
               andThen (load32 (ram s) (fr_stat fr + 8)) (\<lambda>t.
               if t = FT_DIRECTORY then ls_directory e fr long_info s
               else if long_info then
                 andThen (load32 (ram s) (fr_stat fr)) (\<lambda>st_ino.
                 andThen (load32 (ram s) (fr_stat fr + 4)) (\<lambda>st_size.
                 andThen (load_str (ram s) (final_path fr)) (\<lambda>path.
                 printf e fr (bytes ''-  '' @ dec_str st_ino @ bytes ''  '' @ dec_str st_size @ bytes ''  '' @ path @ [10]) s)))
               else printf_str e fr '''' (final_path fr) [10] s)))))"

section \<open>The command loop\<close>

text \<open>
  An external command. The parent waits for the child; \<open>panic\<close> ends the run. The child runs the program, and goes on with the loop when
  \<open>execv\<close> returns.
\<close>

definition command_parent :: "'a kern_scheme call_env \<Rightarrow> sh_frames \<Rightarrow> 'a kern_scheme \<Rightarrow> 'a kern_scheme outcome" where
  "command_parent e fr s =
     call (wait_u e (of_nat (fr_status fr)) s) (\<lambda>child_pid s.
     if child_pid = - 1 then Inl Panic
     else
       andThen (load32 (ram s) (fr_status fr)) (\<lambda>status.
       printf e fr (bytes ''child_pid '' @ dec_str child_pid @ bytes '', it'' @ [39] @ bytes ''s status: '' @ dec_str status @ [10]) s))"

fun store_args :: "mem \<Rightarrow> nat \<Rightarrow> nat list \<Rightarrow> mem outcome" where
  "store_args m a [] = Inr m"
| "store_args m a (p # as) = andThen (store32 m a (of_nat p)) (\<lambda>m. store_args m (a + 4) as)"

definition command_child :: "'a kern_scheme call_env \<Rightarrow> sh_frames \<Rightarrow> nat list \<Rightarrow> 'a kern_scheme \<Rightarrow> 'a kern_scheme sysret outcome" where
  "command_child e fr argv s =
     andThen (arg argv 0) (\<lambda>a.
     andThen (clear_abs_path e fr a s) (\<lambda>s.
     andThen (on_ram (\<lambda>m. store_args m (argv_at fr) (argv[0 := final_path fr])) s) (\<lambda>s.
     andThen (clear_ram (fr_stat fr) 12 s) (\<lambda>s.
     call (stat_u e (of_nat (final_path fr)) (of_nat (fr_stat fr)) s) (\<lambda>r s.
     if r = - 1 then andThen (no_such e fr ''my_shell'' (final_path fr) s) (exit_u e (- 1))
     else execv e (of_nat (final_path fr)) (of_nat (argv_at fr)) s)))))"

definition command_external :: "'a kern_scheme call_env \<Rightarrow> sh_frames \<Rightarrow> nat list \<Rightarrow> 'a kern_scheme \<Rightarrow> 'a kern_scheme outcome" where
  "command_external e fr argv s =
     call (fork e s) (\<lambda>p s.
     if p \<noteq> 0 then command_parent e fr s
     else call (command_child e fr argv s) (\<lambda>_ s. Inr s))"

definition run_cd :: "'a kern_scheme call_env \<Rightarrow> sh_frames \<Rightarrow> nat \<Rightarrow> nat list \<Rightarrow> 'a kern_scheme \<Rightarrow> 'a kern_scheme outcome" where
  "run_cd e fr argc argv s =
     andThen (buildin_cd e fr argc argv s) (\<lambda>(r, s).
     if r \<noteq> 0 then
       andThen (clear_ram (cwd_cache fr) MAX_PATH_LEN s)
         (on_ram (\<lambda>m. andThen (strcpy m (cwd_cache fr) (final_path fr)) (\<lambda>(_, m). Inr m)))
     else Inr s)"

text \<open>The commands in the order in which their names are compared with the first word.\<close>

definition builtins ::
  "'a kern_scheme call_env \<Rightarrow> sh_frames \<Rightarrow> nat \<Rightarrow> nat list \<Rightarrow> (nat \<times> ('a kern_scheme \<Rightarrow> 'a kern_scheme outcome)) list" where
  "builtins e fr argc argv =
     [(lit_ls fr, buildin_ls e fr argc argv),
      (lit_cd fr, run_cd e fr argc argv),
      (lit_pwd fr, buildin_pwd e fr argc),
      (lit_ps fr, buildin_ps e fr argc),
      (lit_clear fr, buildin_clear e fr argc),
      (lit_mkdir fr, \<lambda>s. andThen (buildin_mkdir e fr argc argv s) (\<lambda>(_, s). Inr s)),
      (lit_rmdir fr, \<lambda>s. andThen (buildin_rmdir e fr argc argv s) (\<lambda>(_, s). Inr s)),
      (lit_rm fr, \<lambda>s. andThen (buildin_rm e fr argc argv s) (\<lambda>(_, s). Inr s))]"

fun dispatch :: "(nat \<times> ('a io_scheme \<Rightarrow> 'a io_scheme outcome)) list \<Rightarrow> ('a io_scheme \<Rightarrow> 'a io_scheme outcome) \<Rightarrow> nat \<Rightarrow> 'a io_scheme \<Rightarrow> 'a io_scheme outcome" where
  "dispatch [] external word s = external s"
| "dispatch ((lit, run) # cmds) external word s =
     andThen (strcmp (ram s) lit word) (\<lambda>c. if c = 0 then run s else dispatch cmds external word s)"

definition shell_command :: "'a kern_scheme call_env \<Rightarrow> sh_frames \<Rightarrow> nat \<Rightarrow> nat list \<Rightarrow> 'a kern_scheme \<Rightarrow> 'a kern_scheme outcome" where
  "shell_command e fr argc argv s =
     andThen (arg argv 0) (\<lambda>word. dispatch (builtins e fr argc argv) (command_external e fr argv) word s)"

text \<open>One round of the loop. The array \<open>argv\<close> is a list until \<open>execv\<close> needs it in memory; each round starts with an empty one.\<close>

definition shell_round :: "'a kern_scheme call_env \<Rightarrow> sh_frames \<Rightarrow> 'a kern_scheme \<Rightarrow> 'a kern_scheme outcome" where
  "shell_round e fr s =
     andThen (print_prompt e fr s) (\<lambda>s.
     andThen (clear_ram (final_path fr) MAX_PATH_LEN s) (\<lambda>s.
     andThen (clear_ram (cmd_line fr) MAX_PATH_LEN s) (\<lambda>s.
     andThen (readline e fr (cmd_line fr) (int MAX_PATH_LEN) s) (\<lambda>s.
     andThen (load (ram s) (cmd_line fr)) (\<lambda>c.
     if c = 0 then Inr s
     else
       andThen (cmd_parse (ram s) (cmd_line fr) 32) (\<lambda>(argc, argv, m).
       let s = s\<lparr>ram := m\<rparr> in
       if argc = - 1 then printf e fr (bytes ''num of arguments exceed '' @ dec_str (of_nat MAX_ARG_NR) @ [10]) s
       else shell_command e fr (nat argc) argv s))))))"

fun shell_rounds :: "nat \<Rightarrow> 'a kern_scheme call_env \<Rightarrow> sh_frames \<Rightarrow> 'a kern_scheme \<Rightarrow> 'a kern_scheme outcome" where
  "shell_rounds 0 e fr s = Inr s"
| "shell_rounds (Suc n) e fr s = andThen (shell_round e fr s) (shell_rounds n e fr)"

text \<open>The loop never ends: \<open>n\<close> is the number of rounds that are followed.\<close>

definition my_shell :: "nat \<Rightarrow> 'a kern_scheme call_env \<Rightarrow> sh_frames \<Rightarrow> 'a kern_scheme \<Rightarrow> 'a kern_scheme outcome" where
  "my_shell n e fr s = andThen (on_ram (\<lambda>m. store m (cwd_cache fr) 47) s) (shell_rounds n e fr)"

end
