(* ===== verification/Shell_Proofs.thy ===== *)
theory Shell_Proofs
  imports Shell Paths_Proofs Kernel_Proofs
begin

text \<open>
  What the built-in commands ask of the kernel: the path they pass is the argument with its dots resolved, and the root directory is never
  passed.
\<close>

section \<open>Absolute paths\<close>

text \<open>The shell's buffers and literals lie apart from one another.\<close>

definition shell_env :: "sh_frames \<Rightarrow> mem \<Rightarrow> bool" where
  "shell_env fr m \<longleftrightarrow> fr_abs_path fr \<noteq> 0 \<and> mapped m (fr_abs_path fr) MAX_PATH_LEN
     \<and> wash_env (literals.truncate fr) (final_path fr) MAX_PATH_LEN (fr_wash_name fr) m
     \<and> region (fr_abs_path fr) MAX_PATH_LEN \<inter> (region (final_path fr) MAX_PATH_LEN \<union> region (fr_wash_name fr) 16
         \<union> region (lit_slash fr) 2 \<union> region (lit_dot fr) 2 \<union> region (lit_dotdot fr) 3) = {}"

definition shell_writes :: "sh_frames \<Rightarrow> nat set" where
  "shell_writes fr = region (fr_abs_path fr) MAX_PATH_LEN \<union> region (final_path fr) MAX_PATH_LEN \<union> region (fr_wash_name fr) 16"

lemma truncate_lits [simp]:
  "lit_slash (literals.truncate fr) = lit_slash fr" "lit_dot (literals.truncate fr) = lit_dot fr"
  "lit_dotdot (literals.truncate fr) = lit_dotdot fr"
  by (simp_all add: literals.truncate_def)

text \<open>Writing to the buffer of the absolute path keeps what the rest relies on.\<close>

lemma wash_env_apart:
  assumes "shell_env fr m" "writes (region (fr_abs_path fr) MAX_PATH_LEN) m m'"
  shows "wash_env (literals.truncate fr) (final_path fr) MAX_PATH_LEN (fr_wash_name fr) m'"
proof -
  note apart = assms(1) [unfolded shell_env_def]
  have "cstr m' (lit_slash fr) [47] \<longleftrightarrow> cstr m (lit_slash fr) [47]"
    by (rule writes_cstr [OF assms(2)]) (use apart in \<open>auto simp: numeral_2_eq_2\<close>)
  moreover have "cstr m' (lit_dot fr) [46] \<longleftrightarrow> cstr m (lit_dot fr) [46]"
    by (rule writes_cstr [OF assms(2)]) (use apart in \<open>auto simp: numeral_2_eq_2\<close>)
  moreover have "cstr m' (lit_dotdot fr) [46, 46] \<longleftrightarrow> cstr m (lit_dotdot fr) [46, 46]"
    by (rule writes_cstr [OF assms(2)]) (use apart in \<open>auto simp: numeral_3_eq_3\<close>)
  ultimately show ?thesis using apart by (simp add: wash_env_def writes_mapped [OF assms(2)])
qed

lemma cleared_cstr:
  assumes "d \<noteq> 0" "mapped m d n" "0 < n"
  shows "\<exists>m'. memset m d 0 n = Inr m' \<and> writes (region d n) m m' \<and> cstr m' d []"
proof -
  let ?m = "put_bytes m d (replicate n 0)"
  have "writes (region d n) m ?m" using assms(2) by (intro writes_put) simp_all
  moreover have "cstr ?m d []" using assms(2,3) by (simp add: cstr_Nil load_def put_bytes_def mapped_def)
  ultimately show ?thesis using memset_spec [OF assms(1,2), of 0] by blast
qed

text \<open>A path argument: a string apart from the buffers, absolute, with short components.\<close>

definition path_arg :: "sh_frames \<Rightarrow> mem \<Rightarrow> nat \<Rightarrow> u8 list \<Rightarrow> bool" where
  "path_arg fr m a p \<longleftrightarrow> cstr m a p \<and> a \<noteq> 0 \<and> p \<noteq> [] \<and> hd p = 47 \<and> region a (Suc (length p)) \<inter> shell_writes fr = {}
     \<and> (\<forall>c\<in>set (pieces 47 p). length c < 16) \<and> length p + 1 < MAX_PATH_LEN"

lemma clear_abs_path_ok:
  assumes env: "shell_env fr (ram s)" and p: "path_arg fr (ram s) a p"
  shows "\<exists>m. clear_abs_path e fr a s = Inr (s\<lparr>ram := m\<rparr>) \<and> cstr m (final_path fr) (render (resolved (pieces 47 p)))
    \<and> writes (shell_writes fr) (ram s) m \<and> wash_env (literals.truncate fr) (final_path fr) MAX_PATH_LEN (fr_wash_name fr) m"
proof -
  let ?b = "fr_abs_path fr" and ?B = "region (fr_abs_path fr) MAX_PATH_LEN"
  note e = env [unfolded shell_env_def] and p' = p [unfolded path_arg_def]
  obtain m1 where m1: "memset (ram s) ?b 0 MAX_PATH_LEN = Inr m1" "writes ?B (ram s) m1" "cstr m1 ?b []"
    using cleared_cstr [of ?b "ram s" MAX_PATH_LEN] e by auto
  have ab: "region a (Suc (length p)) \<inter> ?B = {}" using p' by (auto simp: shell_writes_def)
  have a1: "cstr m1 a p" using writes_cstr [OF m1(2) ab] p' by simp
  then have c: "load m1 a = Inr 47" using cstr_loadD [OF a1] p' by (cases p) simp_all
  obtain m2 where m2: "strcat m1 ?b a = Inr (?b, m2)" "writes ?B m1 m2" "cstr m2 ?b p"
    using strcat_writes [OF _ _ m1(3) a1, of MAX_PATH_LEN] e p' ab writes_mapped [OF m1(2)] by auto
  have w2: "writes ?B (ram s) m2" by (rule writes_trans [OF m1(2) m2(2)])
  have env2: "wash_env (literals.truncate fr) (final_path fr) MAX_PATH_LEN (fr_wash_name fr) m2" by (rule wash_env_apart [OF env w2])
  have "region ?b (Suc (length p)) \<subseteq> ?B" using p' by (auto simp: region_def)
  then have "region ?b (Suc (length p)) \<inter> (region (final_path fr) MAX_PATH_LEN \<union> region (fr_wash_name fr) 16) = {}" using e by blast
  from wash_path_ok [OF env2 m2(3) _ _ _ this] p' e obtain m3 where
    m3: "wash_path (literals.truncate fr) m2 ?b (final_path fr) (fr_wash_name fr) = Inr m3"
      "cstr m3 (final_path fr) (render (resolved (pieces 47 p)))"
      "writes (region (final_path fr) MAX_PATH_LEN \<union> region (fr_wash_name fr) 16) m2 m3" by auto
  have "writes (shell_writes fr) (ram s) m3"
    by (rule writes_trans [OF writes_mono [OF w2] writes_mono [OF m3(3)]]) (auto simp: shell_writes_def)
  moreover have "clear_abs_path e fr a s = Inr (s\<lparr>ram := m3\<rparr>)"
    using m1(1) c m2(1) m3(1) by (simp add: clear_abs_path_def clear_ram_def on_ram_def on_strcat_def Let_def)
  ultimately show ?thesis using m3(2) wash_env_writes [OF env2 m3(3)] by blast
qed

lemma resolve_clean: "clean cs \<Longrightarrow> clean ws \<Longrightarrow> clean (fold (\<lambda>c cs. resolve cs c) ws cs)"
proof (induction ws arbitrary: cs)
  case (Cons w ws)
  have "clean (resolve cs w)" "clean ws"
    using Cons.prems by (auto simp: clean_def resolve_def dest: in_set_butlastD)
  then show ?case using Cons.IH by simp
qed simp

lemma pieces_clean: "0 \<notin> set p \<Longrightarrow> clean (pieces 47 p)"
  using piece_ok [of _ 47 p] by (auto simp: clean_def)

lemma resolved_root: "0 \<notin> set p \<Longrightarrow> render (resolved (pieces 47 p)) = [47] \<longleftrightarrow> resolved (pieces 47 p) = []"
  using resolve_clean [OF _ pieces_clean, of "[]"] by (intro render_root) (simp add: resolved_def clean_def)

section \<open>Commands with one path\<close>

lemma path_command_ok:
  assumes env: "shell_env fr (ram s)" and p: "path_arg fr (ram s) (argv ! 1) p" and l: "1 < length argv"
  shows "\<exists>m. cstr m (final_path fr) (render (resolved (pieces 47 p))) \<and> writes (shell_writes fr) (ram s) m
    \<and> path_command e fr name failed sys 2 argv s =
       (if resolved (pieces 47 p) = [] then Inr (- 1, s\<lparr>ram := m\<rparr>)
        else call (sys (of_nat (final_path fr)) (s\<lparr>ram := m\<rparr>)) (\<lambda>r s. if r = 0 then Inr (0, s)
          else andThen (printf_str e fr (name @ failed) (argv ! 1) (bytes '' failed.'' @ [10]) s) (\<lambda>s. Inr (- 1, s))))"
proof -
  obtain m where m: "clear_abs_path e fr (argv ! 1) s = Inr (s\<lparr>ram := m\<rparr>)" "cstr m (final_path fr) (render (resolved (pieces 47 p)))"
    "writes (shell_writes fr) (ram s) m" "wash_env (literals.truncate fr) (final_path fr) MAX_PATH_LEN (fr_wash_name fr) m"
    using clear_abs_path_ok [OF env p] by blast
  have "strcmp m (lit_slash fr) (final_path fr) = Inr (str_order [47] (render (resolved (pieces 47 p))))"
    using m(2,4) by (intro strcmp_spec) (auto simp: wash_env_def)
  moreover have "str_order [47] (render (resolved (pieces 47 p))) = 0 \<longleftrightarrow> resolved (pieces 47 p) = []"
    using resolved_root [of p] p by (auto simp: str_order_0 path_arg_def cstr_def)
  ultimately show ?thesis using m(1-3) l by (intro exI [of _ m]) (simp add: path_command_def arg_def del: One_nat_def)
qed

lemma path_commands:
  assumes "(cmd, what, sys) \<in> {(buildin_rm e fr, ''rm: delete '', unlink e), (buildin_rmdir e fr, ''rmdir: remove '', rmdir e),
    (buildin_mkdir e fr, ''mkdir: create directory '', mkdir e)}"
  shows "\<exists>name failed. cmd = path_command e fr name failed sys \<and> what = name @ failed"
proof -
  have b: "buildin_rm e fr = path_command e fr ''rm'' '': delete '' (unlink e)"
    "buildin_rmdir e fr = path_command e fr ''rmdir'' '': remove '' (rmdir e)"
    "buildin_mkdir e fr = path_command e fr ''mkdir'' '': create directory '' (mkdir e)"
    by (simp_all add: fun_eq_iff buildin_rm_def buildin_rmdir_def buildin_mkdir_def)
  show ?thesis
    using assms unfolding b
  proof (elim insertE emptyE Pair_inject)
    assume "cmd = path_command e fr ''rm'' '': delete '' (unlink e)" "what = ''rm: delete ''" "sys = unlink e"
    then show ?thesis by (intro exI [of _ "''rm''"] exI [of _ "'': delete ''"]) simp
  next
    assume "cmd = path_command e fr ''rmdir'' '': remove '' (rmdir e)" "what = ''rmdir: remove ''" "sys = rmdir e"
    then show ?thesis by (intro exI [of _ "''rmdir''"] exI [of _ "'': remove ''"]) simp
  next
    assume "cmd = path_command e fr ''mkdir'' '': create directory '' (mkdir e)" "what = ''mkdir: create directory ''" "sys = mkdir e"
    then show ?thesis by (intro exI [of _ "''mkdir''"] exI [of _ "'': create directory ''"]) simp
  qed
qed


section \<open>A concrete shell\<close>

text \<open>Buffers of 512 bytes at multiples of 1000, the literals from 100 on and the argument \<open>/a/..\<close> at 200.\<close>

definition demo_shell :: sh_frames where
  "demo_shell = \<lparr>lit_slash = 100, lit_dot = 110, lit_dotdot = 120, cmd_line = 1000, final_path = 2000, cwd_cache = 3000, argv_at = 4000,
     fr_printf = 5000, fr_abs_path = 7000, fr_wash_name = 8000, fr_stat = 8100, fr_status = 8200, fr_sub_path = 9000, lit_ls = 130, lit_cd = 140,
     lit_pwd = 150, lit_ps = 160, lit_clear = 170, lit_mkdir = 180, lit_rmdir = 190, lit_rm = 210, lit_opt_l = 220, lit_opt_h = 230\<rparr>"

definition demo_shell_ram :: mem where
  "demo_shell_ram = put_bytes (put_bytes (put_bytes (put_bytes (\<lambda>_. Some 0) 100 [47]) 110 [46]) 120 [46, 46]) 200 [47, 97, 47, 46, 46]"

lemma demo_shell_env: "shell_env demo_shell demo_shell_ram"
proof -
  have "mapped demo_shell_ram a n" if "a + n \<le> addr_limit" for a n
    using that by (simp add: mapped_def demo_shell_ram_def put_bytes_def)
  moreover have "cstr demo_shell_ram 100 [47]" "cstr demo_shell_ram 110 [46]" "cstr demo_shell_ram 120 [46, 46]"
    by (simp_all add: cstr_Cons cstr_Nil load_def demo_shell_ram_def put_bytes_def)
  ultimately show ?thesis by (auto simp: shell_env_def wash_env_def demo_shell_def region_def literals.truncate_def)
qed

lemma demo_shell_arg: "path_arg demo_shell demo_shell_ram 200 [47, 97, 47, 46, 46]" "resolved (pieces 47 [47, 97, 47, 46, 46]) = []"
proof -
  have p: "pieces 47 [47, 97, 47, 46, 46] = [[97], [46, 46]]" by (simp add: pieces.simps)
  have "cstr demo_shell_ram 200 [47, 97, 47, 46, 46]"
    by (simp add: cstr_Cons cstr_Nil load_def demo_shell_ram_def put_bytes_def)
  then show "path_arg demo_shell demo_shell_ram 200 [47, 97, 47, 46, 46]"
    by (auto simp: path_arg_def p shell_writes_def demo_shell_def region_def)
  show "resolved (pieces 47 [47, 97, 47, 46, 46]) = []" unfolding p by (simp add: resolved_def resolve_def)
qed


end
