(* ===== verification/User_Programs.thy ===== *)
theory User_Programs
  imports Shell
begin

text \<open>
  The example programs of \<^verbatim>\<open>command/\<close>, their start (\<^verbatim>\<open>command/start.S\<close>), and \<open>main\<close> and \<open>init\<close> of \<^verbatim>\<open>kernel/main.c\<close>. A program is its \<open>main\<close>: it
  ends with the value it returns, or in the state of the next thread when it calls \<open>exit\<close>. The two sides of a \<open>fork\<close> are followed as in the shell.
  An endless loop is the trap \<open>Spins\<close>.
\<close>

record prog_frames = sh_frames +
  pr_buf :: nat
  pr_abs :: nat
  pr_fd :: nat
  lit_hi :: nat

text \<open>\<open>_start\<close> pushes the arguments and calls \<open>main\<close>. There is no code behind the call: a program whose \<open>main\<close> returns runs past its end.\<close>

definition start_program ::
  "(u32 \<Rightarrow> u32 \<Rightarrow> 'a kern_scheme \<Rightarrow> 'a kern_scheme sysret outcome) \<Rightarrow> u32 \<Rightarrow> u32 \<Rightarrow> 'a kern_scheme \<Rightarrow> 'a kern_scheme sysret outcome" where
  "start_program main ebx ecx s =
     andThen (main ecx ebx s) (\<lambda>r. case r of Returns _ _ \<Rightarrow> Inl BadAccess | _ \<Rightarrow> Inr r)"

section \<open>\<open>cat\<close>\<close>

partial_function (option) cat_loop :: "'a kern_scheme call_env \<Rightarrow> u32 \<Rightarrow> u32 \<Rightarrow> 'a kern_scheme \<Rightarrow> 'a kern_scheme outcome option" where
  "cat_loop e fd bufp s =
     (case call (read_u e fd bufp 1024 s) (\<lambda>v s. Inr (v, s)) of
        Inl t \<Rightarrow> Some (Inl t)
      | Inr r \<Rightarrow>
          if fst r = - 1 then Some (Inr (snd r))
          else
            (case call (write_u e 1 bufp (fst r) (snd r)) (\<lambda>_ s. Inr s) of
               Inl t \<Rightarrow> Some (Inl t)
             | Inr s \<Rightarrow> cat_loop e fd bufp s))"

definition cat_path :: "'a kern_scheme call_env \<Rightarrow> prog_frames \<Rightarrow> nat \<Rightarrow> 'a kern_scheme \<Rightarrow> 'a kern_scheme outcome" where
  "cat_path e fr a s =
     andThen (load (ram s) a) (\<lambda>c.
     if c \<noteq> 47 then
       call (getcwd e (of_nat (pr_abs fr)) 512 s) (\<lambda>_ s.
       andThen (on_strcat (pr_abs fr) (lit_slash fr) s) (on_strcat (pr_abs fr) a))
     else on_ram (\<lambda>m. andThen (strcpy m (pr_abs fr) a) (\<lambda>(_, m). Inr m)) s)"

definition cat_main ::
  "'a kern_scheme call_env \<Rightarrow> prog_frames \<Rightarrow> nat \<Rightarrow> nat list \<Rightarrow> 'a kern_scheme \<Rightarrow> 'a kern_scheme sysret outcome" where
  "cat_main e fr argc argv s =
     (let fr' = sh_frames.truncate fr in
      if argc > 2 then andThen (printf e fr' (bytes ''cat: argument error'' @ [10]) s) (exit_u e (- 2))
      else if argc = 1 then
        andThen (clear_ram (pr_buf fr) 512 s) (\<lambda>s.
        call (read_u e 0 (of_nat (pr_buf fr)) 512 s) (\<lambda>_ s.
        andThen (printf_str e fr' '''' (pr_buf fr) [] s) (exit_u e 0)))
      else
        andThen (clear_ram (pr_abs fr) 512 s) (\<lambda>s.
        call (malloc e 1024 s) (\<lambda>bufp s.
        if bufp = 0 then andThen (printf e fr' (bytes ''cat: malloc memory failed'' @ [10]) s) (\<lambda>s. Inr (Returns (- 1) s))
        else
          andThen (arg argv 1) (\<lambda>a.
          andThen (cat_path e fr a s) (\<lambda>s.
          call (open_u e (of_nat (pr_abs fr)) 0 s) (\<lambda>fd s.
          if fd = - 1 then andThen (printf_str e fr' ''cat: open: open '' a (bytes '' failed'' @ [10]) s) (\<lambda>s. Inr (Returns (- 1) s))
          else
            andThen (run_walk (cat_loop e fd bufp s)) (\<lambda>s.
            call (free_u e bufp s) (\<lambda>_ s.
            call (close_u e fd s) (\<lambda>_ s. Inr (Returns 66 s))))))))))"

section \<open>\<open>prog_pipe\<close>\<close>

text \<open>The child reads what the parent has written.\<close>

definition print_pid :: "'a kern_scheme call_env \<Rightarrow> sh_frames \<Rightarrow> string \<Rightarrow> u8 list \<Rightarrow> 'a kern_scheme \<Rightarrow> 'a kern_scheme outcome" where
  "print_pid e fr who rest s = call (getpid e s) (\<lambda>p s. printf e fr ([10] @ bytes who @ dec_str p @ rest) s)"

definition pipe_parent :: "'a kern_scheme call_env \<Rightarrow> prog_frames \<Rightarrow> 'a kern_scheme \<Rightarrow> 'a kern_scheme sysret outcome" where
  "pipe_parent e fr s =
     andThen (load32 (ram s) (pr_fd fr)) (\<lambda>fd0.
     call (close_u e fd0 s) (\<lambda>_ s.
     andThen (load32 (ram s) (pr_fd fr + 4)) (\<lambda>fd1.
     call (write_u e fd1 (of_nat (lit_hi fr)) 24 s) (\<lambda>_ s.
     andThen (print_pid e (sh_frames.truncate fr) ''I`m father, my pid is '' [10] s) (\<lambda>s. Inr (Returns 8 s))))))"

definition pipe_child :: "'a kern_scheme call_env \<Rightarrow> prog_frames \<Rightarrow> 'a kern_scheme \<Rightarrow> 'a kern_scheme sysret outcome" where
  "pipe_child e fr s =
     (let fr' = sh_frames.truncate fr in
      andThen (load32 (ram s) (pr_fd fr + 4)) (\<lambda>fd1.
      call (close_u e fd1 s) (\<lambda>_ s.
      andThen (clear_ram (pr_buf fr) 32 s) (\<lambda>s.
      andThen (load32 (ram s) (pr_fd fr)) (\<lambda>fd0.
      call (read_u e fd0 (of_nat (pr_buf fr)) 24 s) (\<lambda>_ s.
      andThen (print_pid e fr' ''I`m child, my pid is '' [10] s) (\<lambda>s.
      andThen (load_str (ram s) (pr_buf fr)) (\<lambda>x.
      andThen (printf e fr' (bytes ''I`m child, my father said to me: '' @ [34] @ x @ [34, 10]) s) (\<lambda>s.
      Inr (Returns 9 s))))))))))"

definition pipe_main :: "'a kern_scheme call_env \<Rightarrow> prog_frames \<Rightarrow> 'a kern_scheme \<Rightarrow> 'a kern_scheme sysret outcome" where
  "pipe_main e fr s =
     andThen (on_ram (\<lambda>m. andThen (store32 m (pr_fd fr) (- 1)) (\<lambda>m. store32 m (pr_fd fr + 4) 0)) s) (\<lambda>s.
     call (pipe_u e (of_nat (pr_fd fr)) s) (\<lambda>_ s.
     call (fork e s) (\<lambda>p s. if p \<noteq> 0 then pipe_parent e fr s else pipe_child e fr s)))"

section \<open>\<open>prog_arg\<close>\<close>

fun print_args :: "'a kern_scheme call_env \<Rightarrow> sh_frames \<Rightarrow> nat \<Rightarrow> nat list \<Rightarrow> 'a kern_scheme \<Rightarrow> 'a kern_scheme outcome" where
  "print_args e fr arg_idx [] s = Inr s"
| "print_args e fr arg_idx (a # as) s =
     andThen (load_str (ram s) a) (\<lambda>x.
     andThen (printf e fr (bytes ''argv['' @ dec_str (of_nat arg_idx) @ bytes ''] is '' @ x @ [10]) s)
       (print_args e fr (Suc arg_idx) as))"

text \<open>The parent's delay loop ends and has no effect; both sides end in an endless loop unless the program was replaced.\<close>

definition arg_parent :: "'a kern_scheme call_env \<Rightarrow> sh_frames \<Rightarrow> 'a kern_scheme \<Rightarrow> 'a kern_scheme sysret outcome" where
  "arg_parent e fr s =
     andThen (print_pid e fr ''      I`m father prog, my pid:'' (bytes '', I will show process list'' @ [10]) s) (\<lambda>s.
     call (ps e s) (\<lambda>_ _. Inl Spins))"

definition arg_child :: "'a kern_scheme call_env \<Rightarrow> prog_frames \<Rightarrow> nat \<Rightarrow> nat list \<Rightarrow> 'a kern_scheme \<Rightarrow> 'a kern_scheme sysret outcome" where
  "arg_child e fr argvp argv s =
     andThen (arg argv 1) (\<lambda>a.
     andThen (clear_ram (pr_abs fr) 512 s) (\<lambda>s.
     andThen (load_str (ram s) a) (\<lambda>x.
     andThen (print_pid e (sh_frames.truncate fr) ''      I`m child prog, my pid:'' (bytes '', I will exec '' @ x @ bytes '' right now'' @ [10]) s) (\<lambda>s.
     andThen (load (ram s) a) (\<lambda>c.
     andThen
       (if c \<noteq> 47 then
          call (getcwd e (of_nat (pr_abs fr)) 512 s) (\<lambda>_ s.
          andThen (on_strcat (pr_abs fr) (lit_slash fr) s) (\<lambda>s.
          andThen (on_strcat (pr_abs fr) a s) (execv e (of_nat (pr_abs fr)) (of_nat argvp))))
        else execv e (of_nat a) (of_nat argvp) s) (\<lambda>r.
     case r of Returns _ _ \<Rightarrow> Inl Spins | _ \<Rightarrow> Inr r))))))"

definition arg_main ::
  "'a kern_scheme call_env \<Rightarrow> prog_frames \<Rightarrow> nat \<Rightarrow> nat list \<Rightarrow> nat \<Rightarrow> 'a kern_scheme \<Rightarrow> 'a kern_scheme sysret outcome" where
  "arg_main e fr argc argv argvp s =
     (let fr' = sh_frames.truncate fr in
      if argc > length argv then Inl BadAccess
      else
        andThen (print_args e fr' 0 (take argc argv) s) (\<lambda>s.
        call (fork e s) (\<lambda>p s. if p \<noteq> 0 then arg_parent e fr' s else arg_child e fr argvp argv s)))"

section \<open>The first process and the kernel's main function\<close>

text \<open>\<open>n\<close> rounds of the shell are followed. The parent of the first \<open>fork\<close> loops forever.\<close>

definition init_process :: "nat \<Rightarrow> 'a kern_scheme call_env \<Rightarrow> sh_frames \<Rightarrow> 'a kern_scheme \<Rightarrow> 'a kern_scheme outcome" where
  "init_process n e fr s = call (fork e s) (\<lambda>ret_pid s. if ret_pid \<noteq> 0 then Inl Spins else my_shell n e fr s)"

text \<open>The state in which \<open>main\<close> begins its endless loop.\<close>

definition kernel_main :: "boot_env \<Rightarrow> ('a kern_scheme \<Rightarrow> 'a kern_scheme) \<Rightarrow> 'a kern_scheme \<Rightarrow> 'a kern_scheme outcome" where
  "kernel_main b cls s =
     andThen (init_all b (put_str (bytes ''I am kernel'' @ [10]) s)) (\<lambda>s.
     console_put_str (bytes ''[rabbit@localhost /]$ '') (cls s))"

end
