(* ===== verification/Screen.thy ===== *)
theory Screen
  imports Stdio
begin

text \<open>
  The text screen, \<^verbatim>\<open>lib/kernel/print.S\<close>. The video segment is 32768 bytes, of which the first 4000 are the 25 lines of 80 characters, each
  a byte for the character and one for its colours; an access behind the end of the segment is the trap \<open>BadAccess\<close>. The cursor is in two
  registers of the video controller. The registers of the processor are local names with their widths: a position is a 16 bit word, and the
  comparisons of \<open>jl\<close> are signed.

  The routines refine a terminal of 2000 cells and a position.
\<close>

section \<open>The routines\<close>

record vga =
  video :: "u8 list"
  crtc :: "u8 \<Rightarrow> u8"

definition gs_store :: "u16 \<Rightarrow> u8 \<Rightarrow> vga \<Rightarrow> vga outcome" where
  "gs_store a b s = (if unat a < length (video s) then Inr (s\<lparr>video := (video s)[unat a := b]\<rparr>) else Inl BadAccess)"

definition get_cursor :: "vga \<Rightarrow> u16" where
  "get_cursor s = push_bit 8 (ucast (crtc s 0x0e)) OR ucast (crtc s 0x0f)"

definition set_cursor :: "u16 \<Rightarrow> vga \<Rightarrow> vga" where
  "set_cursor bx s = s\<lparr>crtc := (crtc s)(0x0e := ucast (drop_bit 8 bx), 0x0f := ucast bx)\<rparr>"

text \<open>\<open>rep movsd\<close>: words of four bytes are moved from one offset of the video memory to another, the lower ones first.\<close>

fun movsd :: "nat \<Rightarrow> nat \<Rightarrow> nat \<Rightarrow> u8 list \<Rightarrow> u8 list" where
  "movsd 0 esi edi v = v"
| "movsd (Suc ecx) esi edi v =
     movsd ecx (esi + 4) (edi + 4) (v[edi := v ! esi, edi + 1 := v ! (esi + 1), edi + 2 := v ! (esi + 2), edi + 3 := v ! (esi + 3)])"

text \<open>The loop that fills cells with blanks.\<close>

fun cls_loop :: "nat \<Rightarrow> nat \<Rightarrow> u8 list \<Rightarrow> u8 list" where
  "cls_loop 0 ebx v = v"
| "cls_loop (Suc ecx) ebx v = cls_loop ecx (ebx + 2) (v[ebx := 0x20, ebx + 1 := 0x07])"

definition roll_screen :: "vga \<Rightarrow> vga" where
  "roll_screen s = set_cursor 1920 (s\<lparr>video := cls_loop 80 3840 (movsd 960 0xa0 0 (video s))\<rparr>)"

definition new_line :: "u16 \<Rightarrow> vga \<Rightarrow> vga" where
  "new_line bx s =
     (let bx = bx - bx mod 80 + 80 in
      if sint bx < 2000 then set_cursor bx s else roll_screen s)"

definition back_space :: "u16 \<Rightarrow> vga \<Rightarrow> vga outcome" where
  "back_space bx s =
     (let bx = push_bit 1 (bx - 1) in
      andThen (gs_store bx 0x20 s) (\<lambda>s.
      andThen (gs_store (bx + 1) 0x07 s) (\<lambda>s.
      Inr (set_cursor (drop_bit 1 (bx + 1)) s))))"

definition put_other :: "u8 \<Rightarrow> u16 \<Rightarrow> vga \<Rightarrow> vga outcome" where
  "put_other cl bx s =
     (let bx = push_bit 1 bx in
      andThen (gs_store bx cl s) (\<lambda>s.
      andThen (gs_store (bx + 1) 0x07 s) (\<lambda>s.
      let bx = drop_bit 1 (bx + 1) + 1 in
      Inr (if sint bx < 2000 then set_cursor bx s else new_line bx s))))"

definition put_char :: "u8 \<Rightarrow> vga \<Rightarrow> vga outcome" where
  "put_char cl s =
     (let bx = get_cursor s in
      if cl = 0xd \<or> cl = 0xa then Inr (new_line bx s)
      else if cl = 0x8 then back_space bx s
      else put_other cl bx s)"

text \<open>\<open>put_str\<close> reads characters until a 0.\<close>

partial_function (option) put_str_loop :: "mem \<Rightarrow> nat \<Rightarrow> vga \<Rightarrow> vga outcome option" where
  "put_str_loop m ebx s =
     (case load m ebx of
        Inl t \<Rightarrow> Some (Inl t)
      | Inr cl \<Rightarrow>
          if cl = 0 then Some (Inr s)
          else (case put_char cl s of Inl t \<Rightarrow> Some (Inl t) | Inr s \<Rightarrow> put_str_loop m (Suc ebx) s))"

definition cls_screen :: "vga \<Rightarrow> vga" where
  "cls_screen s = set_cursor 0 (s\<lparr>video := cls_loop (80 * 25) 0 (video s)\<rparr>)"

text \<open>
  \<open>put_int\<close> stores the digits from the last position of an 8 byte buffer downwards, skips the zeros in front and prints the rest, or a
  single 0.
\<close>

definition hex_digit :: "u32 \<Rightarrow> u8" where
  "hex_digit edx = (if edx > 9 then ucast (edx - 10 + 65) else ucast (edx + 48))"

fun hex_loop :: "nat \<Rightarrow> u32 \<Rightarrow> u8 list \<Rightarrow> u8 list" where
  "hex_loop 0 eax acc = acc"
| "hex_loop (Suc ecx) eax acc = hex_loop ecx (drop_bit 4 eax) (hex_digit (eax AND 0xF) # acc)"

definition put_int_digits :: "u32 \<Rightarrow> u8 list" where
  "put_int_digits x = (case dropWhile (\<lambda>c. c = 48) (hex_loop 8 x []) of [] \<Rightarrow> [48] | ds \<Rightarrow> ds)"

fun put_chars :: "u8 list \<Rightarrow> vga \<Rightarrow> vga outcome" where
  "put_chars [] s = Inr s"
| "put_chars (c # cs) s = andThen (put_char c s) (put_chars cs)"

definition put_int :: "u32 \<Rightarrow> vga \<Rightarrow> vga outcome" where
  "put_int x s = put_chars (put_int_digits x) s"

section \<open>A terminal\<close>

text \<open>A cell is a character with its colours; the position is below 2000.\<close>

type_synonym terminal = "(u8 \<times> u8) list \<times> nat"

definition blank :: "u8 \<times> u8" where
  "blank = (0x20, 0x07)"

definition scroll :: "(u8 \<times> u8) list \<Rightarrow> (u8 \<times> u8) list" where
  "scroll cs = drop 80 cs @ replicate 80 blank"

definition term_newline :: "terminal \<Rightarrow> terminal" where
  "term_newline t = (case t of (cs, p) \<Rightarrow> if p < 1920 then (cs, (p div 80 + 1) * 80) else (scroll cs, 1920))"

definition term_put :: "u8 \<Rightarrow> terminal \<Rightarrow> terminal" where
  "term_put c t = (case t of (cs, p) \<Rightarrow>
     if c = 10 \<or> c = 13 then term_newline (cs, p)
     else if c = 8 then (cs[p - 1 := blank], p - 1)
     else if p < 1999 then (cs[p := (c, 7)], p + 1)
     else (scroll (cs[p := (c, 7)]), 1920))"

definition cells :: "vga \<Rightarrow> (u8 \<times> u8) list" where
  "cells s = map (\<lambda>i. (video s ! (2 * i), video s ! (2 * i + 1))) [0..<2000]"

definition terminal_of :: "vga \<Rightarrow> terminal" where
  "terminal_of s = (cells s, unat (get_cursor s))"

definition vga_wf :: "vga \<Rightarrow> bool" where
  "vga_wf s \<longleftrightarrow> length (video s) = 32768 \<and> unat (get_cursor s) < 2000"

lemma cursor_set [simp]: "get_cursor (set_cursor bx s) = bx"
proof (rule bit_eqI)
  fix n
  assume "possible_bit TYPE(16 word) n"
  then have "n < 16" by simp
  then show "bit (get_cursor (set_cursor bx s)) n \<longleftrightarrow> bit bx n"
    by (cases "8 \<le> n") (auto simp: get_cursor_def set_cursor_def bit_simps not_le)
qed

lemma video_set [simp]: "video (set_cursor bx s) = video s" "cells (set_cursor bx s) = cells s"
  by (simp_all add: set_cursor_def cells_def)

lemma cells_length [simp]: "length (cells s) = 2000"
  by (simp add: cells_def)

lemma cells_nth: "i < 2000 \<Longrightarrow> cells s ! i = (video s ! (2 * i), video s ! (2 * i + 1))"
  by (simp add: cells_def)

lemma movsd_length [simp]: "length (movsd n a b v) = length v"
  by (induction n a b v rule: movsd.induct) simp_all

lemma cls_length [simp]: "length (cls_loop n a v) = length v"
  by (induction n a v rule: cls_loop.induct) simp_all

lemma movsd_nth:
  assumes "b + 4 \<le> a" "a + 4 * n \<le> length v" "j < length v"
  shows "movsd n a b v ! j = (if b \<le> j \<and> j < b + 4 * n then v ! (j + (a - b)) else v ! j)"
  using assms
proof (induction n a b v rule: movsd.induct)
  case (2 n a b v)
  let ?w = "v[b := v ! a, b + 1 := v ! (a + 1), b + 2 := v ! (a + 2), b + 3 := v ! (a + 3)]"
  have w: "?w ! i = (if b \<le> i \<and> i < b + 4 then v ! (i + (a - b)) else v ! i)" if "i < length v" for i
  proof -
    consider "i = b" | "i = b + 1" | "i = b + 2" | "i = b + 3" | "i < b \<or> b + 4 \<le> i" by linarith
    then show ?thesis using 2(2,3) that by cases (auto simp: add.commute nth_list_update)
  qed
  have "movsd n (a + 4) (b + 4) ?w ! j = (if b + 4 \<le> j \<and> j < b + 4 + 4 * n then ?w ! (j + (a - b)) else ?w ! j)"
    using 2(1) 2(2-4) by simp
  moreover have "?w ! (j + (a - b)) = v ! (j + (a - b))" if "b + 4 \<le> j" "j < b + 4 + 4 * n"
    using w [of "j + (a - b)"] that 2(2,3) by simp
  ultimately show ?case using w [OF 2(4)] by auto
qed simp

lemma cls_nth:
  assumes "a + 2 * n \<le> length v" "j < length v"
  shows "cls_loop n a v ! j = (if a \<le> j \<and> j < a + 2 * n then if even (j - a) then 0x20 else 0x07 else v ! j)"
  using assms
proof (induction n a v rule: cls_loop.induct)
  case (2 n a v)
  consider "j = a" | "j = a + 1" | "j < a" | "a + 2 \<le> j" by linarith
  then show ?case using 2 by cases (auto simp: nth_list_update)
qed auto

section \<open>The routines implement the terminal\<close>

lemma roll_cells:
  assumes "length (video s) = 32768"
  shows "cells (roll_screen s) = scroll (cells s)"
proof (rule nth_equalityI)
  fix i assume "i < length (cells (roll_screen s))"
  then have i: "i < 2000" by simp
  let ?v = "movsd 960 0xa0 0 (video s)"
  have m: "?v ! j = (if j < 3840 then video s ! (j + 160) else video s ! j)" if "j < 32768" for j
    using movsd_nth [of 0 "0xa0" 960 "video s" j] assms that by simp
  have c: "cls_loop 80 3840 ?v ! j = (if j < 3840 then video s ! (j + 160) else if even j then 0x20 else 0x07)" if "j < 4000" for j
  proof -
    have "even (j - 3840) \<longleftrightarrow> even j" if "3840 \<le> j" using that by simp
    then show ?thesis using cls_nth [of 3840 80 ?v j] m [of j] assms that by auto
  qed
  show "cells (roll_screen s) ! i = scroll (cells s) ! i"
  proof (cases "i < 1920")
    case True
    then have "2 * i + 160 = 2 * (i + 80)" "2 * i + 1 + 160 = 2 * (i + 80) + 1" by simp_all
    then show ?thesis using True i c [of "2 * i"] c [of "2 * i + 1"]
      by (simp add: cells_nth roll_screen_def scroll_def nth_append add.commute)
  next
    case False
    then show ?thesis using i c [of "2 * i"] c [of "2 * i + 1"]
      by (simp add: cells_nth roll_screen_def scroll_def nth_append blank_def)
  qed
qed (simp add: scroll_def)

lemma store_cell:
  assumes "length (video s) = 32768" "p < 2000" "unat a = 2 * p"
  shows "andThen (gs_store a c s) (\<lambda>s. andThen (gs_store (a + 1) d s) f) = f (s\<lparr>video := (video s)[2 * p := c, 2 * p + 1 := d]\<rparr>)"
    and "cells (s\<lparr>video := (video s)[2 * p := c, 2 * p + 1 := d]\<rparr>) = (cells s)[p := (c, d)]"
proof -
  have "unat (a + 1) = 2 * p + 1" using assms(2,3) by (subst unat_add_lem [THEN iffD1]) simp_all
  then show "andThen (gs_store a c s) (\<lambda>s. andThen (gs_store (a + 1) d s) f) = f (s\<lparr>video := (video s)[2 * p := c, 2 * p + 1 := d]\<rparr>)"
    using assms by (simp add: gs_store_def)
  show "cells (s\<lparr>video := (video s)[2 * p := c, 2 * p + 1 := d]\<rparr>) = (cells s)[p := (c, d)]"
  proof (rule nth_equalityI)
    fix i assume "i < length (cells (s\<lparr>video := (video s)[2 * p := c, 2 * p + 1 := d]\<rparr>))"
    then have i: "i < 2000" by simp
    have "2 * p + 1 \<noteq> 2 * i" "2 * p \<noteq> 2 * i + 1" by presburger+
    then show "cells (s\<lparr>video := (video s)[2 * p := c, 2 * p + 1 := d]\<rparr>) ! i = (cells s)[p := (c, d)] ! i"
      using i assms(1,2) by (auto simp: cells_nth nth_list_update)
  qed simp
qed

lemma signed_small:
  assumes "unat (x :: u16) < 32768"
  shows "sint x = int (unat x)"
proof -
  define k where "k = unat x"
  have u: "uint x = int k" by (simp add: k_def)
  have "signed_take_bit 15 (int k) = int k" using assms by (intro signed_take_bit_int_eq_self) (simp_all add: k_def [symmetric])
  then show ?thesis unfolding sint_uint u k_def [symmetric] by simp
qed

lemma next_line:
  fixes p :: nat
  shows "p div 80 * 80 \<le> p" "p \<le> 2000 \<Longrightarrow> (p div 80 + 1) * 80 \<le> 2080" "(p div 80 + 1) * 80 < 2000 \<longleftrightarrow> p < 1920"
proof -
  define q where "q = p div 80"
  show l: "p div 80 * 80 \<le> p" by simp
  have q: "q < k \<longleftrightarrow> p < k * 80" for k unfolding q_def by (rule div_less_iff_less_mult) simp
  show "p \<le> 2000 \<Longrightarrow> (p div 80 + 1) * 80 \<le> 2080" unfolding q_def [symmetric] using q [of 26] by simp
  show "(p div 80 + 1) * 80 < 2000 \<longleftrightarrow> p < 1920" unfolding q_def [symmetric] using q [of 24] by auto
qed

lemma new_line_terminal:
  assumes "length (video s) = 32768" "unat bx \<le> 2000"
  shows "terminal_of (new_line bx s) = (if unat bx < 1920 then (cells s, (unat bx div 80 + 1) * 80) else (scroll (cells s), 1920))"
    and "length (video (new_line bx s)) = 32768"
proof -
  let ?p = "unat bx" and ?b = "bx - bx mod 80 + 80"
  have u: "unat ?b = (?p div 80 + 1) * 80"
  proof -
    have m: "unat (bx mod 80) = ?p mod 80" by (simp add: unat_mod)
    have "unat (bx - bx mod 80) = ?p - ?p mod 80" by (subst unat_sub) (simp_all add: m word_le_nat_alt)
    also have "\<dots> = ?p div 80 * 80" by (simp add: minus_mod_eq_div_mult)
    finally have k: "unat (bx - bx mod 80) = ?p div 80 * 80" .
    have "?p div 80 * 80 \<le> 2000" using le_trans [OF next_line(1) assms(2)] .
    then show ?thesis using k by (subst unat_add_lem [THEN iffD1]) simp_all
  qed
  have "(?p div 80 + 1) * 80 \<le> 2080" "(?p div 80 + 1) * 80 < 2000 \<longleftrightarrow> ?p < 1920"
    using next_line(2,3) [of ?p] assms(2) by blast+
  then have j: "sint ?b < 2000 \<longleftrightarrow> ?p < 1920" using u signed_small [of ?b] by simp
  show "terminal_of (new_line bx s) = (if ?p < 1920 then (cells s, (?p div 80 + 1) * 80) else (scroll (cells s), 1920))"
    using j u roll_cells [OF assms(1)] by (simp add: new_line_def terminal_of_def Let_def) (simp add: roll_screen_def)
  show "length (video (new_line bx s)) = 32768" using assms(1) by (simp add: new_line_def roll_screen_def Let_def)
qed

lemma shifted:
  assumes "unat (bx :: u16) < 2000"
  shows "unat (push_bit 1 bx) = 2 * unat bx" "drop_bit 1 (push_bit 1 bx + 1) = bx"
proof -
  have "push_bit 1 bx = 2 * bx" by (simp add: push_bit_eq_mult)
  moreover have "unat (2 * bx) = 2 * unat bx" using assms by (subst unat_mult_lem [THEN iffD1]) simp_all
  ultimately show u: "unat (push_bit 1 bx) = 2 * unat bx" by (simp only:)
  have "unat (push_bit 1 bx + 1) = 2 * unat bx + 1" using u assms by (subst unat_add_lem [THEN iffD1]) simp_all
  then have "unat (drop_bit 1 (push_bit 1 bx + 1)) = (2 * unat bx + 1) div 2" 
    by (simp only: unat_drop_bit_eq) (simp only: drop_bit_eq_div power_one_right)
  also have "\<dots> = unat bx" by simp
  finally have "unat (drop_bit 1 (push_bit 1 bx + 1)) = unat bx" .
  then show "drop_bit 1 (push_bit 1 bx + 1) = bx" by (rule word_unat_eq_iff [THEN iffD2])
qed

lemma put_other_terminal:
  assumes "vga_wf s" "bx = get_cursor s"
  shows "\<exists>t. put_other c bx s = Inr t \<and> length (video t) = 32768
    \<and> terminal_of t = (if unat bx < 1999 then ((cells s)[unat bx := (c, 7)], unat bx + 1) else (scroll ((cells s)[unat bx := (c, 7)]), 1920))"
proof -
  let ?p = "unat bx" and ?s = "s\<lparr>video := (video s)[2 * unat bx := c, 2 * unat bx + 1 := 7]\<rparr>"
  have wf: "length (video s) = 32768" "?p < 2000" using assms by (simp_all add: vga_wf_def)
  note st = store_cell [OF wf shifted(1) [OF wf(2)], of c 7]
  have b: "unat (bx + 1) = ?p + 1" using wf(2) by (subst unat_add_lem [THEN iffD1]) simp_all
  then have si: "sint (bx + 1) = int (?p + 1)" using signed_small [of "bx + 1"] wf(2) by (simp only:)
  have j: "sint (bx + 1) < 2000 \<longleftrightarrow> ?p < 1999" unfolding si by linarith
  have e: "put_other c bx s = Inr (if ?p < 1999 then set_cursor (bx + 1) ?s else new_line (bx + 1) ?s)"
    unfolding put_other_def Let_def st(1) shifted(2) [OF wf(2)] j by (rule refl)
  have l: "length (video ?s) = 32768" using wf(1) by simp
  show ?thesis
  proof (cases "?p < 1999")
    case True
    then show ?thesis using e b st(2) l by (auto simp: terminal_of_def)
  next
    case False
    then show ?thesis using e b st(2) new_line_terminal [OF l, of "bx + 1"] wf(2) by (auto simp: terminal_of_def)
  qed
qed

lemma back_space_terminal:
  assumes "vga_wf s" "bx = get_cursor s" "bx \<noteq> 0"
  shows "\<exists>t. back_space bx s = Inr t \<and> length (video t) = 32768 \<and> terminal_of t = ((cells s)[unat bx - 1 := blank], unat bx - 1)"
proof -
  have wf: "length (video s) = 32768" "unat bx < 2000" using assms by (simp_all add: vga_wf_def)
  have "0 < unat bx" using assms(3) by (simp add: unat_gt_0)
  then have u: "unat (bx - 1) = unat bx - 1" by (subst unat_sub) (simp_all add: word_le_nat_alt)
  then have l: "unat (bx - 1) < 2000" using wf(2) by simp
  note st = store_cell [OF wf(1) l shifted(1) [OF l], of "0x20" "0x07"]
  show ?thesis
    unfolding back_space_def Let_def st(1) shifted(2) [OF l] using st(2) wf(1) u by (simp add: terminal_of_def blank_def)
qed

text \<open>
  C23. \<open>put_char\<close> implements a terminal of 25 lines of 80 characters: line feed and carriage return go to the start of the next line, backspace goes
  back and clears the cell, any other byte is shown at the cursor, which moves on, and behind the last cell the lines move up and the last one becomes
  blank. The cursor stays on the screen and no byte outside it is needed. The only exception is a backspace at the first cell.
\<close>

theorem put_char_terminal:
  assumes "vga_wf s" "c = 8 \<Longrightarrow> get_cursor s \<noteq> 0"
  shows "\<exists>t. put_char c s = Inr t \<and> vga_wf t \<and> terminal_of t = term_put c (terminal_of s)"
proof -
  let ?p = "unat (get_cursor s)"
  have p: "?p < 2000" "length (video s) = 32768" using assms(1) by (simp_all add: vga_wf_def)
  have s: "terminal_of s = (cells s, ?p)" by (simp add: terminal_of_def)
  have "\<exists>t. put_char c s = Inr t \<and> length (video t) = 32768 \<and> terminal_of t = term_put c (terminal_of s)"
    using new_line_terminal [OF p(2), of "get_cursor s"] put_other_terminal [OF assms(1) refl, of c]
      back_space_terminal [OF assms(1) refl] assms(2) p(1)
    unfolding s by (simp add: put_char_def term_put_def term_newline_def Let_def)
  moreover have "snd (term_put c (cells s, ?p)) < 2000"
  proof -
    have "(?p div 80 + 1) * 80 < 2000" if "?p < 1920" using next_line(3) [of ?p] that by blast
    then show ?thesis using p(1) by (auto simp: term_put_def term_newline_def)
  qed
  ultimately show ?thesis unfolding s by (metis (no_types) snd_conv terminal_of_def vga_wf_def)
qed

text \<open>A blank screen with the cursor on its last cell.\<close>

definition demo_vga :: vga where
  "demo_vga = \<lparr>video = replicate 32768 0, crtc = (\<lambda>_. 0)(0x0e := 0x07, 0x0f := 0xcf)\<rparr>"

theorem put_char_terminal_witness:
  "get_cursor demo_vga = 1999 \<and> (\<exists>t. put_char 65 demo_vga = Inr t \<and> vga_wf t \<and> terminal_of t = term_put 65 (terminal_of demo_vga))"
proof -
  have "get_cursor demo_vga = 1999" by (simp add: get_cursor_def demo_vga_def push_bit_eq_mult)
  moreover from this have "vga_wf demo_vga" by (simp add: vga_wf_def demo_vga_def)
  ultimately show ?thesis using put_char_terminal [of demo_vga 65] by simp
qed

text \<open>A backspace at the first cell addresses the end of a 64 KB range, behind the segment.\<close>

lemma back_space_at_origin: "length (video s) = 32768 \<Longrightarrow> get_cursor s = 0 \<Longrightarrow> put_char 8 s = Inl BadAccess"
  by (simp add: put_char_def back_space_def gs_store_def push_bit_eq_mult)

section \<open>Numbers\<close>

text \<open>The lower \<open>n\<close> hexadecimal digits of a number, zeros in front included.\<close>

fun nibbles :: "nat \<Rightarrow> nat \<Rightarrow> nat list" where
  "nibbles 0 v = []"
| "nibbles (Suc n) v = nibbles n (v div 16) @ [v mod 16]"

lemma nibbles_below: "d \<in> set (nibbles n v) \<Longrightarrow> d < 16"
  by (induction n v rule: nibbles.induct) auto

lemma hex_digit_char: "hex_digit (x AND 0xF) = digit_char (unat x mod 16)"
proof -
  define k where "k = unat x mod 16"
  have m: "(0xF :: u32) = mask 4" by (simp add: mask_eq_exp_minus_1)
  have "unat (x AND 0xF) = k"
    unfolding m k_def by (simp add: take_bit_eq_mask [symmetric] take_bit_eq_mod unat_mod)
  then have w: "x AND 0xF = of_nat k" using word_of_nat_eq_iff [of k "unat (x AND 0xF)"] by auto
  have "k \<in> set [0..<16]" by (simp add: k_def)
  then show ?thesis unfolding w k_def [symmetric] by (auto simp: hex_digit_def digit_char_def upt_rec)
qed

lemma hex_loop_nibbles: "hex_loop n x acc = map digit_char (nibbles n (unat x)) @ acc"
proof (induction n x acc rule: hex_loop.induct)
  case (2 n x acc)
  have "unat (drop_bit 4 x) = unat x div 16" by (simp only: unat_drop_bit_eq) (simp add: drop_bit_eq_div)
  then show ?case using 2 hex_digit_char [of x] by simp
qed simp

lemma nibbles_zero: "dropWhile (\<lambda>d. d = 0) (nibbles n 0) = []"
  by (induction n) (simp_all add: dropWhile_append3)

lemma nibbles_digits: "v < 16 ^ n \<Longrightarrow> dropWhile (\<lambda>d. d = 0) (nibbles n v) = (if v = 0 then [] else digits 16 v)"
proof (induction n v rule: nibbles.induct)
  case (2 n v)
  show ?case
  proof (cases "v div 16 = 0")
    case True
    then have "v mod 16 = v" by simp
    then show ?thesis using True nibbles_zero [of n] by (subst digits.simps) (auto simp: dropWhile_append)
  next
    case False
    have "v div 16 < 16 ^ n" using 2(2) by (simp add: less_mult_imp_div_less mult.commute)
    then have d: "dropWhile (\<lambda>d. d = 0) (nibbles n (v div 16)) = digits 16 (v div 16)" "digits 16 (v div 16) \<noteq> []"
      using 2(1) False digits_no_leading_zero [of 16 "v div 16"] by simp_all
    then have "\<not> (\<forall>x\<in>set (nibbles n (v div 16)). x = 0)"
      using dropWhile_eq_Nil_conv [of "\<lambda>d. d = 0" "nibbles n (v div 16)"] by simp
    then have "dropWhile (\<lambda>d. d = 0) (nibbles (Suc n) v) = digits 16 (v div 16) @ [v mod 16]"
      using d(1) by (auto simp: dropWhile_append)
    moreover have "digits 16 v = digits 16 (v div 16) @ [v mod 16]" using False by (subst digits.simps) simp
    moreover have "v \<noteq> 0" using False by auto
    ultimately show ?thesis by simp
  qed
qed simp

lemma digit_char_0: "d < 16 \<Longrightarrow> digit_char d = 48 \<longleftrightarrow> d = 0"
proof -
  assume "d < 16"
  then have "d \<in> set [0..<16]" by simp
  then show ?thesis by (auto simp: digit_char_def upt_rec)
qed


end
