(* ===== verification/Boot.thy ===== *)
theory Boot
  imports Paging
begin

text \<open>
  What the kernel relies on of the boot loader, \<^verbatim>\<open>boot/loader.asm\<close>: the size of the memory, computed from what the firmware returns, and
  the first page tables, built by \<open>setup_page\<close> in physical memory before paging is switched on. Registers are local names; memory is accessed
  in words, four bytes of the clearing loop at a time.
\<close>

section \<open>The size of the memory\<close>

text \<open>
  The areas that the firmware describes, as their low base and low length. The loop body comes before its test, and \<open>jge\<close> is a signed
  comparison.
\<close>

fun find_max_mem_area :: "(u32 \<times> u32) list \<Rightarrow> u32 \<Rightarrow> u32" where
  "find_max_mem_area [] edx = edx"
| "find_max_mem_area ((base_add_low, length_low) # ards) edx =
     (let eax = base_add_low + length_low in
      find_max_mem_area ards (if sint edx \<ge> sint eax then edx else eax))"

text \<open>\<open>mul cx\<close> leaves the two halves of the product in \<open>dx\<close> and \<open>ax\<close>.\<close>

definition kb_bytes :: "u16 \<Rightarrow> u32" where
  "kb_bytes ax =
     (let product = ucast ax * (0x400 :: u32); dx = ucast (drop_bit 16 product) :: u16; ax = ucast product :: u16 in
      push_bit 16 (ucast dx) OR ucast ax)"

definition mem_e801 :: "u16 \<Rightarrow> u16 \<Rightarrow> u32" where
  "mem_e801 ax bx = (let esi = kb_bytes ax + 0x100000 in esi + ucast bx * 0x10000)"

definition mem_88 :: "u16 \<Rightarrow> u32" where
  "mem_88 ax = kb_bytes ax + 0x100000"

section \<open>The first page tables\<close>

definition PAGE_DIR_TABLE_POS :: u32 where
  "PAGE_DIR_TABLE_POS = 0x100000"

text \<open>The attributes present, writable and accessible to every level.\<close>

definition PG_ALL :: u32 where
  "PG_ALL = 4 OR 2 OR 1"

fun clear_page_dir :: "nat \<Rightarrow> nat \<Rightarrow> (u32 \<Rightarrow> u32) \<Rightarrow> u32 \<Rightarrow> u32" where
  "clear_page_dir 0 esi m = m"
| "clear_page_dir (Suc ecx) esi m = clear_page_dir ecx (Suc esi) (m(PAGE_DIR_TABLE_POS + of_nat esi * 4 := 0))"

text \<open>The two loops that store consecutive entries: \<open>.create_pte\<close> and \<open>.create_kernel_pde\<close>.\<close>

fun create_entries :: "nat \<Rightarrow> nat \<Rightarrow> u32 \<Rightarrow> u32 \<Rightarrow> (u32 \<Rightarrow> u32) \<Rightarrow> u32 \<Rightarrow> u32" where
  "create_entries 0 esi entry ebx m = m"
| "create_entries (Suc ecx) esi entry ebx m = create_entries ecx (Suc esi) (entry + 4096) ebx (m(ebx + of_nat esi * 4 := entry))"

definition setup_page :: "(u32 \<Rightarrow> u32) \<Rightarrow> u32 \<Rightarrow> u32" where
  "setup_page m =
     (let m = clear_page_dir 1024 0 m;
          eax = PAGE_DIR_TABLE_POS + 0x1000; ebx = eax;
          eax = eax OR PG_ALL;
          m = m(PAGE_DIR_TABLE_POS + 0 := eax);
          m = m(PAGE_DIR_TABLE_POS + 0xc00 := eax);
          eax = eax - 0x1000;
          m = m(PAGE_DIR_TABLE_POS + 4092 := eax);
          m = create_entries 256 0 PG_ALL ebx m;
          eax = (PAGE_DIR_TABLE_POS + 0x2000) OR PG_ALL in
      create_entries 254 769 eax PAGE_DIR_TABLE_POS m)"

section \<open>The entries\<close>

definition entry_of :: "u32 \<Rightarrow> nat \<Rightarrow> u32" where
  "entry_of b j = b + of_nat j * 4"

lemma unat_entry:
  assumes "j < 1024" "unat b \<le> 0x200000"
  shows "unat (entry_of b j) = unat b + 4 * j"
proof -
  have j: "unat (of_nat j :: u32) = j" using assms(1) by (simp add: unat_of_nat)
  have "unat (of_nat j * 4 :: u32) = j * 4" using j assms(1) by (subst unat_mult_lem [THEN iffD1]) simp_all
  then show ?thesis using assms unfolding entry_of_def by (subst unat_add_lem [THEN iffD1]) simp_all
qed

lemma entry_eq:
  assumes "i < 1024" "j < 1024" "unat b \<le> 0x200000"
  shows "entry_of b i = entry_of b j \<longleftrightarrow> i = j"
  unfolding word_unat_eq_iff unat_entry [OF assms(1,3)] unat_entry [OF assms(2,3)] by linarith

lemma entry_pages:
  assumes "i < 1024" "j < 1024"
  shows "entry_of 0x101000 i \<noteq> entry_of 0x100000 j"
proof
  assume "entry_of 0x101000 i = entry_of 0x100000 j"
  then have "unat (entry_of 0x101000 i) = unat (entry_of 0x100000 j)" by (simp only:)
  then have "0x101000 + 4 * i = 0x100000 + 4 * j" using assms by (simp add: unat_entry)
  then show False using assms by linarith
qed

lemma clear_at:
  assumes "esi + n \<le> 1024" "j < 1024"
  shows "clear_page_dir n esi m (entry_of 0x100000 j) = (if esi \<le> j \<and> j < esi + n then 0 else m (entry_of 0x100000 j))"
  using assms
proof (induction n esi m rule: clear_page_dir.induct)
  case (2 n esi m)
  let ?m = "m(entry_of 0x100000 esi := 0)" and ?a = "entry_of 0x100000 j"
  have pos: "PAGE_DIR_TABLE_POS + of_nat esi * 4 = entry_of 0x100000 esi" by (simp add: PAGE_DIR_TABLE_POS_def entry_of_def)
  have step: "clear_page_dir (Suc n) esi m = clear_page_dir n (Suc esi) ?m" by (simp only: clear_page_dir.simps pos)
  have ih: "clear_page_dir n (Suc esi) ?m ?a = (if Suc esi \<le> j \<and> j < Suc esi + n then 0 else ?m ?a)"
    using 2 unfolding pos by (simp del: fun_upd_apply)
  have s: "?m ?a = (if j = esi then 0 else m ?a)" using 2(2,3) entry_eq [of j esi "0x100000"] by simp
  show ?case unfolding step ih s by auto
qed auto

lemma create_at:
  assumes "esi + n \<le> 1024" "j < 1024" "unat b \<le> 0x200000"
  shows "create_entries n esi e b m (entry_of b j) = (if esi \<le> j \<and> j < esi + n then e + 4096 * of_nat (j - esi) else m (entry_of b j))"
  using assms
proof (induction n esi e b m rule: create_entries.induct)
  case (2 n esi e b m)
  have pos: "b + of_nat esi * 4 = entry_of b esi" by (simp only: entry_of_def)
  have s: "(m(entry_of b esi := e)) (entry_of b j) = (if j = esi then e else m (entry_of b j))"
    using 2(2-4) entry_eq [of j esi b] by simp
  have "e + 4096 + 4096 * of_nat (j - Suc esi) = e + 4096 * of_nat (j - esi)" if "Suc esi \<le> j"
  proof -
    have "j - esi = Suc (j - Suc esi)" using that by simp
    then show ?thesis by (simp add: algebra_simps)
  qed
  then have e: "Suc esi \<le> j \<Longrightarrow> e + 4096 + 4096 * of_nat (j - Suc esi) = e + 4096 * of_nat (j - esi)" .
  have ih: "create_entries n (Suc esi) (e + 4096) b (m(entry_of b esi := e)) (entry_of b j) =
    (if Suc esi \<le> j \<and> j < Suc esi + n then e + 4096 + 4096 * of_nat (j - Suc esi) else (m(entry_of b esi := e)) (entry_of b j))"
    using 2 unfolding pos by (simp del: fun_upd_apply)
  have step: "create_entries (Suc n) esi e b m = create_entries n (Suc esi) (e + 4096) b (m(entry_of b esi := e))"
    by (simp only: create_entries.simps pos)
  show ?case unfolding step ih s using e by (auto simp del: of_nat_Suc)
qed auto

lemma create_other: "(\<And>i. i < esi + n \<Longrightarrow> a \<noteq> entry_of b i) \<Longrightarrow> create_entries n esi e b m a = m a"
proof (induction n esi e b m rule: create_entries.induct)
  case (2 n esi e b m)
  have ne: "a \<noteq> b + of_nat esi * 4" using 2(2) [of esi] by (simp add: entry_of_def)
  have "create_entries n (Suc esi) (e + 4096) b (m(b + of_nat esi * 4 := e)) a = (m(b + of_nat esi * 4 := e)) a"
    by (rule 2(1)) (use 2(2) in simp)
  also have "\<dots> = m a" using ne by simp
  finally show ?case by (simp only: create_entries.simps)
qed simp

text \<open>The entries of the page directory and of the first page table.\<close>

definition first_entries :: "(u32 \<Rightarrow> u32) \<Rightarrow> u32 \<Rightarrow> u32" where
  "first_entries m = (clear_page_dir 1024 0 m)(entry_of 0x100000 0 := 0x101007, entry_of 0x100000 768 := 0x101007,
     entry_of 0x100000 1023 := 0x100007)"

lemma setup_page_alt: "setup_page m = create_entries 254 769 0x102007 0x100000 (create_entries 256 0 7 0x101000 (first_entries m))"
  by (simp add: setup_page_def first_entries_def PAGE_DIR_TABLE_POS_def PG_ALL_def entry_of_def Let_def)

lemma setup_dir:
  assumes "j < 1024"
  shows "setup_page m (entry_of 0x100000 j) =
    (if j = 0 \<or> j = 768 then 0x101007 else if j = 1023 then 0x100007
     else if 769 \<le> j then 0x102007 + 4096 * of_nat (j - 769) else 0)"
proof -
  let ?m = "first_entries m"
  note setup_page_alt [of m]
  moreover have "create_entries 256 0 7 0x101000 ?m (entry_of 0x100000 j) = ?m (entry_of 0x100000 j)"
    using assms by (intro create_other not_sym [OF entry_pages]) simp_all
  moreover have "?m (entry_of 0x100000 j) = (if j = 0 \<or> j = 768 then 0x101007 else if j = 1023 then 0x100007 else 0)"
    using assms clear_at [of 0 1024 j m] by (simp add: first_entries_def entry_eq)
  ultimately show ?thesis using assms create_at [of 769 254 j "0x100000"] by (auto split: if_splits)
qed

lemma setup_table:
  assumes "j < 256"
  shows "setup_page m (entry_of 0x101000 j) = 7 + 4096 * of_nat j"
proof -
  let ?m = "first_entries m"
  note setup_page_alt [of m]
  moreover have "create_entries 254 769 0x102007 0x100000 v (entry_of 0x101000 j) = v (entry_of 0x101000 j)" for v
    using assms by (intro create_other entry_pages) simp_all
  ultimately show ?thesis using assms create_at [of 0 256 j "0x101000"] by simp
qed

section \<open>What the tables map\<close>

lemma page_entry:
  assumes "\<And>n. 20 \<le> n \<Longrightarrow> \<not> bit a n"
  shows "frame (7 + 4096 * PTE_IDX a) + (a AND 0x00000fff) = a" "(7 + 4096 * PTE_IDX a) AND 1 \<noteq> 0"
proof -
  have m: "(7 :: u32) = mask 3" "4096 * PTE_IDX a = push_bit 12 (PTE_IDX a)" by (simp_all add: mask_eq_exp_minus_1 push_bit_eq_mult)
  have b: "bit (push_bit 12 (PTE_IDX a)) n \<longleftrightarrow> 12 \<le> n \<and> n < 22 \<and> bit a n" for n
    by (auto simp: bit_simps PTE_IDX_bit dest: bit_imp_le_length)
  have or7: "7 + 4096 * PTE_IDX a = mask 3 OR push_bit 12 (PTE_IDX a)"
    unfolding m by (rule plus_or) (auto simp: b bit_mask_iff)
  have f: "bit (frame (7 + 4096 * PTE_IDX a)) n \<longleftrightarrow> 12 \<le> n \<and> n < 22 \<and> bit a n" for n
    unfolding or7 by (auto simp: frame_bit bit_or_iff b bit_mask_iff)
  have "frame (7 + 4096 * PTE_IDX a) + (a AND 0x00000fff) = frame (7 + 4096 * PTE_IDX a) OR (a AND 0x00000fff)"
    by (rule plus_or) (auto simp: f low12_bit)
  also have "\<dots> = a"
  proof (rule bit_eqI)
    fix n
    have "bit a n \<Longrightarrow> n < 20" using assms [of n] by (cases "n < 20") auto
    then show "bit (frame (7 + 4096 * PTE_IDX a) OR (a AND 0x00000fff)) n \<longleftrightarrow> bit a n"
      unfolding bit_or_iff f low12_bit by auto
  qed
  finally show "frame (7 + 4096 * PTE_IDX a) + (a AND 0x00000fff) = a" .
  have "bit ((7 + 4096 * PTE_IDX a) AND 1) 0" unfolding or7 by (simp add: bit_and_iff bit_or_iff bit_mask_iff)
  then show "(7 + 4096 * PTE_IDX a) AND 1 \<noteq> 0" by auto
qed

lemma low_idx:
  assumes "\<And>n. 20 \<le> n \<Longrightarrow> \<not> bit a n"
  shows "PDE_IDX a = 0" "PDE_IDX (0xc0000000 + a) = 768" "PTE_IDX (0xc0000000 + a) = PTE_IDX a"
    "(0xc0000000 + a) AND 0x00000fff = a AND 0x00000fff" "unat (PTE_IDX a) < 256"
proof -
  have c: "(0xc0000000 :: u32) = push_bit 30 (mask 2)" by (simp add: mask_eq_exp_minus_1 push_bit_eq_mult)
  have h: "bit (0xc0000000 :: u32) n \<longleftrightarrow> 30 \<le> n \<and> n < 32" for n unfolding c by (auto simp: bit_simps)
  have "\<not> bit (0xc0000000 :: u32) n \<or> \<not> bit a n" for n unfolding h using assms [of n] by auto
  then have "0xc0000000 + a = 0xc0000000 OR a" by (rule plus_or)
  then have s: "bit (0xc0000000 + a) n \<longleftrightarrow> 30 \<le> n \<and> n < 32 \<or> bit a n" for n by (simp only: bit_or_iff h)
  show "PDE_IDX a = 0" by (rule bit_eqI) (use assms in \<open>simp add: PDE_IDX_bit\<close>)
  have k: "(768 :: u32) = push_bit 8 (mask 2)" by (simp add: mask_eq_exp_minus_1 push_bit_eq_mult)
  show "PDE_IDX (0xc0000000 + a) = 768"
    unfolding k by (rule bit_eqI) (use assms in \<open>auto simp: PDE_IDX_bit s bit_simps\<close>)
  show "PTE_IDX (0xc0000000 + a) = PTE_IDX a" by (rule bit_eqI) (auto simp: PTE_IDX_bit s)
  show "(0xc0000000 + a) AND 0x00000fff = a AND 0x00000fff" by (rule bit_eqI) (auto simp: low12_bit s)
  have "n < 8" if "bit a (n + 12)" for n using that assms [of "n + 12"] by (cases "n < 8") auto
  then have "take_bit 8 (PTE_IDX a) = PTE_IDX a" by (intro bit_eqI) (auto simp: bit_take_bit_iff PTE_IDX_bit)
  then have "PTE_IDX a mod 256 = PTE_IDX a" by (simp add: take_bit_eq_mod)
  moreover have "unat (PTE_IDX a mod 256) = unat (PTE_IDX a) mod 256" by (simp add: unat_mod)
  ultimately have "unat (PTE_IDX a) = unat (PTE_IDX a) mod 256" by (simp only:)
  then show "unat (PTE_IDX a) < 256" by linarith
qed

lemma below_1M_bits:
  assumes "unat (a :: u32) < 0x100000" "20 \<le> n"
  shows "\<not> bit a n"
proof -
  have "unat a div 2 ^ n = 0" using assms(1) power_increasing [OF assms(2), of "2 :: nat"] by simp
  then have "\<not> bit (unat a) n" by (simp add: bit_iff_odd)
  then show ?thesis by (auto simp: bit_unsigned_iff dest: bit_imp_le_length)
qed



section \<open>The computed sizes\<close>

lemma kb_bytes_eq: "kb_bytes ax = ucast ax * 0x400"
proof -
  have "push_bit 16 (ucast (ucast (drop_bit 16 x) :: u16)) OR ucast (ucast x :: u16) = x" for x :: u32
  proof (rule bit_eqI)
    fix n
    assume "possible_bit TYPE(32 word) n"
    then have "n < 32" by simp
    then show "bit (push_bit 16 (ucast (ucast (drop_bit 16 x) :: u16)) OR ucast (ucast x :: u16) :: u32) n \<longleftrightarrow> bit x n"
      by (cases "16 \<le> n") (auto simp: bit_simps not_le)
  qed
  then show ?thesis by (simp only: kb_bytes_def Let_def)
qed

lemma mem_88_value: "unat (mem_88 ax) = unat ax * 1024 + 0x100000"
proof -
  have l: "unat ax < 65536" using unsigned_less [of ax, where ?'a = nat] by simp
  then have u: "unat (ucast ax :: u32) = unat ax" by (simp add: unsigned_ucast_eq take_bit_nat_eq_self_iff)
  with l have "unat (ucast ax * 0x400 :: u32) = unat ax * 1024" by (subst unat_mult_lem [THEN iffD1]) simp_all
  then show ?thesis using l by (simp only: mem_88_def kb_bytes_eq) (subst unat_add_lem [THEN iffD1], simp_all)
qed

text \<open>The signed comparison passes over an area that ends at 2 GB or above.\<close>

lemma find_max_signed: "find_max_mem_area [(0, 0x1000000), (0x1000000, 0x80000000)] 0 = 0x1000000"
  by simp

end
