(* ===== verification/Spec2Isabelle.thy ===== *)
theory Spec2Isabelle
  imports Process_Proofs Paths_Proofs File_Proofs Directory_Proofs Fs_Proofs Ioqueue_Trace Kernel_Proofs Shell_Proofs User_Programs
    Screen Boot
begin

text \<open>
  A verification library for Gardos, a small operating system for the x86: a kernel with preemptive threads, paging, a block heap, an IDE
  driver, a file system, processes and system calls, and a shell. The theories follow the directories of the source; every definition that
  models code keeps the name the code gives it, with a suffix \<open>_u\<close> or \<open>_program\<close> where HOL or another function has the name already.

  \<^bold>\<open>How the program is modelled.\<close> An operation that can stop the machine returns a value of \<open>'a outcome\<close>: the result, or the trap that ends the run
  (a failed \<open>ASSERT\<close>, a \<open>PANIC\<close>, an access to memory that is not there, a division by 0, an endless loop, a wait that is not followed). The state
  of the kernel is one record, extended theory by theory: flags register (\<open>cpu\<close>), list nodes (\<open>kheap\<close>), physical memory and page directory
  (\<open>paging\<close>), threads (\<open>sched\<close>), semaphores and locks (\<open>sync\<close>), ring buffers and byte memory (\<open>io\<close>), memory pools and heap (\<open>kmem\<close>), pids and
  processes (\<open>proc\<close>), devices (\<open>dev\<close>), disks (\<open>ide\<close>), file system (\<open>fs\<close>), descriptor and system call tables (\<open>kern\<close>). Operations of an inner
  component are polymorphic in the extension, so that they are used unchanged in the outer ones. Machine integers are words of their width.
  Structures that the code shares by pointers are kept by address, so that aliasing is part of the model; local arrays and string literals
  are addresses collected in records (\<open>literals\<close> up to \<open>prog_frames\<close>). A call that gives up the processor ends in the state in which the next
  thread continues, and what the caller does later is a separate definition (\<open>resume_switch\<close>, \<open>sema_resume\<close>, \<open>ioq_getchar_resume\<close>, and so on).

  \<^bold>\<open>The theories.\<close>
  \<^item> \<open>Kernel_Prelude\<close>: integer types, outcomes, byte memory and the shared lemmas and collections.
  \<^item> \<open>Intr\<close>: \<^verbatim>\<open>kernel/interrupt.c\<close> and the descriptors of \<^verbatim>\<open>userprog/tss.c\<close>. \<open>Bitmap\<close>: \<^verbatim>\<open>lib/kernel/bitmap.c\<close>, with the interface \<open>bit_allocator\<close>.
    \<open>Linked_List\<close>: \<^verbatim>\<open>lib/kernel/list.c\<close>, with the interface \<open>list_store\<close>. \<open>String_Lib\<close>: \<^verbatim>\<open>lib/string.c\<close>. \<open>Stdio\<close>: \<^verbatim>\<open>lib/stdio.c\<close>.
  \<^item> \<open>Paging\<close>: address translation and the window onto the page tables. \<open>Boot\<close>: the page tables and the memory size that
    \<^verbatim>\<open>boot/loader.asm\<close> computes. \<open>Screen\<close>: \<^verbatim>\<open>lib/kernel/print.S\<close>.
  \<^item> \<open>Thread\<close>: \<^verbatim>\<open>thread/thread.c\<close> and \<^verbatim>\<open>thread/switch.S\<close>. \<open>Sync\<close>: \<^verbatim>\<open>thread/sync.c\<close>. \<open>Ioqueue\<close>, \<open>Ioqueue_Trace\<close>: \<^verbatim>\<open>device/ioqueue.c\<close>, with the
    interface \<open>byte_channel\<close>.
  \<^item> \<open>Memory\<close>, \<open>Memory_Pages\<close>, \<open>Memory_Heap\<close>: \<^verbatim>\<open>kernel/memory.c\<close>. \<open>Process\<close>, \<open>Process_Proofs\<close>: \<^verbatim>\<open>userprog/process.c\<close>, pids, the start and end of threads,
    and \<open>sys_wait\<close>.
  \<^item> \<open>Devices\<close>: \<^verbatim>\<open>device/timer.c\<close>, \<^verbatim>\<open>device/keyboard.c\<close>, \<^verbatim>\<open>device/console.c\<close>. \<open>Ide\<close>, \<open>Ide_Proofs\<close>: \<^verbatim>\<open>device/ide.c\<close>.
  \<^item> \<open>Inode\<close>, \<open>Inode_Proofs\<close>, \<open>Directory\<close>, \<open>Directory_Proofs\<close>, \<open>Files\<close>, \<open>File_Proofs\<close>: \<^verbatim>\<open>fs/inode.c\<close>, \<^verbatim>\<open>fs/dir.c\<close>, \<^verbatim>\<open>fs/file.c\<close>. \<open>File_Calls\<close>, \<open>Fs_Init\<close>,
    \<open>Fs_Proofs\<close>: \<^verbatim>\<open>fs/fs.c\<close> and \<^verbatim>\<open>shell/pipe.c\<close>. \<open>Paths\<close>, \<open>Paths_Proofs\<close>: the parsing of paths and command lines.
  \<^item> \<open>Fork_Exit\<close>: \<^verbatim>\<open>userprog/fork.c\<close> and \<^verbatim>\<open>userprog/wait_exit.c\<close>. \<open>Exec\<close>: \<^verbatim>\<open>userprog/exec.c\<close>. \<open>Syscalls\<close>, \<open>Kernel_Init\<close>, \<open>Kernel_Proofs\<close>: the system call
    table, its entry, the wrappers of \<^verbatim>\<open>lib/user/syscall.c\<close>, \<open>sys_ps\<close>, and \<open>init_all\<close>.
  \<^item> \<open>Shell\<close>, \<open>Shell_Proofs\<close>: \<^verbatim>\<open>shell/shell.c\<close> and \<^verbatim>\<open>shell/buildin_cmd.c\<close>. \<open>User_Programs\<close>: \<^verbatim>\<open>command/\<close> and \<^verbatim>\<open>kernel/main.c\<close>.

  \<^bold>\<open>What is shown.\<close>
  \<^item> Scheduling: \<open>schedule\<close>, \<open>thread_block\<close>, \<open>thread_unblock\<close> and \<open>thread_yield\<close> refine an abstract round robin scheduler; a ready thread runs after as
    many time slices as its place in the queue; the timer takes the processor away after a time slice.
  \<^item> Locks: for any number of preemptible threads, mutual exclusion in every reachable state, and no assertion of the code fails.
  \<^item> Ring buffer: under every interleaving of readers and writers no byte is lost, invented or reordered.
  \<^item> Memory: \<open>addr_v2p\<close>, \<open>page_table_add\<close>, \<open>page_table_pte_remove\<close> and \<open>malloc_page\<close> change exactly the translations they are meant to change; \<open>sys_malloc\<close>
    and \<open>sys_free\<close> take from and give back to the list of the right size class; a new process has a directory that maps the kernel and itself; the
    tables of the boot loader are those the kernel relies on.
  \<^item> Disk and files: the driver reads and writes exactly the sectors it is asked for; inodes, directory entries and the super block reach the disk as
    the bytes that are read back; the loops of \<open>file_write\<close> and \<open>file_read\<close> end and move exactly the bytes of the file; the areas of a formatted
    partition fit.
  \<^item> Strings and screen: \<open>vsprintf\<close> and \<open>put_int\<close> produce what a reference formatter produces; \<open>put_char\<close> implements a terminal; typed text reaches
    the keyboard buffer.
  \<^item> System calls and shell: a system call runs the function of its name; only the system call gate is open to user programs; paths are resolved
    as their components say; the shell never passes the root directory to \<open>rm\<close>, \<open>rmdir\<close> or \<open>mkdir\<close>.
  \<^item> Defects that the statements bring to light are properties too: a file cannot grow to its nominal limit, removing an entry of an
    indirect directory block never returns, a command line of seventeen words is written past its array, \<open>ps\<close> prints a mixture of two numerals.

  \<^bold>\<open>Loops and bounds.\<close> Loops whose end does not follow from their shape are partial functions with the value \<open>None\<close> when they do not return
  (\<open>run_walk\<close> makes it the trap \<open>Spins\<close>); where the code relies on their end, the theorems say that they return. The endless loop of the shell is
  followed for a given number of rounds, any number. No other bound or fuel is used.

  \<^bold>\<open>Outside code and hardware.\<close> The registers and sectors of the disk controllers follow the ATA standard; its interrupt arrives before the driver waits
  for it. The bytes that ports deliver, the addresses the linker chooses and the entry points that \<^verbatim>\<open>kernel/kernel.S\<close> generates are
  parameters. Kernel stacks and the pages that \<open>fork\<close> copies are words read through the page tables, and buffers are bytes of one flat memory;
  the two are not connected, so statements about buffers hold for the address space in which the buffer is used.

  \<^bold>\<open>Not modelled.\<close> The boot sector and the part of the loader that calls the firmware, switches to protected mode and copies the kernel:
  real mode code whose effect is on hardware the rest does not mention. The stubs of \<^verbatim>\<open>kernel/kernel.S\<close> that save registers, and the instructions
  of \<^verbatim>\<open>lib/kernel/io.h\<close>. Calls that sleep inside a system call of the file system, a pipe or the shell end with the trap \<open>Blocks\<close> and are not resumed.
  \<open>printf\<close> and \<open>printk\<close> take the text that their format and arguments stand for, which is what \<open>vsprintf\<close> is proved to produce.
\<close>

end
